(* ===== verification/Andera_Prelude.thy ===== *)
theory Andera_Prelude
  imports Main "HOL-Library.Sublist" "HOL-Library.AList"
begin

text \<open>
  Shared vocabulary of the development: the collections of facts the component theories
  extend, exceptions as values, a small exception-and-world monad for the calls the program
  makes to code outside this repository (language models, the browser, the file system),
  and generic facts on lists, options and maps.
\<close>

named_theorems queue_simps \<open>unfolding rules for the queue operations\<close>
named_theorems inv_intros \<open>preservation of component invariants\<close>
named_theorems node_defs \<open>definitions of the agent nodes and routers\<close>

subsection \<open>Exceptions as values\<close>

text \<open>
  A Python exception is its class name and its message; \<open>f"{type(e).__name__}: {e}"\<close>, which the
  program writes in several places, is \<open>exn_text\<close>.
\<close>

datatype exn = Exn (exn_class: string) (exn_msg: string)

definition exn_text :: "exn \<Rightarrow> string" where
  "exn_text e = exn_class e @ '': '' @ exn_msg e"

lemma exn_text_nonempty [simp]: "exn_text e \<noteq> []"
  by (simp add: exn_text_def)

subsection \<open>Calls to the outside world\<close>

text \<open>
  \<open>('w, 'a) act\<close> is a call that may raise, may change the outside world \<open>'w\<close> and otherwise
  returns. The world type stays a type variable everywhere: nothing is assumed of it.
\<close>

type_synonym ('w, 'a) act = "'w \<Rightarrow> (exn + 'a) \<times> 'w"

definition returnA :: "'a \<Rightarrow> ('w, 'a) act" where
  "returnA x w = (Inr x, w)"

definition raiseA :: "exn \<Rightarrow> ('w, 'a) act" where
  "raiseA e w = (Inl e, w)"

definition bindA :: "('w, 'a) act \<Rightarrow> ('a \<Rightarrow> ('w, 'b) act) \<Rightarrow> ('w, 'b) act" where
  "bindA m f w = (case m w of (Inl e, w') \<Rightarrow> (Inl e, w') | (Inr x, w') \<Rightarrow> f x w')"

definition tryA :: "('w, 'a) act \<Rightarrow> (exn \<Rightarrow> ('w, 'a) act) \<Rightarrow> ('w, 'a) act" where
  "tryA m h w = (case m w of (Inl e, w') \<Rightarrow> h e w' | (Inr x, w') \<Rightarrow> (Inr x, w'))"

lemma returnA_apply [simp]: "returnA x w = (Inr x, w)"
  by (simp add: returnA_def)

lemma raiseA_apply [simp]: "raiseA e w = (Inl e, w)"
  by (simp add: raiseA_def)

lemma bindA_Inr [simp]: "m w = (Inr x, w') \<Longrightarrow> bindA m f w = f x w'"
  by (simp add: bindA_def)

lemma bindA_Inl [simp]: "m w = (Inl e, w') \<Longrightarrow> bindA m f w = (Inl e, w')"
  by (simp add: bindA_def)

lemma bindA_eq_Inr:
  "bindA m f w = (Inr y, w'') \<longleftrightarrow> (\<exists>x w'. m w = (Inr x, w') \<and> f x w' = (Inr y, w''))"
  by (auto simp: bindA_def split: prod.splits sum.splits)

lemma tryA_total: "(\<And>e w. \<exists>y w'. h e w = (Inr y, w')) \<Longrightarrow> \<exists>y w'. tryA m h w = (Inr y, w')"
  by (auto simp: tryA_def split: prod.splits sum.splits)

subsection \<open>Lists\<close>

text \<open>The first index at which an element occurs (Python's \<open>list.index\<close>, \<open>None\<close> for ValueError).\<close>

fun index_of :: "'a list \<Rightarrow> 'a \<Rightarrow> nat option" where
  "index_of [] y = None"
| "index_of (x # xs) y = (if x = y then Some 0 else map_option Suc (index_of xs y))"

lemma index_of_None [simp]: "index_of xs y = None \<longleftrightarrow> y \<notin> set xs"
  by (induction xs) auto

lemma index_of_SomeD: "index_of xs y = Some i \<Longrightarrow> i < length xs \<and> xs ! i = y"
  by (induction xs arbitrary: i) (auto split: if_splits)

lemma index_of_least: "index_of xs y = Some i \<Longrightarrow> j < i \<Longrightarrow> xs ! j \<noteq> y"
proof (induction xs arbitrary: i j)
  case Nil
  then show ?case by simp
next
  case (Cons x xs)
  then show ?case by (cases j) (auto split: if_splits)
qed

text \<open>The last element satisfying a predicate: \<open>next((x for x in reversed(xs) if p(x)), None)\<close>.\<close>

definition find_last :: "('a \<Rightarrow> bool) \<Rightarrow> 'a list \<Rightarrow> 'a option" where
  "find_last p xs = find p (rev xs)"

lemma find_last_snoc [simp]: "find_last p (xs @ [x]) = (if p x then Some x else find_last p xs)"
  by (simp add: find_last_def)

lemma find_last_Nil [simp]: "find_last p [] = None"
  by (simp add: find_last_def)

lemma find_last_None: "find_last p xs = None \<longleftrightarrow> (\<forall>x\<in>set xs. \<not> p x)"
  by (auto simp: find_last_def find_None_iff)

lemma length_filter_partition:
  "length (filter P xs) + length (filter (\<lambda>x. \<not> P x) xs) = length xs"
  by (induction xs) auto

text \<open>A separator that occurs in neither part splits a text in one way.\<close>

lemma sep_split:
  "c \<notin> set a \<Longrightarrow> c \<notin> set b \<Longrightarrow> a @ c # r = b @ c # r' \<Longrightarrow> a = b \<and> r = r'"
proof (induction a arbitrary: b)
  case Nil
  then show ?case by (cases b) auto
next
  case (Cons x a)
  then show ?case by (cases b) auto
qed

text \<open>Assigning a new key of an association list.\<close>

lemma update_new: "k \<notin> fst ` set d \<Longrightarrow> AList.update k v d = d @ [(k, v)]"
  by (induction d) auto

end
