(* ===== verification/Json.thy ===== *)
theory Json
  imports PyVal
begin

text \<open>
  What the source uses of the standard library's \<open>json\<close>: \<open>dumps\<close> with \<open>ensure_ascii=False\<close> under
  either separator setting, \<open>sort_keys\<close>, and \<open>loads\<close>. Every durable record of the program (audit
  payloads, queue payloads, cached plans, \<open>samples.jsonl\<close>) goes through it. The parser covers JSON
  without floating-point numbers and without \<open>\uXXXX\<close> escapes above code point 255; it answers \<open>None\<close>
  both where Python raises and outside that fragment.
\<close>

subsection \<open>Strings\<close>

definition json_ws :: "char \<Rightarrow> bool" where
  "json_ws c = (c \<in> {CHR 0x20, CHR 0x09, CHR 0x0A, CHR 0x0D})"

definition skip_ws :: "string \<Rightarrow> string" where
  "skip_ws s = dropWhile json_ws s"

definition hex_digit :: "nat \<Rightarrow> char" where
  "hex_digit d = (if d < 10 then char_of (48 + d) else char_of (87 + d))"

definition hex_val :: "char \<Rightarrow> nat option" where
  "hex_val c = (let n = of_char c :: nat in
     if 48 \<le> n \<and> n \<le> 57 then Some (n - 48)
     else if 97 \<le> n \<and> n \<le> 102 then Some (n - 87)
     else if 65 \<le> n \<and> n \<le> 70 then Some (n - 55)
     else None)"

definition esc_char :: "char \<Rightarrow> string" where
  "esc_char c =
     (if c = CHR 0x22 then [CHR 0x5C, CHR 0x22]
      else if c = CHR 0x5C then [CHR 0x5C, CHR 0x5C]
      else if c = CHR 0x08 then [CHR 0x5C, CHR ''b'']
      else if c = CHR 0x0C then [CHR 0x5C, CHR ''f'']
      else if c = CHR 0x0A then [CHR 0x5C, CHR ''n'']
      else if c = CHR 0x0D then [CHR 0x5C, CHR ''r'']
      else if c = CHR 0x09 then [CHR 0x5C, CHR ''t'']
      else if of_char c < (32 :: nat)
        then [CHR 0x5C, CHR ''u'', CHR ''0'', CHR ''0'', hex_digit (of_char c div 16), hex_digit (of_char c mod 16)]
      else [c])"

definition json_str :: "string \<Rightarrow> string" where
  "json_str s = CHR 0x22 # concat (map esc_char s) @ [CHR 0x22]"

definition unesc :: "char \<Rightarrow> char option" where
  "unesc e =
     (if e = CHR 0x22 then Some (CHR 0x22)
      else if e = CHR 0x5C then Some (CHR 0x5C)
      else if e = CHR 0x2F then Some (CHR 0x2F)
      else if e = CHR ''b'' then Some (CHR 0x08)
      else if e = CHR ''f'' then Some (CHR 0x0C)
      else if e = CHR ''n'' then Some (CHR 0x0A)
      else if e = CHR ''r'' then Some (CHR 0x0D)
      else if e = CHR ''t'' then Some (CHR 0x09)
      else None)"

text \<open>The four hexadecimal digits after \<open>\u\<close>; a code point above 255 is outside the model.\<close>

definition hex4 :: "char \<Rightarrow> char \<Rightarrow> char \<Rightarrow> char \<Rightarrow> char option" where
  "hex4 a b c d = (case (hex_val a, hex_val b, hex_val c, hex_val d) of
     (Some x, Some y, Some z, Some w) \<Rightarrow>
       (let n = ((x * 16 + y) * 16 + z) * 16 + w in if n < 256 then Some (char_of n) else None)
   | _ \<Rightarrow> None)"

definition cons_fst :: "'a \<Rightarrow> ('a list \<times> 'b) option \<Rightarrow> ('a list \<times> 'b) option" where
  "cons_fst x r = (case r of None \<Rightarrow> None | Some (xs, y) \<Rightarrow> Some (x # xs, y))"

lemma cons_fst_simps [simp]:
  "cons_fst x None = None"
  "cons_fst x (Some (xs, y)) = Some (x # xs, y)"
  by (simp_all add: cons_fst_def)

text \<open>The body of a string literal, from just after the opening quote to just after the closing one.\<close>

fun p_str :: "string \<Rightarrow> (string \<times> string) option" where
  "p_str [] = None"
| "p_str (c # s) =
     (if c = CHR 0x22 then Some ([], s)
      else if c = CHR 0x5C then
        (case s of
           [] \<Rightarrow> None
         | e # r \<Rightarrow>
             (if e = CHR ''u'' then
                (case r of
                   h1 # h2 # h3 # h4 # r' \<Rightarrow>
                     (case hex4 h1 h2 h3 h4 of None \<Rightarrow> None | Some x \<Rightarrow> cons_fst x (p_str r'))
                 | _ \<Rightarrow> None)
              else (case unesc e of None \<Rightarrow> None | Some x \<Rightarrow> cons_fst x (p_str r))))
      else if of_char c < (32 :: nat) then None
      else cons_fst c (p_str s))"

subsection \<open>Printing\<close>

text \<open>
  \<open>json.dumps(v, ..., ensure_ascii=False)\<close> with the item separator \<open>isep\<close> and the key separator \<open>ksep\<close>;
  \<open>nl l\<close> is what is written before an element at nesting depth \<open>l\<close>: nothing, or with \<open>indent=2\<close> a line
  break and \<open>2 l\<close> blanks.
\<close>

fun json_dumps :: "(nat \<Rightarrow> string) \<Rightarrow> string \<Rightarrow> string \<Rightarrow> nat \<Rightarrow> pyval \<Rightarrow> string"
  and dump_elems :: "(nat \<Rightarrow> string) \<Rightarrow> string \<Rightarrow> string \<Rightarrow> nat \<Rightarrow> pyval list \<Rightarrow> string"
  and dump_items :: "(nat \<Rightarrow> string) \<Rightarrow> string \<Rightarrow> string \<Rightarrow> nat \<Rightarrow> pydict \<Rightarrow> string" where
  "json_dumps nl isep ksep l PNone = ''null''"
| "json_dumps nl isep ksep l (PBool b) = (if b then ''true'' else ''false'')"
| "json_dumps nl isep ksep l (PInt i) = show_int i"
| "json_dumps nl isep ksep l (PStr s) = json_str s"
| "json_dumps nl isep ksep l (PList xs) =
     CHR ''['' # (if xs = [] then [] else nl (Suc l) @ dump_elems nl isep ksep (Suc l) xs @ nl l) @ '']''"
| "json_dumps nl isep ksep l (PDict d) =
     CHR ''{'' # (if d = [] then [] else nl (Suc l) @ dump_items nl isep ksep (Suc l) d @ nl l) @ ''}''"
| "dump_elems nl isep ksep l [] = []"
| "dump_elems nl isep ksep l (x # xs) =
     json_dumps nl isep ksep l x @ (if xs = [] then [] else isep @ nl l @ dump_elems nl isep ksep l xs)"
| "dump_items nl isep ksep l [] = []"
| "dump_items nl isep ksep l ((k, v) # d) =
     json_str k @ ksep @ json_dumps nl isep ksep l v @ (if d = [] then [] else isep @ nl l @ dump_items nl isep ksep l d)"

definition no_nl :: "nat \<Rightarrow> string" where
  "no_nl l = []"

definition dumps_compact :: "pyval \<Rightarrow> string" where
  "dumps_compact v = json_dumps no_nl '','' '':'' 0 v"

definition dumps_default :: "pyval \<Rightarrow> string" where
  "dumps_default v = json_dumps no_nl '', '' '': '' 0 v"

definition indent_nl :: "nat \<Rightarrow> string" where
  "indent_nl l = CHR 0x0A # replicate (2 * l) (CHR '' '')"

definition dumps_indent :: "pyval \<Rightarrow> string" where
  "dumps_indent v = json_dumps indent_nl '','' '': '' 0 v"

text \<open>\<open>sort_keys=True\<close>: the items of every dictionary in key order.\<close>

fun sort_keys :: "pyval \<Rightarrow> pyval"
  and sort_elems :: "pyval list \<Rightarrow> pyval list"
  and sort_items :: "pydict \<Rightarrow> pydict" where
  "sort_keys (PList xs) = PList (sort_elems xs)"
| "sort_keys (PDict d) = PDict (sort_key fst (sort_items d))"
| "sort_keys v = v"
| "sort_elems [] = []"
| "sort_elems (x # xs) = sort_keys x # sort_elems xs"
| "sort_items [] = []"
| "sort_items ((k, v) # d) = (k, sort_keys v) # sort_items d"

definition canonical_json :: "pyval \<Rightarrow> string" where
  "canonical_json v = dumps_compact (sort_keys v)"

subsection \<open>Parsing\<close>

text \<open>\<open>-?(0|[1-9][0-9]*)\<close>; a following fraction or exponent would make it a float.\<close>

definition p_nat :: "string \<Rightarrow> (nat \<times> string) option" where
  "p_nat s = (case s of
     [] \<Rightarrow> None
   | c # r \<Rightarrow>
       (if \<not> is_digit c then None
        else let ds = (if c = CHR ''0'' then [c] else takeWhile is_digit s);
                 rest = drop (length ds) s
             in (case rest of
                   [] \<Rightarrow> Some (read_nat ds, rest)
                 | x # _ \<Rightarrow> if x \<in> {CHR ''.'', CHR ''e'', CHR ''E''} then None
                            else Some (read_nat ds, rest))))"

definition p_num :: "string \<Rightarrow> (pyval \<times> string) option" where
  "p_num s = (case s of
     [] \<Rightarrow> None
   | c # r \<Rightarrow>
       (if c = CHR ''-'' then map_option (\<lambda>(n, rest). (PInt (- int n), rest)) (p_nat r)
        else map_option (\<lambda>(n, rest). (PInt (int n), rest)) (p_nat s)))"

text \<open>A later duplicate of a key overwrites the value and keeps the first position.\<close>

definition dict_of :: "pydict \<Rightarrow> pydict" where
  "dict_of kvs = foldl (\<lambda>d (k, v). dset d k v) [] kvs"

fun p_value :: "nat \<Rightarrow> string \<Rightarrow> (pyval \<times> string) option"
  and p_elems :: "nat \<Rightarrow> string \<Rightarrow> (pyval list \<times> string) option"
  and p_items :: "nat \<Rightarrow> string \<Rightarrow> (pydict \<times> string) option" where
  "p_value 0 s = None"
| "p_value (Suc n) s =
     (case s of
        [] \<Rightarrow> None
      | c # r \<Rightarrow>
          (if c = CHR 0x22 then map_option (\<lambda>(x, rest). (PStr x, rest)) (p_str r)
           else if c = CHR ''['' then
             (case skip_ws r of
                [] \<Rightarrow> None
              | d # r' \<Rightarrow>
                  (if d = CHR '']'' then Some (PList [], r')
                   else map_option (\<lambda>(xs, rest). (PList xs, rest)) (p_elems n (d # r'))))
           else if c = CHR ''{'' then
             (case skip_ws r of
                [] \<Rightarrow> None
              | d # r' \<Rightarrow>
                  (if d = CHR ''}'' then Some (PDict [], r')
                   else map_option (\<lambda>(kvs, rest). (PDict (dict_of kvs), rest)) (p_items n (d # r'))))
           else if py_startswith s ''null'' then Some (PNone, drop 4 s)
           else if py_startswith s ''true'' then Some (PBool True, drop 4 s)
           else if py_startswith s ''false'' then Some (PBool False, drop 5 s)
           else p_num s))"
| "p_elems 0 s = None"
| "p_elems (Suc n) s =
     (case p_value n s of
        None \<Rightarrow> None
      | Some (x, r) \<Rightarrow>
          (case skip_ws r of
             [] \<Rightarrow> None
           | d # r' \<Rightarrow>
               (if d = CHR '']'' then Some ([x], r')
                else if d = CHR '','' then cons_fst x (p_elems n (skip_ws r'))
                else None)))"
| "p_items 0 s = None"
| "p_items (Suc n) s =
     (case s of
        [] \<Rightarrow> None
      | q # r \<Rightarrow>
          (if q \<noteq> CHR 0x22 then None
           else (case p_str r of
                   None \<Rightarrow> None
                 | Some (k, r1) \<Rightarrow>
                     (case skip_ws r1 of
                        [] \<Rightarrow> None
                      | col # r2 \<Rightarrow>
                          (if col \<noteq> CHR '':'' then None
                           else (case p_value n (skip_ws r2) of
                                   None \<Rightarrow> None
                                 | Some (v, r3) \<Rightarrow>
                                     (case skip_ws r3 of
                                        [] \<Rightarrow> None
                                      | d # r4 \<Rightarrow>
                                          (if d = CHR ''}'' then Some ([(k, v)], r4)
                                           else if d = CHR '','' then cons_fst (k, v) (p_items n (skip_ws r4))
                                           else None))))))))"

text \<open>\<open>json.loads(s)\<close>; every recursive call has consumed a character, so \<open>length s + 1\<close> is fuel enough.\<close>

definition json_loads :: "string \<Rightarrow> pyval option" where
  "json_loads s = (case p_value (Suc (length s)) (skip_ws s) of
     None \<Rightarrow> None
   | Some (v, rest) \<Rightarrow> if skip_ws rest = [] then Some v else None)"

subsection \<open>Round trip\<close>

lemma hex_val_hex_digit: "d < 16 \<Longrightarrow> hex_val (hex_digit d) = Some d"
  by (simp add: hex_val_def hex_digit_def Let_def)

lemma hex4_control:
  assumes "of_char c < (32 :: nat)"
  shows "hex4 (CHR ''0'') (CHR ''0'') (hex_digit (of_char c div 16)) (hex_digit (of_char c mod 16)) = Some c"
proof -
  have zero: "hex_val (CHR ''0'') = Some 0" by code_simp
  have "hex_val (hex_digit (of_char c div 16)) = Some (of_char c div 16)"
    "hex_val (hex_digit (of_char c mod 16)) = Some (of_char c mod 16)"
    using assms by (simp_all add: hex_val_hex_digit)
  then show ?thesis using assms by (simp add: hex4_def zero Let_def)
qed

lemma p_str_esc_char: "p_str (esc_char c @ t) = cons_fst c (p_str t)"
  by (simp add: esc_char_def unesc_def hex4_control)

lemma p_str_json_str [simp]: "p_str (concat (map esc_char s) @ CHR 0x22 # rest) = Some (s, rest)"
  by (induction s) (simp_all add: p_str_esc_char)

definition num_end :: "string \<Rightarrow> bool" where
  "num_end rest = (case rest of [] \<Rightarrow> True
     | c # _ \<Rightarrow> \<not> is_digit c \<and> c \<notin> {CHR ''.'', CHR ''e'', CHR ''E''})"

lemma takeWhile_digits:
  "\<forall>c\<in>set ds. is_digit c \<Longrightarrow> num_end rest \<Longrightarrow> takeWhile is_digit (ds @ rest) = ds"
  by (induction ds) (auto simp: num_end_def split: list.splits)

lemma p_nat_show_nat: "num_end rest \<Longrightarrow> p_nat (show_nat n @ rest) = Some (n, rest)"
proof -
  assume e: "num_end rest"
  obtain c cs where s: "show_nat n = c # cs" by (cases "show_nat n") auto
  have dig: "\<forall>x\<in>set (show_nat n). is_digit x" using show_nat_digits by auto
  with s have c: "is_digit c" by simp
  have tw: "takeWhile is_digit (show_nat n @ rest) = show_nat n"
    using dig e by (rule takeWhile_digits)
  have hd: "c = CHR ''0'' \<longleftrightarrow> n = 0" using show_nat_hd_zero [of n] s by simp
  have ds: "(if c = CHR ''0'' then [c] else takeWhile is_digit (show_nat n @ rest)) = show_nat n"
    using hd s tw by (auto simp: show_nat_zero)
  have "p_nat (show_nat n @ rest) =
     (case rest of [] \<Rightarrow> Some (read_nat (show_nat n), rest)
      | x # _ \<Rightarrow> if x \<in> {CHR ''.'', CHR ''e'', CHR ''E''} then None else Some (read_nat (show_nat n), rest))"
    using ds c s unfolding p_nat_def by (simp add: Let_def split: list.split)
  then show ?thesis using e by (auto simp: num_end_def split: list.splits)
qed

lemma show_int_first:
  obtains c cs where "show_int i = c # cs" "c = CHR ''-'' \<or> is_digit c"
proof (cases "i < 0")
  case True
  then show ?thesis using that by (simp add: show_int_def)
next
  case False
  obtain c cs where s: "show_nat (nat i) = c # cs" by (cases "show_nat (nat i)") auto
  then have "is_digit c" using show_nat_digits [of c "nat i"] by simp
  with s False show ?thesis using that by (simp add: show_int_def)
qed

lemma not_digit_minus: "\<not> is_digit (CHR ''-'')"
  by code_simp

lemma p_num_show_int: "num_end rest \<Longrightarrow> p_num (show_int i @ rest) = Some (PInt i, rest)"
proof (cases "i < 0")
  case True
  then show "num_end rest \<Longrightarrow> ?thesis"
    by (simp add: p_num_def show_int_def p_nat_show_nat)
next
  case False
  assume e: "num_end rest"
  obtain c cs where s: "show_nat (nat i) = c # cs" by (cases "show_nat (nat i)") auto
  then have "is_digit c" using show_nat_digits [of c "nat i"] by simp
  then have "c \<noteq> CHR ''-''" using not_digit_minus by auto
  moreover have "p_nat (c # cs @ rest) = Some (nat i, rest)"
    using p_nat_show_nat [OF e, of "nat i"] s by simp
  ultimately show ?thesis using False s
    by (simp add: p_num_def show_int_def)
qed

lemma json_ws_simps [simp]:
  "\<not> json_ws (CHR 0x22)" "\<not> json_ws (CHR ''['')" "\<not> json_ws (CHR ''{'')" "\<not> json_ws (CHR '']'')"
  "\<not> json_ws (CHR ''}'')" "\<not> json_ws (CHR '','')" "\<not> json_ws (CHR '':'')" "\<not> json_ws (CHR ''n'')"
  "\<not> json_ws (CHR ''t'')" "\<not> json_ws (CHR ''f'')" "\<not> json_ws (CHR ''-'')" "json_ws (CHR '' '')"
  by (simp_all add: json_ws_def)

lemma digit_not_ws: "is_digit c \<Longrightarrow> \<not> json_ws c"
  by (auto simp: json_ws_def is_digit_def Let_def)

lemma skip_ws_Cons [simp]: "skip_ws (c # s) = (if json_ws c then skip_ws s else c # s)"
  by (simp add: skip_ws_def)

lemma skip_ws_Nil [simp]: "skip_ws [] = []"
  by (simp add: skip_ws_def)

lemma json_dumps_first:
  obtains c cs where "json_dumps nl isep ksep l v = c # cs" "\<not> json_ws c" "c \<noteq> CHR '']''" "c \<noteq> CHR ''}''"
proof (cases v)
  case (PBool b)
  then show ?thesis using that by (cases b) auto
next
  case (PInt i)
  obtain c cs where s: "show_int i = c # cs" "c = CHR ''-'' \<or> is_digit c" by (rule show_int_first)
  have "\<not> is_digit (CHR '']'')" "\<not> is_digit (CHR ''}'')" by code_simp+
  with s have "\<not> json_ws c \<and> c \<noteq> CHR '']'' \<and> c \<noteq> CHR ''}''" using digit_not_ws by auto
  with s PInt show ?thesis using that by auto
qed (use that in \<open>auto simp: json_str_def\<close>)

lemma json_dumps_skip [simp]: "skip_ws (json_dumps nl isep ksep l v @ s) = json_dumps nl isep ksep l v @ s"
  by (rule json_dumps_first [of nl isep ksep l v]) simp

lemma json_dumps_length: "0 < length (json_dumps nl isep ksep l v)"
  by (rule json_dumps_first [of nl isep ksep l v]) simp

lemma p_value_int: "num_end rest \<Longrightarrow> p_value (Suc n) (show_int i @ rest) = Some (PInt i, rest)"
proof -
  assume e: "num_end rest"
  obtain c cs where s: "show_int i = c # cs" "c = CHR ''-'' \<or> is_digit c" by (rule show_int_first)
  have "\<not> is_digit (CHR 0x22)" "\<not> is_digit (CHR ''['')" "\<not> is_digit (CHR ''{'')"
    "\<not> is_digit (CHR ''n'')" "\<not> is_digit (CHR ''t'')" "\<not> is_digit (CHR ''f'')"
    by code_simp+
  with s(2) have "c \<noteq> CHR 0x22" "c \<noteq> CHR ''[''" "c \<noteq> CHR ''{''" "c \<noteq> CHR ''n''" "c \<noteq> CHR ''t''"
    "c \<noteq> CHR ''f''" by auto
  then have "p_value (Suc n) (show_int i @ rest) = p_num (show_int i @ rest)" using s(1) by simp
  with p_num_show_int [OF e] show ?thesis by simp
qed

lemma dict_of_snoc: "distinct (map fst (d @ kvs)) \<Longrightarrow> foldl (\<lambda>d (k, v). dset d k v) d kvs = d @ kvs"
proof (induction kvs arbitrary: d)
  case Nil
  then show ?case by simp
next
  case (Cons kv kvs)
  obtain k v where kv: "kv = (k, v)" by (cases kv)
  have "k \<notin> fst ` set d" using Cons.prems kv by auto
  then have "dset d k v = d @ [(k, v)]"
    unfolding dset_def by (induction d) auto
  with Cons.IH [of "d @ [kv]"] Cons.prems kv show ?case by simp
qed

lemma dict_of_distinct: "distinct (map fst kvs) \<Longrightarrow> dict_of kvs = kvs"
  using dict_of_snoc [of "[]" kvs] by (simp add: dict_of_def)

text \<open>The separators: a comma or a colon, then white space only.\<close>

definition ok_seps :: "(nat \<Rightarrow> string) \<Rightarrow> string \<Rightarrow> string \<Rightarrow> bool" where
  "ok_seps nl isep ksep \<longleftrightarrow> (\<forall>l. \<forall>c\<in>set (nl l). json_ws c) \<and>
     (\<exists>w. isep = CHR '','' # w \<and> (\<forall>c\<in>set w. json_ws c)) \<and>
     (\<exists>w. ksep = CHR '':'' # w \<and> (\<forall>c\<in>set w. json_ws c))"

lemma skip_ws_append: "\<forall>c\<in>set w. json_ws c \<Longrightarrow> skip_ws (w @ s) = skip_ws s"
  by (induction w) auto

lemma ok_sepsE:
  assumes "ok_seps nl isep ksep"
  obtains w w' where "isep = CHR '','' # w" "\<And>s. skip_ws (w @ s) = skip_ws s"
    "ksep = CHR '':'' # w'" "\<And>s. skip_ws (w' @ s) = skip_ws s"
  using assms unfolding ok_seps_def by (metis skip_ws_append)

lemma ok_seps_nl: "ok_seps nl isep ksep \<Longrightarrow> skip_ws (nl l @ s) = skip_ws s"
  by (simp add: ok_seps_def skip_ws_append)

lemma ws_num_end: "json_ws c \<Longrightarrow> num_end (c # s)"
  using digit_not_ws [of c] by (auto simp: num_end_def json_ws_def)

lemma num_end_nl: "ok_seps nl isep ksep \<Longrightarrow> num_end s \<Longrightarrow> num_end (nl l @ s)"
  by (cases "nl l") (auto simp: ok_seps_def ws_num_end dest: spec [where x = l])

lemma num_end_simps [simp]:
  "num_end []" "num_end (CHR '','' # s)" "num_end (CHR '']'' # s)" "num_end (CHR ''}'' # s)"
proof -
  have "\<not> is_digit (CHR '','')" "\<not> is_digit (CHR '']'')" "\<not> is_digit (CHR ''}'')" by code_simp+
  then show "num_end []" "num_end (CHR '','' # s)" "num_end (CHR '']'' # s)" "num_end (CHR ''}'' # s)"
    by (simp_all add: num_end_def)
qed

lemma loads_dumps_aux:
  assumes ok: "ok_seps nl isep ksep"
  shows "wf_pyval v \<Longrightarrow> num_end rest \<Longrightarrow> length (json_dumps nl isep ksep l v) \<le> n
      \<Longrightarrow> p_value (Suc n) (json_dumps nl isep ksep l v @ rest) = Some (v, rest)"
    and "wf_elems xs \<Longrightarrow> xs \<noteq> [] \<Longrightarrow> Suc (length (dump_elems nl isep ksep l xs)) \<le> n \<Longrightarrow> \<forall>c\<in>set w. json_ws c
      \<Longrightarrow> p_elems (Suc n) (dump_elems nl isep ksep l xs @ w @ CHR '']'' # rest) = Some (xs, rest)"
    and "wf_items d \<Longrightarrow> d \<noteq> [] \<Longrightarrow> Suc (length (dump_items nl isep ksep l d)) \<le> n \<Longrightarrow> \<forall>c\<in>set w. json_ws c
      \<Longrightarrow> p_items (Suc n) (dump_items nl isep ksep l d @ w @ CHR ''}'' # rest) = Some (d, rest)"
  using ok
proof (induction nl isep ksep l v and nl isep ksep l xs and nl isep ksep l d
    arbitrary: n rest and n rest w and n rest w
    rule: json_dumps_dump_elems_dump_items.induct)
  case (1 nl isep ksep l)
  then show ?case by simp
next
  case (2 nl isep ksep l b)
  then show ?case by (cases b) simp_all
next
  case (3 nl isep ksep l i)
  then show ?case using p_value_int by simp
next
  case (4 nl isep ksep l s)
  then show ?case by (simp add: json_str_def)
next
  case (5 nl isep ksep l xs)
  show ?case
  proof (cases xs)
    case Nil
    then show ?thesis by simp
  next
    case (Cons x ys)
    from "5.prems" obtain n' where n: "n = Suc n'" by (cases n) auto
    obtain c cs where f: "json_dumps nl isep ksep (Suc l) x = c # cs" "\<not> json_ws c" "c \<noteq> CHR '']''"
      by (rule json_dumps_first)
    have "\<forall>c\<in>set (nl l). json_ws c" using "5.prems"(4) by (simp add: ok_seps_def)
    then have "p_elems (Suc n') (dump_elems nl isep ksep (Suc l) xs @ nl l @ CHR '']'' # rest) = Some (xs, rest)"
      using "5.IH" [of n' "nl l" rest] "5.prems" n Cons by simp
    with n f Cons show ?thesis by (simp add: ok_seps_nl [OF "5.prems"(4)])
  qed
next
  case (6 nl isep ksep l d)
  show ?case
  proof (cases d)
    case Nil
    then show ?thesis by (simp add: dict_of_def)
  next
    case (Cons kv ys)
    obtain k v where kv: "kv = (k, v)" by (cases kv)
    from "6.prems" obtain n' where n: "n = Suc n'" by (cases n) auto
    have "\<forall>c\<in>set (nl l). json_ws c" using "6.prems"(4) by (simp add: ok_seps_def)
    then have "p_items (Suc n') (dump_items nl isep ksep (Suc l) d @ nl l @ CHR ''}'' # rest) = Some (d, rest)"
      using "6.IH" [of n' "nl l" rest] "6.prems" n Cons by simp
    moreover have "dict_of d = d" using "6.prems" by (simp add: dict_of_distinct)
    ultimately show ?thesis using n Cons kv by (simp add: json_str_def ok_seps_nl [OF "6.prems"(4)])
  qed
next
  case (7 nl isep ksep l)
  then show ?case by simp
next
  case (8 nl isep ksep l x xs)
  obtain w1 where w: "isep = CHR '','' # w1" "\<And>s. skip_ws (w1 @ s) = skip_ws s"
    using "8.prems"(5) by (rule ok_sepsE) blast
  have sw: "\<And>s. skip_ws (w @ s) = skip_ws s" using "8.prems"(4) by (rule skip_ws_append)
  have ne: "num_end (w @ CHR '']'' # rest)" using "8.prems"(4) by (cases w) (auto simp: ws_num_end)
  have len: "0 < length (json_dumps nl isep ksep l x)" by (rule json_dumps_length)
  from "8.prems" obtain n' where n: "n = Suc n'" by (cases n) auto
  have px: "p_value (Suc n') (json_dumps nl isep ksep l x @ r) = Some (x, r)" if "num_end r" for r
    using "8.IH"(1) [of r n'] "8.prems" n that by (simp del: p_value.simps)
  show ?case
  proof (cases "xs = []")
    case True
    then show ?thesis using px [OF ne] n by (simp add: sw del: p_value.simps)
  next
    case False
    then obtain y ys where xs: "xs = y # ys" by (cases xs) auto
    have "p_elems (Suc n') (dump_elems nl isep ksep l xs @ w @ CHR '']'' # rest) = Some (xs, rest)"
      using "8.IH"(2) [of n' w rest] "8.prems" n False len w(1) by (simp del: p_value.simps)
    moreover have "skip_ws (w1 @ nl l @ dump_elems nl isep ksep l xs @ w @ CHR '']'' # rest)
        = dump_elems nl isep ksep l xs @ w @ CHR '']'' # rest"
      using xs by (simp add: w(2) ok_seps_nl [OF "8.prems"(5)])
    ultimately show ?thesis
      using px [of "isep @ nl l @ dump_elems nl isep ksep l xs @ w @ CHR '']'' # rest"] n False w(1)
      by (simp del: p_value.simps)
  qed
next
  case (9 nl isep ksep l)
  then show ?case by simp
next
  case (10 nl isep ksep l k v d)
  obtain w1 w' where w: "isep = CHR '','' # w1" "\<And>s. skip_ws (w1 @ s) = skip_ws s"
      "ksep = CHR '':'' # w'" "\<And>s. skip_ws (w' @ s) = skip_ws s"
    using "10.prems"(5) by (rule ok_sepsE) blast
  have sw: "\<And>s. skip_ws (w @ s) = skip_ws s" using "10.prems"(4) by (rule skip_ws_append)
  have ne: "num_end (w @ CHR ''}'' # rest)" using "10.prems"(4) by (cases w) (auto simp: ws_num_end)
  from "10.prems" obtain n' where n: "n = Suc n'" by (cases n) auto
  have pv: "p_value (Suc n') (json_dumps nl isep ksep l v @ r) = Some (v, r)" if "num_end r" for r
    using "10.IH"(1) [of r n'] "10.prems" n that by (simp del: p_value.simps)
  show ?case
  proof (cases "d = []")
    case True
    then show ?thesis using pv [OF ne] n by (simp add: json_str_def w(3,4) sw del: p_value.simps)
  next
    case False
    then obtain k2 v2 ys where d: "d = (k2, v2) # ys" by (cases d) auto
    have "p_items (Suc n') (dump_items nl isep ksep l d @ w @ CHR ''}'' # rest) = Some (d, rest)"
      using "10.IH"(2) [of n' w rest] "10.prems" n False w(1) by (simp add: json_str_def del: p_value.simps)
    moreover have "skip_ws (w1 @ nl l @ dump_items nl isep ksep l d @ w @ CHR ''}'' # rest)
        = dump_items nl isep ksep l d @ w @ CHR ''}'' # rest"
      using d by (simp add: w(2) json_str_def ok_seps_nl [OF "10.prems"(5)])
    ultimately show ?thesis
      using pv [of "isep @ nl l @ dump_items nl isep ksep l d @ w @ CHR ''}'' # rest"] n False w(1)
      by (simp add: json_str_def w(3,4) del: p_value.simps)
  qed
qed

lemma loads_dumps: "ok_seps nl isep ksep \<Longrightarrow> wf_pyval v \<Longrightarrow> json_loads (json_dumps nl isep ksep l v) = Some v"
proof -
  assume ok: "ok_seps nl isep ksep" and wf: "wf_pyval v"
  have "skip_ws (json_dumps nl isep ksep l v) = json_dumps nl isep ksep l v"
    using json_dumps_skip [of nl isep ksep l v "[]"] by simp
  then show ?thesis
    using loads_dumps_aux(1) [OF ok wf, of "[]" l "length (json_dumps nl isep ksep l v)"]
    by (simp add: json_loads_def)
qed

lemma ok_seps_compact [simp]: "ok_seps no_nl '','' '':''"
  by (auto simp: ok_seps_def no_nl_def)

lemma ok_seps_default [simp]: "ok_seps no_nl '', '' '': ''"
  by (auto simp: ok_seps_def no_nl_def)

lemma loads_compact [simp]: "wf_pyval v \<Longrightarrow> json_loads (dumps_compact v) = Some v"
  by (simp add: dumps_compact_def loads_dumps)

lemma loads_default [simp]: "wf_pyval v \<Longrightarrow> json_loads (dumps_default v) = Some v"
  by (simp add: dumps_default_def loads_dumps)

lemma ok_seps_indent [simp]: "ok_seps indent_nl '','' '': ''"
  by (auto simp: ok_seps_def indent_nl_def json_ws_def)

lemma loads_indent [simp]: "wf_pyval v \<Longrightarrow> json_loads (dumps_indent v) = Some v"
  by (simp add: dumps_indent_def loads_dumps)

subsection \<open>Canonical form\<close>

lemma map_fst_sort_items [simp]: "map fst (sort_items d) = map fst d"
  by (induction d) auto

lemma set_sort_items: "set (sort_items d) = (\<lambda>(k, v). (k, sort_keys v)) ` set d"
  by (induction d) auto

lemma wf_sort_keys [simp]:
  "wf_pyval v \<Longrightarrow> wf_pyval (sort_keys v)"
  "wf_elems xs \<Longrightarrow> wf_elems (sort_elems xs)"
  "wf_items d \<Longrightarrow> wf_items (sort_items d)"
proof (induction v and xs and d rule: sort_keys_sort_elems_sort_items.induct)
  case (2 d)
  have "distinct (map fst (sort_key fst (sort_items d)))"
    using 2 by (simp add: distinct_map distinct_sort)
       (metis distinct_map map_fst_sort_items)
  moreover have "wf_items (sort_key fst (sort_items d))"
    using 2 by (simp add: wf_items_set)
  ultimately show ?case by simp
qed auto

lemma loads_canonical: "wf_pyval v \<Longrightarrow> json_loads (canonical_json v) = Some (sort_keys v)"
  by (simp add: canonical_json_def)

lemma sort_key_sorted: "sorted (map f xs) \<Longrightarrow> sort_key f xs = xs"
  by (rule sort_key_id_if_sorted)

lemma sort_items_map: "sort_items d = map (\<lambda>(k, v). (k, sort_keys v)) d"
  by (induction d) auto

lemma sort_elems_map: "sort_elems xs = map sort_keys xs"
  by (induction xs) auto

lemma map_sort_key_fst:
  "(\<And>x. fst (g x) = fst x) \<Longrightarrow> map g (sort_key fst xs) = sort_key fst (map g xs)"
proof (induction xs)
  case (Cons x xs)
  have "map g (insort_key fst x ys) = insort_key fst (g x) (map g ys)" for ys
    by (induction ys) (simp_all add: Cons.prems)
  with Cons show ?case by simp
qed simp

lemma sort_keys_idem:
  "sort_keys (sort_keys v) = sort_keys v"
  "sort_elems (sort_elems xs) = sort_elems xs"
  "sort_items (sort_items d) = sort_items d"
proof (induction v and xs and d rule: sort_keys_sort_elems_sort_items.induct)
  case (2 d)
  have "sort_items (sort_key fst (sort_items d)) = sort_key fst (sort_items (sort_items d))"
    unfolding sort_items_map by (rule map_sort_key_fst) auto
  with 2 have "sort_items (sort_key fst (sort_items d)) = sort_key fst (sort_items d)" by simp
  moreover have "sort_key fst (sort_key fst (sort_items d)) = sort_key fst (sort_items d)"
    by (rule sort_key_sorted) simp
  ultimately show ?case by (simp only: sort_keys.simps)
qed simp_all

lemma canonical_reread:
  "wf_pyval v \<Longrightarrow> json_loads (canonical_json v) = Some w \<Longrightarrow> canonical_json w = canonical_json v"
  by (auto simp: loads_canonical canonical_json_def sort_keys_idem)

lemma canonical_inj:
  assumes "wf_pyval v" "wf_pyval w"
  shows "canonical_json v = canonical_json w \<longleftrightarrow> sort_keys v = sort_keys w"
  using loads_canonical [OF assms(1)] loads_canonical [OF assms(2)]
  by (metis canonical_json_def option.inject)

text \<open>
  No printed text holds a control character: neither the separator \<open>\x1f\<close> the hashes join their fields
  with, nor a line end (unless the layout brings it).
\<close>

definition is_ctrl :: "char \<Rightarrow> bool" where
  "is_ctrl c \<longleftrightarrow> of_char c < (32 :: nat)"

lemma is_ctrl_simps [simp]: "is_ctrl (CHR 0x1F)" "is_ctrl (CHR 0x0A)" "is_ctrl (CHR 0x0D)"
  by (simp_all add: is_ctrl_def)

lemma hex_val_ctrl: "is_ctrl c \<Longrightarrow> hex_val c = None"
  by (simp add: is_ctrl_def hex_val_def Let_def)

lemma hex_digit_not_ctrl: "d < 16 \<Longrightarrow> \<not> is_ctrl (hex_digit d)"
  using hex_val_hex_digit hex_val_ctrl by fastforce

lemma esc_char_no_ctrl: "is_ctrl x \<Longrightarrow> x \<notin> set (esc_char c)"
proof -
  assume x: "is_ctrl x"
  have lit: "x \<noteq> CHR 0x5C \<and> x \<noteq> CHR 0x22 \<and> x \<noteq> CHR ''n'' \<and> x \<noteq> CHR ''r'' \<and> x \<noteq> CHR ''t'' \<and> x \<noteq> CHR ''b''
      \<and> x \<noteq> CHR ''f'' \<and> x \<noteq> CHR ''u'' \<and> x \<noteq> CHR ''0''"
    using x by (auto simp: is_ctrl_def)
  show ?thesis
  proof (cases "is_ctrl c")
    case True
    then have "of_char c div 16 < (16 :: nat)" "of_char c mod 16 < (16 :: nat)" by (simp_all add: is_ctrl_def)
    then have "x \<noteq> hex_digit (of_char c div 16)" "x \<noteq> hex_digit (of_char c mod 16)"
      using x hex_digit_not_ctrl by metis+
    with lit True show ?thesis by (simp add: esc_char_def is_ctrl_def)
  next
    case False
    with x have "c \<noteq> x" by blast
    with lit False show ?thesis by (simp add: esc_char_def is_ctrl_def)
  qed
qed

lemma json_str_no_ctrl: "is_ctrl x \<Longrightarrow> x \<notin> set (json_str s)"
  using esc_char_no_ctrl by (auto simp: json_str_def is_ctrl_def)

lemma show_int_no_ctrl: "is_ctrl x \<Longrightarrow> x \<notin> set (show_int i)"
proof -
  assume x: "is_ctrl x"
  then have "\<not> is_digit x" "x \<noteq> CHR ''-''" by (auto simp: is_ctrl_def is_digit_def Let_def)
  then show ?thesis using show_nat_digits by (auto simp: show_int_def)
qed

lemma dumps_no_ctrl:
  assumes "is_ctrl x" "x \<notin> set isep" "x \<notin> set ksep" "\<And>l. x \<notin> set (nl l)"
  shows "x \<notin> set (json_dumps nl isep ksep l v)"
    and "x \<notin> set (dump_elems nl isep ksep l xs)"
    and "x \<notin> set (dump_items nl isep ksep l d)"
  using assms
  by (induction nl isep ksep l v and nl isep ksep l xs and nl isep ksep l d
      rule: json_dumps_dump_elems_dump_items.induct)
     (auto simp: json_str_no_ctrl show_int_no_ctrl is_ctrl_def)

lemma canonical_no_sep: "CHR 0x1F \<notin> set (canonical_json v)"
  by (simp add: canonical_json_def dumps_compact_def dumps_no_ctrl no_nl_def)

lemma default_no_ctrl: "is_ctrl x \<Longrightarrow> x \<notin> set (dumps_default v)"
  unfolding dumps_default_def by (rule dumps_no_ctrl) (auto simp: is_ctrl_def no_nl_def)

subsection \<open>What the parser gives\<close>

text \<open>Every value the parser returns is well formed: a repeated key has been merged.\<close>

lemma dset_wf:
  assumes "wf_pyval (PDict d)" "wf_pyval v"
  shows "wf_pyval (PDict (dset d k v))"
proof -
  have "set (AList.update k v d) \<subseteq> insert (k, v) (set d)"
    by (induction d) auto
  then show ?thesis
    using assms by (auto simp: dset_def distinct_update wf_items_set)
qed

lemma dict_of_wf: "wf_items kvs \<Longrightarrow> wf_pyval (PDict (dict_of kvs))"
proof -
  have "wf_pyval (PDict d) \<Longrightarrow> wf_items kvs \<Longrightarrow> wf_pyval (PDict (foldl (\<lambda>d (k, v). dset d k v) d kvs))" for d
  proof (induction kvs arbitrary: d)
    case (Cons kv kvs)
    obtain k v where "kv = (k, v)" by (cases kv)
    with Cons show ?case using dset_wf [of d v k] by simp
  qed simp
  from this [of "[]"] show "wf_items kvs \<Longrightarrow> wf_pyval (PDict (dict_of kvs))" by (simp add: dict_of_def)
qed

lemma cons_fst_Some: "cons_fst x r = Some (ys, rest) \<longleftrightarrow> (\<exists>xs. r = Some (xs, rest) \<and> ys = x # xs)"
  by (cases r) (auto simp: cons_fst_def)

lemma p_num_wf: "p_num s = Some (v, rest) \<Longrightarrow> wf_pyval v"
  by (auto simp: p_num_def split: list.splits if_splits)

lemma p_value_wf:
  "p_value n s = Some (v, rest) \<Longrightarrow> wf_pyval v"
  "p_elems n s = Some (xs, rest) \<Longrightarrow> wf_elems xs"
  "p_items n s = Some (kvs, rest) \<Longrightarrow> wf_items kvs"
proof (induction n s and n s and n s arbitrary: v rest and xs rest and kvs rest rule: p_value_p_elems_p_items.induct)
  case (2 n s)
  show ?case
  proof (cases "\<exists>kvs. v = PDict kvs")
    case True
    with "2.prems" have "v = PDict [] \<or> (\<exists>c r kvs. s = CHR ''{'' # r \<and> skip_ws r = c # tl (skip_ws r) \<and> c \<noteq> CHR ''}''
        \<and> p_items n (c # tl (skip_ws r)) = Some (kvs, rest) \<and> v = PDict (dict_of kvs))"
      by (auto simp: p_num_def split: list.splits if_splits)
    then show ?thesis using "2.IH"(2) dict_of_wf by (elim disjE exE conjE) auto
  next
    case False
    with "2.prems" "2.IH"(1) show ?thesis by (auto split: list.splits if_splits dest: p_num_wf)
  qed
next
  case (4 n s)
  from "4.prems" show ?case using "4.IH" by (auto simp: cons_fst_Some split: option.splits list.splits if_splits)
next
  case (6 n s)
  from "6.prems" show ?case using "6.IH" by (auto simp: cons_fst_Some split: option.splits list.splits if_splits)
qed auto

lemma json_loads_wf: "json_loads s = Some v \<Longrightarrow> wf_pyval v"
  unfolding json_loads_def by (auto simp del: p_value.simps split: option.splits if_splits dest: p_value_wf)

section \<open>Properties\<close>



end
