(* ===== verification/PyText.thy ===== *)
theory PyText
  imports Json
begin

text \<open>
  Texts of Python values: \<open>repr\<close>, \<open>str\<close> and \<open>int(...)\<close> on the values the program gets from JSON, the
  slices and list methods its messages use, and type checks of the \<open>pydantic\<close> argument classes.
\<close>

definition printable :: "char \<Rightarrow> bool" where
  "printable c = (let n = of_char c :: nat in (32 \<le> n \<and> n \<le> 126) \<or> (161 \<le> n \<and> n \<noteq> 173))"

definition repr_char :: "char \<Rightarrow> char \<Rightarrow> string" where
  "repr_char q c =
     (if c = q \<or> c = CHR 0x5C then [CHR 0x5C, c]
      else if c = CHR 0x0A then [CHR 0x5C, CHR ''n'']
      else if c = CHR 0x0D then [CHR 0x5C, CHR ''r'']
      else if c = CHR 0x09 then [CHR 0x5C, CHR ''t'']
      else if printable c then [c]
      else [CHR 0x5C, CHR ''x'', hex_digit (of_char c div 16), hex_digit (of_char c mod 16)])"

definition repr_str :: "string \<Rightarrow> string" where
  "repr_str s = (let q = (if CHR 0x27 \<in> set s \<and> CHR 0x22 \<notin> set s then CHR 0x22 else CHR 0x27)
     in q # concat (map (repr_char q) s) @ [q])"

fun py_repr :: "pyval \<Rightarrow> string"
  and repr_elems :: "pyval list \<Rightarrow> string"
  and repr_items :: "pydict \<Rightarrow> string" where
  "py_repr PNone = ''None''"
| "py_repr (PBool b) = (if b then ''True'' else ''False'')"
| "py_repr (PInt i) = show_int i"
| "py_repr (PStr s) = repr_str s"
| "py_repr (PList xs) = CHR ''['' # repr_elems xs @ '']''"
| "py_repr (PDict d) = CHR ''{'' # repr_items d @ ''}''"
| "repr_elems [] = []"
| "repr_elems (x # xs) = py_repr x @ (if xs = [] then [] else '', '' @ repr_elems xs)"
| "repr_items [] = []"
| "repr_items ((k, v) # d) = repr_str k @ '': '' @ py_repr v @ (if d = [] then [] else '', '' @ repr_items d)"

text \<open>\<open>str(v)\<close> and \<open>f"{v}"\<close>\<close>

definition py_str :: "pyval \<Rightarrow> string" where
  "py_str v = (case v of PStr s \<Rightarrow> s | _ \<Rightarrow> py_repr v)"

lemma py_str_PStr [simp]: "py_str (PStr s) = s"
  by (simp add: py_str_def)

text \<open>\<open>int(v)\<close>: a text may have blanks around it, a sign and single underscores between digits.\<close>

fun digit_groups :: "bool \<Rightarrow> string \<Rightarrow> bool" where
  "digit_groups prev [] = prev"
| "digit_groups prev (c # s) =
     (if is_digit c then digit_groups True s else if c = CHR ''_'' \<and> prev then digit_groups False s else False)"

definition int_of_text :: "string \<Rightarrow> int option" where
  "int_of_text s0 =
     (let s = py_strip s0;
          neg = (s \<noteq> [] \<and> hd s = CHR ''-'');
          ds = (if s \<noteq> [] \<and> hd s \<in> {CHR ''-'', CHR ''+''} then tl s else s)
      in if digit_groups False ds
         then Some ((if neg then uminus else id) (int (read_nat (filter is_digit ds)))) else None)"

definition py_int :: "pyval \<Rightarrow> exn + int" where
  "py_int v = (case v of
     PInt i \<Rightarrow> Inr i
   | PBool b \<Rightarrow> Inr (if b then 1 else 0)
   | PStr s \<Rightarrow> (case int_of_text s of
        Some i \<Rightarrow> Inr i
      | None \<Rightarrow> Inl (Exn ''ValueError'' (''invalid literal for int() with base 10: '' @ repr_str s)))
   | _ \<Rightarrow> Inl (Exn ''TypeError'' (''int() argument must be a string, a bytes-like object or a real number, not ''
        @ CHR 0x27 # type_name v @ [CHR 0x27])))"

text \<open>A field of type \<open>str\<close> of a \<open>pydantic\<close> model accepts texts only; \<open>str | None\<close> also \<open>None\<close>.\<close>

definition field_str :: "pyval \<Rightarrow> exn + string" where
  "field_str v = (case v of PStr s \<Rightarrow> Inr s | _ \<Rightarrow> Inl (Exn ''ValidationError'' ''Input should be a valid string''))"

definition field_opt_str :: "pyval \<Rightarrow> exn + string option" where
  "field_opt_str v = (case v of PNone \<Rightarrow> Inr None | PStr s \<Rightarrow> Inr (Some s)
     | _ \<Rightarrow> Inl (Exn ''ValidationError'' ''Input should be a valid string''))"

text \<open>\<open>v.get(k)\<close> on a value that may not be a dictionary.\<close>

definition attr_get :: "pyval \<Rightarrow> string \<Rightarrow> exn + pyval" where
  "attr_get v k = (case v of PDict d \<Rightarrow> Inr (dget d k)
     | _ \<Rightarrow> Inl (Exn ''AttributeError'' (CHR 0x27 # type_name v @ CHR 0x27 # '' object has no attribute '' @ repr_str ''get'')))"

text \<open>\<open>d[k]\<close>\<close>

definition getitem :: "pydict \<Rightarrow> string \<Rightarrow> exn + pyval" where
  "getitem d k = (case map_of d k of Some v \<Rightarrow> Inr v | None \<Rightarrow> Inl (Exn ''KeyError'' (repr_str k)))"

text \<open>The first truthy of \<open>d.get(k1) or d.get(k2) or ... or x\<close>.\<close>

definition first_truthy :: "pydict \<Rightarrow> string list \<Rightarrow> pyval \<Rightarrow> pyval" where
  "first_truthy d ks x = foldr (\<lambda>k v. py_or (dget d k) v) ks x"

text \<open>Iterating a value: the elements of a list, the keys of a dictionary, the characters of a text.\<close>

definition py_iter :: "pyval \<Rightarrow> exn + pyval list" where
  "py_iter v = (case v of
     PList xs \<Rightarrow> Inr xs
   | PDict d \<Rightarrow> Inr (map (PStr \<circ> fst) d)
   | PStr s \<Rightarrow> Inr (map (\<lambda>c. PStr [c]) s)
   | _ \<Rightarrow> Inl (Exn ''TypeError'' (CHR 0x27 # type_name v @ CHR 0x27 # '' object is not iterable'')))"

text \<open>Sequencing of computations that may raise, without a world.\<close>

definition bindE :: "exn + 'a \<Rightarrow> ('a \<Rightarrow> exn + 'b) \<Rightarrow> exn + 'b" where
  "bindE x f = (case x of Inl e \<Rightarrow> Inl e | Inr a \<Rightarrow> f a)"

lemma bindE_simps [simp]: "bindE (Inl e) f = Inl e" "bindE (Inr a) f = f a"
  by (simp_all add: bindE_def)

lemma bindE_Inr: "bindE x f = Inr b \<longleftrightarrow> (\<exists>a. x = Inr a \<and> f a = Inr b)"
  by (cases x) auto

fun mapE :: "('a \<Rightarrow> exn + 'b) \<Rightarrow> 'a list \<Rightarrow> exn + 'b list" where
  "mapE f [] = Inr []"
| "mapE f (x # xs) = bindE (f x) (\<lambda>y. bindE (mapE f xs) (\<lambda>ys. Inr (y # ys)))"

text \<open>A pure computation as a call, and a call whose exception is handled.\<close>

definition liftE :: "exn + 'a \<Rightarrow> ('w, 'a) act" where
  "liftE x w = (x, w)"

lemma liftE_apply [simp]: "liftE x w = (x, w)"
  by (simp add: liftE_def)

text \<open>\<open>_parse_json\<close> of \<open>agent/nodes.py\<close>: a fence and its language tag are taken off first.\<close>

definition fence :: string where
  "fence = [CHR 0x60, CHR 0x60, CHR 0x60]"

definition strip_fence :: "string \<Rightarrow> string" where
  "strip_fence text =
     (let s = py_strip text in
      if py_startswith s fence then
        let body = drop 3 s;
            s = (case split_once fence body of None \<Rightarrow> body | Some (a, b) \<Rightarrow> a);
            s = (if py_startswith (lstrip_by is_space s) ''json''
                 then (case split_once [CHR 0x0A] s of None \<Rightarrow> s | Some (a, b) \<Rightarrow> b) else s);
            s = py_strip s
        in if py_endswith s fence then py_strip (take (length s - 3) s) else s
      else s)"

definition json_decode_error :: exn where
  "json_decode_error = Exn ''JSONDecodeError'' ''Expecting value''"

definition parse_json :: "pyval \<Rightarrow> exn + pyval" where
  "parse_json text = (case text of
     PStr s \<Rightarrow> (case json_loads (strip_fence s) of None \<Rightarrow> Inl json_decode_error | Some v \<Rightarrow> Inr v)
   | _ \<Rightarrow> Inl (Exn ''AttributeError'' (CHR 0x27 # type_name text @ CHR 0x27 # '' object has no attribute '' @ repr_str ''strip'')))"

lemma parse_json_plain:
  "wf_pyval v \<Longrightarrow> strip_fence (dumps_default v) = dumps_default v \<Longrightarrow> parse_json (PStr (dumps_default v)) = Inr v"
  by (simp add: parse_json_def)

lemma py_strip_id: "d \<noteq> [] \<Longrightarrow> \<not> is_space (hd d) \<Longrightarrow> \<not> is_space (last d) \<Longrightarrow> py_strip d = d"
proof -
  assume d: "d \<noteq> []" "\<not> is_space (hd d)" "\<not> is_space (last d)"
  have "dropWhile is_space d = d" "dropWhile is_space (rev d) = rev d"
    using d by (simp_all only: dropWhile_eq_self_iff hd_rev rev_is_Nil_conv) simp_all
  then show ?thesis by (simp add: py_strip_def lstrip_by_def rstrip_by_def)
qed

lemma dumps_dict_ends: "\<exists>m. dumps_default (PDict row) = CHR ''{'' # m @ ''}''"
  by (simp add: dumps_default_def)

lemma strip_dumps: "py_strip (dumps_default (PDict row)) = dumps_default (PDict row)" "dumps_default (PDict row) \<noteq> []"
proof -
  obtain m where m: "dumps_default (PDict row) = CHR ''{'' # m @ ''}''" using dumps_dict_ends by blast
  then show "py_strip (dumps_default (PDict row)) = dumps_default (PDict row)" "dumps_default (PDict row) \<noteq> []"
    by (auto intro!: py_strip_id simp: is_space_def)
qed

text \<open>An object in a \<open>json\<close> fence is read, if no text in it has a backtick.\<close>

lemma split_once_fence: "CHR 0x60 \<notin> set a \<Longrightarrow> split_once fence (a @ fence @ b) = Some (a, b)"
  by (induction a) (auto simp: fence_def)

lemma split_once_line: "CHR 0x0A \<notin> set a \<Longrightarrow> split_once [CHR 0x0A] (a @ CHR 0x0A # b) = Some (a, b)"
  by (induction a) auto

lemma py_strip_line: "d \<noteq> [] \<Longrightarrow> \<not> is_space (hd d) \<Longrightarrow> \<not> is_space (last d) \<Longrightarrow> py_strip (d @ [CHR 0x0A]) = d"
  using py_strip_id [of d] by (cases d) (simp_all add: py_strip_def lstrip_by_def rstrip_by_def is_space_def)

lemma strip_fence_json:
  assumes "d \<noteq> []" "\<not> is_space (hd d)" "\<not> is_space (last d)" "CHR 0x60 \<notin> set d"
  shows "strip_fence (fence @ ''json'' @ CHR 0x0A # d @ CHR 0x0A # fence) = d"
proof -
  let ?s = "fence @ ''json'' @ CHR 0x0A # d @ CHR 0x0A # fence"
  have s: "py_strip ?s = ?s" by (rule py_strip_id) (simp_all add: fence_def is_space_def)
  have b: "split_once fence (drop 3 ?s) = Some (''json'' @ CHR 0x0A # d @ [CHR 0x0A], [])"
    using split_once_fence [of "''json'' @ CHR 0x0A # d @ [CHR 0x0A]" "[]"] assms(4) by (simp add: fence_def)
  have l: "split_once [CHR 0x0A] (''json'' @ CHR 0x0A # d @ [CHR 0x0A]) = Some (''json'', d @ [CHR 0x0A])"
    by (rule split_once_line) simp
  have e: "\<not> py_endswith d fence" using assms(4) by (auto simp: py_endswith_suffix suffix_def fence_def)
  have j: "py_startswith (lstrip_by is_space (''json'' @ CHR 0x0A # d @ [CHR 0x0A])) ''json''"
    by (simp add: lstrip_by_def is_space_def)
  show ?thesis unfolding strip_fence_def Let_def s b option.case prod.case l
    using j l e py_strip_line [OF assms(1-3)] by (simp only: py_startswith_append if_True if_False option.case prod.case)
qed

lemma parse_json_fenced:
  assumes "wf_pyval (PDict d)" "CHR 0x60 \<notin> set (dumps_default (PDict d))"
  shows "parse_json (PStr (fence @ ''json'' @ CHR 0x0A # dumps_default (PDict d) @ CHR 0x0A # fence)) = Inr (PDict d)"
proof -
  obtain m where m: "dumps_default (PDict d) = CHR ''{'' # m @ ''}''" using dumps_dict_ends by blast
  then have "strip_fence (fence @ ''json'' @ CHR 0x0A # dumps_default (PDict d) @ CHR 0x0A # fence) = dumps_default (PDict d)"
    using assms(2) by (intro strip_fence_json) (simp_all add: is_space_def)
  with assms(1) show ?thesis by (simp add: parse_json_def del: append_Cons)
qed

end
