(* ===== verification/Tools.thy ===== *)
theory Tools
  imports PyText
begin

text \<open>
  \<open>tools/_runner.py\<close>, \<open>tools/browser.py\<close> and \<open>contracts/tools.py\<close>: the agent's browser tools over a
  \<open>BrowserSession\<close>. The session's operations, the search service and the call metadata (fresh id, elapsed
  time, clock) come from outside and are fields of \<open>session\<close>; each may raise and change the world \<open>'w\<close>.
\<close>

record tool_result =
  tr_call_id :: string
  tr_tool_name :: string
  tr_ok :: bool
  tr_data :: pydict
  tr_error :: "string option"
  tr_elapsed_ms :: int
  tr_timestamp :: string

record call_meta =
  cm_call_id :: string
  cm_elapsed_ms :: int
  cm_timestamp :: string

record 'w session =
  s_meta :: "'w \<Rightarrow> call_meta"
  s_goto :: "string \<Rightarrow> ('w, unit) act"
  s_click :: "string \<Rightarrow> ('w, unit) act"
  s_type :: "string \<Rightarrow> string \<Rightarrow> ('w, unit) act"
  s_screenshot :: "string \<Rightarrow> bool \<Rightarrow> string option \<Rightarrow> ('w, pydict) act"
  s_scroll :: "string \<Rightarrow> ('w, pydict) act"
  s_scroll_to :: "string \<Rightarrow> ('w, pydict) act"
  s_screenshot_chunks :: "string \<Rightarrow> string option \<Rightarrow> ('w, pydict list) act"
  s_visit_each_link :: "string \<Rightarrow> int \<Rightarrow> string \<Rightarrow> string option \<Rightarrow> ('w, pydict) act"
  s_extract :: "pydict \<Rightarrow> ('w, pydict) act"
  s_snapshot :: "('w, pydict) act"
  s_mark_and_screenshot :: "string \<Rightarrow> ('w, pydict \<times> pydict list) act"
  s_click_mark :: "int \<Rightarrow> ('w, unit) act"
  s_type_mark :: "int \<Rightarrow> string \<Rightarrow> ('w, unit) act"
  s_serper_key :: "'w \<Rightarrow> string option"
  s_serper :: "string \<Rightarrow> int \<Rightarrow> ('w, pydict) act"

subsection \<open>The envelope\<close>

text \<open>\<open>invoke\<close>: whatever the call does, a \<open>ToolResult\<close> comes back; an exception becomes its text.\<close>

definition invoke :: "'w session \<Rightarrow> string \<Rightarrow> ('w, pydict) act \<Rightarrow> 'w \<Rightarrow> tool_result \<times> 'w" where
  "invoke s name run w =
     (case run w of
        (Inr data, w') \<Rightarrow>
          (\<lparr> tr_call_id = cm_call_id (s_meta s w'), tr_tool_name = name, tr_ok = True, tr_data = data,
             tr_error = None, tr_elapsed_ms = cm_elapsed_ms (s_meta s w'), tr_timestamp = cm_timestamp (s_meta s w') \<rparr>, w')
      | (Inl e, w') \<Rightarrow>
          (\<lparr> tr_call_id = cm_call_id (s_meta s w'), tr_tool_name = name, tr_ok = False, tr_data = [],
             tr_error = Some (exn_text e), tr_elapsed_ms = cm_elapsed_ms (s_meta s w'),
             tr_timestamp = cm_timestamp (s_meta s w') \<rparr>, w'))"

text \<open>\<open>model_dump(mode="json")\<close>\<close>

definition dump_result :: "tool_result \<Rightarrow> pydict" where
  "dump_result r =
     [(''call_id'', PStr (tr_call_id r)), (''tool_name'', PStr (tr_tool_name r)),
      (''status'', PStr (if tr_ok r then ''ok'' else ''error'')), (''data'', PDict (tr_data r)),
      (''error'', case tr_error r of None \<Rightarrow> PNone | Some e \<Rightarrow> PStr e),
      (''elapsed_ms'', PInt (tr_elapsed_ms r)), (''timestamp'', PStr (tr_timestamp r))]"

definition map_act :: "('a \<Rightarrow> 'b) \<Rightarrow> ('w, 'a) act \<Rightarrow> ('w, 'b) act" where
  "map_act f m = bindA m (\<lambda>x. returnA (f x))"

definition opt_pv :: "string option \<Rightarrow> pyval" where
  "opt_pv x = (case x of None \<Rightarrow> PNone | Some s \<Rightarrow> PStr s)"

subsection \<open>The tools\<close>

definition tool_goto :: "'w session \<Rightarrow> string \<Rightarrow> 'w \<Rightarrow> tool_result \<times> 'w" where
  "tool_goto s url = invoke s ''browser.goto'' (map_act (\<lambda>_. [(''url'', PStr url)]) (s_goto s url))"

definition tool_click :: "'w session \<Rightarrow> string \<Rightarrow> 'w \<Rightarrow> tool_result \<times> 'w" where
  "tool_click s t = invoke s ''browser.click'' (map_act (\<lambda>_. [(''selector_or_text'', PStr t)]) (s_click s t))"

definition tool_type :: "'w session \<Rightarrow> string \<Rightarrow> string \<Rightarrow> 'w \<Rightarrow> tool_result \<times> 'w" where
  "tool_type s sel v = invoke s ''browser.type''
     (map_act (\<lambda>_. [(''selector'', PStr sel), (''chars'', PInt (int (length v)))]) (s_type s sel v))"

definition tool_screenshot :: "'w session \<Rightarrow> string \<Rightarrow> string \<Rightarrow> string option \<Rightarrow> 'w \<Rightarrow> tool_result \<times> 'w" where
  "tool_screenshot s name mode folder = invoke s ''browser.screenshot''
     (map_act (\<lambda>a. [(''artifact'', PDict a), (''mode'', PStr mode), (''folder'', opt_pv folder)])
        (s_screenshot s name (mode = ''full'') folder))"

definition tool_scroll :: "'w session \<Rightarrow> string \<Rightarrow> 'w \<Rightarrow> tool_result \<times> 'w" where
  "tool_scroll s amount = invoke s ''browser.scroll'' (s_scroll s amount)"

definition tool_scroll_to :: "'w session \<Rightarrow> string \<Rightarrow> 'w \<Rightarrow> tool_result \<times> 'w" where
  "tool_scroll_to s t = invoke s ''browser.scroll_to'' (s_scroll_to s t)"

text \<open>\<open>xs[:n]\<close>: a negative bound counts from the end.\<close>

definition py_take :: "int \<Rightarrow> 'a list \<Rightarrow> 'a list" where
  "py_take n xs = (if 0 \<le> n then take (nat n) xs else take (length xs - nat (- n)) xs)"

definition search_hit :: "pyval \<Rightarrow> exn + pyval" where
  "search_hit h = (case h of
     PDict d \<Rightarrow> Inr (PDict [(''title'', py_or (dget d ''title'') (PStr [])), (''url'', py_or (dget d ''link'') (PStr [])),
                            (''snippet'', py_or (dget d ''snippet'') (PStr []))])
   | v \<Rightarrow> bindE (attr_get v ''title'') (\<lambda>_. Inr PNone))"

definition search_body :: "string \<Rightarrow> int \<Rightarrow> pydict \<Rightarrow> exn + pydict" where
  "search_body query limit data =
     (case py_or (dget data ''organic'') (PList []) of
        PList organic \<Rightarrow> bindE (mapE search_hit (py_take limit organic))
          (\<lambda>results. Inr [(''query'', PStr query), (''results'', PList results), (''count'', PInt (int (length results)))])
      | v \<Rightarrow> Inl (Exn ''TypeError'' (CHR 0x27 # type_name v @ CHR 0x27 # '' object is not subscriptable'')))"

definition tool_search :: "'w session \<Rightarrow> string \<Rightarrow> int \<Rightarrow> 'w \<Rightarrow> tool_result \<times> 'w" where
  "tool_search s query limit = invoke s ''browser.search''
     (\<lambda>w. if s_serper_key s w \<in> {None, Some []}
          then raiseA (Exn ''RuntimeError'' (''SERPER_API_KEY is not set in .env - add it or use a '' @
                 ''different search strategy'')) w
          else bindA (s_serper s query limit) (\<lambda>data. liftE (search_body query limit data)) w)"

definition tool_visit_each_link :: "'w session \<Rightarrow> string \<Rightarrow> int \<Rightarrow> string \<Rightarrow> string option \<Rightarrow> 'w \<Rightarrow> tool_result \<times> 'w" where
  "tool_visit_each_link s pat limit tpl folder =
     invoke s ''browser.visit_each_link'' (s_visit_each_link s pat limit tpl folder)"

definition tool_screenshot_all :: "'w session \<Rightarrow> string \<Rightarrow> string option \<Rightarrow> 'w \<Rightarrow> tool_result \<times> 'w" where
  "tool_screenshot_all s name folder = invoke s ''browser.screenshot_all''
     (map_act (\<lambda>arts. [(''artifacts'', PList (map PDict arts)), (''chunks'', PInt (int (length arts))),
                       (''folder'', opt_pv folder)]) (s_screenshot_chunks s name folder))"

definition tool_extract :: "'w session \<Rightarrow> pydict \<Rightarrow> 'w \<Rightarrow> tool_result \<times> 'w" where
  "tool_extract s schema = invoke s ''browser.extract'' (s_extract s schema)"

definition tool_snapshot :: "'w session \<Rightarrow> 'w \<Rightarrow> tool_result \<times> 'w" where
  "tool_snapshot s = invoke s ''browser.snapshot'' (s_snapshot s)"

definition tool_annotate :: "'w session \<Rightarrow> string \<Rightarrow> 'w \<Rightarrow> tool_result \<times> 'w" where
  "tool_annotate s name = invoke s ''browser.annotate''
     (map_act (\<lambda>(art, marks). [(''artifact'', PDict art), (''marks'', PList (map PDict marks)),
                               (''count'', PInt (int (length marks)))]) (s_mark_and_screenshot s name))"

definition tool_click_mark :: "'w session \<Rightarrow> int \<Rightarrow> 'w \<Rightarrow> tool_result \<times> 'w" where
  "tool_click_mark s i = invoke s ''browser.click_mark'' (map_act (\<lambda>_. [(''mark_id'', PInt i)]) (s_click_mark s i))"

definition tool_type_mark :: "'w session \<Rightarrow> int \<Rightarrow> string \<Rightarrow> 'w \<Rightarrow> tool_result \<times> 'w" where
  "tool_type_mark s i v = invoke s ''browser.type_mark''
     (map_act (\<lambda>_. [(''mark_id'', PInt i), (''chars'', PInt (int (length v)))]) (s_type_mark s i v))"

lemmas tool_defs = tool_goto_def tool_click_def tool_type_def tool_screenshot_def tool_scroll_def
  tool_scroll_to_def tool_search_def tool_visit_each_link_def tool_screenshot_all_def tool_extract_def
  tool_snapshot_def tool_annotate_def tool_click_mark_def tool_type_mark_def

text \<open>A result is an error exactly when it carries an error text, and the text is never empty.\<close>

definition result_ok :: "tool_result \<Rightarrow> bool" where
  "result_ok r \<longleftrightarrow> (tr_ok r \<longleftrightarrow> tr_error r = None) \<and> tr_error r \<noteq> Some []"

lemma invoke_ok [simp]: "result_ok (fst (invoke s name run w))"
  by (auto simp: invoke_def result_ok_def split: prod.splits sum.splits)

lemma invoke_eqD: "invoke s name run w = (r, w') \<Longrightarrow> result_ok r"
  using invoke_ok [of s name run w] by simp

end
