(* ===== verification/ArtifactStore.thy ===== *)
theory ArtifactStore
  imports Json
begin

text \<open>
  \<open>storage/artifact_store.py\<close>: the content-addressed evidence store on a file system. The file system is
  the regular files below the store's root: their paths (as lists of components) with inode numbers, and
  the contents of the inodes, so that hard links share a content. Directories are implicit. File contents
  are texts of bytes. SHA-256 (\<open>sha\<close>), the table of \<open>mimetypes\<close> (\<open>guess\<close>) and whether the file
  system allows hard links (\<open>can_link\<close>) are arguments.
\<close>

subsection \<open>The file system\<close>

type_synonym fpath = "string list"

record fs =
  fs_names :: "(fpath \<times> nat) list"
  fs_data :: "nat \<Rightarrow> string"
  fs_next :: nat

definition fs_inode :: "fs \<Rightarrow> fpath \<Rightarrow> nat option" where
  "fs_inode f p = map_of (fs_names f) p"

definition fs_exists :: "fs \<Rightarrow> fpath \<Rightarrow> bool" where
  "fs_exists f p = (fs_inode f p \<noteq> None)"

definition fs_read :: "fs \<Rightarrow> fpath \<Rightarrow> string option" where
  "fs_read f p = map_option (fs_data f) (fs_inode f p)"

text \<open>\<open>write_bytes\<close>: truncates an existing file in place, creates a missing one.\<close>

definition fs_write :: "fpath \<Rightarrow> string \<Rightarrow> fs \<Rightarrow> fs" where
  "fs_write p c f = (case fs_inode f p of
     Some i \<Rightarrow> f\<lparr>fs_data := (fs_data f)(i := c)\<rparr>
   | None \<Rightarrow> f\<lparr>fs_names := fs_names f @ [(p, fs_next f)], fs_data := (fs_data f)(fs_next f := c),
               fs_next := Suc (fs_next f)\<rparr>)"

text \<open>\<open>rename\<close> replaces its target; \<open>hardlink_to\<close> is used on a name that does not exist.\<close>

definition fs_rename :: "fpath \<Rightarrow> fpath \<Rightarrow> fs \<Rightarrow> fs" where
  "fs_rename src dst f = (case fs_inode f src of
     None \<Rightarrow> f
   | Some i \<Rightarrow> f\<lparr>fs_names := filter (\<lambda>x. fst x \<noteq> src \<and> fst x \<noteq> dst) (fs_names f) @ [(dst, i)]\<rparr>)"

definition fs_link :: "fpath \<Rightarrow> fpath \<Rightarrow> fs \<Rightarrow> fs" where
  "fs_link src dst f = (case fs_inode f src of
     None \<Rightarrow> f
   | Some i \<Rightarrow> f\<lparr>fs_names := fs_names f @ [(dst, i)]\<rparr>)"

definition fs_wf :: "fs \<Rightarrow> bool" where
  "fs_wf f \<longleftrightarrow> distinct (map fst (fs_names f)) \<and> (\<forall>(p, i)\<in>set (fs_names f). i < fs_next f)"

definition fs_empty :: fs where
  "fs_empty = \<lparr> fs_names = [], fs_data = (\<lambda>_. []), fs_next = 0 \<rparr>"

subsection \<open>Names\<close>

text \<open>\<open>_safe_path_component\<close>\<close>

definition safe_char :: "char \<Rightarrow> bool" where
  "safe_char c \<longleftrightarrow> is_alnum c \<or> c \<in> {CHR ''.'', CHR ''_'', CHR ''-''}"

definition safe_path_component :: "string \<Rightarrow> string" where
  "safe_path_component s0 =
     (let s = py_replace ''..'' ''_'' (py_replace [CHR 0x5C] ''_'' (py_replace ''/'' ''_'' s0));
          out = map (\<lambda>c. if safe_char c then c else CHR ''_'') s;
          out = py_strip_chars ''._'' out
      in take 120 (if out = [] then ''_'' else out))"

text \<open>The last position of a character: \<open>str.rfind\<close>, \<open>None\<close> for -1.\<close>

fun rfind_char :: "char \<Rightarrow> string \<Rightarrow> nat option" where
  "rfind_char c [] = None"
| "rfind_char c (x # s) = (case rfind_char c s of Some i \<Rightarrow> Some (Suc i)
     | None \<Rightarrow> if x = c then Some 0 else None)"

text \<open>\<open>Path(name).name\<close> and \<open>Path(name).suffix\<close>: the last component that is neither empty nor a dot.\<close>

definition py_path_name :: "string \<Rightarrow> string" where
  "py_path_name s = (let cs = filter (\<lambda>c. c \<noteq> [] \<and> c \<noteq> ''.'') (split_char (CHR ''/'') s)
     in if cs = [] then [] else last cs)"

definition py_path_suffix :: "string \<Rightarrow> string" where
  "py_path_suffix s = (let nm = py_path_name s in
     case rfind_char (CHR ''.'') nm of
       Some i \<Rightarrow> if 0 < i \<and> i < length nm - 1 then drop i nm else []
     | None \<Rightarrow> [])"

text \<open>\<open>stem, dot, ext = safe_name.rpartition(".")\<close> with the short digest put before the extension.\<close>

definition disambiguated :: "string \<Rightarrow> string \<Rightarrow> string" where
  "disambiguated safe_name sha8 = (case rfind_char (CHR ''.'') safe_name of
     Some i \<Rightarrow> take i safe_name @ ''-'' @ sha8 @ ''.'' @ drop (Suc i) safe_name
   | None \<Rightarrow> safe_name @ ''-'' @ sha8)"

subsection \<open>The store\<close>

record artifact =
  ar_sha256 :: string
  ar_name :: string
  ar_mime :: string
  ar_size :: nat
  ar_path :: string
  ar_sample_id :: "string option"
  ar_run_id :: "string option"

definition guess_mime :: "(string \<Rightarrow> string option) \<Rightarrow> string \<Rightarrow> string" where
  "guess_mime guess name = (case guess name of
     Some t \<Rightarrow> if t = [] then ''application/octet-stream'' else t
   | None \<Rightarrow> ''application/octet-stream'')"

definition shard_path :: "string \<Rightarrow> string \<Rightarrow> fpath" where
  "shard_path sh ext = [''blobs'', take 2 sh, sh @ ext]"

definition tmp_path :: "string \<Rightarrow> string \<Rightarrow> fpath" where
  "tmp_path sh ext = [''blobs'', take 2 sh, sh @ ext @ ''.tmp'']"

text \<open>The blob: written to a temporary name and renamed, unless it is already there.\<close>

definition put_blob :: "string \<Rightarrow> string \<Rightarrow> string \<Rightarrow> fs \<Rightarrow> fs" where
  "put_blob sh ext content f =
     (if fs_exists f (shard_path sh ext) then f
      else fs_rename (tmp_path sh ext) (shard_path sh ext) (fs_write (tmp_path sh ext) content f))"

text \<open>The copy for human readers, under the subfolder, with the collision handling.\<close>

definition human_path :: "string \<Rightarrow> string \<Rightarrow> string \<Rightarrow> string \<Rightarrow> fs \<Rightarrow> fpath" where
  "human_path sh ext subfolder name f =
     (let safe_sub = safe_path_component subfolder;
          safe_name = safe_path_component name;
          p = [safe_sub, safe_name]
      in if fs_exists f p \<and> fs_inode f p \<noteq> fs_inode f (shard_path sh ext)
         then [safe_sub, disambiguated safe_name (take 8 sh)] else p)"

definition put_human :: "bool \<Rightarrow> string \<Rightarrow> string \<Rightarrow> string \<Rightarrow> string \<Rightarrow> string \<Rightarrow> fs \<Rightarrow> fs" where
  "put_human can_link sh ext subfolder name content f =
     (let p = human_path sh ext subfolder name f in
      if fs_exists f p then f
      else if can_link then fs_link (shard_path sh ext) p f
      else fs_write p content f)"

definition store_put ::
  "(string \<Rightarrow> string) \<Rightarrow> (string \<Rightarrow> string option) \<Rightarrow> bool \<Rightarrow> string \<Rightarrow> string \<Rightarrow> string \<Rightarrow> string option
    \<Rightarrow> string option \<Rightarrow> string option \<Rightarrow> string option \<Rightarrow> fs \<Rightarrow> artifact \<times> fs" where
  "store_put sha guess can_link root content name mime subfolder sample_id run_id f =
     (let sh = sha content;
          ext = py_path_suffix name;
          f1 = put_blob sh ext content f;
          f2 = (case subfolder of
                  None \<Rightarrow> f1
                | Some sub \<Rightarrow> if sub = [] then f1 else put_human can_link sh ext sub name content f1)
      in (\<lparr> ar_sha256 = sh, ar_name = name,
            ar_mime = (case mime of None \<Rightarrow> guess_mime guess name | Some t \<Rightarrow> if t = [] then guess_mime guess name else t),
            ar_size = length content, ar_path = py_join ''/'' (root # shard_path sh ext),
            ar_sample_id = sample_id, ar_run_id = run_id \<rparr>, f2))"

text \<open>\<open>get\<close>: the first file of the shard directory, in its listing order, whose name starts with the digest.\<close>

definition in_shard :: "string \<Rightarrow> fpath \<Rightarrow> bool" where
  "in_shard sh p = (case p of [b, d, n] \<Rightarrow> b = ''blobs'' \<and> d = take 2 sh \<and> py_startswith n sh | _ \<Rightarrow> False)"

definition store_get :: "string \<Rightarrow> fs \<Rightarrow> exn + string" where
  "store_get sh f = (case find (\<lambda>x. in_shard sh (fst x)) (fs_names f) of
     None \<Rightarrow> Inl (Exn ''FileNotFoundError'' (''artifact not found: '' @ sh))
   | Some x \<Rightarrow> Inr (fs_data f (snd x)))"

subsection \<open>File-system facts\<close>

lemma fs_inode_lt: "fs_wf f \<Longrightarrow> fs_inode f p = Some i \<Longrightarrow> i < fs_next f"
  by (fastforce simp: fs_wf_def fs_inode_def dest: map_of_SomeD)

lemma map_of_filter_key: "map_of (filter (\<lambda>x. P (fst x)) xs) p = (if P p then map_of xs p else None)"
  by (induction xs) auto

lemma fs_inode_write: "fs_inode (fs_write p c f) q =
    (if q = p \<and> fs_inode f p = None then Some (fs_next f) else fs_inode f q)"
  by (auto simp: fs_write_def fs_inode_def map_add_def split: option.splits)

lemma fs_inode_rename: "fs_inode f src = Some i \<Longrightarrow> src \<noteq> dst \<Longrightarrow> fs_inode (fs_rename src dst f) q =
    (if q = dst then Some i else if q = src then None else fs_inode f q)"
  using map_of_filter_key [of "\<lambda>x. x \<noteq> src \<and> x \<noteq> dst" "fs_names f" q]
  by (auto simp: fs_rename_def fs_inode_def map_add_def split: option.splits)

lemma fs_inode_link: "fs_inode f src = Some i \<Longrightarrow> fs_inode f dst = None \<Longrightarrow>
    fs_inode (fs_link src dst f) q = (if q = dst then Some i else fs_inode f q)"
  by (auto simp: fs_link_def fs_inode_def map_add_def split: option.splits)

lemma fs_data_rename [simp]: "fs_data (fs_rename src dst f) = fs_data f"
  by (simp add: fs_rename_def split: option.splits)

lemma fs_data_link [simp]: "fs_data (fs_link src dst f) = fs_data f"
  by (simp add: fs_link_def split: option.splits)

lemma fs_read_write_new:
  "fs_wf f \<Longrightarrow> fs_inode f p = None \<Longrightarrow> fs_read (fs_write p c f) q = (if q = p then Some c else fs_read f q)"
  using fs_inode_lt [of f q] fs_inode_write [of p c f q]
  by (cases "fs_inode f q") (auto simp: fs_read_def fs_write_def)

lemma fs_wf_write: "fs_wf f \<Longrightarrow> fs_wf (fs_write p c f)"
  by (auto simp: fs_wf_def fs_write_def fs_inode_def map_of_eq_None_iff less_SucI split: option.splits)

lemma fs_wf_rename: "fs_wf f \<Longrightarrow> fs_wf (fs_rename src dst f)"
  using fs_inode_lt [of f src]
  by (auto simp: fs_wf_def fs_rename_def distinct_map_filter split: option.splits)

lemma fs_wf_link: "fs_wf f \<Longrightarrow> fs_inode f dst = None \<Longrightarrow> fs_wf (fs_link src dst f)"
  using fs_inode_lt [of f src]
  by (auto simp: fs_wf_def fs_link_def fs_inode_def map_of_eq_None_iff split: option.splits)

lemma fs_exists_read: "fs_exists f p \<longleftrightarrow> (\<exists>c. fs_read f p = Some c)"
  by (auto simp: fs_exists_def fs_read_def)

subsection \<open>What a put does\<close>

lemma put_blob_effect:
  assumes wf: "fs_wf f" and tmp: "\<not> fs_exists f (tmp_path sh ext)" and g: "g = put_blob sh ext c f"
  shows "fs_wf g" "fs_read g q = (if q = shard_path sh ext \<and> \<not> fs_exists f q then Some c else fs_read f q)"
    "\<not> fs_exists g (tmp_path sh ext)"
proof -
  let ?t = "tmp_path sh ext" and ?d = "shard_path sh ext"
  have ne: "?t \<noteq> ?d" by (simp add: tmp_path_def shard_path_def)
  have "fs_wf g \<and> fs_read g q = (if q = ?d \<and> \<not> fs_exists f q then Some c else fs_read f q) \<and> \<not> fs_exists g ?t"
  proof (cases "fs_exists f ?d")
    case True
    then show ?thesis using wf tmp g by (auto simp: put_blob_def)
  next
    case False
    let ?w = "fs_write ?t c f"
    have none: "fs_inode f ?t = None" "fs_inode f ?d = None" using tmp False by (auto simp: fs_exists_def)
    have i: "fs_inode ?w ?t = Some (fs_next f)" by (simp add: fs_inode_write none)
    note r = fs_inode_rename [OF i ne]
    have g: "g = fs_rename ?t ?d ?w" using False g by (simp add: put_blob_def)
    have rd: "fs_read g q = (if q = ?d then Some c else if q = ?t then None else fs_read f q)"
      using fs_read_write_new [OF wf none(1), of c q] fs_read_write_new [OF wf none(1), of c ?t] i
      by (auto simp: g fs_read_def r)
    have "fs_read f ?t = None" "fs_read f ?d = None" using none by (simp_all add: fs_read_def)
    with rd ne have "fs_read g q = (if q = ?d \<and> \<not> fs_exists f q then Some c else fs_read f q)"
      using False by auto
    then show ?thesis
      using ne fs_wf_rename [OF fs_wf_write [OF wf]] r by (simp add: g fs_exists_def)
  qed
  then show "fs_wf g" "fs_read g q = (if q = ?d \<and> \<not> fs_exists f q then Some c else fs_read f q)"
    "\<not> fs_exists g ?t" by auto
qed

lemma put_human_effect:
  assumes wf: "fs_wf f" and d: "fs_read f (shard_path sh ext) = Some c0" and p: "p = human_path sh ext sub name f"
    and g: "g = put_human can_link sh ext sub name c f"
  shows "fs_wf g" "fs_read g q = (if q = p \<and> \<not> fs_exists f p then Some (if can_link then c0 else c) else fs_read f q)"
proof -
  obtain i where i: "fs_inode f (shard_path sh ext) = Some i" "fs_data f i = c0"
    using d by (auto simp: fs_read_def)
  have "fs_wf g \<and> fs_read g q = (if q = p \<and> \<not> fs_exists f p then Some (if can_link then c0 else c) else fs_read f q)"
  proof (cases "fs_exists f p")
    case True
    then show ?thesis using wf g p by (simp add: put_human_def Let_def)
  next
    case False
    then have none: "fs_inode f p = None" by (simp add: fs_exists_def)
    show ?thesis
    proof (cases can_link)
      case True
      then have "g = fs_link (shard_path sh ext) p f" using False g p by (simp add: put_human_def Let_def)
      then show ?thesis
        using fs_wf_link [OF wf none] fs_inode_link [OF i(1) none] i(2) False True by (simp add: fs_read_def)
    next
      case c: False
      then have "g = fs_write p c f" using False g p by (simp add: put_human_def Let_def)
      then show ?thesis using fs_wf_write [OF wf] fs_read_write_new [OF wf none] False c by simp
    qed
  qed
  then show "fs_wf g" "fs_read g q = (if q = p \<and> \<not> fs_exists f p then Some (if can_link then c0 else c) else fs_read f q)"
    by auto
qed

text \<open>Every blob is stored under the digest of its content.\<close>

definition blobs_ok :: "(string \<Rightarrow> string) \<Rightarrow> fs \<Rightarrow> bool" where
  "blobs_ok sha f \<longleftrightarrow> (\<forall>d n c. fs_read f [''blobs'', d, n] = Some c \<longrightarrow> py_startswith n (sha c) \<and> d = take 2 (sha c))"

definition fixed_digest :: "(string \<Rightarrow> string) \<Rightarrow> bool" where
  "fixed_digest sha \<longleftrightarrow> (\<forall>c. length (sha c) = 64)"

lemma fs_read_member: "fs_wf f \<Longrightarrow> (p, i) \<in> set (fs_names f) \<Longrightarrow> fs_read f p = Some (fs_data f i)"
  by (simp add: fs_wf_def fs_read_def fs_inode_def)

lemma store_get_ok:
  assumes "fs_wf f" "blobs_ok sha f" "fixed_digest sha" "length sh = 64"
  shows "case store_get sh f of Inr c \<Rightarrow> sha c = sh
    | Inl e \<Rightarrow> \<forall>n c. fs_read f [''blobs'', take 2 sh, n] = Some c \<longrightarrow> sha c \<noteq> sh"
proof (cases "find (\<lambda>x. in_shard sh (fst x)) (fs_names f)")
  case None
  have "sha c \<noteq> sh" if r: "fs_read f [''blobs'', take 2 sh, n] = Some c" for n c
  proof
    assume s: "sha c = sh"
    from r obtain i where "([''blobs'', take 2 sh, n], i) \<in> set (fs_names f)"
      by (auto simp: fs_read_def fs_inode_def dest: map_of_SomeD)
    moreover have "py_startswith n sh" using assms(2) r s by (auto simp: blobs_ok_def)
    ultimately show False using None by (auto simp: find_None_iff in_shard_def)
  qed
  with None show ?thesis by (simp add: store_get_def)
next
  case (Some x)
  then have x: "x \<in> set (fs_names f)" "in_shard sh (fst x)" by (auto simp: find_Some_iff)
  obtain q i where q: "x = (q, i)" by (cases x)
  with x(2) obtain n where "q = [''blobs'', take 2 sh, n]" "py_startswith n sh"
    by (auto simp: in_shard_def split: list.splits)
  with q have n: "x = ([''blobs'', take 2 sh, n], i)" "py_startswith n sh" by simp_all
  with x have "fs_read f [''blobs'', take 2 sh, n] = Some (fs_data f i)"
    using fs_read_member [OF assms(1)] by simp
  then have "prefix (sha (fs_data f i)) n" using assms(2) by (simp add: blobs_ok_def py_startswith_prefix)
  with n(2) assms(3,4) have "sha (fs_data f i) = sh"
    by (auto simp: py_startswith_prefix prefix_def fixed_digest_def append_eq_append_conv)
  with Some n show ?thesis by (simp add: store_get_def)
qed

lemma put_blob_ok:
  assumes "fs_wf f" "blobs_ok sha f" "\<not> fs_exists f (tmp_path (sha c) ext)"
  shows "blobs_ok sha (put_blob (sha c) ext c f)"
  unfolding blobs_ok_def put_blob_effect(2) [OF assms(1,3) refl]
  using assms(2) by (auto simp: blobs_ok_def shard_path_def split: if_splits)

lemma human_path_length: "length (human_path sh ext sub name f) = 2"
  by (simp add: human_path_def Let_def)

lemma put_human_ok:
  assumes "fs_wf f" "blobs_ok sha f" "fs_read f (shard_path sh ext) = Some c0"
  shows "blobs_ok sha (put_human can_link sh ext sub name c f)"
proof -
  have "[''blobs'', d, n] \<noteq> human_path sh ext sub name f" for d n
  proof
    assume "[''blobs'', d, n] = human_path sh ext sub name f"
    then have "length [''blobs'', d, n] = 2" by (simp add: human_path_length)
    then show False by simp
  qed
  then show ?thesis
    unfolding blobs_ok_def put_human_effect(2) [OF assms(1,3) refl refl] using assms(2) by (auto simp: blobs_ok_def)
qed

lemma put_blob_content:
  assumes "fs_wf f" "blobs_ok sha f" "fixed_digest sha" "\<not> fs_exists f (tmp_path (sha c) ext)"
  obtains c0 where "fs_read (put_blob (sha c) ext c f) (shard_path (sha c) ext) = Some c0" "sha c0 = sha c"
proof -
  note e = put_blob_effect(2) [OF assms(1,4) refl, where q = "shard_path (sha c) ext" and c = c]
  show ?thesis
  proof (cases "fs_exists f (shard_path (sha c) ext)")
    case True
    then obtain c0 where c0: "fs_read f (shard_path (sha c) ext) = Some c0" by (auto simp: fs_exists_read)
    then have "prefix (sha c0) (sha c @ ext)" using assms(2) by (auto simp: blobs_ok_def shard_path_def py_startswith_prefix)
    then have "sha c0 = sha c" using assms(3) by (auto simp: prefix_def fixed_digest_def append_eq_append_conv)
    with that e True c0 show ?thesis by simp
  next
    case False
    with that e show ?thesis by simp
  qed
qed

lemma store_put_eq: "store_put sha guess can_link root content name mime subfolder sample_id run_id f = (a, g) \<Longrightarrow>
    ar_sha256 a = sha content \<and> g = (case subfolder of None \<Rightarrow> put_blob (sha content) (py_path_suffix name) content f
      | Some sub \<Rightarrow> if sub = [] then put_blob (sha content) (py_path_suffix name) content f
          else put_human can_link (sha content) (py_path_suffix name) sub name content
                 (put_blob (sha content) (py_path_suffix name) content f))"
  by (auto simp: store_put_def Let_def)

lemma safe_char_not_sep: "\<not> safe_char (CHR ''/'')" "\<not> safe_char (CHR 0x5C)" "safe_char (CHR ''_'')" "\<not> safe_char (CHR 0x00)"
  by code_simp+

text \<open>The last character put in by a replacement never makes two dots: single characters are mapped one by one.\<close>

lemma hd_take: "n \<noteq> 0 \<Longrightarrow> xs \<noteq> [] \<Longrightarrow> hd (take n xs) = hd xs"
  by (cases xs; cases n) auto

lemma put_stores:
  assumes "fs_wf f" "blobs_ok sha f" "fixed_digest sha"
    and "\<not> fs_exists f (tmp_path (sha content) (py_path_suffix name))"
    and "store_put sha guess can_link root content name mime subfolder sample_id run_id f = (a, g)"
  shows "(\<exists>c. store_get (ar_sha256 a) g = Inr c \<and> sha c = sha content)
    \<and> fs_wf g \<and> blobs_ok sha g \<and> (\<forall>p c. fs_read f p = Some c \<longrightarrow> fs_read g p = Some c)"
proof -
  let ?sh = "sha content" and ?ext = "py_path_suffix name"
  let ?b = "put_blob ?sh ?ext content f"
  note eq = store_put_eq [OF assms(5)]
  note b = put_blob_effect [OF assms(1,4) refl, where c = content] put_blob_ok [OF assms(1,2,4)]
  obtain c0 where c0: "fs_read ?b (shard_path ?sh ?ext) = Some c0" "sha c0 = ?sh"
    by (rule put_blob_content [OF assms(1-4)])
  have keep: "fs_read ?b p = Some c" if "fs_read f p = Some c" for p c
    using b(2) [of p] that by (auto simp: fs_exists_read)
  have g: "fs_wf g \<and> blobs_ok sha g \<and> fs_read g (shard_path ?sh ?ext) = Some c0
      \<and> (\<forall>p c. fs_read ?b p = Some c \<longrightarrow> fs_read g p = Some c)"
  proof (cases "subfolder = None \<or> subfolder = Some []")
    case True
    then have "g = ?b" using eq by auto
    then show ?thesis using b(1,4) c0 by simp
  next
    case False
    then obtain sub where "subfolder = Some sub" "sub \<noteq> []" by auto
    then have "g = put_human can_link ?sh ?ext sub name content ?b" using eq by simp
    then show ?thesis
      using put_human_effect [OF b(1) c0(1) refl refl, of can_link sub name content] put_human_ok [OF b(1,4) c0(1)] c0
      by (auto simp: fs_exists_read)
  qed
  have "length ?sh = 64" using assms(3) by (simp add: fixed_digest_def)
  then have "case store_get ?sh g of Inr c \<Rightarrow> sha c = ?sh
    | Inl e \<Rightarrow> \<forall>n c. fs_read g [''blobs'', take 2 ?sh, n] = Some c \<longrightarrow> sha c \<noteq> ?sh"
    using store_get_ok [of g sha ?sh] g assms(3) by blast
  then have "\<exists>c. store_get ?sh g = Inr c \<and> sha c = ?sh"
    using g c0(2) by (fastforce simp: shard_path_def split: sum.splits)
  with g keep eq show ?thesis by auto
qed

section \<open>Properties\<close>

text \<open>
  \<open>_safe_path_component\<close> never lets a name out of the run's directory: whatever text a model or a user
  supplies, the result is not empty, at most 120 characters long, made of letters, digits, dots,
  underscores and dashes only (so without separators), and does not start with a dot.
\<close>

theorem safe_path_component_is_safe:
  "safe_path_component s \<noteq> [] \<and> length (safe_path_component s) \<le> 120
    \<and> list_all safe_char (safe_path_component s)
    \<and> CHR ''/'' \<notin> set (safe_path_component s) \<and> CHR 0x5C \<notin> set (safe_path_component s)
    \<and> hd (safe_path_component s) \<noteq> CHR ''.''"
proof -
  define m where "m = map (\<lambda>c. if safe_char c then c else CHR ''_'')
     (py_replace ''..'' ''_'' (py_replace [CHR 0x5C] ''_'' (py_replace ''/'' ''_'' s)))"
  define out where "out = (if py_strip_chars ''._'' m = [] then ''_'' else py_strip_chars ''._'' m)"
  have p: "safe_path_component s = take 120 out"
    by (simp add: safe_path_component_def Let_def m_def out_def)
  have ne: "out \<noteq> []" by (simp add: out_def)
  have "\<forall>c\<in>set m. safe_char c" using safe_char_not_sep by (auto simp: m_def)
  then have safe: "\<forall>c\<in>set out. safe_char c"
    using set_py_strip_chars [of "''._''" m] safe_char_not_sep by (auto simp: out_def)
  then have s: "\<forall>c\<in>set (take 120 out). safe_char c" by (auto dest: in_set_takeD)
  have "hd out \<noteq> CHR ''.''"
    using py_strip_chars_hd [of "''._''" m] by (auto simp: out_def)
  then have "hd (take 120 out) \<noteq> CHR ''.''" using ne by (simp add: hd_take)
  with s ne show ?thesis using safe_char_not_sep unfolding p by (auto simp: list_all_iff)
qed

text \<open>
  C16: storing keeps the store sound. After \<open>put\<close>, \<open>get\<close> by the returned digest answers with content of
  that digest, every blob still lies under the digest of its content, and every file that was
  readable before reads the same. (Unless an interrupted put of the same content left its temporary
  file behind; SHA-256 has a fixed length.)
\<close>

theorem store_put_get:
  assumes "fs_wf f" "blobs_ok sha f" "fixed_digest sha"
    and "\<not> fs_exists f (tmp_path (sha content) (py_path_suffix name))"
    and "store_put sha guess can_link root content name mime subfolder sample_id run_id f = (a, g)"
  shows "(\<exists>c. store_get (ar_sha256 a) g = Inr c \<and> sha c = sha content)
    \<and> fs_wf g \<and> blobs_ok sha g \<and> (\<forall>p c. fs_read f p = Some c \<longrightarrow> fs_read g p = Some c)"
  by (rule put_stores [OF assms])

definition demo_digest :: "string \<Rightarrow> string" where
  "demo_digest c = take 64 (c @ replicate 64 (CHR ''0''))"

lemma demo_fixed: "fixed_digest demo_digest"
  by (auto simp: fixed_digest_def demo_digest_def min_def)

lemma fs_empty_ok: "fs_wf fs_empty" "blobs_ok sha fs_empty" "\<not> fs_exists fs_empty p"
  by (auto simp: fs_wf_def fs_empty_def blobs_ok_def fs_read_def fs_inode_def fs_exists_def)

theorem store_put_get_witness:
  "\<exists>c. store_get (demo_digest ''png'') (snd (store_put demo_digest (\<lambda>_. None) True ''runs/r'' ''png'' ''a.png'' None
     (Some ''s1'') None None fs_empty)) = Inr c \<and> demo_digest c = demo_digest ''png''"
  using store_put_get [OF fs_empty_ok(1,2) demo_fixed fs_empty_ok(3) prod.collapse [symmetric],
      of "\<lambda>_. None" True "''runs/r''" "''png''" "''a.png''" None "Some ''s1''" None None]
  by (simp add: store_put_def Let_def)

text \<open>
  With a subfolder the content is also found by a human reader. After \<open>put\<close> a file in the sanitised
  subfolder holds content of the returned digest, unless the name is taken by other content and its
  disambiguated form (eight digits of the digest) is taken as well.
\<close>

theorem store_put_human_copy:
  assumes "fs_wf f" "blobs_ok sha f" "fixed_digest sha"
    and "\<not> fs_exists f (tmp_path (sha content) (py_path_suffix name))" "sub \<noteq> []"
    and "store_put sha guess can_link root content name mime (Some sub) sample_id run_id f = (a, g)"
    and "\<not> fs_exists f [safe_path_component sub, disambiguated (safe_path_component name) (take 8 (sha content))]"
  shows "\<exists>n c. fs_read g [safe_path_component sub, n] = Some c \<and> sha c = sha content"
proof -
  let ?sh = "sha content" and ?ext = "py_path_suffix name"
  let ?b = "put_blob ?sh ?ext content f"
  let ?p = "human_path ?sh ?ext sub name ?b"
  note b = put_blob_effect [OF assms(1,4) refl, where c = content]
  obtain c0 where c0: "fs_read ?b (shard_path ?sh ?ext) = Some c0" "sha c0 = ?sh"
    by (rule put_blob_content [OF assms(1-4)])
  have g: "g = put_human can_link ?sh ?ext sub name content ?b"
    using store_put_eq [OF assms(6)] assms(5) by simp
  have "\<exists>n. ?p = [safe_path_component sub, n]" by (simp add: human_path_def Let_def)
  then obtain n where n: "?p = [safe_path_component sub, n]" by blast
  have rd: "fs_read g ?p = (if \<not> fs_exists ?b ?p then Some (if can_link then c0 else content) else fs_read ?b ?p)"
    using put_human_effect(2) [OF b(1) c0(1) refl g, of ?p] by simp
  have "\<exists>c. fs_read g ?p = Some c \<and> sha c = ?sh"
  proof (cases "fs_exists ?b ?p")
    case False
    with rd c0 show ?thesis by simp
  next
    case True
    let ?q = "[safe_path_component sub, disambiguated (safe_path_component name) (take 8 ?sh)]"
    have "\<not> fs_exists ?b ?q" using assms(7) b(2) [of ?q] by (simp add: fs_exists_read shard_path_def)
    with True have "?p \<noteq> ?q" by auto
    then have "fs_inode ?b ?p = fs_inode ?b (shard_path ?sh ?ext)"
      using True by (auto simp: human_path_def Let_def split: if_splits)
    then have "fs_read ?b ?p = Some c0" using c0(1) by (simp add: fs_read_def)
    with rd True c0 show ?thesis by simp
  qed
  with n show ?thesis by auto
qed

theorem store_put_human_copy_witness:
  "\<exists>n c. fs_read (snd (store_put demo_digest (\<lambda>_. None) True ''runs/r'' ''png'' ''a.png'' None
     (Some ''s1'') None None fs_empty)) [safe_path_component ''s1'', n] = Some c \<and> demo_digest c = demo_digest ''png''"
  using store_put_human_copy [OF fs_empty_ok(1,2) demo_fixed fs_empty_ok(3) _ prod.collapse [symmetric] fs_empty_ok(3),
      of "''s1''"] by simp

end
