(* ===== verification/ArtifactTools.thy ===== *)
theory ArtifactTools
  imports Tools ArtifactStore
begin

text \<open>
  The artifact tools of the agent (\<open>tools/artifact.py\<close>): the artifact store behind the envelope of the tools. The
  world of a call is the file system; the metadata of a call come from where the browser tools have theirs.
\<close>

record put_args =
  pa_content :: string
  pa_name :: string
  pa_mime :: "string option"
  pa_sample_id :: "string option"
  pa_run_id :: "string option"

text \<open>\<open>model_dump(mode="json")\<close> of an artifact; \<open>created\<close> is the time of its creation.\<close>

definition dump_artifact :: "string \<Rightarrow> artifact \<Rightarrow> pydict" where
  "dump_artifact created a = [(''sha256'', PStr (ar_sha256 a)), (''name'', PStr (ar_name a)), (''mime'', PStr (ar_mime a)),
     (''size'', PInt (int (ar_size a))), (''path'', PStr (ar_path a)), (''sample_id'', opt_pv (ar_sample_id a)),
     (''run_id'', opt_pv (ar_run_id a)), (''created_at'', PStr created)]"

definition artifact_put ::
  "fs session \<Rightarrow> (string \<Rightarrow> string) \<Rightarrow> (string \<Rightarrow> string option) \<Rightarrow> bool \<Rightarrow> string \<Rightarrow> string \<Rightarrow> put_args \<Rightarrow> fs \<Rightarrow> tool_result \<times> fs" where
  "artifact_put s sha guess can_link base created a = invoke s ''artifact.put'' (\<lambda>f.
     case store_put sha guess can_link base (pa_content a) (pa_name a) (pa_mime a) None (pa_sample_id a) (pa_run_id a) f of
       (x, g) \<Rightarrow> (Inr [(''artifact'', PDict (dump_artifact created x))], g))"

text \<open>\<open>GetArgs\<close> refuses a digest that is not 64 characters long before the tool is called.\<close>

definition artifact_get :: "fs session \<Rightarrow> string \<Rightarrow> fs \<Rightarrow> exn + tool_result \<times> fs" where
  "artifact_get s sh f =
     (if length sh \<noteq> 64 then Inl (Exn ''ValidationError'' ''sha256'')
      else Inr (invoke s ''artifact.get'' (\<lambda>f. (bindE (store_get sh f) (\<lambda>c. Inr [(''sha256'', PStr sh), (''size'', PInt (int (length c)))]), f)) f))"

section \<open>Properties\<close>

text \<open>
  What the agent stores it finds again. A put on a sound store always answers ok, with the digest and the size of the
  content and the sample and run it was given, and leaves the store sound and every file readable as before; a get of
  that digest answers ok with the size of content of that digest. A get never changes the store, and reports a
  digest that is not there as an error.
\<close>

theorem artifact_tools_find_what_they_store:
  assumes "fs_wf f" "blobs_ok sha f" "fixed_digest sha"
    and "\<not> fs_exists f (tmp_path (sha (pa_content a)) (py_path_suffix (pa_name a)))"
    and "artifact_put s sha guess can_link base created a f = (r, g)"
  shows "tr_ok r \<and> (\<exists>d. dget (tr_data r) ''artifact'' = PDict d \<and> dget d ''sha256'' = PStr (sha (pa_content a))
      \<and> dget d ''size'' = PInt (int (length (pa_content a))) \<and> dget d ''sample_id'' = opt_pv (pa_sample_id a) \<and> dget d ''run_id'' = opt_pv (pa_run_id a))
    \<and> fs_wf g \<and> blobs_ok sha g \<and> (\<forall>p c. fs_read f p = Some c \<longrightarrow> fs_read g p = Some c)
    \<and> (\<exists>r' c. artifact_get s (sha (pa_content a)) g = Inr (r', g) \<and> tr_ok r' \<and> sha c = sha (pa_content a) \<and> dget (tr_data r') ''size'' = PInt (int (length c)))
    \<and> (\<forall>sh h e. length sh = 64 \<and> store_get sh h = Inl e \<longrightarrow>
        (\<exists>r'. artifact_get s sh h = Inr (r', h) \<and> \<not> tr_ok r' \<and> tr_error r' = Some (''FileNotFoundError: artifact not found: '' @ sh)))"
proof -
  obtain x where x: "store_put sha guess can_link base (pa_content a) (pa_name a) (pa_mime a) None (pa_sample_id a) (pa_run_id a) f = (x, g)"
    using assms(5) by (auto simp: artifact_put_def invoke_def split: prod.split_asm)
  note stored = put_stores [OF assms(1-4) x]
  obtain c where c: "store_get (sha (pa_content a)) g = Inr c" "sha c = sha (pa_content a)" using stored store_put_eq [OF x] by auto
  have "x = fst (store_put sha guess can_link base (pa_content a) (pa_name a) (pa_mime a) None (pa_sample_id a) (pa_run_id a) f)" using x by simp
  then have xs: "ar_sha256 x = sha (pa_content a)" "ar_size x = length (pa_content a)" "ar_sample_id x = pa_sample_id a" "ar_run_id x = pa_run_id a"
    by (simp_all add: store_put_def Let_def)
  have r: "tr_ok r" "tr_data r = [(''artifact'', PDict (dump_artifact created x))]" using assms(5) x by (auto simp: artifact_put_def invoke_def)
  have len: "length (sha (pa_content a)) = 64" using assms(3) by (simp add: fixed_digest_def)
  have miss: "store_get sh h = Inl e \<Longrightarrow> e = Exn ''FileNotFoundError'' (''artifact not found: '' @ sh)" for sh h e
    by (auto simp: store_get_def split: option.split_asm)
  show ?thesis
    using r xs stored c len by (auto simp: dump_artifact_def artifact_get_def invoke_def bindE_def exn_text_def dest!: miss)
qed

definition demo_put :: put_args where
  "demo_put = \<lparr> pa_content = ''png'', pa_name = ''a.png'', pa_mime = None, pa_sample_id = Some ''s1'', pa_run_id = None \<rparr>"

theorem artifact_tools_find_what_they_store_witness:
  "\<forall>s. \<exists>r g r' c. artifact_put s demo_digest (\<lambda>_. None) True ''runs/r'' ''t0'' demo_put fs_empty = (r, g) \<and> tr_ok r
     \<and> artifact_get s (demo_digest ''png'') g = Inr (r', g) \<and> tr_ok r' \<and> demo_digest c = demo_digest ''png''"
proof
  fix s :: "fs session"
  obtain r g where p: "artifact_put s demo_digest (\<lambda>_. None) True ''runs/r'' ''t0'' demo_put fs_empty = (r, g)" by fastforce
  from artifact_tools_find_what_they_store [OF fs_empty_ok(1,2) demo_fixed fs_empty_ok(3) p]
  show "\<exists>r g r' c. artifact_put s demo_digest (\<lambda>_. None) True ''runs/r'' ''t0'' demo_put fs_empty = (r, g) \<and> tr_ok r
     \<and> artifact_get s (demo_digest ''png'') g = Inr (r', g) \<and> tr_ok r' \<and> demo_digest c = demo_digest ''png''"
    unfolding p by (auto simp: demo_put_def)
qed

end
