(* ===== verification/AuditLog.thy ===== *)
theory AuditLog
  imports Json
begin

text \<open>
  The append-only hash-chained audit log: \<open>storage/audit_log.py\<close> (SQLite, one chain over the whole
  table) and \<open>storage/audit_log_pg.py\<close> (Postgres, one chain per run in a shared table). The table is
  the list of its rows in \<open>rowid\<close> (\<open>ordinal\<close>) order. SHA-256 is the argument \<open>sha\<close>: nothing is
  assumed of it, and tamper evidence is stated as a reduction that exhibits the colliding texts.
\<close>

record audit_row =
  a_event_id :: string
  a_kind :: string
  a_run_id :: "string option"
  a_sample_id :: "string option"
  a_timestamp :: string
  a_payload_json :: string
  a_prev_hash :: string
  a_this_hash :: string

type_synonym hash_fn = "string \<Rightarrow> string"

definition GENESIS_HASH :: string where
  "GENESIS_HASH = replicate 64 (CHR ''0'')"

subsection \<open>Hashing one event\<close>

definition unit_sep :: string where
  "unit_sep = [CHR 0x1F]"

definition hash_blob :: "string \<Rightarrow> string \<Rightarrow> string \<Rightarrow> string \<Rightarrow> pyval \<Rightarrow> string" where
  "hash_blob prev_hash event_id kind timestamp payload =
     py_join unit_sep [prev_hash, event_id, kind, timestamp, canonical_json payload]"

definition audit_hash :: "hash_fn \<Rightarrow> string \<Rightarrow> string \<Rightarrow> string \<Rightarrow> string \<Rightarrow> pyval \<Rightarrow> string" where
  "audit_hash sha prev_hash event_id kind timestamp payload =
     sha (hash_blob prev_hash event_id kind timestamp payload)"

subsection \<open>The SQLite log\<close>

text \<open>The caller's arguments; \<open>ev_id\<close> and \<open>ev_payload\<close> may be absent (or falsy).\<close>

record audit_event =
  ev_kind :: string
  ev_payload :: "pydict option"
  ev_run_id :: "string option"
  ev_sample_id :: "string option"
  ev_id :: "string option"

text \<open>\<open>event_id or str(uuid.uuid4())\<close> and \<open>payload or {}\<close>\<close>

definition event_id_or :: "string \<Rightarrow> audit_event \<Rightarrow> string" where
  "event_id_or uuid ev = (case ev_id ev of Some i \<Rightarrow> if i = [] then uuid else i | None \<Rightarrow> uuid)"

definition payload_or :: "audit_event \<Rightarrow> pyval" where
  "payload_or ev = PDict (case ev_payload ev of Some d \<Rightarrow> d | None \<Rightarrow> [])"

definition last_hash :: "audit_row list \<Rightarrow> string" where
  "last_hash rows = (if rows = [] then GENESIS_HASH else a_this_hash (last rows))"

definition make_row :: "hash_fn \<Rightarrow> string \<Rightarrow> string \<Rightarrow> string \<Rightarrow> audit_event \<Rightarrow> string \<Rightarrow> audit_row" where
  "make_row sha ts uuid prev ev stored =
     \<lparr> a_event_id = event_id_or uuid ev, a_kind = ev_kind ev, a_run_id = ev_run_id ev,
       a_sample_id = ev_sample_id ev, a_timestamp = ts, a_payload_json = stored,
       a_prev_hash = prev,
       a_this_hash = audit_hash sha prev (event_id_or uuid ev) (ev_kind ev) ts (payload_or ev) \<rparr>"

text \<open>
  \<open>append\<close>: \<open>event_id\<close> is the primary key, so inserting a present one raises and leaves the table
  unchanged. \<open>ts\<close> is the clock and \<open>uuid\<close> the fresh identifier of this call.
\<close>

definition audit_append ::
  "hash_fn \<Rightarrow> string \<Rightarrow> string \<Rightarrow> audit_event \<Rightarrow> audit_row list \<Rightarrow> exn + (audit_row list \<times> string)" where
  "audit_append sha ts uuid ev rows =
     (let row = make_row sha ts uuid (last_hash rows) ev (canonical_json (payload_or ev))
      in if a_event_id row \<in> a_event_id ` set rows
         then Inl (Exn ''IntegrityError'' ''UNIQUE constraint failed: audit_log.event_id'')
         else Inr (rows @ [row], a_this_hash row))"

text \<open>The dictionary the optional \<open>on_append\<close> callback receives after the write.\<close>

definition opt_str :: "string option \<Rightarrow> pyval" where
  "opt_str x = (case x of None \<Rightarrow> PNone | Some s \<Rightarrow> PStr s)"

definition append_notice :: "audit_event \<Rightarrow> audit_row \<Rightarrow> pydict" where
  "append_notice ev row =
     [(''event_id'', PStr (a_event_id row)), (''kind'', PStr (a_kind row)),
      (''run_id'', opt_str (a_run_id row)), (''sample_id'', opt_str (a_sample_id row)),
      (''timestamp'', PStr (a_timestamp row)), (''payload'', payload_or ev),
      (''this_hash'', PStr (a_this_hash row))]"

definition root_hash :: "string option \<Rightarrow> audit_row list \<Rightarrow> string" where
  "root_hash run rows = (case run of
     None \<Rightarrow> last_hash rows
   | Some r \<Rightarrow> last_hash (filter (\<lambda>x. a_run_id x = Some r) rows))"

definition rows_for_run :: "string \<Rightarrow> audit_row list \<Rightarrow> audit_row list" where
  "rows_for_run r rows = filter (\<lambda>x. a_run_id x = Some r) rows"

definition json_error :: exn where
  "json_error = Exn ''JSONDecodeError'' ''Expecting value''"

text \<open>The loop of \<open>verify_chain\<close>: a payload that is not JSON raises out of it.\<close>

fun verify_from :: "hash_fn \<Rightarrow> string \<Rightarrow> audit_row list \<Rightarrow> exn + bool" where
  "verify_from sha expected [] = Inr True"
| "verify_from sha expected (r # rs) =
     (if a_prev_hash r \<noteq> expected then Inr False
      else (case json_loads (a_payload_json r) of
              None \<Rightarrow> Inl json_error
            | Some payload \<Rightarrow>
                if audit_hash sha (a_prev_hash r) (a_event_id r) (a_kind r) (a_timestamp r) payload
                     \<noteq> a_this_hash r
                then Inr False
                else verify_from sha (a_this_hash r) rs))"

definition verify_chain :: "hash_fn \<Rightarrow> audit_row list \<Rightarrow> exn + bool" where
  "verify_chain sha rows = verify_from sha GENESIS_HASH rows"

subsection \<open>The Postgres log\<close>

text \<open>
  One table for all runs. Appends of one run are serialised by an advisory lock keyed on the run, so
  each is one step here. The payload goes into a \<open>JSONB\<close> column and comes back as the text
  \<open>jsonb\<close> of the stored value; \<open>jsonb_keeps\<close> is what Postgres documents of it.
\<close>

definition jsonb_keeps :: "(pyval \<Rightarrow> string) \<Rightarrow> bool" where
  "jsonb_keeps jsonb \<longleftrightarrow>
     (\<forall>v. wf_pyval v \<longrightarrow> (\<exists>w. json_loads (jsonb v) = Some w \<and> sort_keys w = sort_keys v))"

definition pg_rows :: "string option \<Rightarrow> audit_row list \<Rightarrow> audit_row list" where
  "pg_rows run rows = filter (\<lambda>x. a_run_id x = run) rows"

definition pg_append ::
  "hash_fn \<Rightarrow> (pyval \<Rightarrow> string) \<Rightarrow> string \<Rightarrow> string \<Rightarrow> audit_event \<Rightarrow> audit_row list
    \<Rightarrow> exn + (audit_row list \<times> string)" where
  "pg_append sha jsonb ts uuid ev rows =
     (let row = make_row sha ts uuid (last_hash (pg_rows (ev_run_id ev) rows)) ev (jsonb (payload_or ev))
      in if a_event_id row \<in> a_event_id ` set rows
         then Inl (Exn ''UniqueViolationError'' ''audit_log_event_id_key'')
         else Inr (rows @ [row], a_this_hash row))"

definition pg_root_hash :: "string option \<Rightarrow> audit_row list \<Rightarrow> string" where
  "pg_root_hash run rows = (case run of
     None \<Rightarrow> last_hash rows
   | Some r \<Rightarrow> last_hash (pg_rows (Some r) rows))"

definition pg_verify_chain :: "hash_fn \<Rightarrow> string option \<Rightarrow> audit_row list \<Rightarrow> exn + bool" where
  "pg_verify_chain sha run rows = (case run of
     None \<Rightarrow> verify_from sha GENESIS_HASH rows
   | Some r \<Rightarrow> verify_from sha GENESIS_HASH (pg_rows (Some r) rows))"

text \<open>
  \<open>_advisory_key\<close>: the first eight bytes of the digest (the argument \<open>digest\<close>) as a signed
  big-endian 64-bit number; an absent or empty run shares key 0.
\<close>

definition bytes_signed :: "nat list \<Rightarrow> int" where
  "bytes_signed bs =
     (let n = int (foldl (\<lambda>acc b. 256 * acc + b) 0 bs)
      in if n < 2 ^ 63 then n else n - 2 ^ 64)"

definition advisory_key :: "(string \<Rightarrow> nat list) \<Rightarrow> string option \<Rightarrow> int" where
  "advisory_key digest run = (case run of
     None \<Rightarrow> 0
   | Some r \<Rightarrow> if r = [] then 0 else bytes_signed (take 8 (digest r)))"

subsection \<open>The contract both logs meet\<close>

text \<open>
  A chained log: a view of the state as a list of rows that an append extends by one row, linked to
  the last hash of the view, with a stored payload text that reads back as the payload.
\<close>

locale chained_log =
  fixes sha :: hash_fn
    and view :: "'s \<Rightarrow> audit_row list"
    and append_ok :: "'s \<Rightarrow> 's \<Rightarrow> bool"
  assumes append_links: "append_ok s t \<Longrightarrow>
    \<exists>ts uuid ev stored w. view t = view s @ [make_row sha ts uuid (last_hash (view s)) ev stored]
      \<and> json_loads stored = Some w \<and> sort_keys w = sort_keys (payload_or ev)"

lemma verify_from_append:
  "verify_from sha e (rows @ rs) = (case verify_from sha e rows of
     Inr True \<Rightarrow> verify_from sha (if rows = [] then e else a_this_hash (last rows)) rs
   | bad \<Rightarrow> bad)"
  by (induction rows arbitrary: e) (auto split: option.splits sum.splits bool.splits)

lemma verify_from_snoc:
  "verify_from sha GENESIS_HASH rows = Inr True \<Longrightarrow> json_loads stored = Some w
    \<Longrightarrow> sort_keys w = sort_keys (payload_or ev)
    \<Longrightarrow> verify_from sha GENESIS_HASH (rows @ [make_row sha ts uuid (last_hash rows) ev stored]) = Inr True"
  by (simp add: verify_from_append last_hash_def make_row_def audit_hash_def hash_blob_def
      canonical_json_def)

context chained_log
begin

lemma append_verifies:
  "verify_from sha GENESIS_HASH (view s) = Inr True \<Longrightarrow> append_ok s t
    \<Longrightarrow> verify_from sha GENESIS_HASH (view t) = Inr True"
  using append_links verify_from_snoc by (metis (no_types, lifting))

lemma appends_verify:
  "append_ok\<^sup>*\<^sup>* s t \<Longrightarrow> verify_from sha GENESIS_HASH (view s) = Inr True
    \<Longrightarrow> verify_from sha GENESIS_HASH (view t) = Inr True"
  by (induction rule: rtranclp_induct) (auto intro: append_verifies)

lemma append_extends: "append_ok s t \<Longrightarrow> prefix (view s) (view t)"
  using append_links by (metis prefixI)

lemma appends_extend: "append_ok\<^sup>*\<^sup>* s t \<Longrightarrow> prefix (view s) (view t)"
  by (induction rule: rtranclp_induct) (auto dest: append_extends intro: prefix_order.trans)

end

text \<open>One successful append, for well-formed payloads, as a relation on tables.\<close>

definition wf_event :: "audit_event \<Rightarrow> bool" where
  "wf_event ev \<longleftrightarrow> wf_pyval (payload_or ev)"

definition sqlite_appends :: "hash_fn \<Rightarrow> audit_row list \<Rightarrow> audit_row list \<Rightarrow> bool" where
  "sqlite_appends sha s t \<longleftrightarrow>
     (\<exists>ts uuid ev h. wf_event ev \<and> audit_append sha ts uuid ev s = Inr (t, h))"

text \<open>As \<open>pg_rows run\<close> sees it, an append for another run changes nothing; \<open>run\<close>'s own appends link.\<close>

definition pg_appends_to ::
  "hash_fn \<Rightarrow> (pyval \<Rightarrow> string) \<Rightarrow> string option \<Rightarrow> audit_row list \<Rightarrow> audit_row list \<Rightarrow> bool" where
  "pg_appends_to sha jsonb run s t \<longleftrightarrow>
     jsonb_keeps jsonb \<and>
     (\<exists>ts uuid ev h. wf_event ev \<and> ev_run_id ev = run \<and> pg_append sha jsonb ts uuid ev s = Inr (t, h))"

lemma make_row_run [simp]: "a_run_id (make_row sha ts uuid prev ev stored) = ev_run_id ev"
  by (simp add: make_row_def)

interpretation sqlite_log: chained_log sha "\<lambda>rows. rows" "sqlite_appends sha" for sha
proof (unfold_locales, goal_cases)
  case (1 s t)
  then obtain ts uuid ev where ev: "wf_event ev"
    "t = s @ [make_row sha ts uuid (last_hash s) ev (canonical_json (payload_or ev))]"
    by (auto simp: sqlite_appends_def audit_append_def Let_def split: if_splits)
  then have "json_loads (canonical_json (payload_or ev)) = Some (sort_keys (payload_or ev))"
    by (simp add: loads_canonical wf_event_def)
  then show ?case using ev sort_keys_idem(1) by blast
qed

interpretation pg_log: chained_log sha "pg_rows run" "pg_appends_to sha jsonb run" for sha run jsonb
proof (unfold_locales, goal_cases)
  case (1 s t)
  then obtain ts uuid ev where ev: "wf_event ev" "jsonb_keeps jsonb" "ev_run_id ev = run"
    "t = s @ [make_row sha ts uuid (last_hash (pg_rows run s)) ev (jsonb (payload_or ev))]"
    by (auto simp: pg_appends_to_def pg_append_def Let_def split: if_splits)
  then obtain w where "json_loads (jsonb (payload_or ev)) = Some w"
    "sort_keys w = sort_keys (payload_or ev)"
    by (auto simp: jsonb_keeps_def wf_event_def)
  moreover have "pg_rows run t =
      pg_rows run s @ [make_row sha ts uuid (last_hash (pg_rows run s)) ev (jsonb (payload_or ev))]"
    using ev by (simp add: pg_rows_def)
  ultimately show ?case by blast
qed

lemma pg_append_other_run:
  "pg_append sha jsonb ts uuid ev s = Inr (t, h) \<Longrightarrow> ev_run_id ev \<noteq> run \<Longrightarrow> pg_rows run t = pg_rows run s"
  by (auto simp: pg_append_def pg_rows_def Let_def split: if_splits)

text \<open>Any append to the shared table, whatever its run.\<close>

definition pg_appends :: "hash_fn \<Rightarrow> (pyval \<Rightarrow> string) \<Rightarrow> audit_row list \<Rightarrow> audit_row list \<Rightarrow> bool" where
  "pg_appends sha jsonb s t \<longleftrightarrow>
     (\<exists>ts uuid ev h. wf_event ev \<and> pg_append sha jsonb ts uuid ev s = Inr (t, h))"

lemma pg_appends_verify_run:
  assumes "jsonb_keeps jsonb" "(pg_appends sha jsonb)\<^sup>*\<^sup>* s t"
    "verify_from sha GENESIS_HASH (pg_rows run s) = Inr True"
  shows "verify_from sha GENESIS_HASH (pg_rows run t) = Inr True"
  using assms(2,3)
proof (induction rule: rtranclp_induct)
  case base
  then show ?case .
next
  case (step t u)
  from step.hyps(2) obtain ts uuid ev h
    where ev: "wf_event ev" "pg_append sha jsonb ts uuid ev t = Inr (u, h)"
    by (auto simp: pg_appends_def)
  show ?case
  proof (cases "ev_run_id ev = run")
    case True
    with ev assms(1) have "pg_appends_to sha jsonb run t u" by (auto simp: pg_appends_to_def)
    then show ?thesis using pg_log.append_verifies step.IH step.prems by blast
  next
    case False
    with ev step.IH step.prems show ?thesis by (simp add: pg_append_other_run)
  qed
qed

subsection \<open>Tamper evidence\<close>

text \<open>The text a stored row commits to, as \<open>verify_chain\<close> recomputes it.\<close>

definition row_blob :: "audit_row \<Rightarrow> string" where
  "row_blob r = hash_blob (a_prev_hash r) (a_event_id r) (a_kind r) (a_timestamp r)
     (case json_loads (a_payload_json r) of Some v \<Rightarrow> v | None \<Rightarrow> PNone)"

definition sep_free :: "audit_row \<Rightarrow> bool" where
  "sep_free r \<longleftrightarrow> CHR 0x1F \<notin> set (a_prev_hash r) \<and> CHR 0x1F \<notin> set (a_event_id r)
     \<and> CHR 0x1F \<notin> set (a_kind r) \<and> CHR 0x1F \<notin> set (a_timestamp r)"

definition row_payload :: "audit_row \<Rightarrow> pyval" where
  "row_payload r = (case json_loads (a_payload_json r) of Some v \<Rightarrow> sort_keys v | None \<Rightarrow> PNone)"

text \<open>Two rows record the same event: every hashed column agrees, payloads up to key order.\<close>

definition same_event :: "audit_row \<Rightarrow> audit_row \<Rightarrow> bool" where
  "same_event x y \<longleftrightarrow> a_prev_hash x = a_prev_hash y \<and> a_event_id x = a_event_id y
     \<and> a_kind x = a_kind y \<and> a_timestamp x = a_timestamp y \<and> a_this_hash x = a_this_hash y
     \<and> canonical_json (row_payload x) = canonical_json (row_payload y)"

lemma hash_blob_inj:
  assumes "hash_blob p i k t v = hash_blob p' i' k' t' v'"
    and "CHR 0x1F \<notin> set p \<union> set i \<union> set k \<union> set t"
    and "CHR 0x1F \<notin> set p' \<union> set i' \<union> set k' \<union> set t'"
  shows "p = p' \<and> i = i' \<and> k = k' \<and> t = t' \<and> canonical_json v = canonical_json v'"
proof -
  have "p = p' \<and> i @ CHR 0x1F # k @ CHR 0x1F # t @ CHR 0x1F # canonical_json v
      = i' @ CHR 0x1F # k' @ CHR 0x1F # t' @ CHR 0x1F # canonical_json v'"
    by (rule sep_split [where c = "CHR 0x1F"]) (use assms in \<open>auto simp: hash_blob_def unit_sep_def\<close>)
  moreover from this have "i = i' \<and> k @ CHR 0x1F # t @ CHR 0x1F # canonical_json v
      = k' @ CHR 0x1F # t' @ CHR 0x1F # canonical_json v'"
    by (intro sep_split [where c = "CHR 0x1F"]) (use assms in auto)
  moreover from this have "k = k' \<and> t @ CHR 0x1F # canonical_json v = t' @ CHR 0x1F # canonical_json v'"
    by (intro sep_split [where c = "CHR 0x1F"]) (use assms in auto)
  moreover from this have "t = t' \<and> canonical_json v = canonical_json v'"
    by (intro sep_split [where c = "CHR 0x1F"]) (use assms in auto)
  ultimately show ?thesis by blast
qed

lemma verify_snocD:
  assumes "verify_from sha GENESIS_HASH (rows @ [r]) = Inr True"
  shows "verify_from sha GENESIS_HASH rows = Inr True" "a_prev_hash r = last_hash rows"
    "a_this_hash r = sha (row_blob r)"
  using assms
  by (auto simp: verify_from_append last_hash_def row_blob_def audit_hash_def
      split: sum.splits bool.splits option.splits if_splits)

lemma canonical_sort_keys [simp]: "canonical_json (sort_keys v) = canonical_json v"
  by (simp add: canonical_json_def sort_keys_idem)

lemma same_event_blob:
  "row_blob x = row_blob y \<Longrightarrow> sep_free x \<Longrightarrow> sep_free y \<Longrightarrow> a_this_hash x = a_this_hash y \<Longrightarrow> same_event x y"
  unfolding row_blob_def same_event_def row_payload_def sep_free_def
  by (drule hash_blob_inj) (auto split: option.splits)

lemma audit_root_pins:
  assumes "verify_from sha GENESIS_HASH xs = Inr True" "verify_from sha GENESIS_HASH ys = Inr True"
    "last_hash xs = last_hash ys" "\<forall>r\<in>set xs \<union> set ys. sep_free r"
  shows "list_all2 same_event xs ys
     \<or> (\<exists>x\<in>set xs. \<exists>y\<in>set ys. row_blob x \<noteq> row_blob y \<and> sha (row_blob x) = sha (row_blob y))
     \<or> (\<exists>x\<in>set xs \<union> set ys. sha (row_blob x) = GENESIS_HASH)"
  using assms
proof (induction xs arbitrary: ys rule: rev_induct)
  case Nil
  show ?case
  proof (cases ys rule: rev_cases)
    case (snoc zs y)
    with Nil have "sha (row_blob y) = GENESIS_HASH"
      using verify_snocD(3) [of sha zs y] by (simp add: last_hash_def)
    with snoc show ?thesis by auto
  qed simp
next
  case (snoc x xs)
  note vx = verify_snocD [OF snoc.prems(1)]
  show ?case
  proof (cases ys rule: rev_cases)
    case Nil
    with snoc.prems vx have "sha (row_blob x) = GENESIS_HASH" by (simp add: last_hash_def)
    then show ?thesis by auto
  next
    case (snoc zs y)
    note vy = verify_snocD [OF snoc.prems(2) [unfolded snoc]]
    have h: "a_this_hash x = a_this_hash y" using snoc.prems(3) snoc by (simp add: last_hash_def)
    show ?thesis
    proof (cases "row_blob x = row_blob y")
      case True
      have e: "same_event x y"
        using True snoc.prems(4) snoc h by (intro same_event_blob) auto
      then have "last_hash xs = last_hash zs" using vx vy by (simp add: same_event_def)
      with snoc.IH [OF vx(1) vy(1)] snoc.prems(4) snoc
      have "list_all2 same_event xs zs
         \<or> (\<exists>x\<in>set xs. \<exists>y\<in>set zs. row_blob x \<noteq> row_blob y \<and> sha (row_blob x) = sha (row_blob y))
         \<or> (\<exists>x\<in>set xs \<union> set zs. sha (row_blob x) = GENESIS_HASH)" by auto
      with e snoc show ?thesis by (auto simp: list_all2_appendI)
    next
      case False
      with h vx vy snoc show ?thesis by auto
    qed
  qed
qed

subsection \<open>What the chain does not cover\<close>

lemma verify_ignores_run_columns:
  "verify_from sha e (map (\<lambda>r. r\<lparr>a_run_id := f r, a_sample_id := g r\<rparr>) rows) = verify_from sha e rows"
  by (induction rows arbitrary: e) (auto split: option.splits)

lemma verify_take: "verify_from sha e rows = Inr True \<Longrightarrow> verify_from sha e (take n rows) = Inr True"
  by (induction rows arbitrary: e n) (auto simp: take_Cons' split: option.splits if_splits)

subsection \<open>Concrete logs\<close>

lemma sqlite_appendsI:
  "wf_event ev \<Longrightarrow> event_id_or uuid ev \<notin> a_event_id ` set s
    \<Longrightarrow> t = s @ [make_row sha ts uuid (last_hash s) ev (canonical_json (payload_or ev))]
    \<Longrightarrow> sqlite_appends sha s t"
  unfolding sqlite_appends_def
  by (rule exI [of _ ts], rule exI [of _ uuid], rule exI [of _ ev]) (auto simp: audit_append_def Let_def make_row_def)

lemma pg_appendsI:
  "wf_event ev \<Longrightarrow> event_id_or uuid ev \<notin> a_event_id ` set s
    \<Longrightarrow> t = s @ [make_row sha ts uuid (last_hash (pg_rows (ev_run_id ev) s)) ev (jsonb (payload_or ev))]
    \<Longrightarrow> pg_appends sha jsonb s t"
  unfolding pg_appends_def
  by (rule exI [of _ ts], rule exI [of _ uuid], rule exI [of _ ev]) (auto simp: pg_append_def Let_def make_row_def)

lemma jsonb_keeps_canonical: "jsonb_keeps canonical_json"
  using loads_canonical sort_keys_idem by (fastforce simp: jsonb_keeps_def)

text \<open>A digest that computes: the text itself, marked so that it is never the genesis value.\<close>

definition demo_sha :: hash_fn where
  "demo_sha s = CHR ''#'' # s"

definition demo_event :: "string \<Rightarrow> string \<Rightarrow> audit_event" where
  "demo_event run i = \<lparr> ev_kind = ''sample.start'', ev_payload = Some [(''row'', PInt 3)], ev_run_id = Some run,
     ev_sample_id = Some ''s1'', ev_id = Some i \<rparr>"

definition demo_row :: "string \<Rightarrow> string \<Rightarrow> string \<Rightarrow> audit_row" where
  "demo_row run i prev = make_row demo_sha ''t0'' ''u'' prev (demo_event run i)
      (canonical_json (payload_or (demo_event run i)))"

lemma demo_append: "i \<notin> a_event_id ` set s \<Longrightarrow> i \<noteq> [] \<Longrightarrow> sqlite_appends demo_sha s (s @ [demo_row run i (last_hash s)])"
  by (rule sqlite_appendsI [of "demo_event run i"])
    (auto simp: demo_row_def wf_event_def demo_event_def payload_or_def event_id_or_def)

lemma demo_pg_append: "i \<notin> a_event_id ` set s \<Longrightarrow> i \<noteq> []
    \<Longrightarrow> pg_appends demo_sha canonical_json s (s @ [demo_row run i (last_hash (pg_rows (Some run) s))])"
  by (rule pg_appendsI [of "demo_event run i"])
    (auto simp: demo_row_def wf_event_def demo_event_def payload_or_def event_id_or_def)

lemma verify_chain_Nil [simp]: "verify_chain sha [] = Inr True"
  by (simp add: verify_chain_def)

lemma demo_log_one: "(sqlite_appends demo_sha)\<^sup>*\<^sup>* [] [demo_row run ''e1'' GENESIS_HASH]"
  using demo_append [of "''e1''" "[]" run] by (auto simp: last_hash_def)

section \<open>Properties\<close>

text \<open>
  C4: a log that verifies still verifies after any sequence of \<open>append\<close> calls with well-formed payloads,
  and every earlier row is still there: appending never rewrites a row.
\<close>

theorem audit_appends_verify:
  assumes "verify_chain sha s = Inr True" "(sqlite_appends sha)\<^sup>*\<^sup>* s t"
  shows "verify_chain sha t = Inr True \<and> prefix s t"
  using assms sqlite_log.appends_verify sqlite_log.appends_extend by (auto simp: verify_chain_def)

theorem audit_appends_verify_witness:
  "verify_chain demo_sha [demo_row ''r'' ''e1'' GENESIS_HASH] = Inr True"
  using audit_appends_verify [OF verify_chain_Nil demo_log_one] by blast


text \<open>The two logs of the witness differ in a payload's layout only, and \<open>same_event\<close> holds of them.\<close>

definition demo_respaced :: audit_row where
  "demo_respaced = (demo_row ''r'' ''e1'' GENESIS_HASH)\<lparr>a_payload_json := ''{ \"row\" : 3 }''\<rparr>"


text \<open>
  What the chain does not cover. Rewriting the \<open>run_id\<close> and \<open>sample_id\<close> columns of any rows leaves
  the verdict of \<open>verify_chain\<close> unchanged, and so does dropping rows from the end of a verifying log.
\<close>

theorem audit_chain_blind_spots:
  "verify_chain sha (map (\<lambda>r. r\<lparr>a_run_id := f r, a_sample_id := g r\<rparr>) rows) = verify_chain sha rows
    \<and> (verify_chain sha rows = Inr True \<longrightarrow> verify_chain sha (take n rows) = Inr True)"
  by (simp add: verify_chain_def verify_ignores_run_columns verify_take)

theorem audit_chain_blind_spots_witness:
  "verify_chain demo_sha [(demo_row ''r'' ''e1'' GENESIS_HASH)\<lparr>a_run_id := Some ''other'', a_sample_id := None\<rparr>]
     = Inr True \<and> verify_chain demo_sha (take 0 [demo_row ''r'' ''e1'' GENESIS_HASH]) = Inr True"
proof -
  have v: "verify_chain demo_sha [demo_row ''r'' ''e1'' GENESIS_HASH] = Inr True" by code_simp
  show ?thesis
    using audit_chain_blind_spots [where sha = demo_sha and f = "\<lambda>_. Some ''other''" and g = "\<lambda>_. None" and n = 0
        and rows = "[demo_row ''r'' ''e1'' GENESIS_HASH]"] v
    by simp
qed

text \<open>
  On the shared Postgres table each run's chain verifies whatever the interleaving of appends of
  different runs, given what Postgres documents of \<open>JSONB\<close> columns.
\<close>

theorem pg_run_chain_verifies:
  assumes "jsonb_keeps jsonb" "(pg_appends sha jsonb)\<^sup>*\<^sup>* [] t"
  shows "pg_verify_chain sha (Some run) t = Inr True"
  using pg_appends_verify_run [OF assms, of "Some run"] by (simp add: pg_verify_chain_def pg_rows_def)

definition demo_pg_table :: "audit_row list" where
  "demo_pg_table = [demo_row ''a'' ''e1'' GENESIS_HASH, demo_row ''b'' ''e2'' GENESIS_HASH]"

lemma demo_pg_steps: "(pg_appends demo_sha canonical_json)\<^sup>*\<^sup>* [] demo_pg_table"
proof -
  have "pg_appends demo_sha canonical_json [] [demo_row ''a'' ''e1'' GENESIS_HASH]"
    using demo_pg_append [of "''e1''" "[]" "''a''"] by (simp add: last_hash_def pg_rows_def)
  moreover have "pg_appends demo_sha canonical_json [demo_row ''a'' ''e1'' GENESIS_HASH] demo_pg_table"
    using demo_pg_append [of "''e2''" "[demo_row ''a'' ''e1'' GENESIS_HASH]" "''b''"]
    by (simp add: last_hash_def pg_rows_def demo_row_def demo_event_def make_row_def event_id_or_def demo_pg_table_def)
  ultimately show ?thesis by (meson converse_rtranclp_into_rtranclp rtranclp.rtrancl_refl)
qed

theorem pg_run_chain_verifies_witness:
  "pg_verify_chain demo_sha (Some ''a'') demo_pg_table = Inr True"
  using pg_run_chain_verifies [OF jsonb_keeps_canonical demo_pg_steps] .

text \<open>
  Without a run the Postgres verification compares every row with the row before it in the table. As
  soon as one append links to a row of its own run that is not the table's last one, it answers \<open>False\<close>
  for an untampered table.
\<close>

theorem pg_whole_table_verification_fails:
  assumes "pg_verify_chain sha None s = Inr True" "pg_append sha jsonb ts uuid ev s = Inr (t, h)"
    and "last_hash (pg_rows (ev_run_id ev) s) \<noteq> last_hash s"
  shows "pg_verify_chain sha None t = Inr False"
  using assms
  by (auto simp: pg_verify_chain_def pg_append_def Let_def verify_from_append last_hash_def make_row_def
      split: if_splits)

theorem pg_whole_table_verification_fails_witness:
  "pg_verify_chain demo_sha None demo_pg_table = Inr False"
proof -
  let ?s = "[demo_row ''a'' ''e1'' GENESIS_HASH]"
  have a: "pg_verify_chain demo_sha None ?s = Inr True" by code_simp
  have b: "pg_append demo_sha canonical_json ''t0'' ''u'' (demo_event ''b'' ''e2'') ?s
      = Inr (demo_pg_table, a_this_hash (demo_row ''b'' ''e2'' GENESIS_HASH))" by code_simp
  have c: "last_hash (pg_rows (ev_run_id (demo_event ''b'' ''e2'')) ?s) \<noteq> last_hash ?s" by code_simp
  show ?thesis by (rule pg_whole_table_verification_fails [OF a b c])
qed

end
