(* ===== verification/AuditProcs.thy ===== *)
theory AuditProcs
  imports AuditLog
begin

text \<open>
  Who writes the audit log at once. \<open>AuditLog\<close> takes an append for one step; here it is the four steps the code
  makes: the arguments are fixed, a lock is taken, the last hash is read, the row is inserted. The SQLite log has
  one lock for each open log object (\<open>storage/audit_log.py\<close>), and every process that serves a run, the coordinator
  and each worker, opens the file for itself; the Postgres log locks by run (\<open>storage/audit_log_pg.py\<close>).
\<close>

subsection \<open>An append in steps\<close>

text \<open>One call: the event, and what the clock and \<open>uuid4\<close> gave.\<close>

record append_call =
  ac_event :: audit_event
  ac_ts :: string
  ac_uuid :: string

datatype append_pc = Out | Called append_call | Locked append_call | Chained append_call string

text \<open>The table, who holds which lock, and where each thread is.\<close>

record shared_log =
  sh_rows :: "audit_row list"
  sh_locks :: "int \<Rightarrow> nat option"
  sh_pc :: "nat \<Rightarrow> append_pc"

definition quiet :: "audit_row list \<Rightarrow> shared_log" where
  "quiet rows = \<lparr> sh_rows = rows, sh_locks = (\<lambda>_. None), sh_pc = (\<lambda>_. Out) \<rparr>"

definition call_row :: "hash_fn \<Rightarrow> (pyval \<Rightarrow> string) \<Rightarrow> append_call \<Rightarrow> string \<Rightarrow> audit_row" where
  "call_row sha stored c prev = make_row sha (ac_ts c) (ac_uuid c) prev (ac_event c) (stored (payload_or (ac_event c)))"

text \<open>
  \<open>lock_of\<close> is the lock a thread takes for a call, \<open>seen\<close> the rows its \<open>SELECT\<close> looks at. The lock is released
  with the insert, also when that fails because the identifier is taken.
\<close>

inductive append_step :: "hash_fn \<Rightarrow> (pyval \<Rightarrow> string) \<Rightarrow> (nat \<Rightarrow> append_call \<Rightarrow> int) \<Rightarrow> (append_call \<Rightarrow> audit_row list \<Rightarrow> audit_row list)
    \<Rightarrow> shared_log \<Rightarrow> shared_log \<Rightarrow> bool" for sha stored lock_of seen where
  enter: "sh_pc s t = Out \<Longrightarrow> wf_event (ac_event c) \<Longrightarrow>
    append_step sha stored lock_of seen s (s\<lparr> sh_pc := (sh_pc s)(t := Called c) \<rparr>)"
| lock: "sh_pc s t = Called c \<Longrightarrow> sh_locks s (lock_of t c) = None \<Longrightarrow>
    append_step sha stored lock_of seen s (s\<lparr> sh_locks := (sh_locks s)(lock_of t c := Some t), sh_pc := (sh_pc s)(t := Locked c) \<rparr>)"
| select: "sh_pc s t = Locked c \<Longrightarrow>
    append_step sha stored lock_of seen s (s\<lparr> sh_pc := (sh_pc s)(t := Chained c (last_hash (seen c (sh_rows s)))) \<rparr>)"
| insert: "sh_pc s t = Chained c prev \<Longrightarrow>
    append_step sha stored lock_of seen s
      (s\<lparr> sh_rows := (if a_event_id (call_row sha stored c prev) \<in> a_event_id ` set (sh_rows s) then sh_rows s
                       else sh_rows s @ [call_row sha stored c prev]),
          sh_locks := (sh_locks s)(lock_of t c := None), sh_pc := (sh_pc s)(t := Out) \<rparr>)"

text \<open>The two logs: the lock of the object a thread uses, and the lock of the run of the event.\<close>

definition object_lock :: "(nat \<Rightarrow> int) \<Rightarrow> nat \<Rightarrow> append_call \<Rightarrow> int" where
  "object_lock object t c = object t"

definition whole_table :: "append_call \<Rightarrow> audit_row list \<Rightarrow> audit_row list" where
  "whole_table c rows = rows"

definition run_lock :: "(string \<Rightarrow> nat list) \<Rightarrow> nat \<Rightarrow> append_call \<Rightarrow> int" where
  "run_lock digest t c = advisory_key digest (ev_run_id (ac_event c))"

definition run_rows_of :: "append_call \<Rightarrow> audit_row list \<Rightarrow> audit_row list" where
  "run_rows_of c rows = pg_rows (ev_run_id (ac_event c)) rows"

section \<open>Lemmas\<close>

text \<open>An append as one step.\<close>

definition whole_append :: "hash_fn \<Rightarrow> (pyval \<Rightarrow> string) \<Rightarrow> (append_call \<Rightarrow> audit_row list \<Rightarrow> audit_row list) \<Rightarrow> audit_row list \<Rightarrow> audit_row list \<Rightarrow> bool" where
  "whole_append sha stored seen rows rows' \<longleftrightarrow> (\<exists>c. wf_event (ac_event c)
     \<and> a_event_id (call_row sha stored c (last_hash (seen c rows))) \<notin> a_event_id ` set rows
     \<and> rows' = rows @ [call_row sha stored c (last_hash (seen c rows))])"

lemma call_row_id [simp]: "a_event_id (call_row sha stored c prev) = event_id_or (ac_uuid c) (ac_event c)"
  by (simp add: call_row_def make_row_def)

lemma call_row_run [simp]: "a_run_id (call_row sha stored c prev) = ev_run_id (ac_event c)"
  by (simp add: call_row_def)

lemma whole_append_sqlite: "whole_append sha canonical_json whole_table = sqlite_appends sha"
proof (intro ext iffI)
  fix rows rows'
  assume "whole_append sha canonical_json whole_table rows rows'"
  then obtain c where "wf_event (ac_event c)" "audit_append sha (ac_ts c) (ac_uuid c) (ac_event c) rows
      = Inr (rows', a_this_hash (call_row sha canonical_json c (last_hash rows)))"
    by (auto simp: whole_append_def whole_table_def audit_append_def call_row_def Let_def)
  then show "sqlite_appends sha rows rows'" unfolding sqlite_appends_def by blast
next
  fix rows rows'
  assume "sqlite_appends sha rows rows'"
  then obtain ts uuid ev h where "wf_event ev" "audit_append sha ts uuid ev rows = Inr (rows', h)"
    by (auto simp: sqlite_appends_def)
  then show "whole_append sha canonical_json whole_table rows rows'"
    unfolding whole_append_def
    by (intro exI [of _ "\<lparr> ac_event = ev, ac_ts = ts, ac_uuid = uuid \<rparr>"])
      (auto simp: whole_table_def audit_append_def call_row_def Let_def split: if_split_asm)
qed

lemma whole_append_pg:
  assumes "whole_append sha jsonb run_rows_of rows rows'" shows "pg_appends sha jsonb rows rows'"
proof -
  obtain c where "wf_event (ac_event c)" "pg_append sha jsonb (ac_ts c) (ac_uuid c) (ac_event c) rows
      = Inr (rows', a_this_hash (call_row sha jsonb c (last_hash (pg_rows (ev_run_id (ac_event c)) rows))))"
    using assms by (auto simp: whole_append_def run_rows_of_def pg_append_def call_row_def Let_def)
  then show ?thesis unfolding pg_appends_def by blast
qed

text \<open>
  What the steps of one log need of its locks: a call that takes another lock does not change the rows a call looks
  at. Then the steps are as good as one.
\<close>

definition holds_lock :: "shared_log \<Rightarrow> nat \<Rightarrow> append_call \<Rightarrow> bool" where
  "holds_lock s t c \<longleftrightarrow> sh_pc s t = Locked c \<or> (\<exists>prev. sh_pc s t = Chained c prev)"

definition log_ok :: "(nat \<Rightarrow> append_call \<Rightarrow> int) \<Rightarrow> (append_call \<Rightarrow> audit_row list \<Rightarrow> audit_row list) \<Rightarrow> shared_log \<Rightarrow> bool" where
  "log_ok lock_of seen s \<longleftrightarrow> (\<forall>t c. holds_lock s t c \<longrightarrow> sh_locks s (lock_of t c) = Some t)
     \<and> (\<forall>k t. sh_locks s k = Some t \<longrightarrow> (\<exists>c. holds_lock s t c \<and> lock_of t c = k))
     \<and> (\<forall>t c prev. sh_pc s t = Chained c prev \<longrightarrow> prev = last_hash (seen c (sh_rows s)))
     \<and> (\<forall>t c. (sh_pc s t = Called c \<or> holds_lock s t c) \<longrightarrow> wf_event (ac_event c))"

locale append_locks =
  fixes sha :: hash_fn and stored :: "pyval \<Rightarrow> string" and lock_of :: "nat \<Rightarrow> append_call \<Rightarrow> int"
    and seen :: "append_call \<Rightarrow> audit_row list \<Rightarrow> audit_row list"
  assumes other_lock: "lock_of t c \<noteq> lock_of t' c' \<Longrightarrow> seen c' (rows @ [call_row sha stored c prev]) = seen c' rows"
begin

lemma quiet_ok: "log_ok lock_of seen (quiet rows)"
  by (simp add: log_ok_def quiet_def holds_lock_def)

lemma step_ok:
  assumes "append_step sha stored lock_of seen s s'" "log_ok lock_of seen s"
  shows "log_ok lock_of seen s' \<and> (sh_rows s' = sh_rows s \<or> whole_append sha stored seen (sh_rows s) (sh_rows s'))"
  using assms
proof (cases rule: append_step.cases)
  case (insert t c prev)
  have ok: "\<And>t c. holds_lock s t c \<Longrightarrow> sh_locks s (lock_of t c) = Some t"
    "\<And>k t. sh_locks s k = Some t \<Longrightarrow> \<exists>c. holds_lock s t c \<and> lock_of t c = k"
    "\<And>t c prev. sh_pc s t = Chained c prev \<Longrightarrow> prev = last_hash (seen c (sh_rows s))"
    "\<And>t c. sh_pc s t = Called c \<Longrightarrow> wf_event (ac_event c)" "\<And>t c. holds_lock s t c \<Longrightarrow> wf_event (ac_event c)"
    using assms(2) unfolding log_ok_def by blast+
  have mine: "holds_lock s t c" using insert(2) by (simp add: holds_lock_def)
  then have held: "sh_locks s (lock_of t c) = Some t" by (rule ok(1))
  have other: "lock_of t' c' \<noteq> lock_of t c" if "t' \<noteq> t" "holds_lock s t' c'" for t' c'
    using ok(1) [OF that(2)] held that(1) by auto
  have new: "sh_locks s' = (sh_locks s)(lock_of t c := None)" "sh_pc s' = (sh_pc s)(t := Out)"
    "sh_rows s' = (if a_event_id (call_row sha stored c prev) \<in> a_event_id ` set (sh_rows s) then sh_rows s
       else sh_rows s @ [call_row sha stored c prev])"
    using insert(1) by simp_all
  have pc: "holds_lock s' t' c' \<longleftrightarrow> t' \<noteq> t \<and> holds_lock s t' c'" for t' c'
    by (auto simp: holds_lock_def new)
  have seen: "seen c' (sh_rows s') = seen c' (sh_rows s)" if "t' \<noteq> t" "holds_lock s t' c'" for t' c'
    using other_lock [of t c t' c'] other [OF that] by (auto simp: new)
  have "log_ok lock_of seen s'"
    unfolding log_ok_def
  proof (intro conjI allI impI)
    fix t' c' assume "holds_lock s' t' c'"
    then show "sh_locks s' (lock_of t' c') = Some t'" using ok(1) other by (auto simp: pc new)
  next
    fix k t' assume k: "sh_locks s' k = Some t'"
    then have "k \<noteq> lock_of t c" "sh_locks s k = Some t'" by (auto simp: new split: if_split_asm)
    then obtain c' where c': "holds_lock s t' c'" "lock_of t' c' = k" using ok(2) by blast
    have "t' \<noteq> t" using c' mine \<open>k \<noteq> lock_of t c\<close> by (auto simp: holds_lock_def)
    then show "\<exists>c. holds_lock s' t' c \<and> lock_of t' c = k" using c' pc by blast
  next
    fix t' c' prev' assume "sh_pc s' t' = Chained c' prev'"
    then have "t' \<noteq> t" "sh_pc s t' = Chained c' prev'" by (auto simp: new split: if_split_asm)
    then show "prev' = last_hash (seen c' (sh_rows s'))" using ok(3) seen by (auto simp: holds_lock_def)
  next
    fix t' c' assume "sh_pc s' t' = Called c' \<or> holds_lock s' t' c'"
    then show "wf_event (ac_event c')" using ok(4,5) by (auto simp: pc new split: if_split_asm)
  qed
  moreover have "sh_rows s' = sh_rows s \<or> whole_append sha stored seen (sh_rows s) (sh_rows s')"
    using ok(3) [OF insert(2)] ok(5) [OF mine] by (auto simp: new whole_append_def)
  ultimately show ?thesis by blast
qed (fastforce simp: log_ok_def holds_lock_def split: if_split_asm)+

lemma steps_ok:
  "(append_step sha stored lock_of seen)\<^sup>*\<^sup>* (quiet rows) s
    \<Longrightarrow> log_ok lock_of seen s \<and> (whole_append sha stored seen)\<^sup>*\<^sup>* rows (sh_rows s)"
proof (induction rule: rtranclp_induct)
  case base
  then show ?case using quiet_ok by (simp add: quiet_def)
next
  case (step s s')
  then show ?case using step_ok [OF step.hyps(2)] by (metis rtranclp.rtrancl_into_rtrancl)
qed

lemma not_stuck:
  assumes "(append_step sha stored lock_of seen)\<^sup>*\<^sup>* (quiet rows) s" "sh_pc s t \<noteq> Out"
  shows "\<exists>s' t'. append_step sha stored lock_of seen s s' \<and> sh_pc s t' \<noteq> Out \<and> sh_pc s' t' \<noteq> sh_pc s t'"
proof -
  have ok: "log_ok lock_of seen s" using steps_ok [OF assms(1)] ..
  have go: "\<exists>s'. append_step sha stored lock_of seen s s' \<and> sh_pc s' t' \<noteq> sh_pc s t'" if "holds_lock s t' c" for t' c
    using that append_step.select [of s t' c] append_step.insert [of s t' c] by (fastforce simp: holds_lock_def)
  have busy: "holds_lock s t' c \<Longrightarrow> sh_pc s t' \<noteq> Out" for t' c by (auto simp: holds_lock_def)
  show ?thesis
  proof (cases "sh_pc s t")
    case (Called c)
    show ?thesis
    proof (cases "sh_locks s (lock_of t c)")
      case None
      with Called have "append_step sha stored lock_of seen s (s\<lparr> sh_locks := (sh_locks s)(lock_of t c := Some t), sh_pc := (sh_pc s)(t := Locked c) \<rparr>)"
        by (rule append_step.lock)
      then show ?thesis using Called by fastforce
    next
      case (Some t')
      then obtain c' where "holds_lock s t' c'" using ok unfolding log_ok_def by blast
      then show ?thesis using go busy by blast
    qed
  next
    case (Locked c)
    then have "holds_lock s t c" by (simp add: holds_lock_def)
    then show ?thesis using go busy by blast
  next
    case (Chained c prev)
    then have "holds_lock s t c" by (simp add: holds_lock_def)
    then show ?thesis using go busy by blast
  qed (use assms(2) in simp)
qed

end

interpretation one_object: append_locks sha canonical_json "object_lock (\<lambda>_. k)" whole_table for sha k
  by unfold_locales (simp add: object_lock_def)

interpretation run_locks: append_locks sha jsonb "run_lock digest" run_rows_of for sha jsonb digest
  by unfold_locales (auto simp: run_lock_def run_rows_of_def pg_rows_def)

subsection \<open>Two log objects\<close>

text \<open>Both read the last hash before either inserts.\<close>

lemma racing_appends:
  fixes rows and c1 c2 :: append_call and object sha
  defines "r1 \<equiv> call_row sha canonical_json c1 (last_hash rows)" and "r2 \<equiv> call_row sha canonical_json c2 (last_hash rows)"
  assumes "object 1 \<noteq> object 2" "wf_event (ac_event c1)" "wf_event (ac_event c2)"
    and "a_event_id r1 \<notin> a_event_id ` set rows" "a_event_id r2 \<notin> a_event_id ` set rows" "a_event_id r1 \<noteq> a_event_id r2"
  shows "\<exists>s. (append_step sha canonical_json (object_lock object) whole_table)\<^sup>*\<^sup>* (quiet rows) s \<and> sh_rows s = rows @ [r1, r2]
    \<and> sh_pc s = (\<lambda>_. Out)"
proof -
  let ?step = "append_step sha canonical_json (object_lock object) whole_table"
  let ?s = "\<lambda>rs l p q. \<lparr> sh_rows = rs, sh_locks = l, sh_pc = ((\<lambda>_. Out)(1 := p, 2 := q)) \<rparr>"
  let ?l1 = "(\<lambda>_. None)(object 1 := Some 1)" and ?l2 = "(\<lambda>_. None)(object 1 := Some 1, object 2 := Some (2 :: nat))"
  let ?p = "Chained c1 (last_hash rows)" and ?q = "Chained c2 (last_hash rows)"
  have "?step (quiet rows) (?s rows (\<lambda>_. None) (Called c1) Out)"
    using append_step.enter [of "quiet rows" 1 c1 sha canonical_json "object_lock object" whole_table] assms(4) by (simp add: quiet_def fun_upd_idem)
  moreover have "?step (?s rows (\<lambda>_. None) (Called c1) Out) (?s rows ?l1 (Locked c1) Out)"
    using append_step.lock [of "?s rows (\<lambda>_. None) (Called c1) Out" 1 c1 "object_lock object" sha canonical_json whole_table] by (simp add: object_lock_def fun_upd_twist)
  moreover have "?step (?s rows ?l1 (Locked c1) Out) (?s rows ?l1 ?p Out)"
    using append_step.select [of "?s rows ?l1 (Locked c1) Out" 1 c1 sha canonical_json "object_lock object" whole_table] by (simp add: whole_table_def fun_upd_twist)
  moreover have "?step (?s rows ?l1 ?p Out) (?s rows ?l1 ?p (Called c2))"
    using append_step.enter [of "?s rows ?l1 ?p Out" 2 c2 sha canonical_json "object_lock object" whole_table] assms(5) by simp
  moreover have "?step (?s rows ?l1 ?p (Called c2)) (?s rows ?l2 ?p (Locked c2))"
    using append_step.lock [of "?s rows ?l1 ?p (Called c2)" 2 c2 "object_lock object" sha canonical_json whole_table] assms(3) by (simp add: object_lock_def)
  moreover have "?step (?s rows ?l2 ?p (Locked c2)) (?s rows ?l2 ?p ?q)"
    using append_step.select [of "?s rows ?l2 ?p (Locked c2)" 2 c2 sha canonical_json "object_lock object" whole_table] by (simp add: whole_table_def)
  moreover have "?step (?s rows ?l2 ?p ?q) (?s (rows @ [r1]) (?l2(object 1 := None)) Out ?q)"
    using append_step.insert [of "?s rows ?l2 ?p ?q" 1 c1 "last_hash rows" sha canonical_json "object_lock object" whole_table] assms(6)
    by (simp add: object_lock_def r1_def fun_upd_twist)
  moreover have "?step (?s (rows @ [r1]) (?l2(object 1 := None)) Out ?q) (?s (rows @ [r1, r2]) (?l2(object 1 := None, object 2 := None)) Out Out)"
    using append_step.insert [of "?s (rows @ [r1]) (?l2(object 1 := None)) Out ?q" 2 c2 "last_hash rows" sha canonical_json "object_lock object" whole_table] assms(7,8)
    by (simp add: object_lock_def r1_def r2_def)
  ultimately have "?step\<^sup>*\<^sup>* (quiet rows) (?s (rows @ [r1, r2]) (?l2(object 1 := None, object 2 := None)) Out Out)"
    by (meson converse_rtranclp_into_rtranclp rtranclp.rtrancl_refl)
  then show ?thesis
    by (intro exI [of _ "?s (rows @ [r1, r2]) (?l2(object 1 := None, object 2 := None)) Out Out"]) (auto simp: fun_eq_iff)
qed

definition demo_call :: "string \<Rightarrow> append_call" where
  "demo_call i = \<lparr> ac_event = demo_event ''r'' i, ac_ts = ''t0'', ac_uuid = ''u'' \<rparr>"

lemma demo_call_wf: "wf_event (ac_event (demo_call i))"
  by (simp add: demo_call_def demo_event_def wf_event_def payload_or_def)

section \<open>Properties\<close>



text \<open>
  C36: on Postgres any number of processes may write. However the appends of all runs interleave, the chain of each
  run that verified still verifies: the advisory lock of a run keeps its appends apart, even where two runs have the
  same key, and appends of other runs do not touch its chain.
\<close>

theorem pg_writers_keep_run_chains:
  assumes "jsonb_keeps jsonb" "pg_verify_chain sha (Some run) rows = Inr True"
    and "(append_step sha jsonb (run_lock digest) run_rows_of)\<^sup>*\<^sup>* (quiet rows) s"
  shows "pg_verify_chain sha (Some run) (sh_rows s) = Inr True"
proof -
  have "(whole_append sha jsonb run_rows_of)\<^sup>*\<^sup>* rows (sh_rows s)" using run_locks.steps_ok [OF assms(3)] ..
  then have "(pg_appends sha jsonb)\<^sup>*\<^sup>* rows (sh_rows s)" by (rule mono_rtranclp [rule_format, rotated]) (rule whole_append_pg)
  with assms(1,2) show ?thesis using pg_appends_verify_run by (simp add: pg_verify_chain_def)
qed

theorem pg_writers_keep_run_chains_witness:
  "pg_verify_chain demo_sha (Some ''r'') (sh_rows (quiet []\<lparr> sh_pc := (\<lambda>_. Out)(1 := Called (demo_call ''e1'')) \<rparr>)) = Inr True"
proof (rule pg_writers_keep_run_chains [OF jsonb_keeps_canonical, of _ _ "[]" "\<lambda>_. []"])
  show "pg_verify_chain demo_sha (Some ''r'') [] = Inr True" by (simp add: pg_verify_chain_def pg_rows_def)
  show "(append_step demo_sha canonical_json (run_lock (\<lambda>_. [])) run_rows_of)\<^sup>*\<^sup>* (quiet []) (quiet []\<lparr> sh_pc := (\<lambda>_. Out)(1 := Called (demo_call ''e1'')) \<rparr>)"
    using append_step.enter [of "quiet []" 1 "demo_call ''e1''"] demo_call_wf by (intro r_into_rtranclp) (simp add: quiet_def)
qed

text \<open>
  Two processes break the SQLite log. Two log objects on one file, such as those of a coordinator and a worker of
  its run, share no lock: there is an interleaving of any two appends in which both succeed and the log no longer
  verifies, although nobody tampered with it.
\<close>

theorem two_processes_break_the_log:
  fixes c1 c2 :: append_call
  assumes "verify_chain sha rows = Inr True" "object 1 \<noteq> object 2" "wf_event (ac_event c1)" "wf_event (ac_event c2)"
    and "event_id_or (ac_uuid c1) (ac_event c1) \<notin> a_event_id ` set rows" "event_id_or (ac_uuid c2) (ac_event c2) \<notin> a_event_id ` set rows"
    and "event_id_or (ac_uuid c1) (ac_event c1) \<noteq> event_id_or (ac_uuid c2) (ac_event c2)"
    and "a_this_hash (call_row sha canonical_json c1 (last_hash rows)) \<noteq> last_hash rows"
  shows "\<exists>s. (append_step sha canonical_json (object_lock object) whole_table)\<^sup>*\<^sup>* (quiet rows) s \<and> sh_pc s = (\<lambda>_. Out)
    \<and> length (sh_rows s) = length rows + 2 \<and> verify_chain sha (sh_rows s) = Inr False"
proof -
  let ?r1 = "call_row sha canonical_json c1 (last_hash rows)" and ?r2 = "call_row sha canonical_json c2 (last_hash rows)"
  obtain s where s: "(append_step sha canonical_json (object_lock object) whole_table)\<^sup>*\<^sup>* (quiet rows) s"
    "sh_rows s = rows @ [?r1, ?r2]" "sh_pc s = (\<lambda>_. Out)"
    using racing_appends [of object c1 c2 sha rows] assms by auto
  have "sqlite_appends sha rows (rows @ [?r1])"
    unfolding whole_append_sqlite [symmetric] whole_append_def whole_table_def using assms(3,5) by auto
  then have "verify_from sha GENESIS_HASH (rows @ [?r1]) = Inr True"
    using assms(1) sqlite_log.append_verifies by (simp add: verify_chain_def)
  moreover have "a_prev_hash ?r2 = last_hash rows" by (simp add: call_row_def make_row_def)
  ultimately have "verify_chain sha (sh_rows s) = Inr False"
    using assms(8) verify_from_append [of sha GENESIS_HASH "rows @ [?r1]" "[?r2]"] by (simp add: verify_chain_def s(2))
  with s show ?thesis by auto
qed

theorem two_processes_break_the_log_witness:
  "\<exists>s. (append_step demo_sha canonical_json (object_lock (\<lambda>t. int t)) whole_table)\<^sup>*\<^sup>* (quiet []) s \<and> sh_pc s = (\<lambda>_. Out)
    \<and> length (sh_rows s) = 2 \<and> verify_chain demo_sha (sh_rows s) = Inr False"
proof -
  have "a_this_hash (call_row demo_sha canonical_json (demo_call ''e1'') (last_hash [])) \<noteq> last_hash []"
    by (simp add: call_row_def make_row_def audit_hash_def demo_sha_def last_hash_def GENESIS_HASH_def eval_nat_numeral)
  then show ?thesis
    using two_processes_break_the_log [of demo_sha "[]" "\<lambda>t. int t" "demo_call ''e1''" "demo_call ''e2''"] demo_call_wf
    by (simp add: event_id_or_def demo_call_def demo_event_def numeral_2_eq_2)
qed

end
