(* ===== verification/AuditPool.thy ===== *)
theory AuditPool
  imports AuditProcs PyText
begin

text \<open>
  The connections of the Postgres audit log (\<open>storage/audit_log_pg.py\<close>): \<open>_ensure_pool\<close>, which every operation calls
  first, and \<open>close\<close>, in the steps between their awaits. Pools are numbered in the order \<open>asyncpg\<close> opens them; what
  an await answers is given with its step, \<open>Some\<close> exception or \<open>None\<close>.
\<close>

record pg_log =
  pg_pool :: "nat option"
  pg_schema_ensured :: bool
  pg_open :: "nat list"
  pg_opened :: nat

definition pg_log_init :: pg_log where
  "pg_log_init = \<lparr> pg_pool = None, pg_schema_ensured = False, pg_open = [], pg_opened = 0 \<rparr>"

datatype pg_at = Pg_enter | Pg_creating | Pg_executing | Pg_returned "nat option" | Pg_raised exn | Pg_close | Pg_closing nat | Pg_closed

text \<open>From \<open>if not self._schema_ensured\<close> to the next await or the end.\<close>

definition check_schema :: "pg_log \<Rightarrow> pg_at" where
  "check_schema g =
     (if \<not> pg_schema_ensured g then (case pg_pool g of
          None \<Rightarrow> Pg_raised (Exn ''AttributeError'' (CHR 0x27 # ''NoneType'' @ CHR 0x27 # '' object has no attribute '' @ repr_str ''acquire''))
        | Some n \<Rightarrow> Pg_executing)
      else Pg_returned (pg_pool g))"

definition pg_step :: "exn option \<Rightarrow> pg_at \<Rightarrow> pg_log \<Rightarrow> pg_at \<times> pg_log" where
  "pg_step answer at g = (case at of
     Pg_enter \<Rightarrow> if pg_pool g = None then (Pg_creating, g) else (check_schema g, g)
   | Pg_creating \<Rightarrow> (case answer of
         Some e \<Rightarrow> (Pg_raised e, g)
       | None \<Rightarrow> (let g' = g\<lparr>pg_pool := Some (pg_opened g), pg_open := pg_opened g # pg_open g, pg_opened := pg_opened g + 1\<rparr>
                 in (check_schema g', g')))
   | Pg_executing \<Rightarrow> (case answer of
         Some e \<Rightarrow> (Pg_raised e, g)
       | None \<Rightarrow> (Pg_returned (pg_pool g), g\<lparr>pg_schema_ensured := True\<rparr>))
   | Pg_close \<Rightarrow> (case pg_pool g of None \<Rightarrow> (Pg_closed, g) | Some n \<Rightarrow> (Pg_closing n, g))
   | Pg_closing n \<Rightarrow> (Pg_closed, g\<lparr>pg_pool := None, pg_open := (if answer = None then removeAll n (pg_open g) else pg_open g)\<rparr>)
   | done \<Rightarrow> (done, g))"

text \<open>Coroutines take steps in any order.\<close>

type_synonym pg_procs = "(nat \<Rightarrow> pg_at) \<times> pg_log"

definition pg_move :: "pg_procs \<Rightarrow> nat \<times> exn option \<Rightarrow> pg_procs" where
  "pg_move s m = (case pg_step (snd m) (fst s (fst m)) (snd s) of (at, g) \<Rightarrow> ((fst s)(fst m := at), g))"

definition pg_run :: "pg_procs \<Rightarrow> (nat \<times> exn option) list \<Rightarrow> pg_procs" where
  "pg_run = foldl pg_move"

text \<open>One call by itself: \<open>_ensure_pool\<close> has at most two awaits, \<open>close\<close> one.\<close>

definition ensure_pool :: "exn option \<Rightarrow> exn option \<Rightarrow> pg_log \<Rightarrow> pg_at \<times> pg_log" where
  "ensure_pool a b g = (case pg_step None Pg_enter g of (p, g) \<Rightarrow> case pg_step a p g of (p, g) \<Rightarrow> pg_step b p g)"

definition close_pool :: "exn option \<Rightarrow> pg_log \<Rightarrow> pg_at \<times> pg_log" where
  "close_pool a g = (case pg_step None Pg_close g of (p, g) \<Rightarrow> pg_step a p g)"

text \<open>The pools that are open are the one the log holds.\<close>

definition pool_ok :: "pg_log \<Rightarrow> bool" where
  "pool_ok g \<longleftrightarrow> pg_open g = (case pg_pool g of None \<Rightarrow> [] | Some n \<Rightarrow> [n])"

lemmas pg_defs = ensure_pool_def close_pool_def pg_step_def check_schema_def pool_ok_def Let_def

text \<open>
  One call at a time, the log holds every pool it opened. \<open>_ensure_pool\<close> keeps this whatever the database answers,
  and if it returns, it returns the pool that is held, with the schema ensured; \<open>close\<close> then leaves no pool open unless
  closing failed.
\<close>

theorem serial_calls_hold_their_pool:
  assumes "pool_ok g" "ensure_pool a b g = (at, g')"
  shows "pool_ok g' \<and> (case at of
        Pg_returned p \<Rightarrow> p = pg_pool g' \<and> p \<noteq> None \<and> pg_schema_ensured g'
      | Pg_raised e \<Rightarrow> e \<in> set_option a \<union> set_option b
      | _ \<Rightarrow> False)
    \<and> pg_open (snd (close_pool None g')) = [] \<and> pg_pool (snd (close_pool c g')) = None"
  using assms by (auto simp: pg_defs split: option.splits if_splits prod.splits pg_at.splits)

theorem serial_calls_hold_their_pool_witness:
  "pool_ok pg_log_init \<and> pool_ok (snd (ensure_pool None None pg_log_init)) \<and> pg_open (snd (close_pool None (snd (ensure_pool None None pg_log_init)))) = []"
proof -
  have "pool_ok pg_log_init" by (simp add: pool_ok_def pg_log_init_def)
  with serial_calls_hold_their_pool [OF this prod.collapse [symmetric], of None None None] show ?thesis by blast
qed

text \<open>
  The first two appends may lose a pool. When two coroutines enter before either has its pool, both open one; both
  return the second, and closing the log leaves the first open with nobody to close it.
\<close>

theorem concurrent_first_calls_leak_a_pool:
  "\<exists>g. pg_run (\<lambda>_. Pg_enter, pg_log_init) [(0, None), (1, None), (0, None), (1, None), (0, None), (1, None)]
      = ((\<lambda>_. Pg_enter)(0 := Pg_returned (Some 1), 1 := Pg_returned (Some 1)), g)
    \<and> pg_open g = [1, 0] \<and> pg_pool g = Some 1
    \<and> pg_open (snd (close_pool None g)) = [0] \<and> pg_pool (snd (close_pool None g)) = None"
  by (simp add: pg_run_def pg_move_def pg_log_init_def pg_defs fun_eq_iff)

end
