(* ===== verification/EvalHarness.thy ===== *)
theory EvalHarness
  imports Complex_Main ArtifactStore PyText
begin

text \<open>
  The evaluation of the agent against frozen ground truth (\<open>eval/scorers.py\<close>, \<open>eval/framework.py\<close>). The runner that
  executes a case, the file that is read and YAML are arguments. Scores, weights and thresholds are rational numbers,
  so the rounding of the floats is not modelled; neither is the printed report.
\<close>

subsection \<open>Equality of Python values\<close>

text \<open>\<open>==\<close>: truth values are numbers, dictionaries compare without regard to order.\<close>

fun py_eq :: "pyval \<Rightarrow> pyval \<Rightarrow> bool"
  and py_eq_elems :: "pyval list \<Rightarrow> pyval list \<Rightarrow> bool"
  and py_eq_items :: "pydict \<Rightarrow> pydict \<Rightarrow> bool" where
  "py_eq (PList xs) w = (case w of PList ys \<Rightarrow> py_eq_elems xs ys | _ \<Rightarrow> False)"
| "py_eq (PDict d) w = (case w of PDict e \<Rightarrow> length d = length e \<and> py_eq_items d e | _ \<Rightarrow> False)"
| "py_eq (PBool b) w = (case w of PBool c \<Rightarrow> b = c | PInt n \<Rightarrow> n = (if b then 1 else 0) | _ \<Rightarrow> False)"
| "py_eq (PInt m) w = (case w of PBool c \<Rightarrow> m = (if c then 1 else 0) | PInt n \<Rightarrow> m = n | _ \<Rightarrow> False)"
| "py_eq v w = (v = w)"
| "py_eq_elems [] ys = (ys = [])"
| "py_eq_elems (x # xs) ys = (case ys of [] \<Rightarrow> False | y # ys \<Rightarrow> py_eq x y \<and> py_eq_elems xs ys)"
| "py_eq_items [] e = True"
| "py_eq_items ((k, v) # d) e = ((case map_of e k of None \<Rightarrow> False | Some w \<Rightarrow> py_eq v w) \<and> py_eq_items d e)"

subsection \<open>Scorers\<close>

definition norm_value :: "pyval \<Rightarrow> pyval" where
  "norm_value v = (case v of PStr s \<Rightarrow> PStr (py_lower (py_strip s)) | _ \<Rightarrow> v)"

definition field_hit :: "pydict \<Rightarrow> string \<times> pyval \<Rightarrow> bool" where
  "field_hit predicted kv = py_eq (norm_value (dget predicted (fst kv))) (norm_value (snd kv))"

definition no_attr :: "pyval \<Rightarrow> string \<Rightarrow> exn" where
  "no_attr v k = Exn ''AttributeError'' (CHR 0x27 # type_name v @ CHR 0x27 # '' object has no attribute '' @ repr_str k)"

text \<open>\<open>predicted\<close> may be a list; then \<open>predicted.get\<close> raises at the first field.\<close>

definition field_match :: "pyval \<Rightarrow> pyval \<Rightarrow> exn + rat" where
  "field_match predicted expected =
     (if \<not> truthy expected then Inr 1
      else (case (expected, predicted) of
          (PDict e, PDict d) \<Rightarrow> Inr (of_nat (length (filter (field_hit d) e)) / of_nat (length e))
        | (PDict e, v) \<Rightarrow> Inl (no_attr v ''get'')
        | (v, _) \<Rightarrow> Inl (no_attr v ''items'')))"

definition screenshot_exists :: "pyval \<Rightarrow> int \<Rightarrow> exn + rat" where
  "screenshot_exists n minimum = (case n of
     PInt i \<Rightarrow> Inr (if minimum \<le> i then 1 else 0)
   | PBool b \<Rightarrow> Inr (if minimum \<le> (if b then 1 else 0) then 1 else 0)
   | v \<Rightarrow> Inl (Exn ''TypeError'' (repr_str ''>='' @ '' not supported between instances of '' @ repr_str (type_name v) @ '' and '' @ repr_str ''int'')))"

definition judge_pass :: "pyval \<Rightarrow> rat" where
  "judge_pass verdict = (if verdict = PStr ''pass'' then 1 else 0)"

record score =
  es_fields :: rat
  es_evidence :: rat
  es_judge :: rat
  es_total :: rat

definition DEFAULT_WEIGHTS :: "(string \<times> rat) list" where
  "DEFAULT_WEIGHTS = [(''fields'', 6 / 10), (''evidence'', 15 / 100), (''judge'', 25 / 100)]"

definition weight :: "(string \<times> rat) list \<Rightarrow> string \<Rightarrow> rat" where
  "weight w k = (case map_of w k of None \<Rightarrow> 0 | Some x \<Rightarrow> x)"

definition overall_score :: "pyval \<Rightarrow> pyval \<Rightarrow> pyval \<Rightarrow> pyval \<Rightarrow> (string \<times> rat) list option \<Rightarrow> exn + score" where
  "overall_score predicted expected evidence_count verdict weights =
     (let w = (case weights of Some ws \<Rightarrow> if ws = [] then DEFAULT_WEIGHTS else ws | None \<Rightarrow> DEFAULT_WEIGHTS) in
      bindE (field_match predicted expected) (\<lambda>f. bindE (screenshot_exists evidence_count 1) (\<lambda>e.
        let j = judge_pass verdict in
        Inr \<lparr> es_fields = f, es_evidence = e, es_judge = j,
          es_total = f * weight w ''fields'' + e * weight w ''evidence'' + j * weight w ''judge'' \<rparr>)))"

subsection \<open>The harness\<close>

record eval_case =
  ec_sample_id :: pyval
  ec_input :: pyval
  ec_expected :: pyval

text \<open>\<open>EvalCase(**c)\<close>: exactly the three fields.\<close>

definition case_of :: "pyval \<Rightarrow> exn + eval_case" where
  "case_of c = (case c of
     PDict d \<Rightarrow> if set (map fst d) = {''sample_id'', ''input'', ''expected''}
         then Inr \<lparr> ec_sample_id = dget d ''sample_id'', ec_input = dget d ''input'', ec_expected = dget d ''expected'' \<rparr>
         else Inl (Exn ''TypeError'' ''EvalCase.__init__() got unexpected or missing arguments'')
   | _ \<Rightarrow> Inl (Exn ''TypeError'' ''argument after ** must be a mapping''))"

record eval_detail =
  ed_case :: eval_case
  ed_scores :: score
  ed_predicted :: pyval
  ed_verdict :: pyval
  ed_error :: pyval

type_synonym 'w runner = "eval_case \<Rightarrow> pydict \<Rightarrow> ('w, pydict) act"

definition failed_output :: "exn \<Rightarrow> pydict" where
  "failed_output e = [(''extracted'', PDict []), (''evidence_count'', PInt 0), (''verdict'', PNone), (''error'', PStr (exn_text e))]"

text \<open>The body of the loop; only the runner's exceptions are caught.\<close>

definition score_output :: "eval_case \<Rightarrow> pydict \<Rightarrow> exn + eval_detail" where
  "score_output c out = (let predicted = py_or (dget out ''extracted'') (PDict []) in
     bindE (overall_score predicted (ec_expected c) (dget_or out ''evidence_count'' (PInt 0)) (dget out ''verdict'') None) (\<lambda>s.
       Inr \<lparr> ed_case = c, ed_scores = s, ed_predicted = predicted, ed_verdict = dget out ''verdict'', ed_error = dget out ''error'' \<rparr>))"

definition run_case :: "'w runner \<Rightarrow> pydict \<Rightarrow> eval_case \<Rightarrow> ('w, eval_detail) act" where
  "run_case runner task c w = (case runner c task w of
     (Inr out, w') \<Rightarrow> (score_output c out, w')
   | (Inl e, w') \<Rightarrow> (score_output c (failed_output e), w'))"

fun run_cases :: "'w runner \<Rightarrow> pydict \<Rightarrow> eval_case list \<Rightarrow> ('w, eval_detail list) act" where
  "run_cases runner task [] = returnA []"
| "run_cases runner task (c # cs) = bindA (run_case runner task c) (\<lambda>d. bindA (run_cases runner task cs) (\<lambda>ds. returnA (d # ds)))"

record eval_result =
  er_task_id :: pyval
  er_cases :: nat
  er_pass_rate :: rat
  er_avg_total :: rat
  er_avg_fields :: rat
  er_details :: "eval_detail list"

definition report :: "rat \<Rightarrow> pyval \<Rightarrow> eval_detail list \<Rightarrow> eval_result" where
  "report threshold task_id ds = (let n = of_nat (max 1 (length ds)) in
     \<lparr> er_task_id = task_id, er_cases = length ds,
       er_pass_rate = of_nat (length (filter (\<lambda>d. threshold \<le> es_total (ed_scores d)) ds)) / n,
       er_avg_total = sum_list (map (es_total \<circ> ed_scores) ds) / n,
       er_avg_fields = sum_list (map (es_fields \<circ> ed_scores) ds) / n, er_details = ds \<rparr>)"

definition py_path_stem :: "string \<Rightarrow> string" where
  "py_path_stem s = take (length (py_path_name s) - length (py_path_suffix s)) (py_path_name s)"

text \<open>\<open>_load_task\<close>, on the YAML of the file, \<open>None\<close> when it does not exist.\<close>

definition load_task :: "(string \<Rightarrow> (exn + pyval) option) \<Rightarrow> pyval \<Rightarrow> exn + pyval" where
  "load_task yaml path = (case path of
     PStr p \<Rightarrow> if p = [] then Inr (PDict []) else (case yaml p of None \<Rightarrow> Inr (PDict []) | Some r \<Rightarrow> r)
   | v \<Rightarrow> Inl (Exn ''TypeError'' ''expected str, bytes or os.PathLike object''))"

definition eval_task :: "(string \<Rightarrow> (exn + pyval) option) \<Rightarrow> pydict option \<Rightarrow> pyval \<Rightarrow> exn + pydict \<times> pyval" where
  "eval_task yaml override data =
     bindE (case override of
         Some d \<Rightarrow> if d = [] then bindE (attr_get data ''task_file'') (\<lambda>p. load_task yaml (py_or p (PStr []))) else Inr (PDict d)
       | None \<Rightarrow> bindE (attr_get data ''task_file'') (\<lambda>p. load_task yaml (py_or p (PStr [])))) (\<lambda>task.
     bindE (attr_get task ''task_id'') (\<lambda>i.
     bindE (if truthy i then Inr i
            else bindE (case data of PDict d \<Rightarrow> Inr (dget_or d ''task_file'' (PStr ''unknown''))
                | v \<Rightarrow> Inl (no_attr v ''get'')) (\<lambda>p.
              case p of PStr s \<Rightarrow> Inr (PStr (py_path_stem s)) | v \<Rightarrow> Inl (Exn ''TypeError'' ''expected str, bytes or os.PathLike object''))) (\<lambda>task_id.
       Inr (case task of PDict d \<Rightarrow> d | _ \<Rightarrow> [], task_id))))"

definition eval_cases :: "pyval \<Rightarrow> exn + eval_case list" where
  "eval_cases data = (case data of
     PDict d \<Rightarrow> bindE (py_iter (dget_or d ''cases'' (PList []))) (mapE case_of)
   | v \<Rightarrow> Inl (no_attr v ''get''))"

definition run_eval :: "(string \<Rightarrow> (exn + pyval) option) \<Rightarrow> 'w runner \<Rightarrow> rat \<Rightarrow> pydict option \<Rightarrow> string \<Rightarrow> ('w, eval_result) act" where
  "run_eval yaml runner threshold override txt =
     (case json_loads txt of
        None \<Rightarrow> raiseA json_decode_error
      | Some data \<Rightarrow> bindA (liftE (eval_task yaml override data)) (\<lambda>(task, task_id).
          bindA (liftE (eval_cases data)) (\<lambda>cases.
          bindA (run_cases runner task cases) (\<lambda>ds. returnA (report threshold task_id ds)))))"

section \<open>Lemmas\<close>

lemma field_match_range: "field_match predicted expected = Inr f \<Longrightarrow> 0 \<le> f \<and> f \<le> 1"
proof -
  assume f: "field_match predicted expected = Inr f"
  then consider "f = 1" | d e where "e \<noteq> []" "f = of_nat (length (filter (field_hit d) e)) / of_nat (length e)"
    by (auto simp: field_match_def split: pyval.split_asm if_split_asm)
  then show ?thesis
  proof cases
    case 2
    then have "(of_nat (length (filter (field_hit d) e)) :: rat) \<le> of_nat (length e)"
      by (simp only: of_nat_le_iff length_filter_le)
    then show ?thesis using 2 by (simp add: divide_le_eq)
  qed simp
qed

lemma screenshot_values: "screenshot_exists n m = Inr e \<Longrightarrow> e \<in> {0, 1}"
  by (auto simp: screenshot_exists_def split: pyval.split_asm if_split_asm)

lemma default_weights: "weight DEFAULT_WEIGHTS ''fields'' = 6 / 10" "weight DEFAULT_WEIGHTS ''evidence'' = 15 / 100" "weight DEFAULT_WEIGHTS ''judge'' = 25 / 100"
  by (simp_all add: weight_def DEFAULT_WEIGHTS_def)

definition score_ok :: "score \<Rightarrow> bool" where
  "score_ok s \<longleftrightarrow> 0 \<le> es_fields s \<and> es_fields s \<le> 1 \<and> es_evidence s \<in> {0, 1} \<and> es_judge s \<in> {0, 1}
     \<and> es_total s = es_fields s * (6 / 10) + es_evidence s * (15 / 100) + es_judge s * (25 / 100)"

lemma overall_score_ok: "overall_score predicted expected n verdict None = Inr s \<Longrightarrow> score_ok s"
  by (auto simp: overall_score_def bindE_Inr score_ok_def judge_pass_def default_weights Let_def
    dest: field_match_range screenshot_values split: if_split_asm)

lemma score_ok_total: "score_ok s \<Longrightarrow> 0 \<le> es_total s \<and> es_total s \<le> 1"
  by (auto simp: score_ok_def)

lemma score_outputD:
  "score_output c out = Inr d \<Longrightarrow> score_ok (ed_scores d) \<and> ed_case d = c \<and> es_judge (ed_scores d) = judge_pass (ed_verdict d)"
  by (auto simp: score_output_def bindE_Inr Let_def dest: overall_score_ok) (auto simp: overall_score_def bindE_Inr Let_def)

lemma run_cases_details:
  "run_cases runner task cs w = (Inr ds, w') \<Longrightarrow> map ed_case ds = cs
    \<and> (\<forall>d\<in>set ds. score_ok (ed_scores d) \<and> es_judge (ed_scores d) = judge_pass (ed_verdict d))"
proof (induction cs arbitrary: w ds)
  case (Cons c cs)
  from Cons.prems obtain d w1 ds' where d: "run_case runner task c w = (Inr d, w1)" "run_cases runner task cs w1 = (Inr ds', w')" "ds = d # ds'"
    by (auto simp: bindA_def split: prod.split_asm sum.split_asm)
  have "\<exists>out. score_output c out = Inr d" using d(1) by (auto simp: run_case_def split: prod.split_asm sum.split_asm)
  then show ?case using Cons.IH [OF d(2)] d(3) by (auto dest: score_outputD)
qed simp

lemma run_evalD:
  assumes "run_eval yaml runner t override txt w = (Inr r, w')"
  shows "\<exists>data task task_id cs ds. json_loads txt = Some data \<and> eval_cases data = Inr cs \<and> eval_task yaml override data = Inr (task, task_id)
    \<and> run_cases runner task cs w = (Inr ds, w') \<and> r = report t task_id ds"
proof -
  obtain data where d: "json_loads txt = Some data"
    using assms by (cases "json_loads txt") (simp_all add: run_eval_def)
  obtain x where x: "eval_task yaml override data = Inr x" using assms d by (cases "eval_task yaml override data") (simp_all add: run_eval_def bindA_def)
  obtain cs where c: "eval_cases data = Inr cs" using assms d x by (cases "eval_cases data") (simp_all add: run_eval_def bindA_def split_beta)
  obtain y w1 where y: "run_cases runner (fst x) cs w = (y, w1)" by fastforce
  obtain ds where ds: "y = Inr ds" using assms d x c y by (cases y) (simp_all add: run_eval_def bindA_def split_beta)
  then have "r = report t (snd x) ds" "w1 = w'" using assms d x c y by (simp_all add: run_eval_def bindA_def split_beta)
  with d x c y ds show ?thesis by (cases x) auto
qed

lemma mean_range:
  assumes "\<And>x. x \<in> set xs \<Longrightarrow> 0 \<le> f x \<and> f x \<le> (1 :: rat)"
  shows "0 \<le> sum_list (map f xs) / of_nat (max 1 (length xs)) \<and> sum_list (map f xs) / of_nat (max 1 (length xs)) \<le> 1"
proof -
  have "0 \<le> sum_list (map f xs) \<and> sum_list (map f xs) \<le> of_nat (length xs)" using assms by (induction xs) force+
  moreover have "(of_nat (length xs) :: rat) \<le> of_nat (max 1 (length xs))" by (simp only: of_nat_le_iff max.cobounded2)
  ultimately show ?thesis by (auto simp: divide_le_eq)
qed

lemma sum_indicator: "of_nat (length (filter P xs)) = sum_list (map (\<lambda>x. if P x then 1 else (0 :: rat)) xs)"
  by (induction xs) simp_all

section \<open>Properties\<close>

text \<open>
  An evaluation that returns reports on every case of its file, in order, and every number of it is a share: the
  scores of each case, the pass rate and the two averages are between 0 and 1.
\<close>

theorem eval_report_in_bounds:
  assumes "run_eval yaml runner t override txt w = (Inr r, w')"
  shows "(\<exists>data cs. json_loads txt = Some data \<and> eval_cases data = Inr cs \<and> map ed_case (er_details r) = cs \<and> er_cases r = length cs)
    \<and> 0 \<le> er_pass_rate r \<and> er_pass_rate r \<le> 1 \<and> 0 \<le> er_avg_total r \<and> er_avg_total r \<le> 1 \<and> 0 \<le> er_avg_fields r \<and> er_avg_fields r \<le> 1
    \<and> (\<forall>d\<in>set (er_details r). 0 \<le> es_fields (ed_scores d) \<and> es_fields (ed_scores d) \<le> 1
        \<and> 0 \<le> es_total (ed_scores d) \<and> es_total (ed_scores d) \<le> 1)"
proof -
  obtain data task task_id cs ds where r: "json_loads txt = Some data" "eval_cases data = Inr cs"
    "run_cases runner task cs w = (Inr ds, w')" "r = report t task_id ds" using run_evalD [OF assms] by blast
  note ds = run_cases_details [OF r(3)]
  have each: "0 \<le> es_fields (ed_scores d) \<and> es_fields (ed_scores d) \<le> 1 \<and> 0 \<le> es_total (ed_scores d) \<and> es_total (ed_scores d) \<le> 1"
    if "d \<in> set ds" for d using ds that score_ok_total by (auto simp: score_ok_def)
  have "0 \<le> er_pass_rate r \<and> er_pass_rate r \<le> 1"
    unfolding r(4) report_def Let_def by (simp only: eval_result.simps sum_indicator) (rule mean_range, simp)
  moreover have "0 \<le> er_avg_total r \<and> er_avg_total r \<le> 1" "0 \<le> er_avg_fields r \<and> er_avg_fields r \<le> 1"
    unfolding r(4) report_def Let_def by (simp only: eval_result.simps, rule mean_range, use each in simp)+
  ultimately show ?thesis using r each ds by (auto simp: report_def Let_def)
qed

definition demo_data :: pyval where
  "demo_data = PDict [(''task_file'', PStr ''config/t.yaml''), (''cases'', PList
     [PDict [(''sample_id'', PStr ''0''), (''input'', PDict []), (''expected'', PDict [(''owner'', PStr ''Ann'')])],
      PDict [(''sample_id'', PStr ''1''), (''input'', PDict []), (''expected'', PDict [(''owner'', PStr ''Bob'')])]])]"

definition demo_eval :: string where
  "demo_eval = dumps_compact demo_data"

definition demo_runner :: "unit runner" where
  "demo_runner c task w = (if ec_sample_id c = PStr ''0''
     then (Inr [(''extracted'', PDict [(''owner'', PStr '' ann'')]), (''evidence_count'', PInt 2), (''verdict'', PStr ''pass'')], w)
     else (Inl (Exn ''RuntimeError'' ''no browser''), w))"

lemma demo_eval_runs:
  "\<exists>r. run_eval (\<lambda>_. None) demo_runner (8 / 10) None demo_eval () = (Inr r, ()) \<and> er_task_id r = PStr ''t''
     \<and> map ed_verdict (er_details r) = [PStr ''pass'', PNone]"
proof -
  have j: "json_loads demo_eval = Some demo_data" unfolding demo_eval_def by (rule loads_compact) code_simp
  have t: "eval_task (\<lambda>_. None) None demo_data = Inr ([], PStr ''t'')" by code_simp
  obtain cs where cs: "eval_cases demo_data = Inr cs" "cs = projr (eval_cases demo_data)" by (cases "eval_cases demo_data") (code_simp, simp)
  obtain ds where ds: "run_cases demo_runner [] cs () = (Inr ds, ())" "ds = projr (fst (run_cases demo_runner [] cs ()))"
    unfolding cs(2) by (cases "fst (run_cases demo_runner [] (projr (eval_cases demo_data)) ())") (code_simp, metis prod.collapse sum.sel(2) unit.exhaust)
  have "map ed_verdict ds = [PStr ''pass'', PNone]" unfolding ds(2) cs(2) by code_simp
  then show ?thesis using j t cs(1) ds(1) by (simp add: run_eval_def bindA_def report_def Let_def)
qed

theorem eval_report_in_bounds_witness:
  "\<exists>r. run_eval (\<lambda>_. None) demo_runner (8 / 10) None demo_eval () = (Inr r, ()) \<and> er_avg_total r \<le> 1"
  using demo_eval_runs eval_report_in_bounds by metis

text \<open>
  A passing case passed the judge. With a threshold of at least 0.8, the default, a case counts as passed only if
  the verdict on it was \<open>pass\<close> and at least two thirds of the expected fields match, and it scores 1 exactly if all
  three scorers are content. So a pass rate of 1 means that every case was judged a pass; and a case whose run raised
  is scored like any other, keeps the error and does not pass.
\<close>

theorem passing_case_was_judged:
  assumes "run_eval yaml runner t override txt w = (Inr r, w')" "8 / 10 \<le> t"
  shows "(\<forall>d\<in>set (er_details r). (t \<le> es_total (ed_scores d) \<longrightarrow> ed_verdict d = PStr ''pass'' \<and> 2 / 3 \<le> es_fields (ed_scores d))
      \<and> (es_total (ed_scores d) = 1 \<longleftrightarrow> es_fields (ed_scores d) = 1 \<and> es_evidence (ed_scores d) = 1 \<and> ed_verdict d = PStr ''pass''))
    \<and> (er_pass_rate r = 1 \<longrightarrow> (\<forall>d\<in>set (er_details r). ed_verdict d = PStr ''pass''))
    \<and> (\<forall>c task v v' e. runner c task v = (Inl e, v') \<longrightarrow> (case run_case runner task c v of
          (Inr d, v'') \<Rightarrow> ed_error d = PStr (exn_text e) \<and> es_total (ed_scores d) < t \<and> v'' = v'
        | (Inl x, v'') \<Rightarrow> exn_class x = ''AttributeError'' \<and> \<not> is_dict (ec_expected c)))"
proof -
  obtain task task_id cs ds where r: "run_cases runner task cs w = (Inr ds, w')" "r = report t task_id ds" using run_evalD [OF assms(1)] by blast
  have ds: "er_details r = ds" by (simp add: r(2) report_def Let_def)
  have low: "s < t" if "score_ok x" "es_judge x = 0" "s = es_total x" for x s
    using that assms(2) by (auto simp: score_ok_def)
  have each: "(t \<le> es_total (ed_scores d) \<longrightarrow> ed_verdict d = PStr ''pass'' \<and> 2 / 3 \<le> es_fields (ed_scores d))
      \<and> (es_total (ed_scores d) = 1 \<longleftrightarrow> es_fields (ed_scores d) = 1 \<and> es_evidence (ed_scores d) = 1 \<and> ed_verdict d = PStr ''pass'')"
    if "d \<in> set ds" for d
  proof -
    have ok: "score_ok (ed_scores d)" "es_judge (ed_scores d) = judge_pass (ed_verdict d)" using run_cases_details [OF r(1)] that by auto
    show ?thesis using ok assms(2) by (auto simp: score_ok_def judge_pass_def split: if_split_asm)
  qed
  have rate: "\<forall>d\<in>set ds. ed_verdict d = PStr ''pass''" if "er_pass_rate r = 1"
  proof -
    have "of_nat (length (filter (\<lambda>d. t \<le> es_total (ed_scores d)) ds)) = (of_nat (max 1 (length ds)) :: rat)"
      using that by (simp add: r(2) report_def Let_def divide_eq_1_iff del: of_nat_max)
    then have "length (filter (\<lambda>d. t \<le> es_total (ed_scores d)) ds) = max 1 (length ds)" by (simp only: of_nat_eq_iff)
    then have "filter (\<lambda>d. t \<le> es_total (ed_scores d)) ds = ds" using length_filter_le [of _ ds] by (metis filter_id_conv length_filter_less max.bounded_iff nle_le not_less)
    then show ?thesis using each by (metis filter_id_conv)
  qed
  have raised: "case run_case runner task c v of
          (Inr d, v'') \<Rightarrow> ed_error d = PStr (exn_text e) \<and> es_total (ed_scores d) < t \<and> v'' = v'
        | (Inl x, v'') \<Rightarrow> exn_class x = ''AttributeError'' \<and> \<not> is_dict (ec_expected c)"
    if "runner c task v = (Inl e, v')" for c task v v' e
  proof (cases "score_output c (failed_output e)")
    case (Inr d)
    have "ed_verdict d = PNone" "ed_error d = PStr (exn_text e)"
      using Inr by (auto simp: score_output_def failed_output_def bindE_Inr dget_def Let_def)
    then show ?thesis using that Inr low [OF _ _ refl, of "ed_scores d"] score_outputD [OF Inr] by (simp add: run_case_def judge_pass_def)
  next
    case (Inl x)
    then have "exn_class x = ''AttributeError'' \<and> \<not> is_dict (ec_expected c)"
      by (cases "ec_expected c") (auto simp: score_output_def failed_output_def overall_score_def field_match_def screenshot_exists_def no_attr_def
        dget_def dget_or_def py_or_def Let_def split: if_split_asm)
    then show ?thesis using that Inl by (simp add: run_case_def)
  qed
  show ?thesis
    unfolding ds by (rule conjI [OF _ conjI], intro ballI, erule each, rule impI, erule rate, intro allI impI, erule raised)
qed

theorem passing_case_was_judged_witness:
  "\<exists>r d. run_eval (\<lambda>_. None) demo_runner (8 / 10) None demo_eval () = (Inr r, ()) \<and> d \<in> set (er_details r)
     \<and> es_total (ed_scores d) \<noteq> 1 \<and> er_pass_rate r \<noteq> 1"
proof -
  obtain r where "run_eval (\<lambda>_. None) demo_runner (8 / 10) None demo_eval () = (Inr r, ()) \<and> er_task_id r = PStr ''t''
     \<and> map ed_verdict (er_details r) = [PStr ''pass'', PNone]" using demo_eval_runs ..
  note r = conjunct1 [OF this] conjunct2 [OF conjunct2 [OF this]]
  have "PNone \<in> set (map ed_verdict (er_details r))" unfolding r(2) by simp
  then obtain d where d: "d \<in> set (er_details r)" "ed_verdict d = PNone" by auto
  have "\<forall>d\<in>set (er_details r). es_total (ed_scores d) = 1 \<longrightarrow> ed_verdict d = PStr ''pass''"
    "er_pass_rate r = 1 \<longrightarrow> (\<forall>d\<in>set (er_details r). ed_verdict d = PStr ''pass'')"
    using passing_case_was_judged [OF r(1) order_refl] by simp_all
  with d have "es_total (ed_scores d) \<noteq> 1" "er_pass_rate r \<noteq> 1" by auto
  with r(1) d(1) show ?thesis by (intro exI conjI)
qed

text \<open>
  A task that fans out cannot be evaluated. As soon as a run extracts a list, which a task with several items per
  row does, and the case expects a field, the whole evaluation stops with an \<open>AttributeError\<close>.
\<close>

theorem fan_out_output_stops_evaluation:
  assumes "runner c task w = (Inr out, w')" "dget out ''extracted'' = PList xs" "xs \<noteq> []" "ec_expected c = PDict expected" "expected \<noteq> []"
  shows "\<exists>e. run_cases runner task (c # cs) w = (Inl e, w') \<and> exn_class e = ''AttributeError''"
  using assms by (simp add: bindA_def run_case_def score_output_def overall_score_def field_match_def no_attr_def py_or_def Let_def)

theorem fan_out_output_stops_evaluation_witness:
  "\<exists>e. run_cases (\<lambda>c task w. (Inr [(''extracted'', PList [PInt 1])], w)) []
     [\<lparr> ec_sample_id = PStr ''0'', ec_input = PNone, ec_expected = PDict [(''n'', PInt 1)] \<rparr>] () = (Inl e, ()) \<and> exn_class e = ''AttributeError''"
  using fan_out_output_stops_evaluation [of "\<lambda>c task w. (Inr [(''extracted'', PList [PInt 1])], w)"
    "\<lparr> ec_sample_id = PStr ''0'', ec_input = PNone, ec_expected = PDict [(''n'', PInt 1)] \<rparr>" "[]" "()"
    "[(''extracted'', PList [PInt 1])]" "()" "[PInt 1]" "[(''n'', PInt 1)]" "[]"] by (simp add: dget_def)

end
