(* ===== verification/Observations.thy ===== *)
theory Observations
  imports PyText
begin

text \<open>
  \<open>agent/state.py\<close>: the observation window, and \<open>agent/prompts.py\<close>: the user messages of the agent's
  models. In fixed texts a dash outside Latin-1 is written \<open>-\<close>.
\<close>

subsection \<open>The observation window\<close>

definition OBSERVATION_WINDOW :: nat where
  "OBSERVATION_WINDOW = 5"

definition obs_kind :: "pydict \<Rightarrow> pyval" where
  "obs_kind o1 = dget o1 ''kind''"

definition is_extract :: "pydict \<Rightarrow> bool" where
  "is_extract o1 = (obs_kind o1 = PStr ''extract'')"

text \<open>\<open>obs.get("data") or {}\<close>; the data of an observation is a dictionary.\<close>

definition obs_data :: "pydict \<Rightarrow> pydict" where
  "obs_data o1 = (case dget o1 ''data'' of PDict d \<Rightarrow> d | _ \<Rightarrow> [])"

definition text_or :: "pyval \<Rightarrow> string \<Rightarrow> string" where
  "text_or v d = py_str (py_or v (PStr d))"

definition one_line :: "string \<Rightarrow> pydict \<Rightarrow> string" where
  "one_line kind data =
     (if kind = ''snapshot'' then
        ''snapshot: '' @ text_or (dget data ''title'') ''?'' @ '' @ '' @ text_or (dget data ''url'') ''?''
      else if kind = ''extract'' then
        ''extract: fields='' @ py_repr (PList (map (PStr \<circ> fst) (take 5 data)))
      else kind @ '': <'' @ show_nat (length data) @ '' keys>'')"

definition abstract_obs :: "pydict \<Rightarrow> pydict" where
  "abstract_obs o1 =
     (let kind = py_str (dget_or o1 ''kind'' (PStr ''obs''))
      in [(''kind'', PStr (kind @ ''.abstract'')), (''summary'', PStr (one_line kind (obs_data o1)))])"

definition compact_observations :: "pydict list \<Rightarrow> pydict list" where
  "compact_observations obs =
     (let extracts = filter is_extract obs;
          others = filter (\<lambda>o1. \<not> is_extract o1) obs;
          k = length others - OBSERVATION_WINDOW
      in if length others \<le> OBSERVATION_WINDOW then extracts @ others
         else extracts @ map abstract_obs (take k others) @ drop k others)"

subsection \<open>User messages\<close>

definition nl2 :: string where
  "nl2 = [CHR 0x0A, CHR 0x0A]"

text \<open>\<open>xs[:n]\<close> of a value that is a list or a text; \<open>None\<close> and other falsy values were replaced before.\<close>

definition slice_list :: "nat \<Rightarrow> pyval \<Rightarrow> pyval list" where
  "slice_list n v = (case v of PList xs \<Rightarrow> take n xs | _ \<Rightarrow> [])"

definition slice_text :: "nat \<Rightarrow> pyval \<Rightarrow> pyval" where
  "slice_text n v = (case v of PStr s \<Rightarrow> PStr (take n s) | _ \<Rightarrow> PStr [])"

definition sub_get :: "pyval \<Rightarrow> string \<Rightarrow> pyval" where
  "sub_get v k = (case v of PDict d \<Rightarrow> dget d k | _ \<Rightarrow> PNone)"

definition planner_snapshot :: "pydict \<Rightarrow> pyval" where
  "planner_snapshot snap = PDict
     [(''url'', dget snap ''url''), (''title'', dget snap ''title''),
      (''inner_text'', slice_text 2000 (py_or (dget snap ''inner_text'') (PStr []))),
      (''interactive'', PList (map (\<lambda>it. PDict [(''name'', sub_get it ''name''), (''role'', sub_get it ''role''),
          (''selector'', sub_get it ''selector'')]) (slice_list 40 (py_or (dget snap ''interactive'') (PList [])))))]"

definition planner_user :: "string \<Rightarrow> pyval \<Rightarrow> string option \<Rightarrow> pydict \<Rightarrow> pydict option \<Rightarrow> string" where
  "planner_user task_prompt input_data start_url schema current_snapshot =
     (let parts = [''Task: '' @ task_prompt,
                   ''Input row: '' @ dumps_default input_data,
                   ''Start URL: '' @ (case start_url of None \<Rightarrow> ''(none - planner picks)''
                      | Some u \<Rightarrow> if u = [] then ''(none - planner picks)'' else u),
                   ''Target schema:'' @ CHR 0x0A # dumps_indent (PDict schema)];
          page = (case current_snapshot of None \<Rightarrow> [] | Some snap \<Rightarrow> if snap = [] then []
                  else [''Current page (ALREADY LOADED by preflight - your plan should NOT '' @
                        ''re-goto it as the first step; start from whatever comes next):'' @
                        CHR 0x0A # dumps_indent (planner_snapshot snap)])
      in py_join nl2 (parts @ page))"

definition navigator_user :: "pyval list \<Rightarrow> pydict \<Rightarrow> string" where
  "navigator_user remaining snapshot =
     ''Remaining plan:'' @ CHR 0x0A # dumps_default (PList remaining) @ nl2 @
     ''Current snapshot:'' @ CHR 0x0A # take 3000 (dumps_default (PDict snapshot))"

definition verifier_user :: "string \<Rightarrow> pyval \<Rightarrow> pyval \<Rightarrow> pyval \<Rightarrow> string" where
  "verifier_user task_prompt current_step last_action snapshot =
     ''Task goal:'' @ CHR 0x0A # py_strip task_prompt @ nl2 @
     ''Current plan step:'' @ CHR 0x0A # dumps_default current_step @ nl2 @
     ''Last action:'' @ CHR 0x0A # dumps_default last_action @ nl2 @
     ''Resulting snapshot:'' @ CHR 0x0A # take 3000 (dumps_default snapshot)"

text \<open>\<open>kind and kind.endswith(".abstract")\<close>: kinds are texts.\<close>

definition project_observation :: "pydict \<Rightarrow> pyval" where
  "project_observation o1 =
     (let kind = obs_kind o1; data = obs_data o1 in
      if kind = PStr ''extract'' then PDict [(''kind'', PStr ''extract''), (''data'', PDict data)]
      else if (case kind of PStr k \<Rightarrow> py_endswith k ''.abstract'' | _ \<Rightarrow> False)
        then PDict [(''kind'', kind), (''summary'', dget_or o1 ''summary'' (PStr []))]
      else if kind = PStr ''snapshot'' then
        PDict [(''kind'', PStr ''snapshot''), (''url'', dget data ''url''), (''title'', dget data ''title''),
               (''inner_text'', slice_text 4000 (py_or (dget data ''inner_text'') (PStr []))),
               (''interactive_names'', PList (map (\<lambda>i. sub_get i ''name'') (slice_list 30 (py_or (dget data ''interactive'') (PList []))))),
               (''times'', PList (slice_list 10 (py_or (dget data ''times'') (PList []))))]
      else PDict [(''kind'', kind), (''data'', PDict data)])"

definition is_array_schema :: "pydict \<Rightarrow> bool" where
  "is_array_schema schema \<longleftrightarrow> dget schema ''type'' = PStr ''array'' \<or> dhas schema ''items''"

definition mode_hint :: "pydict \<Rightarrow> string" where
  "mode_hint schema = (if is_array_schema schema
     then ''This task expects MULTIPLE items. Return a JSON ARRAY where each '' @
          ''element matches the schema's `items` subschema. If no items are '' @
          ''visible in the evidence, return []. Never wrap the array in an object.''
     else ''Return a single JSON OBJECT matching the schema.'')"

definition extractor_user ::
  "pydict list \<Rightarrow> pydict \<Rightarrow> string option \<Rightarrow> pyval option \<Rightarrow> string list \<Rightarrow> string" where
  "extractor_user observations schema judge_feedback prior_extraction validation_errors =
     (let projected = PList (rev (map project_observation observations));
          parts = [''Mode: '' @ mode_hint schema,
                   ''Target schema:'' @ CHR 0x0A # dumps_default (PDict schema),
                   ''Observations (most-recent first):'' @ CHR 0x0A # take 12000 (dumps_default projected)];
          prior = (case prior_extraction of None \<Rightarrow> []
             | Some v \<Rightarrow> [''Your previous extraction (refine, do NOT restart):'' @ CHR 0x0A # dumps_default v]);
          errs = (if validation_errors = [] then []
             else [''Schema validation errors to fix:'' @ CHR 0x0A # ''- '' @ py_join (CHR 0x0A # ''- '') validation_errors]);
          fb = (case judge_feedback of None \<Rightarrow> [] | Some f \<Rightarrow> if f = [] then []
             else [''Judge feedback to address:'' @ CHR 0x0A # f])
      in py_join nl2 (parts @ prior @ errs @ fb))"

definition judge_user :: "string \<Rightarrow> pyval \<Rightarrow> pyval list \<Rightarrow> string" where
  "judge_user task_prompt extracted evidence =
     ''Task: '' @ task_prompt @ nl2 @ ''Extracted fields: '' @ dumps_default extracted @ CHR 0x0A #
     ''Evidence: '' @ take 2000 (dumps_default (PList evidence))"

subsection \<open>Facts\<close>

lemma abstract_not_extract [simp]: "\<not> is_extract (abstract_obs o1)"
proof
  assume "is_extract (abstract_obs o1)"
  then have "py_str (dget_or o1 ''kind'' (PStr ''obs'')) @ ''.abstract'' = ''extract''"
    by (simp add: is_extract_def obs_kind_def abstract_obs_def Let_def)
  then have "last (py_str (dget_or o1 ''kind'' (PStr ''obs'')) @ ''.abstract'') = last ''extract''
     \<and> suffix ''.abstract'' ''extract''"
    by (metis suffixI)
  then have "suffix ''.abstract'' ''extract''" by blast
  moreover have "\<not> suffix ''.abstract'' ''extract''" by (simp add: suffix_def)
  ultimately show False by blast
qed

lemma filter_extract_abstracts [simp]:
  "filter is_extract (map abstract_obs xs) = []"
  "filter (\<lambda>o1. \<not> is_extract o1) (map abstract_obs xs) = map abstract_obs xs"
  by (induction xs) auto

lemma compact_extracts: "filter is_extract (compact_observations obs) = filter is_extract obs"
proof -
  have "filter is_extract (drop k (filter (\<lambda>o1. \<not> is_extract o1) obs)) = []" for k
    by (auto simp: filter_empty_conv dest: in_set_dropD)
  then show ?thesis by (simp add: compact_observations_def Let_def)
qed

lemma compact_others: "filter (\<lambda>o1. \<not> is_extract o1) (compact_observations obs) =
   (let os = filter (\<lambda>o1. \<not> is_extract o1) obs in
    map abstract_obs (take (length os - OBSERVATION_WINDOW) os) @ drop (length os - OBSERVATION_WINDOW) os)"
proof -
  have "filter (\<lambda>o1. \<not> is_extract o1) (drop k (filter (\<lambda>o1. \<not> is_extract o1) obs))
     = drop k (filter (\<lambda>o1. \<not> is_extract o1) obs)" for k
    by (auto simp: filter_id_conv dest: in_set_dropD)
  then show ?thesis by (simp add: compact_observations_def Let_def)
qed

lemma compact_length: "length (compact_observations obs) = length obs"
  using length_filter_partition [of is_extract obs] by (simp add: compact_observations_def Let_def)

text \<open>Compacting once more abstracts the abstracts again, and their summaries are lost.\<close>

lemma abstract_twice: "abstract_obs (abstract_obs o1) =
    (let kind = py_str (dget_or o1 ''kind'' (PStr ''obs'')) @ ''.abstract'' in
     [(''kind'', PStr (kind @ ''.abstract'')), (''summary'', PStr (one_line kind []))])"
  by (simp add: abstract_obs_def Let_def obs_data_def dget_or_def)

section \<open>Properties\<close>

text \<open>
  Compacting the observations never drops one: the length is kept, every extract is kept verbatim and
  in order (in front), and of the others the last \<open>OBSERVATION_WINDOW\<close> are kept verbatim while each older
  one becomes a one-line abstract; a history with at most that many others loses nothing.
\<close>

theorem compact_observations_window:
  "length (compact_observations obs) = length obs
    \<and> filter is_extract (compact_observations obs) = filter is_extract obs
    \<and> (let os = filter (\<lambda>o1. \<not> is_extract o1) obs; k = length os - OBSERVATION_WINDOW in
        filter (\<lambda>o1. \<not> is_extract o1) (compact_observations obs) = map abstract_obs (take k os) @ drop k os)"
  using compact_length compact_extracts compact_others by (metis (no_types, lifting))

text \<open>
  The abstracts do not survive a second compaction. When the window moves on, the abstract of a
  snapshot is abstracted again: its kind grows by another suffix, and its summary, which named the page's
  title and address, is replaced by a count of zero keys.
\<close>

theorem reabstraction_loses_summary:
  assumes "dget o1 ''kind'' = PStr ''snapshot''" "length os = OBSERVATION_WINDOW"
    and "\<forall>o2\<in>set os. \<not> is_extract o2" "\<not> is_extract s"
  shows "compact_observations (compact_observations (o1 # os) @ [s]) =
      [(''kind'', PStr ''snapshot.abstract.abstract''), (''summary'', PStr ''snapshot.abstract: <0 keys>'')]
        # abstract_obs (hd os) # tl os @ [s]"
proof -
  have k: "dget_or o1 ''kind'' (PStr ''obs'') = PStr ''snapshot''"
    using assms(1) by (auto simp: dget_def dget_or_def split: option.splits)
  have n1: "\<not> is_extract o1" using assms(1) by (simp add: is_extract_def obs_kind_def)
  have fe: "filter is_extract os = []" "filter (\<lambda>o1. \<not> is_extract o1) os = os"
    using assms(3) by (auto simp: filter_empty_conv filter_id_conv)
  have c1: "compact_observations (o1 # os) = abstract_obs o1 # os"
    using n1 fe assms(2) by (simp add: compact_observations_def Let_def OBSERVATION_WINDOW_def)
  obtain x xs where os: "os = x # xs" using assms(2) by (cases os) (auto simp: OBSERVATION_WINDOW_def)
  have "abstract_obs (abstract_obs o1) =
      [(''kind'', PStr ''snapshot.abstract.abstract''), (''summary'', PStr ''snapshot.abstract: <0 keys>'')]"
    by (simp add: abstract_twice k one_line_def show_nat_zero)
  then show ?thesis
    using n1 fe assms(2,4) os by (simp add: c1 compact_observations_def Let_def OBSERVATION_WINDOW_def split: if_splits)
qed

theorem reabstraction_loses_summary_witness:
  "compact_observations (compact_observations ([(''kind'', PStr ''snapshot''), (''data'', PDict [(''title'', PStr ''Inbox'')])]
      # replicate 5 [(''kind'', PStr ''note'')]) @ [[(''kind'', PStr ''note'')]]) =
   [(''kind'', PStr ''snapshot.abstract.abstract''), (''summary'', PStr ''snapshot.abstract: <0 keys>'')]
     # abstract_obs [(''kind'', PStr ''note'')] # tl (replicate 5 [(''kind'', PStr ''note'')]) @ [[(''kind'', PStr ''note'')]]"
  using reabstraction_loses_summary [of "[(''kind'', PStr ''snapshot''), (''data'', PDict [(''title'', PStr ''Inbox'')])]"
      "replicate 5 [(''kind'', PStr ''note'')]" "[(''kind'', PStr ''note'')]"]
  by (simp add: OBSERVATION_WINDOW_def is_extract_def obs_kind_def)

end
