(* ===== verification/PlanCache.thy ===== *)
theory PlanCache
  imports PyText
begin

text \<open>
  \<open>agent/plan_cache.py\<close> (plans kept per task, schema and URL pattern, in memory and on disk),
  \<open>agent/classify.py\<close> and \<open>agent/specialists/prompts.py\<close> (task type and its system prompt). SHA-256 is
  the argument \<open>sha\<close>; a language model is a \<open>chat\<close>: messages and response schema to the adapter's answer.
\<close>

type_synonym 'w chat = "pyval \<Rightarrow> pyval \<Rightarrow> ('w, pydict) act"

subsection \<open>Keys\<close>

text \<open>\<open>re.fullmatch(r"[A-Z]+-\d+", seg)\<close>: letters, one dash, digits.\<close>

definition ticket_id :: "string \<Rightarrow> bool" where
  "ticket_id seg = (let up = takeWhile is_upper_ascii seg; r = dropWhile is_upper_ascii seg in
     up \<noteq> [] \<and> r \<noteq> [] \<and> hd r = CHR ''-'' \<and> tl r \<noteq> [] \<and> list_all is_digit (tl r))"

definition url_segment :: "string \<Rightarrow> string" where
  "url_segment seg = (if seg \<noteq> [] \<and> (list_all is_digit seg \<or> ticket_id seg) then '':id'' else seg)"

text \<open>\<open>_url_pattern\<close>: the query is dropped, final slashes are dropped, identifier segments are abstracted.\<close>

definition url_pattern :: "string option \<Rightarrow> string" where
  "url_pattern url = (case url of
     None \<Rightarrow> []
   | Some u \<Rightarrow>
       if u = [] then []
       else let base = rstrip_by (\<lambda>c. c = CHR ''/'') (case split_once ''?'' u of None \<Rightarrow> u | Some (a, b) \<Rightarrow> a)
            in py_join ''/'' (map url_segment (split_char (CHR ''/'') base)))"

definition plan_blob :: "string \<Rightarrow> pydict \<Rightarrow> string option \<Rightarrow> string" where
  "plan_blob task_prompt schema url =
     py_join [CHR 0x1F] [py_strip task_prompt, canonical_json (PDict schema), url_pattern url]"

definition plan_key :: "(string \<Rightarrow> string) \<Rightarrow> string \<Rightarrow> pydict \<Rightarrow> string option \<Rightarrow> string" where
  "plan_key sha task_prompt schema url = sha (plan_blob task_prompt schema url)"

subsection \<open>The cache\<close>

text \<open>\<open>pc_mem\<close> is the dictionary of the process, \<open>pc_disk\<close> the texts of the files \<open><key>.json\<close>.\<close>

record plan_cache =
  pc_mem :: "string \<Rightarrow> pyval list option"
  pc_disk :: "string \<Rightarrow> string option"

definition cache_get :: "string \<Rightarrow> plan_cache \<Rightarrow> pyval list option \<times> plan_cache" where
  "cache_get key c = (case pc_mem c key of
     Some plan \<Rightarrow> (Some plan, c)
   | None \<Rightarrow> (case pc_disk c key of
        None \<Rightarrow> (None, c)
      | Some txt \<Rightarrow> (case json_loads txt of
           Some (PList plan) \<Rightarrow> (Some plan, c\<lparr>pc_mem := (pc_mem c)(key \<mapsto> plan)\<rparr>)
         | _ \<Rightarrow> (None, c))))"

definition cache_put :: "string \<Rightarrow> pyval list \<Rightarrow> plan_cache \<Rightarrow> plan_cache" where
  "cache_put key plan c =
     c\<lparr>pc_mem := (pc_mem c)(key \<mapsto> plan), pc_disk := (pc_disk c)(key \<mapsto> dumps_default (PList plan))\<rparr>"

text \<open>A process that starts anew on the same directory.\<close>

definition cache_restart :: "plan_cache \<Rightarrow> plan_cache" where
  "cache_restart c = c\<lparr>pc_mem := Map.empty\<rparr>"

subsection \<open>Task types\<close>

definition VALID_TASK_TYPES :: "string list" where
  "VALID_TASK_TYPES = [''extract'', ''form_fill'', ''list_iter'', ''navigate'', ''unknown'']"

definition classify_cache_key :: "(string \<Rightarrow> string) \<Rightarrow> string \<Rightarrow> pydict \<Rightarrow> string" where
  "classify_cache_key sha task_prompt schema =
     sha (py_strip task_prompt @ [CHR 0x1F] @ dumps_default (sort_keys (PDict schema)))"

definition chat_msg :: "string \<Rightarrow> pyval \<Rightarrow> pyval" where
  "chat_msg role content = PDict [(''role'', PStr role), (''content'', content)]"

text \<open>The user message; its keys are read outside the \<open>try\<close>, so a schema whose properties are no dictionary raises.\<close>

definition classify_user :: "string \<Rightarrow> pydict \<Rightarrow> exn + string" where
  "classify_user task_prompt schema = (case dget_or schema ''properties'' (PDict []) of
     PDict ps \<Rightarrow> Inr (''Task: '' @ py_strip task_prompt @ [CHR 0x0A, CHR 0x0A] @ ''Target schema keys: ''
       @ py_repr (PList (map (PStr \<circ> fst) ps)))
   | v \<Rightarrow> Inl (Exn ''AttributeError'' (CHR 0x27 # type_name v @ CHR 0x27 # '' object has no attribute '' @ repr_str ''keys'')))"

text \<open>The answer without its fence: \<open>strip("`")\<close>, and the rest of the first line after \<open>json\<close>.\<close>

definition unfence_answer :: "string \<Rightarrow> string" where
  "unfence_answer content0 =
     (let content = py_strip content0 in
      if py_startswith content fence then
        let c = py_strip_chars [CHR 0x60] content
        in if py_startswith (py_lower c) ''json''
           then (case split_once [CHR 0x0A] c of None \<Rightarrow> [] | Some (a, b) \<Rightarrow> b) else c
      else content)"

definition classify_answer :: "pydict \<Rightarrow> exn + string" where
  "classify_answer out = (case py_or (dget out ''content'') (PStr []) of
     PStr s \<Rightarrow> (case json_loads (unfence_answer s) of
        None \<Rightarrow> Inl json_decode_error
      | Some v \<Rightarrow> (case v of
           PDict d \<Rightarrow> Inr (py_lower (py_strip (py_str (dget_or d ''task_type'' (PStr [])))))
         | _ \<Rightarrow> bindE (attr_get v ''task_type'') (\<lambda>_. Inr [])))
   | v \<Rightarrow> Inl (Exn ''AttributeError'' (CHR 0x27 # type_name v @ CHR 0x27 # '' object has no attribute '' @ repr_str ''strip'')))"

text \<open>Every exception inside the \<open>try\<close>, the model's own included, ends as \<open>unknown\<close>.\<close>

definition classify_task :: "string \<Rightarrow> 'w chat \<Rightarrow> string \<Rightarrow> pydict \<Rightarrow> ('w, string) act" where
  "classify_task system classifier task_prompt schema w =
     (case classify_user task_prompt schema of
        Inl e \<Rightarrow> (Inl e, w)
      | Inr user \<Rightarrow>
          (case classifier (PList [chat_msg ''system'' (PStr system), chat_msg ''user'' (PStr user)]) PNone w of
             (Inl e, w') \<Rightarrow> (Inr ''unknown'', w')
           | (Inr out, w') \<Rightarrow>
               (case classify_answer out of
                  Inl e \<Rightarrow> (Inr ''unknown'', w')
                | Inr t \<Rightarrow> (Inr (if t \<in> set VALID_TASK_TYPES then t else ''unknown''), w'))))"

text \<open>\<open>specialists.system_prompt_for\<close>: the texts themselves are an argument.\<close>

record prompt_texts =
  pt_extract :: string
  pt_form_fill :: string
  pt_list_iter :: string
  pt_navigate :: string
  pt_generic :: string

definition system_prompt_for :: "prompt_texts \<Rightarrow> string \<Rightarrow> string" where
  "system_prompt_for pt task_type =
     (if task_type = ''extract'' then pt_extract pt
      else if task_type = ''form_fill'' then pt_form_fill pt
      else if task_type = ''list_iter'' then pt_list_iter pt
      else if task_type = ''navigate'' then pt_navigate pt
      else pt_generic pt)"

subsection \<open>Facts\<close>

lemma plan_blob_inj:
  assumes "plan_blob p s u = plan_blob p' s' u'" "CHR 0x1F \<notin> set p" "CHR 0x1F \<notin> set p'"
  shows "py_strip p = py_strip p' \<and> canonical_json (PDict s) = canonical_json (PDict s') \<and> url_pattern u = url_pattern u'"
proof -
  have st: "set (py_strip x) \<subseteq> set x" for x
    unfolding py_strip_def using set_rstrip_by set_lstrip_by by fastforce
  have "py_strip p @ CHR 0x1F # canonical_json (PDict s) @ CHR 0x1F # url_pattern u
      = py_strip p' @ CHR 0x1F # canonical_json (PDict s') @ CHR 0x1F # url_pattern u'"
    using assms(1) by (simp add: plan_blob_def)
  then have a: "py_strip p = py_strip p' \<and> canonical_json (PDict s) @ CHR 0x1F # url_pattern u
      = canonical_json (PDict s') @ CHR 0x1F # url_pattern u'"
    by (intro sep_split) (use assms st in blast)+
  then have "canonical_json (PDict s) @ CHR 0x1F # url_pattern u = canonical_json (PDict s') @ CHR 0x1F # url_pattern u'"
    by blast
  then have "canonical_json (PDict s) = canonical_json (PDict s') \<and> url_pattern u = url_pattern u'"
    by (intro sep_split) (auto simp: canonical_no_sep)
  with a show ?thesis by blast
qed

lemma cache_get_put: "fst (cache_get k (cache_put k' plan c)) = (if k = k' then Some plan else fst (cache_get k c))"
  by (auto simp: cache_get_def cache_put_def split: option.splits pyval.splits)

lemma cache_get_restart:
  "wf_elems plan \<Longrightarrow> fst (cache_get k (cache_restart (cache_put k plan c))) = Some plan"
  by (simp add: cache_get_def cache_put_def cache_restart_def)

section \<open>Properties\<close>

text \<open>
  The plan cache is a map that survives restarts. After \<open>put\<close> the plan is found under its key and the
  other keys answer as before, in this process and (for JSON plans) in a new one on the same
  directory. Equal keys mean the same task prompt up to outer blanks, the same schema up to key order
  and the same URL pattern, or else a SHA-256 collision between the two key texts.
\<close>

theorem plan_cache_sound:
  "fst (cache_get k' (cache_put (plan_key sha p s u) plan c))
       = (if k' = plan_key sha p s u then Some plan else fst (cache_get k' c))
    \<and> (wf_elems plan \<longrightarrow> fst (cache_get (plan_key sha p s u) (cache_restart (cache_put (plan_key sha p s u) plan c))) = Some plan)
    \<and> (CHR 0x1F \<notin> set p \<longrightarrow> CHR 0x1F \<notin> set p' \<longrightarrow> plan_key sha p s u = plan_key sha p' s' u' \<longrightarrow>
        (py_strip p = py_strip p' \<and> canonical_json (PDict s) = canonical_json (PDict s') \<and> url_pattern u = url_pattern u')
        \<or> (plan_blob p s u \<noteq> plan_blob p' s' u' \<and> sha (plan_blob p s u) = sha (plan_blob p' s' u')))"
  using plan_blob_inj [of p s u p' s' u'] by (auto simp: cache_get_put cache_get_restart plan_key_def)

theorem plan_cache_sound_witness:
  "fst (cache_get ''k'' (cache_restart (cache_put (plan_key (\<lambda>_. ''k'') ''t'' [] None) [PDict [(''action'', PStr ''done'')]]
      \<lparr>pc_mem = Map.empty, pc_disk = Map.empty\<rparr>))) = Some [PDict [(''action'', PStr ''done'')]]"
  using plan_cache_sound [where sha = "\<lambda>_. ''k''" and p = "''t''" and s = "[]" and u = None
      and plan = "[PDict [(''action'', PStr ''done'')]]" and c = "\<lparr>pc_mem = Map.empty, pc_disk = Map.empty\<rparr>",
      THEN conjunct2, THEN conjunct1]
  by (simp add: plan_key_def)

end
