(* ===== verification/Descriptors.thy ===== *)
theory Descriptors
  imports PlanCache
begin

text \<open>
  The Set-of-Mark resolver of \<open>agent/nodes.py\<close>: matching structural descriptors against the marks of a
  page, asking the vision model, and generalising its choice into a descriptor that replays. Marks are
  dictionaries made by one script, so equal marks have equal items in equal order. The regular-expression
  engine is the argument \<open>re_search pat text\<close>: \<open>None\<close> when the pattern does not compile (\<open>re.error\<close>).
\<close>

type_synonym re_engine = "string \<Rightarrow> string \<Rightarrow> bool option"

definition pattern_error :: exn where
  "pattern_error = Exn ''TypeError'' ''first argument must be string or compiled pattern''"

definition subject_error :: exn where
  "subject_error = Exn ''TypeError'' ''expected string or bytes-like object''"

subsection \<open>Matching\<close>

text \<open>One pattern field: empty fields and patterns that do not compile filter nothing.\<close>

definition field_passes :: "re_engine \<Rightarrow> pyval \<Rightarrow> pyval \<Rightarrow> exn + bool" where
  "field_passes re pat v =
     (if \<not> truthy pat then Inr True
      else (case pat of
          PStr p \<Rightarrow> (case py_or v (PStr []) of
              PStr t \<Rightarrow> Inr (case re p t of None \<Rightarrow> True | Some b \<Rightarrow> b)
            | _ \<Rightarrow> (case re p [] of None \<Rightarrow> Inr True | Some b \<Rightarrow> Inl subject_error))
        | _ \<Rightarrow> Inl pattern_error))"

definition mark_matches :: "re_engine \<Rightarrow> pydict \<Rightarrow> pydict \<Rightarrow> exn + bool" where
  "mark_matches re desc m =
     (let role = py_or (dget desc ''role'') (PStr []);
          region = py_or (dget desc ''viewport_region'') (PStr [])
      in if truthy role \<and> dget m ''role'' \<noteq> role then Inr False
         else bindE (field_passes re (dget desc ''href_pattern'') (dget m ''href'')) (\<lambda>a.
              if \<not> a then Inr False
              else bindE (field_passes re (dget desc ''name_pattern'') (dget m ''name'')) (\<lambda>b.
              if \<not> b then Inr False
              else bindE (field_passes re (dget desc ''placeholder_pattern'') (dget m ''placeholder'')) (\<lambda>c.
              if \<not> c then Inr False
              else Inr (\<not> (truthy region \<and> py_or (dget m ''viewport_region'') (PStr []) \<noteq> region))))))"

fun filter_by_descriptor :: "re_engine \<Rightarrow> pydict list \<Rightarrow> pydict \<Rightarrow> exn + pydict list" where
  "filter_by_descriptor re [] desc = Inr []"
| "filter_by_descriptor re (m # ms) desc =
     bindE (mark_matches re desc m) (\<lambda>b.
     bindE (filter_by_descriptor re ms desc) (\<lambda>rest. Inr (if b then m # rest else rest)))"

definition match_descriptor :: "re_engine \<Rightarrow> pyval \<Rightarrow> pydict list \<Rightarrow> exn + pydict option" where
  "match_descriptor re desc marks =
     (if \<not> truthy desc then Inr None
      else (case desc of
          PDict d \<Rightarrow>
            bindE (filter_by_descriptor re marks d) (\<lambda>candidates.
            if candidates = [] then Inr None
            else bindE (py_int (dget_or d ''ordinal'' (PInt 0))) (\<lambda>ordinal.
              Inr (if 0 \<le> ordinal \<and> ordinal < int (length candidates) then Some (candidates ! nat ordinal) else None)))
        | v \<Rightarrow> bindE (attr_get v ''role'') (\<lambda>_. Inr None)))"

subsection \<open>Asking the vision model\<close>

definition vision_messages :: "string \<Rightarrow> string \<Rightarrow> pydict list \<Rightarrow> string \<Rightarrow> pyval" where
  "vision_messages system intent marks img_b64 =
     PList [chat_msg ''system'' (PStr system),
            chat_msg ''user'' (PList
              [PDict [(''type'', PStr ''text''),
                      (''text'', PStr (''Intent: '' @ intent @ [CHR 0x0A, CHR 0x0A] @ ''Marks visible on page (JSON):''
                          @ CHR 0x0A # dumps_default (PList (map PDict (take 40 marks)))))],
               PDict [(''type'', PStr ''image''),
                      (''source'', PDict [(''type'', PStr ''base64''), (''media_type'', PStr ''image/png''),
                                          (''data'', PStr img_b64)])]])]"

text \<open>\<open>by_id = {int(m["mark_id"]): m for m in marks}\<close>: a later mark of the same id wins.\<close>

definition mark_ids :: "pydict list \<Rightarrow> exn + (int \<times> pydict) list" where
  "mark_ids marks = mapE (\<lambda>m. bindE (bindE (getitem m ''mark_id'') py_int) (\<lambda>i. Inr (i, m))) marks"

definition vision_choice :: "re_engine \<Rightarrow> pydict list \<Rightarrow> pyval \<Rightarrow> exn + (pydict \<times> pyval)" where
  "vision_choice re marks parsed =
     bindE (case parsed of PDict d \<Rightarrow> py_int (dget_or d ''mark_id'' (PInt (- 1)))
              | v \<Rightarrow> bindE (attr_get v ''mark_id'') py_int) (\<lambda>mark_id.
     bindE (mark_ids marks) (\<lambda>by_id.
     bindE (attr_get parsed ''descriptor'') (\<lambda>desc.
     bindE (case find_last (\<lambda>(i, m). i = mark_id) by_id of
              Some (i, m) \<Rightarrow> Inr m
            | None \<Rightarrow>
                bindE (if truthy desc then
                         (case desc of PDict d \<Rightarrow> filter_by_descriptor re marks d
                          | v \<Rightarrow> bindE (attr_get v ''role'') (\<lambda>_. Inr []))
                       else Inr marks) (\<lambda>candidates.
                if candidates \<noteq> [] then Inr (hd candidates)
                else if marks \<noteq> [] then Inr (hd marks)
                else Inl (Exn ''IndexError'' ''list index out of range''))) (\<lambda>mark.
     Inr (mark, py_or desc (PDict [(''role'', dget_or mark ''role'' (PStr []))]))))))"

definition vision_schema :: pyval where
  "vision_schema =
     (let str = PDict [(''type'', PStr ''string'')] in
      PDict [(''type'', PStr ''object''),
        (''properties'', PDict
          [(''mark_id'', PDict [(''type'', PStr ''integer'')]),
           (''descriptor'', PDict
             [(''type'', PStr ''object''),
              (''properties'', PDict [(''role'', str), (''href_pattern'', str), (''name_pattern'', str),
                 (''placeholder_pattern'', str), (''viewport_region'', str)]),
              (''required'', PList [PStr ''role''])]),
           (''rationale'', str)]),
        (''required'', PList [PStr ''mark_id'', PStr ''descriptor'']), (''title'', PStr ''VisualResolve'')])"

text \<open>\<open>read_image path\<close> is the base64 text of the file's bytes.\<close>

definition vision_resolve ::
  "re_engine \<Rightarrow> string \<Rightarrow> (string \<Rightarrow> ('w, string) act) \<Rightarrow> 'w chat \<Rightarrow> string \<Rightarrow> string \<Rightarrow> pydict list
    \<Rightarrow> ('w, pydict \<times> pyval) act" where
  "vision_resolve re system read_image vision intent image_path marks =
     bindA (read_image image_path) (\<lambda>img.
     bindA (vision (vision_messages system intent marks img) vision_schema) (\<lambda>out.
     liftE (bindE (if is_dict (dget out ''parsed'') then Inr (dget out ''parsed'')
                   else parse_json (py_or (dget out ''content'') (PStr ''{}''))) (\<lambda>parsed.
            vision_choice re marks parsed))))"

subsection \<open>Generalising the choice\<close>

text \<open>\<open>dict(vision_hint or {})\<close>\<close>

definition hint_dict :: "pyval \<Rightarrow> exn + pydict" where
  "hint_dict v = (if \<not> truthy v then Inr [] else (case v of PDict d \<Rightarrow> Inr d
     | _ \<Rightarrow> Inl (Exn ''TypeError'' ''cannot convert dictionary update sequence element'')))"

definition copy_truthy :: "pydict \<Rightarrow> string \<Rightarrow> pydict \<Rightarrow> pydict" where
  "copy_truthy hint k d = (if truthy (dget hint k) then dset d k (dget hint k) else d)"

definition base_descriptor :: "pydict \<Rightarrow> pydict \<Rightarrow> pydict" where
  "base_descriptor mark hint =
     fold (copy_truthy hint) [''href_pattern'', ''name_pattern'', ''placeholder_pattern'', ''viewport_region'']
       [(''role'', py_or (dget mark ''role'') (py_or (dget hint ''role'') (PStr [])))]"

definition same_role :: "pydict list \<Rightarrow> pydict \<Rightarrow> pydict list" where
  "same_role marks desc = filter (\<lambda>m. dget m ''role'' = dget desc ''role'') marks"

definition descriptor_for :: "re_engine \<Rightarrow> pydict \<Rightarrow> pydict list \<Rightarrow> pyval \<Rightarrow> exn + pydict" where
  "descriptor_for re mark marks vision_hint =
     bindE (hint_dict vision_hint) (\<lambda>hint.
     let desc = base_descriptor mark hint in
     bindE (filter_by_descriptor re marks desc) (\<lambda>candidates.
     Inr (dset desc ''ordinal'' (PInt (int
       (case index_of candidates mark of
          Some i \<Rightarrow> i
        | None \<Rightarrow> (case index_of (same_role marks desc) mark of Some j \<Rightarrow> j | None \<Rightarrow> 0)))))))"

subsection \<open>Facts\<close>

lemma mark_matches_cong:
  assumes "\<forall>k\<in>{''role'', ''viewport_region'', ''href_pattern'', ''name_pattern'', ''placeholder_pattern''}. dget d k = dget d' k"
  shows "mark_matches re d m = mark_matches re d' m"
proof -
  have e: "dget d ''role'' = dget d' ''role''" "dget d ''viewport_region'' = dget d' ''viewport_region''"
    "dget d ''href_pattern'' = dget d' ''href_pattern''" "dget d ''name_pattern'' = dget d' ''name_pattern''"
    "dget d ''placeholder_pattern'' = dget d' ''placeholder_pattern''" using assms by simp_all
  show ?thesis unfolding mark_matches_def e ..
qed

lemma filter_by_descriptor_cong:
  assumes "\<forall>k\<in>{''role'', ''viewport_region'', ''href_pattern'', ''name_pattern'', ''placeholder_pattern''}. dget d k = dget d' k"
  shows "filter_by_descriptor re ms d = filter_by_descriptor re ms d'"
  by (induction ms) (simp_all add: mark_matches_cong [OF assms])

lemma filter_by_descriptor_Inr:
  "filter_by_descriptor re ms d = Inr cs \<Longrightarrow> cs = filter (\<lambda>m. mark_matches re d m = Inr True) ms"
  by (induction ms arbitrary: cs) (auto simp: bindE_Inr)

lemma copy_truthy_other: "k \<noteq> k' \<Longrightarrow> dget (copy_truthy h k d) k' = dget d k'"
  by (simp add: copy_truthy_def)

lemma copy_truthy_has: "dhas d k' \<Longrightarrow> dhas (copy_truthy h k d) k'"
  by (simp add: copy_truthy_def)

lemma base_descriptor_role: "dget (base_descriptor m h) ''role'' = py_or (dget m ''role'') (py_or (dget h ''role'') (PStr []))"
  by (simp add: base_descriptor_def copy_truthy_other)

lemma base_descriptor_no_ordinal: "dget (base_descriptor m h) ''ordinal'' = PNone"
  by (simp add: base_descriptor_def copy_truthy_other)

lemma dget_or_dset [simp]: "dget_or (dset d k v) k x = v"
  by (simp add: dget_or_def dset_def update_conv)

lemma replay_ordinal:
  assumes "filter_by_descriptor re marks desc = Inr cs"
  shows "match_descriptor re (PDict (dset desc ''ordinal'' (PInt (int n)))) marks =
     Inr (if n < length cs then Some (cs ! n) else None)"
proof -
  have "filter_by_descriptor re marks (dset desc ''ordinal'' (PInt (int n))) = Inr cs"
    using assms filter_by_descriptor_cong [of "dset desc ''ordinal'' (PInt (int n))" desc] by simp
  then show ?thesis by (simp add: match_descriptor_def py_int_def)
qed

section \<open>Properties\<close>

text \<open>
  A cached descriptor replays exactly. On the page it was made for, matching the descriptor computed for
  a mark gives back that very mark if and only if the mark satisfies the fields of its own descriptor;
  when the model's pattern was too strict for the mark it chose, replay gives another mark or none.
\<close>

theorem descriptor_replays_exactly:
  assumes "descriptor_for re mark marks hint = Inr desc" "hint_dict hint = Inr h" "mark \<in> set marks"
  shows "match_descriptor re (PDict desc) marks = Inr (Some mark)
     \<longleftrightarrow> mark_matches re (base_descriptor mark h) mark = Inr True"
proof -
  let ?b = "base_descriptor mark h"
  from assms(1,2) obtain cs where cs: "filter_by_descriptor re marks ?b = Inr cs"
    and desc: "desc = dset ?b ''ordinal'' (PInt (int (case index_of cs mark of Some i \<Rightarrow> i
        | None \<Rightarrow> (case index_of (same_role marks ?b) mark of Some j \<Rightarrow> j | None \<Rightarrow> 0))))"
    by (auto simp: descriptor_for_def bindE_Inr Let_def)
  note f = filter_by_descriptor_Inr [OF cs]
  note r = replay_ordinal [OF cs]
  show ?thesis
  proof
    assume "match_descriptor re (PDict desc) marks = Inr (Some mark)"
    then have "mark \<in> set cs" by (auto simp: desc r split: if_splits dest: nth_mem)
    then show "mark_matches re ?b mark = Inr True" by (simp add: f)
  next
    assume "mark_matches re ?b mark = Inr True"
    then have "mark \<in> set cs" using assms(3) by (simp add: f)
    then obtain i where i: "index_of cs mark = Some i" by (cases "index_of cs mark") auto
    with index_of_SomeD [OF i] show "match_descriptor re (PDict desc) marks = Inr (Some mark)"
      by (simp add: desc r)
  qed
qed

definition demo_marks :: "pydict list" where
  "demo_marks = [[(''mark_id'', PInt 0), (''role'', PStr ''link''), (''href'', PStr ''/a'')],
                 [(''mark_id'', PInt 1), (''role'', PStr ''link''), (''href'', PStr ''/pull/7'')],
                 [(''mark_id'', PInt 2), (''role'', PStr ''link''), (''href'', PStr ''/pull/8'')]]"

text \<open>A regular-expression engine that searches for the pattern as a plain text.\<close>

definition plain_search :: re_engine where
  "plain_search p t = Some (py_contains t p)"

theorem descriptor_replays_exactly_witness:
  "match_descriptor plain_search (PDict [(''role'', PStr ''link''), (''href_pattern'', PStr ''/pull/''), (''ordinal'', PInt 1)])
     demo_marks = Inr (Some (demo_marks ! 2))"
proof -
  let ?h = "PDict [(''href_pattern'', PStr ''/pull/'')]"
  have "descriptor_for plain_search (demo_marks ! 2) demo_marks ?h
      = Inr [(''role'', PStr ''link''), (''href_pattern'', PStr ''/pull/''), (''ordinal'', PInt 1)]" by code_simp
  moreover have "hint_dict ?h = Inr [(''href_pattern'', PStr ''/pull/'')]" by (simp add: hint_dict_def)
  moreover have "demo_marks ! 2 \<in> set demo_marks" by (simp add: demo_marks_def)
  moreover have "mark_matches plain_search (base_descriptor (demo_marks ! 2) [(''href_pattern'', PStr ''/pull/'')]) (demo_marks ! 2)
      = Inr True" by code_simp
  ultimately show ?thesis using descriptor_replays_exactly by blast
qed

end
