(* ===== verification/AgentState.thy ===== *)
theory AgentState
  imports Observations Descriptors Tools
begin

text \<open>
  The state that flows through the agent's graph (\<open>agent/state.py\<close>, class \<open>AgentState\<close>), the partial
  updates its nodes return with LangGraph's merge of them, and what a node sees besides the state
  (\<open>AgentDeps\<close> of \<open>agent/nodes.py\<close>, with the process's plan cache and the memo of the classify node).
\<close>

text \<open>\<open>Replanning\<close> is written by the verify node though the \<open>Status\<close> literal does not list it.\<close>

datatype status =
    Pending_status | Planning | Acting | Verifying | Extracting | Persisting | Judging | Done_status | Failed
  | Replanning

record agent_state =
  st_run_id :: string
  st_sample_id :: string
  st_task_prompt :: string
  st_input_data :: pyval
  st_start_url :: "string option"
  st_schema :: pydict
  st_plan :: "pyval list"
  st_step :: nat
  st_obs :: "pydict list"
  st_tool_calls :: "pydict list"
  st_evidence :: "pyval list"
  st_extracted :: pyval
  st_reflect :: nat
  st_fails :: nat
  st_plan_count :: nat
  st_cache_hit :: bool
  st_task_type :: string
  st_tool_error :: "string option"
  st_extract_errors :: "string list"
  st_judge_feedback :: pyval
  st_status :: status
  st_verdict :: pyval
  st_verdict_reason :: pyval
  st_error :: "string option"

text \<open>One key of a partial update.\<close>

datatype upd =
    U_plan "pyval list" | U_step nat | U_obs "pydict list" | U_tool_calls "pydict list" | U_evidence "pyval list"
  | U_extracted pyval | U_reflect nat | U_fails nat | U_plan_count nat | U_cache_hit bool | U_task_type string
  | U_tool_error "string option" | U_extract_errors "string list" | U_judge_feedback pyval | U_status status
  | U_verdict pyval | U_verdict_reason pyval | U_error "string option"

text \<open>The merge: \<open>tool_calls\<close> and \<open>evidence\<close> have the reducer \<open>_append\<close>, every other key is replaced.\<close>

fun apply_upd :: "upd \<Rightarrow> agent_state \<Rightarrow> agent_state" where
  "apply_upd (U_plan x) st = st\<lparr>st_plan := x\<rparr>"
| "apply_upd (U_step x) st = st\<lparr>st_step := x\<rparr>"
| "apply_upd (U_obs x) st = st\<lparr>st_obs := x\<rparr>"
| "apply_upd (U_tool_calls x) st = st\<lparr>st_tool_calls := st_tool_calls st @ x\<rparr>"
| "apply_upd (U_evidence x) st = st\<lparr>st_evidence := st_evidence st @ x\<rparr>"
| "apply_upd (U_extracted x) st = st\<lparr>st_extracted := x\<rparr>"
| "apply_upd (U_reflect x) st = st\<lparr>st_reflect := x\<rparr>"
| "apply_upd (U_fails x) st = st\<lparr>st_fails := x\<rparr>"
| "apply_upd (U_plan_count x) st = st\<lparr>st_plan_count := x\<rparr>"
| "apply_upd (U_cache_hit x) st = st\<lparr>st_cache_hit := x\<rparr>"
| "apply_upd (U_task_type x) st = st\<lparr>st_task_type := x\<rparr>"
| "apply_upd (U_tool_error x) st = st\<lparr>st_tool_error := x\<rparr>"
| "apply_upd (U_extract_errors x) st = st\<lparr>st_extract_errors := x\<rparr>"
| "apply_upd (U_judge_feedback x) st = st\<lparr>st_judge_feedback := x\<rparr>"
| "apply_upd (U_status x) st = st\<lparr>st_status := x\<rparr>"
| "apply_upd (U_verdict x) st = st\<lparr>st_verdict := x\<rparr>"
| "apply_upd (U_verdict_reason x) st = st\<lparr>st_verdict_reason := x\<rparr>"
| "apply_upd (U_error x) st = st\<lparr>st_error := x\<rparr>"

definition merge_update :: "agent_state \<Rightarrow> upd list \<Rightarrow> agent_state" where
  "merge_update st us = fold apply_upd us st"

lemma merge_Nil [simp]: "merge_update st [] = st"
  by (simp add: merge_update_def)

lemma merge_Cons [simp]: "merge_update st (u # us) = merge_update (apply_upd u st) us"
  by (simp add: merge_update_def)

lemma merge_append [simp]: "merge_update st (us @ vs) = merge_update (merge_update st us) vs"
  by (simp add: merge_update_def)

text \<open>No update takes a tool call or a piece of evidence away.\<close>

lemma apply_upd_monotone: "prefix (st_tool_calls st) (st_tool_calls (apply_upd u st))
    \<and> prefix (st_evidence st) (st_evidence (apply_upd u st))"
  by (cases u) auto

lemma merge_monotone: "prefix (st_tool_calls st) (st_tool_calls (merge_update st us))
    \<and> prefix (st_evidence st) (st_evidence (merge_update st us))"
proof (induction us arbitrary: st)
  case (Cons u us)
  have "prefix (st_tool_calls (apply_upd u st)) (st_tool_calls (merge_update (apply_upd u st) us))"
    "prefix (st_evidence (apply_upd u st)) (st_evidence (merge_update (apply_upd u st) us))"
    using Cons by blast+
  then show ?case using apply_upd_monotone [of st u] by (auto intro: prefix_order.trans)
qed simp

text \<open>\<open>bool(state.get("last_tool_error"))\<close>\<close>

definition has_tool_error :: "agent_state \<Rightarrow> bool" where
  "has_tool_error st \<longleftrightarrow> st_tool_error st \<notin> {None, Some []}"

subsection \<open>Dependencies\<close>

record node_texts =
  nt_specialists :: prompt_texts
  nt_classifier :: string
  nt_vision :: string
  nt_verifier :: string
  nt_extractor :: string
  nt_judge :: string
  nt_judge_action :: string

record 'w deps =
  d_sha :: "string \<Rightarrow> string"
  d_re :: re_engine
  d_texts :: node_texts
  d_planner :: "'w chat"
  d_navigator :: "'w chat"
  d_extractor :: "'w chat"
  d_judge :: "'w chat"
  d_classifier :: "'w chat option"
  d_vision :: "'w chat option"
  d_session :: "'w session"
  d_read_image :: "string \<Rightarrow> ('w, string) act"
  d_validate :: "pyval \<Rightarrow> pyval \<Rightarrow> exn + (string list \<times> string) list"

text \<open>What outlives a node: the outside world, the plan cache (\<open>None\<close> when not wired), the classify memo.\<close>

record 'w sys =
  sy_world :: 'w
  sy_cache :: "plan_cache option"
  sy_memo :: "string \<Rightarrow> string option"

text \<open>A call that only touches the outside world.\<close>

definition onw :: "('w, 'a) act \<Rightarrow> ('w sys, 'a) act" where
  "onw m sy = (case m (sy_world sy) of (r, w') \<Rightarrow> (r, sy\<lparr>sy_world := w'\<rparr>))"

definition toolA :: "('w \<Rightarrow> tool_result \<times> 'w) \<Rightarrow> ('w, tool_result) act" where
  "toolA t w = (case t w of (r, w') \<Rightarrow> (Inr r, w'))"

lemma toolA_eq [simp]: "toolA t w = (Inr (fst (t w)), snd (t w))"
  by (simp add: toolA_def split: prod.splits)

end
