(* ===== verification/AgentNodes.thy ===== *)
theory AgentNodes
  imports AgentState
begin

text \<open>
  The nodes of \<open>agent/nodes.py\<close>. A node maps the state to a partial update (a list of \<open>upd\<close>), may raise
  (\<open>Inl\<close>), and changes the world, the plan cache or the classify memo. The act node is split by action.
\<close>

definition REFLECT_MAX :: nat where "REFLECT_MAX = 3"
definition REPLAN_AFTER_CONSECUTIVE_FAILS :: nat where "REPLAN_AFTER_CONSECUTIVE_FAILS = 2"
definition PLAN_MAX :: nat where "PLAN_MAX = 3"
definition EXTRACT_RETRY_MAX :: nat where "EXTRACT_RETRY_MAX = 2"

definition NON_DOM_CHANGING_ACTIONS :: "string list" where
  "NON_DOM_CHANGING_ACTIONS = [''screenshot'', ''screenshot_all'', ''visit_each_link'', ''scroll'', ''scroll_to'',
     ''extract'', ''search'', ''annotate'']"

definition ALLOWED_ACTIONS :: "string list" where
  "ALLOWED_ACTIONS = [''annotate'', ''click'', ''click_mark'', ''done'', ''extract'', ''goto'', ''goto_search_result'',
     ''screenshot'', ''screenshot_all'', ''scroll'', ''scroll_to'', ''search'', ''type'', ''type_mark'',
     ''visit_each_link'', ''visual_do'']"

definition PLAN_RESPONSE_SCHEMA :: pyval where
  "PLAN_RESPONSE_SCHEMA =
     (let str = PDict [(''type'', PStr ''string'')]; int = PDict [(''type'', PStr ''integer'')] in
      PDict [(''type'', PStr ''object''),
        (''properties'', PDict [(''steps'', PDict
          [(''type'', PStr ''array''),
           (''items'', PDict
             [(''type'', PStr ''object''),
              (''properties'', PDict
                [(''action'', PDict [(''type'', PStr ''string''), (''enum'', PList (map PStr ALLOWED_ACTIONS))]),
                 (''url'', str), (''target'', str), (''selector'', str), (''text'', str), (''value'', str),
                 (''name'', str), (''path'', str), (''mode'', str), (''folder'', str), (''query'', str),
                 (''url_pattern'', str), (''url_filter'', str), (''name_template'', str), (''limit'', int),
                 (''index'', int), (''intent'', str), (''mark_id'', int), (''rationale'', str)]),
              (''required'', PList [PStr ''action''])])])]),
        (''required'', PList [PStr ''steps'']), (''title'', PStr ''AgentPlan'')])"

subsection \<open>classify\<close>

definition classify_node :: "'w deps \<Rightarrow> agent_state \<Rightarrow> ('w sys, upd list) act" where
  "classify_node d st sy =
     (if st_task_type st \<noteq> [] then (Inr [], sy)
      else (case d_classifier d of
          None \<Rightarrow> (Inr [U_task_type ''unknown''], sy)
        | Some classifier \<Rightarrow>
            (let key = classify_cache_key (d_sha d) (st_task_prompt st) (st_schema st) in
             case sy_memo sy key of
               Some t \<Rightarrow> (Inr [U_task_type t], sy)
             | None \<Rightarrow>
                 (case classify_task (nt_classifier (d_texts d)) classifier (st_task_prompt st) (st_schema st) (sy_world sy) of
                    (Inl e, w') \<Rightarrow> (Inl e, sy\<lparr>sy_world := w'\<rparr>)
                  | (Inr t, w') \<Rightarrow> (Inr [U_task_type t], sy\<lparr>sy_world := w', sy_memo := (sy_memo sy)(key \<mapsto> t)\<rparr>)))))"

subsection \<open>plan\<close>

definition state_key :: "'w deps \<Rightarrow> agent_state \<Rightarrow> string" where
  "state_key d st = plan_key (d_sha d) (st_task_prompt st) (st_schema st) (st_start_url st)"

definition is_snapshot :: "pydict \<Rightarrow> bool" where
  "is_snapshot o1 = (obs_kind o1 = PStr ''snapshot'')"

definition latest_snapshot :: "pydict list \<Rightarrow> pydict option" where
  "latest_snapshot obs = (case find_last is_snapshot obs of
     None \<Rightarrow> None
   | Some o1 \<Rightarrow> (case dget o1 ''data'' of PDict s \<Rightarrow> Some s | _ \<Rightarrow> None))"

text \<open>\<open>out.get("parsed")\<close>, else \<open>_parse_json(out["content"])\<close>\<close>

definition parsed_or_content :: "pydict \<Rightarrow> exn + pyval" where
  "parsed_or_content out = (if dget out ''parsed'' \<noteq> PNone then Inr (dget out ''parsed'')
     else bindE (getitem out ''content'') parse_json)"

text \<open>The shapes the planner may answer with; \<open>Inl\<close> is the text of the error.\<close>

definition plan_of :: "pyval \<Rightarrow> string + pyval list" where
  "plan_of parsed =
     (case (case parsed of
              PDict p \<Rightarrow> if dhas p ''steps'' then Some (dget p ''steps'') else None
            | PList xs \<Rightarrow> Some (PList xs)
            | _ \<Rightarrow> None) of
        None \<Rightarrow> Inl (''plan parse: expected array or {steps:[]}, got '' @ type_name parsed)
      | Some (PList (x # xs)) \<Rightarrow> Inr (x # xs)
      | Some _ \<Rightarrow> Inl ''plan parse: empty or not a list'')"

definition plan_messages :: "'w deps \<Rightarrow> agent_state \<Rightarrow> pyval" where
  "plan_messages d st = PList
     [chat_msg ''system'' (PStr (system_prompt_for (nt_specialists (d_texts d))
         (if st_task_type st = [] then ''unknown'' else st_task_type st))),
      chat_msg ''user'' (PStr (planner_user (st_task_prompt st) (st_input_data st) (st_start_url st) (st_schema st)
         (latest_snapshot (st_obs st))))]"

definition new_plan :: "pyval list \<Rightarrow> nat \<Rightarrow> bool \<Rightarrow> upd list" where
  "new_plan plan plan_count hit =
     [U_plan plan, U_step 0, U_status Acting, U_reflect 0, U_fails 0, U_plan_count plan_count, U_cache_hit hit]"

definition plan_failed :: "string \<Rightarrow> nat \<Rightarrow> upd list" where
  "plan_failed err plan_count = [U_status Failed, U_error (Some err), U_plan_count plan_count]"

definition ask_planner :: "'w deps \<Rightarrow> agent_state \<Rightarrow> nat \<Rightarrow> ('w sys, upd list) act" where
  "ask_planner d st plan_count sy =
     (case onw (d_planner d (plan_messages d st) PLAN_RESPONSE_SCHEMA) sy of
        (Inl e, sy') \<Rightarrow> (Inr (plan_failed (''plan parse: '' @ exn_msg e) plan_count), sy')
      | (Inr out, sy') \<Rightarrow>
          (case parsed_or_content out of
             Inl e \<Rightarrow> (Inr (plan_failed (''plan parse: '' @ exn_msg e) plan_count), sy')
           | Inr parsed \<Rightarrow>
               (case plan_of parsed of
                  Inl err \<Rightarrow> (Inr (plan_failed err plan_count), sy')
                | Inr plan \<Rightarrow>
                    (Inr (new_plan plan plan_count False),
                     sy'\<lparr>sy_cache := map_option (cache_put (state_key d st) plan) (sy_cache sy')\<rparr>))))"

definition plan_node :: "'w deps \<Rightarrow> agent_state \<Rightarrow> ('w sys, upd list) act" where
  "plan_node d st sy =
     (let plan_count = st_plan_count st + 1 in
      if plan_count > PLAN_MAX
      then (Inr (plan_failed (''plan cap reached ('' @ show_nat PLAN_MAX @ '' attempts)'') plan_count), sy)
      else (case (if plan_count = 1 then sy_cache sy else None) of
          Some c \<Rightarrow>
            (case cache_get (state_key d st) c of
               (Some cached, c') \<Rightarrow> (Inr (new_plan cached plan_count True), sy\<lparr>sy_cache := Some c'\<rparr>)
             | (None, c') \<Rightarrow> ask_planner d st plan_count (sy\<lparr>sy_cache := Some c'\<rparr>))
        | None \<Rightarrow> ask_planner d st plan_count sy))"

subsection \<open>act: arguments\<close>

definition step_target :: "pydict \<Rightarrow> pyval" where
  "step_target step = first_truthy step [''target'', ''url'', ''selector'', ''text'', ''name'', ''path''] (PStr [])"

definition step_value :: "pydict \<Rightarrow> pyval" where
  "step_value step = dget_or step ''value'' (PStr [])"

definition step_folder :: "pydict \<Rightarrow> pyval" where
  "step_folder step = first_truthy step [''folder'', ''directory''] (dget step ''subfolder'')"

definition step_name :: "nat \<Rightarrow> string" where
  "step_name idx = ''step_'' @ pad_nat 2 idx"

text \<open>\<open>if folder is None and "/" in name: folder, name = name.split("/", 1)\<close>\<close>

definition split_folder :: "pyval \<Rightarrow> pyval \<Rightarrow> exn + pyval \<times> pyval" where
  "split_folder folder name =
     (if folder \<noteq> PNone then Inr (folder, name)
      else (case name of
          PStr n \<Rightarrow> (case split_once ''/'' n of Some (a, b) \<Rightarrow> Inr (PStr a, PStr b) | None \<Rightarrow> Inr (folder, name))
        | PList xs \<Rightarrow> if PStr ''/'' \<in> set xs then bindE (attr_get name ''split'') (\<lambda>_. Inr (folder, name)) else Inr (folder, name)
        | PDict kvs \<Rightarrow> if dhas kvs ''/'' then Inl (Exn ''AttributeError'' ''dict object has no attribute split'') else Inr (folder, name)
        | _ \<Rightarrow> Inl (Exn ''TypeError'' (''argument of type '' @ CHR 0x27 # type_name name @ CHR 0x27 # '' is not iterable''))))"

subsection \<open>act: one definition per action\<close>

definition act_goto :: "'w deps \<Rightarrow> pyval \<Rightarrow> ('w, tool_result) act" where
  "act_goto d target = bindA (liftE (field_str target)) (\<lambda>u. toolA (tool_goto (d_session d) u))"

definition act_click :: "'w deps \<Rightarrow> pyval \<Rightarrow> ('w, tool_result) act" where
  "act_click d target = bindA (liftE (field_str target)) (\<lambda>t. toolA (tool_click (d_session d) t))"

definition act_type :: "'w deps \<Rightarrow> pyval \<Rightarrow> pyval \<Rightarrow> ('w, tool_result) act" where
  "act_type d target value = bindA (liftE (field_str target)) (\<lambda>t. bindA (liftE (field_str value)) (\<lambda>v.
     toolA (tool_type (d_session d) t v)))"

definition act_screenshot :: "'w deps \<Rightarrow> nat \<Rightarrow> pydict \<Rightarrow> ('w, tool_result) act" where
  "act_screenshot d idx step =
     bindA (liftE (split_folder (step_folder step) (py_or (step_target step) (PStr (step_name idx))))) (\<lambda>(folder, name).
     bindA (liftE (field_str name)) (\<lambda>n.
     bindA (liftE (field_str (py_or (dget step ''mode'') (PStr ''viewport'')))) (\<lambda>mode.
     bindA (liftE (field_opt_str folder)) (\<lambda>f.
     toolA (tool_screenshot (d_session d) n mode f)))))"

definition act_screenshot_all :: "'w deps \<Rightarrow> nat \<Rightarrow> pydict \<Rightarrow> ('w, tool_result) act" where
  "act_screenshot_all d idx step =
     bindA (liftE (split_folder (step_folder step) (py_or (step_target step) (PStr (step_name idx @ ''_all''))))) (\<lambda>(folder, name).
     bindA (liftE (field_str name)) (\<lambda>n.
     bindA (liftE (field_opt_str folder)) (\<lambda>f.
     toolA (tool_screenshot_all (d_session d) n f))))"

definition act_search :: "'w deps \<Rightarrow> pydict \<Rightarrow> ('w, tool_result) act" where
  "act_search d step =
     bindA (liftE (py_int (dget_or step ''limit'' (PInt 5)))) (\<lambda>limit.
     bindA (liftE (field_str (first_truthy step [''query'', ''q''] (step_target step)))) (\<lambda>q.
     toolA (tool_search (d_session d) q limit)))"

text \<open>The results of the most recent search among the observations.\<close>

definition obs_search_results :: "pydict \<Rightarrow> pyval option" where
  "obs_search_results o1 = (case dget (obs_data o1) ''search'' of
     PDict s \<Rightarrow> if truthy (dget s ''results'') then Some (dget s ''results'') else None
   | _ \<Rightarrow> None)"

definition latest_search :: "pydict list \<Rightarrow> pyval" where
  "latest_search obs = (case find_last (\<lambda>o1. obs_search_results o1 \<noteq> None) obs of
     None \<Rightarrow> PList []
   | Some o1 \<Rightarrow> the (obs_search_results o1))"

text \<open>\<open>url_filter in (x.get("url") or "")\<close> for texts.\<close>

definition url_matches :: "pyval \<Rightarrow> pydict \<Rightarrow> exn + bool" where
  "url_matches url_filter x = (case (url_filter, py_or (dget x ''url'') (PStr [])) of
     (PStr f, PStr u) \<Rightarrow> Inr (py_contains u f)
   | _ \<Rightarrow> Inl (Exn ''TypeError'' ''in <string> requires string as left operand''))"

definition search_candidates :: "pyval \<Rightarrow> pyval list \<Rightarrow> exn + pydict list" where
  "search_candidates url_filter results =
     (let ds = concat (map (\<lambda>x. case x of PDict p \<Rightarrow> [p] | _ \<Rightarrow> []) results) in
      if truthy url_filter
      then bindE (mapE (\<lambda>x. bindE (url_matches url_filter x) (\<lambda>b. Inr (b, x))) ds) (\<lambda>bs. Inr (map snd (filter fst bs)))
      else Inr ds)"

text \<open>\<open>xs[i]\<close>; a negative index counts from the end.\<close>

definition py_index :: "'a list \<Rightarrow> int \<Rightarrow> exn + 'a" where
  "py_index xs i =
     (if 0 \<le> i \<and> i < int (length xs) then Inr (xs ! nat i)
      else if i < 0 \<and> - i \<le> int (length xs) then Inr (xs ! (length xs - nat (- i)))
      else Inl (Exn ''IndexError'' ''list index out of range''))"

definition synthetic_error :: "'w deps \<Rightarrow> string \<Rightarrow> pydict \<Rightarrow> string \<Rightarrow> 'w \<Rightarrow> tool_result" where
  "synthetic_error d name data err w =
     \<lparr> tr_call_id = cm_call_id (s_meta (d_session d) w), tr_tool_name = name, tr_ok = False, tr_data = data,
       tr_error = Some err, tr_elapsed_ms = 0, tr_timestamp = cm_timestamp (s_meta (d_session d) w) \<rparr>"

definition act_goto_search_result :: "'w deps \<Rightarrow> agent_state \<Rightarrow> pydict \<Rightarrow> ('w, tool_result) act" where
  "act_goto_search_result d st step =
     (let url_filter = first_truthy step [''url_filter'', ''filter'', ''target''] (PStr []) in
      bindA (liftE (py_int (dget_or step ''index'' (PInt 0)))) (\<lambda>i.
      bindA (liftE (py_iter (latest_search (st_obs st)))) (\<lambda>results.
      bindA (liftE (search_candidates url_filter results)) (\<lambda>candidates.
        if i < int (length candidates)
        then bindA (liftE (py_index candidates i)) (\<lambda>c. act_goto d (py_or (dget c ''url'') (PStr [])))
        else (\<lambda>w. (Inr (synthetic_error d ''agent.goto_search_result''
               [(''url_filter'', url_filter), (''index'', PInt i), (''available_results'', PInt (int (length results)))]
               (''no search result matched url_filter='' @ py_repr url_filter @ '' at index='' @ show_int i @
                '' (total results: '' @ show_nat (length results) @ '')'') w), w))))))"

definition act_scroll :: "'w deps \<Rightarrow> pydict \<Rightarrow> ('w, tool_result) act" where
  "act_scroll d step = bindA (liftE (field_str (py_or (step_target step) (py_or (step_value step) (PStr ''down'')))))
     (\<lambda>a. toolA (tool_scroll (d_session d) a))"

definition act_scroll_to :: "'w deps \<Rightarrow> pyval \<Rightarrow> ('w, tool_result) act" where
  "act_scroll_to d target = bindA (liftE (field_str target)) (\<lambda>t. toolA (tool_scroll_to (d_session d) t))"

definition act_visit_each_link :: "'w deps \<Rightarrow> pydict \<Rightarrow> ('w, tool_result) act" where
  "act_visit_each_link d step =
     bindA (liftE (split_folder (step_folder step)
         (first_truthy step [''name_template'', ''name'', ''target''] (PStr ''item_{i:02d}'')))) (\<lambda>(folder, tpl).
     bindA (liftE (py_int (dget_or step ''limit'' (PInt 10)))) (\<lambda>limit.
     bindA (liftE (field_str (first_truthy step [''url_pattern'', ''pattern''] (PStr ''/'')))) (\<lambda>pat.
     bindA (liftE (field_str tpl)) (\<lambda>t.
     bindA (liftE (field_opt_str folder)) (\<lambda>f.
     toolA (tool_visit_each_link (d_session d) pat limit t f))))))"

definition act_annotate :: "'w deps \<Rightarrow> nat \<Rightarrow> pyval \<Rightarrow> ('w, tool_result) act" where
  "act_annotate d idx target =
     bindA (liftE (field_str (py_or target (PStr (step_name idx @ ''_annotated''))))) (\<lambda>n.
     toolA (tool_annotate (d_session d) n))"

text \<open>\<open>int(step.get("mark_id", step.get("index", -1)))\<close>\<close>

definition step_mark_id :: "pydict \<Rightarrow> exn + int" where
  "step_mark_id step = py_int (dget_or step ''mark_id'' (dget_or step ''index'' (PInt (- 1))))"

definition act_click_mark :: "'w deps \<Rightarrow> pydict \<Rightarrow> ('w, tool_result) act" where
  "act_click_mark d step = bindA (liftE (step_mark_id step)) (\<lambda>i. toolA (tool_click_mark (d_session d) i))"

definition act_type_mark :: "'w deps \<Rightarrow> pydict \<Rightarrow> ('w, tool_result) act" where
  "act_type_mark d step = bindA (liftE (step_mark_id step)) (\<lambda>i.
     bindA (liftE (field_str (step_value step))) (\<lambda>v. toolA (tool_type_mark (d_session d) i v)))"

subsection \<open>act: visual_do\<close>

text \<open>
  Annotate, resolve, act. The second component is the step as it is left behind: a vision answer is
  generalised and written into it under \<open>resolved\<close>.
\<close>

definition marks_of :: "pydict \<Rightarrow> pydict list" where
  "marks_of data = (case py_or (dget data ''marks'') (PList []) of
     PList ms \<Rightarrow> concat (map (\<lambda>v. case v of PDict m \<Rightarrow> [m] | _ \<Rightarrow> []) ms) | _ \<Rightarrow> [])"

definition no_vision_error :: string where
  "no_vision_error = ''visual_do requires a vision model (profile '' @
     ''models.vision) but none is configured, and '' @
     ''no cached descriptor matched the current '' @
     ''page. Configure vision or rewrite the plan '' @
     ''to use text-grounded click/type.''"

definition act_on_mark :: "'w deps \<Rightarrow> pyval \<Rightarrow> pydict \<Rightarrow> ('w, tool_result) act" where
  "act_on_mark d typed_value chosen =
     bindA (liftE (py_int (dget_or chosen ''mark_id'' (PInt (- 1))))) (\<lambda>mark_id.
     if truthy typed_value
     then bindA (liftE (field_str typed_value)) (\<lambda>v. toolA (tool_type_mark (d_session d) mark_id v))
     else toolA (tool_click_mark (d_session d) mark_id))"

definition with_step :: "pydict \<Rightarrow> ('w, tool_result) act \<Rightarrow> ('w, tool_result \<times> pydict) act" where
  "with_step step m = map_act (\<lambda>r. (r, step)) m"

definition vision_step ::
  "'w deps \<Rightarrow> 'w chat \<Rightarrow> pyval \<Rightarrow> pydict \<Rightarrow> pydict list \<Rightarrow> ('w, pydict \<times> pydict) act" where
  "vision_step d vision intent art marks =
     bindA (liftE (case py_or (dget art ''path'') (PStr []) of PStr p \<Rightarrow> Inr p
               | v \<Rightarrow> Inl (Exn ''TypeError'' ''argument should be a str''))) (\<lambda>path.
     bindA (vision_resolve (d_re d) (nt_vision (d_texts d)) (d_read_image d) vision (py_str intent) path marks) (\<lambda>(chosen, vhint).
     liftE (bindE (descriptor_for (d_re d) chosen marks vhint) (\<lambda>desc. Inr (chosen, desc)))))"

definition act_visual_do :: "'w deps \<Rightarrow> nat \<Rightarrow> pydict \<Rightarrow> ('w, tool_result \<times> pydict) act" where
  "act_visual_do d idx step w =
     (let intent = first_truthy step [''intent'', ''target''] (PStr []);
          typed_value = py_or (dget step ''value'') (PStr [])
      in case tool_annotate (d_session d) (step_name idx @ ''_annotated'') w of
        (ann, w1) \<Rightarrow>
          (if \<not> tr_ok ann then (Inr (ann, step), w1)
           else let marks = marks_of (tr_data ann);
                    art = (case dget (tr_data ann) ''artifact'' of PDict a \<Rightarrow> a | _ \<Rightarrow> [])
             in case match_descriptor (d_re d) (dget step ''resolved'') marks of
                 Inl e \<Rightarrow> (Inl e, w1)
               | Inr (Some chosen) \<Rightarrow> with_step step (act_on_mark d typed_value chosen) w1
               | Inr None \<Rightarrow>
                   (case d_vision d of
                      None \<Rightarrow> (Inr ((synthetic_error d ''agent.visual_do''
                          [(''intent'', intent), (''reason'', PStr ''no_vision_model'')] no_vision_error w1)
                            \<lparr>tr_call_id := tr_call_id ann\<rparr>, step), w1)
                    | Some vision \<Rightarrow>
                        (case vision_step d vision intent art marks w1 of
                           (Inl e, w2) \<Rightarrow> (Inr ((synthetic_error d ''agent.visual_do''
                               [(''intent'', intent), (''marks_count'', PInt (int (length marks)))]
                               (''vision_resolve failed: '' @ exn_msg e) w2)\<lparr>tr_call_id := tr_call_id ann\<rparr>, step), w2)
                         | (Inr (chosen, desc), w2) \<Rightarrow>
                             with_step (dset step ''resolved'' (PDict desc)) (act_on_mark d typed_value chosen) w2))))"

subsection \<open>act\<close>

text \<open>The dispatch: \<open>None\<close> where the node returns without calling a tool (\<open>done\<close>, unknown actions).\<close>

definition act_dispatch ::
  "'w deps \<Rightarrow> agent_state \<Rightarrow> nat \<Rightarrow> pydict \<Rightarrow> string \<Rightarrow> ('w, tool_result \<times> pydict) act option" where
  "act_dispatch d st idx step action =
     (let target = step_target step; ws = with_step step in
      if action = ''goto'' then Some (ws (act_goto d target))
      else if action = ''click'' then Some (ws (act_click d target))
      else if action = ''type'' then Some (ws (act_type d target (step_value step)))
      else if action = ''screenshot'' then Some (ws (act_screenshot d idx step))
      else if action = ''screenshot_all'' then Some (ws (act_screenshot_all d idx step))
      else if action = ''search'' then Some (ws (act_search d step))
      else if action = ''goto_search_result'' then Some (ws (act_goto_search_result d st step))
      else if action = ''scroll'' then Some (ws (act_scroll d step))
      else if action = ''scroll_to'' then Some (ws (act_scroll_to d target))
      else if action = ''visit_each_link'' then Some (ws (act_visit_each_link d step))
      else if action = ''visual_do'' then Some (act_visual_do d idx step)
      else if action = ''annotate'' then Some (ws (act_annotate d idx target))
      else if action = ''click_mark'' then Some (ws (act_click_mark d step))
      else if action = ''type_mark'' then Some (ws (act_type_mark d step))
      else if action = ''extract'' then Some (ws (toolA (tool_extract (d_session d) (st_schema st))))
      else None)"

definition data_list :: "pydict \<Rightarrow> string \<Rightarrow> pyval list" where
  "data_list data k = (case py_or (dget data k) (PList []) of PList xs \<Rightarrow> xs | _ \<Rightarrow> [])"

definition add_observation :: "agent_state \<Rightarrow> pydict \<Rightarrow> upd" where
  "add_observation st data = U_obs (compact_observations (st_obs st @ [[(''kind'', PStr ''extract''), (''data'', PDict data)]]))"

text \<open>What a successful call adds to the update, by action.\<close>

definition act_harvest :: "agent_state \<Rightarrow> string \<Rightarrow> tool_result \<Rightarrow> upd list" where
  "act_harvest st action r =
     (if \<not> tr_ok r then []
      else if action = ''screenshot'' then
        (if truthy (dget (tr_data r) ''artifact'') then [U_evidence [dget (tr_data r) ''artifact'']] else [])
      else if action = ''screenshot_all'' then
        (if data_list (tr_data r) ''artifacts'' \<noteq> [] then [U_evidence (data_list (tr_data r) ''artifacts'')] else [])
      else if action = ''visit_each_link'' then
        (if data_list (tr_data r) ''artifacts'' \<noteq> [] then [U_evidence (data_list (tr_data r) ''artifacts'')] else []) @
        (if data_list (tr_data r) ''visited'' \<noteq> []
         then [add_observation st [(''visited'', PList (data_list (tr_data r) ''visited''))]] else [])
      else if action = ''search'' then [add_observation st [(''search'', PDict (tr_data r))]]
      else if action = ''extract'' then [add_observation st (tr_data r)]
      else [])"

definition act_update :: "agent_state \<Rightarrow> string \<Rightarrow> tool_result \<Rightarrow> upd list" where
  "act_update st action r =
     [U_tool_calls [dump_result r], U_status Verifying] @
     (if tr_ok r then [] else [U_fails (st_fails st + 1), U_tool_error (tr_error r)]) @
     act_harvest st action r"

definition bad_step_update :: "agent_state \<Rightarrow> nat \<Rightarrow> pyval \<Rightarrow> upd list" where
  "bad_step_update st idx step =
     [U_status Verifying,
      U_tool_error (Some (''plan step '' @ show_nat idx @ '' is not a JSON object (got '' @ type_name step @ '': '' @
        take 80 (py_str step) @ ''). Replan with each step as an object like {'' @ CHR 0x22 # ''action'' @ CHR 0x22 # '': ''
        @ CHR 0x22 # ''...'' @ CHR 0x22 # '', ...}'')),
      U_fails (st_fails st + 1),
      U_tool_calls [[(''tool_name'', PStr ''agent.bad_step''), (''status'', PStr ''error''),
                     (''error'', PStr (''non-dict step at idx '' @ show_nat idx))]]]"

text \<open>
  The step object is shared: it is an element of the plan in the state and of the plan the cache holds in
  memory, so a \<open>resolved\<close> written into it shows in both.
\<close>

definition write_step :: "'w deps \<Rightarrow> agent_state \<Rightarrow> nat \<Rightarrow> pydict \<Rightarrow> 'w sys \<Rightarrow> upd list \<times> 'w sys" where
  "write_step d st idx step' sy =
     (if st_plan st ! idx = PDict step' then ([], sy)
      else let plan' = (st_plan st)[idx := PDict step'] in
        ([U_plan plan'],
         sy\<lparr>sy_cache := map_option (\<lambda>c. if pc_mem c (state_key d st) = Some (st_plan st)
              then c\<lparr>pc_mem := (pc_mem c)(state_key d st \<mapsto> plan')\<rparr> else c) (sy_cache sy)\<rparr>))"

definition act_node :: "'w deps \<Rightarrow> agent_state \<Rightarrow> ('w sys, upd list) act" where
  "act_node d st sy =
     (let plan = st_plan st; idx = st_step st in
      if idx \<ge> length plan then (Inr [U_status Extracting], sy)
      else (case plan ! idx of
          PDict step \<Rightarrow>
            (case dget step ''action'' of
               PStr action \<Rightarrow>
                 (case act_dispatch d st idx step action of
                    Some run \<Rightarrow>
                      (case onw run sy of
                         (Inl e, sy') \<Rightarrow> (Inl e, sy')
                       | (Inr (r, step'), sy') \<Rightarrow>
                           (case write_step d st idx step' sy' of
                              (us, sy'') \<Rightarrow> (Inr (us @ act_update st action r), sy'')))
                  | None \<Rightarrow>
                      if action = ''done'' then (Inr [U_status Extracting], sy)
                      else (Inr [U_status Failed, U_error (Some (''unknown action '' @ repr_str action))], sy))
             | v \<Rightarrow> (Inr [U_status Failed, U_error (Some (''unknown action '' @ py_repr v))], sy))
        | v \<Rightarrow> (Inr (bad_step_update st idx v), sy)))"

subsection \<open>observe\<close>

definition observe_node :: "'w deps \<Rightarrow> agent_state \<Rightarrow> ('w sys, upd list) act" where
  "observe_node d st sy =
     (case onw (toolA (tool_snapshot (d_session d))) sy of
        (Inl e, sy') \<Rightarrow> (Inl e, sy')
      | (Inr snap, sy') \<Rightarrow>
          (if \<not> tr_ok snap then (Inr [U_status Failed, U_error (tr_error snap)], sy')
           else (Inr [U_obs (compact_observations
                  (st_obs st @ [[(''kind'', PStr ''snapshot''), (''data'', PDict (tr_data snap))]]))], sy')))"

subsection \<open>verify\<close>

definition advance :: "agent_state \<Rightarrow> upd list" where
  "advance st = [U_step (st_step st + 1), U_status Acting, U_fails 0, U_tool_error None]"

text \<open>A failed step: give up, replan or reflect.\<close>

definition step_failed :: "agent_state \<Rightarrow> upd list" where
  "step_failed st =
     (let rc = st_reflect st; cf = st_fails st + 1 in
      if rc + 1 \<ge> REFLECT_MAX then [U_status Failed, U_error (Some ''reflection cap reached'')]
      else if cf \<ge> REPLAN_AFTER_CONSECUTIVE_FAILS then [U_status Replanning, U_reflect (rc + 1), U_fails 0]
      else [U_reflect (rc + 1), U_fails cf, U_status Acting])"

definition current_step :: "agent_state \<Rightarrow> pyval" where
  "current_step st = (if st_step st < length (st_plan st) then st_plan st ! st_step st else PDict [])"

definition verify_messages :: "'w deps \<Rightarrow> agent_state \<Rightarrow> pyval" where
  "verify_messages d st =
     (let last_action = (if st_tool_calls st = [] then PDict [(''tool_name'', PStr ''none'')] else PDict (last (st_tool_calls st)));
          snap = (case find_last is_snapshot (st_obs st) of None \<Rightarrow> PDict [] | Some o1 \<Rightarrow> dget o1 ''data'')
      in PList [chat_msg ''system'' (PStr (nt_verifier (d_texts d))),
                chat_msg ''user'' (PStr (verifier_user (st_task_prompt st) (current_step st) last_action snap))])"

text \<open>\<open>bool(v.get("ok"))\<close>, and \<open>False\<close> for any output that does not parse to a dictionary.\<close>

definition verifier_ok :: "pydict \<Rightarrow> bool" where
  "verifier_ok out = (case bindE (bindE (getitem out ''content'') parse_json) (\<lambda>v. attr_get v ''ok'') of
     Inl e \<Rightarrow> False | Inr v \<Rightarrow> truthy v)"

definition verify_node :: "'w deps \<Rightarrow> agent_state \<Rightarrow> ('w sys, upd list) act" where
  "verify_node d st sy =
     (case attr_get (current_step st) ''action'' of
        Inl e \<Rightarrow> (Inl e, sy)
      | Inr action \<Rightarrow>
          (if is_list action \<or> is_dict action then (Inl (Exn ''TypeError'' (''unhashable type: '' @ repr_str (type_name action))), sy)
           else if action \<in> PStr ` set NON_DOM_CHANGING_ACTIONS \<and> \<not> has_tool_error st then (Inr (advance st), sy)
           else if has_tool_error st then (Inr (step_failed st), sy)
           else (case onw (d_navigator d (verify_messages d st) PNone) sy of
               (Inl e, sy') \<Rightarrow> (Inl e, sy')
             | (Inr out, sy') \<Rightarrow> (Inr (if verifier_ok out then advance st else step_failed st), sy'))))"

subsection \<open>extract\<close>

definition schema_errors_obj :: "'w deps \<Rightarrow> pyval \<Rightarrow> pyval \<Rightarrow> exn + string list" where
  "schema_errors_obj d parsed schema =
     (if \<not> is_dict parsed then Inr [''expected object, got '' @ type_name parsed]
      else bindE (d_validate d schema parsed) (\<lambda>es. Inr (map (\<lambda>(path, msg).
        (let p = py_join ''.'' path in if p = [] then ''(root)'' else p) @ '': '' @ msg) es)))"

definition schema_errors :: "'w deps \<Rightarrow> pyval \<Rightarrow> pydict \<Rightarrow> exn + string list" where
  "schema_errors d parsed schema =
     (if is_array_schema schema then
        (case parsed of
           PList xs \<Rightarrow> bindE (mapE (\<lambda>(i, item). bindE (schema_errors_obj d item (py_or (dget schema ''items'') (PDict [])))
               (\<lambda>ms. Inr (map (\<lambda>msg. ''['' @ show_nat i @ ''].'' @ msg) ms))) (enumerate 0 xs)) (\<lambda>ess. Inr (concat ess))
         | v \<Rightarrow> Inr [''expected array, got '' @ type_name v])
      else schema_errors_obj d parsed (PDict schema))"

text \<open>Unwraps \<open>{items: [...]}\<close> when an array was asked for.\<close>

definition unwrap_items :: "bool \<Rightarrow> pyval \<Rightarrow> pyval" where
  "unwrap_items is_array parsed =
     (case parsed of PDict p \<Rightarrow> if is_array \<and> is_list (dget p ''items'') then dget p ''items'' else parsed | _ \<Rightarrow> parsed)"

definition feedback_text :: "agent_state \<Rightarrow> string option" where
  "feedback_text st = (if truthy (st_judge_feedback st) then Some (py_str (st_judge_feedback st)) else None)"

definition extract_messages :: "'w deps \<Rightarrow> agent_state \<Rightarrow> bool \<Rightarrow> pyval \<Rightarrow> string list \<Rightarrow> pyval" where
  "extract_messages d st first parsed errors = PList
     [chat_msg ''system'' (PStr (nt_extractor (d_texts d))),
      chat_msg ''user'' (PStr (extractor_user (st_obs st) (st_schema st) (feedback_text st)
        (if first \<or> parsed = PNone then None else Some parsed) (if first then [] else errors)))]"

text \<open>
  The attempts that are left (\<open>k + 1\<close> of them), with the last answer and its errors. A JSON error leaves
  \<open>parsed\<close> at \<open>None\<close>; an exception of the model or of the validator leaves the node.
\<close>

fun extract_attempts ::
  "'w deps \<Rightarrow> agent_state \<Rightarrow> nat \<Rightarrow> bool \<Rightarrow> pyval \<Rightarrow> string list \<Rightarrow> ('w sys, pyval \<times> string list) act" where
  "extract_attempts d st 0 first parsed errors sy = (Inr (parsed, errors), sy)"
| "extract_attempts d st (Suc k) first parsed errors sy =
     (let is_array = is_array_schema (st_schema st) in
      case onw (d_extractor d (extract_messages d st first parsed errors)
              (if is_array then PNone else PDict (st_schema st))) sy of
        (Inl e, sy') \<Rightarrow> (Inl e, sy')
      | (Inr out, sy') \<Rightarrow>
          (case parsed_or_content out of
             Inl e \<Rightarrow> extract_attempts d st k False PNone [''JSON parse: '' @ exn_msg e] sy'
           | Inr p0 \<Rightarrow>
               (let p = unwrap_items is_array p0 in
                case schema_errors d p (st_schema st) of
                  Inl e \<Rightarrow> (Inl e, sy')
                | Inr errs \<Rightarrow> if errs = [] then (Inr (p, []), sy') else extract_attempts d st k False p errs sy')))"

definition extract_node :: "'w deps \<Rightarrow> agent_state \<Rightarrow> ('w sys, upd list) act" where
  "extract_node d st sy =
     (if st_schema st = [] then
        (Inr [U_extracted (PDict [(''evidence_count'', PInt (int (length (st_evidence st))))]), U_status Judging], sy)
      else (case extract_attempts d st (EXTRACT_RETRY_MAX + 1) True PNone [] sy of
          (Inl e, sy') \<Rightarrow> (Inl e, sy')
        | (Inr (parsed, errors), sy') \<Rightarrow>
            (let is_array = is_array_schema (st_schema st);
                 result = (if parsed = PNone \<or> (is_array \<and> \<not> is_list parsed)
                           then (if is_array then PList [] else PDict []) else parsed)
             in (Inr [U_extracted result, U_extract_errors errors, U_status Judging, U_judge_feedback PNone], sy'))))"

subsection \<open>judge\<close>

definition judge_messages :: "'w deps \<Rightarrow> agent_state \<Rightarrow> pyval" where
  "judge_messages d st = PList
     [chat_msg ''system'' (PStr (if st_schema st \<noteq> [] then nt_judge (d_texts d) else nt_judge_action (d_texts d))),
      chat_msg ''user'' (PStr (judge_user (st_task_prompt st) (py_or (st_extracted st) (PDict [])) (st_evidence st)))]"

text \<open>The verdict and the reason; output that is not a JSON object counts as \<open>uncertain\<close>.\<close>

definition judge_verdict :: "pydict \<Rightarrow> pyval \<times> pyval" where
  "judge_verdict out = (case bindE (getitem out ''content'') parse_json of
     Inr (PDict v) \<Rightarrow> (dget_or v ''verdict'' (PStr ''uncertain''), dget_or v ''reason'' (PStr []))
   | _ \<Rightarrow> (PStr ''uncertain'', PStr ''judge output unparsable''))"

definition has_resolved :: "pyval list \<Rightarrow> bool" where
  "has_resolved plan \<longleftrightarrow> list_ex (\<lambda>s. truthy (sub_get s ''resolved'')) plan"

definition judge_update :: "'w deps \<Rightarrow> agent_state \<Rightarrow> pyval \<Rightarrow> pyval \<Rightarrow> 'w sys \<Rightarrow> upd list \<times> 'w sys" where
  "judge_update d st verdict reason sy =
     (if verdict \<in> {PStr ''fail'', PStr ''uncertain''} \<and> st_reflect st < REFLECT_MAX
      then ([U_verdict verdict, U_verdict_reason reason,
             U_judge_feedback (py_or reason (PStr (''verdict was '' @ py_str verdict))),
             U_reflect (st_reflect st + 1), U_status Extracting], sy)
      else ([U_verdict verdict, U_verdict_reason reason, U_status Done_status],
            if verdict = PStr ''pass'' \<and> has_resolved (st_plan st)
            then sy\<lparr>sy_cache := map_option (cache_put (state_key d st) (st_plan st)) (sy_cache sy)\<rparr> else sy))"

definition judge_node :: "'w deps \<Rightarrow> agent_state \<Rightarrow> ('w sys, upd list) act" where
  "judge_node d st sy =
     (case onw (d_judge d (judge_messages d st) PNone) sy of
        (Inl e, sy') \<Rightarrow> (Inl e, sy')
      | (Inr out, sy') \<Rightarrow>
          (case judge_verdict out of (verdict, reason) \<Rightarrow>
             (case judge_update d st verdict reason sy' of (us, sy'') \<Rightarrow> (Inr us, sy''))))"

subsection \<open>Routers\<close>

datatype node = N_classify | N_plan | N_act | N_observe | N_verify | N_extract | N_judge | N_end

definition route_after_plan :: "agent_state \<Rightarrow> node" where
  "route_after_plan st = (if st_status st = Failed then N_end else N_act)"

definition route_after_act :: "agent_state \<Rightarrow> node" where
  "route_after_act st =
     (if st_status st = Failed then N_end else if st_status st = Extracting then N_extract else N_observe)"

definition route_after_verify :: "agent_state \<Rightarrow> node" where
  "route_after_verify st =
     (if st_status st = Failed then N_end
      else if st_status st = Replanning then N_plan
      else if st_step st \<ge> length (st_plan st) then N_extract
      else N_act)"

definition route_after_extract :: "agent_state \<Rightarrow> node" where
  "route_after_extract st = (if st_status st = Failed then N_end else N_judge)"

definition route_after_judge :: "agent_state \<Rightarrow> node" where
  "route_after_judge st = (if st_status st = Extracting then N_extract else N_end)"

end
