(* ===== verification/AgentGraph.thy ===== *)
theory AgentGraph
  imports AgentNodes
begin

text \<open>
  \<open>agent/graph.py\<close>: the nodes wired into the sample's state machine and run under LangGraph's recursion
  limit, which counts node executions. A node's exception ends the run.
\<close>

fun run_node :: "'w deps \<Rightarrow> node \<Rightarrow> agent_state \<Rightarrow> ('w sys, upd list) act" where
  "run_node d N_classify st sy = classify_node d st sy"
| "run_node d N_plan st sy = plan_node d st sy"
| "run_node d N_act st sy = act_node d st sy"
| "run_node d N_observe st sy = observe_node d st sy"
| "run_node d N_verify st sy = verify_node d st sy"
| "run_node d N_extract st sy = extract_node d st sy"
| "run_node d N_judge st sy = judge_node d st sy"
| "run_node d N_end st sy = (Inr [], sy)"

text \<open>The edges of \<open>build_graph\<close>, on the merged state.\<close>

fun next_node :: "node \<Rightarrow> agent_state \<Rightarrow> node" where
  "next_node N_classify st = N_plan"
| "next_node N_plan st = route_after_plan st"
| "next_node N_act st = route_after_act st"
| "next_node N_observe st = N_verify"
| "next_node N_verify st = route_after_verify st"
| "next_node N_extract st = route_after_extract st"
| "next_node N_judge st = route_after_judge st"
| "next_node N_end st = N_end"

definition recursion_error :: exn where
  "recursion_error = Exn ''GraphRecursionError'' ''Recursion limit reached without hitting a stop condition.''"

text \<open>How a run of at most \<open>limit\<close> node executions ends; \<open>Cut\<close> is the recursion limit.\<close>

datatype run_end = Finished agent_state | Raised exn | Cut

fun graph_run :: "'w deps \<Rightarrow> nat \<Rightarrow> node \<Rightarrow> agent_state \<Rightarrow> 'w sys \<Rightarrow> run_end \<times> 'w sys" where
  "graph_run d 0 n st sy = (if n = N_end then (Finished st, sy) else (Cut, sy))"
| "graph_run d (Suc limit) n st sy =
     (if n = N_end then (Finished st, sy)
      else (case run_node d n st sy of
          (Inl e, sy') \<Rightarrow> (Raised e, sy')
        | (Inr us, sy') \<Rightarrow> (let st' = merge_update st us in graph_run d limit (next_node n st') st' sy')))"

definition RECURSION_LIMIT :: nat where
  "RECURSION_LIMIT = 200"

definition run_sample :: "'w deps \<Rightarrow> agent_state \<Rightarrow> ('w sys, agent_state) act" where
  "run_sample d st sy = (case graph_run d RECURSION_LIMIT N_classify st sy of
     (Finished st', sy') \<Rightarrow> (Inr st', sy')
   | (Raised e, sy') \<Rightarrow> (Inl e, sy')
   | (Cut, sy') \<Rightarrow> (Inl recursion_error, sy'))"

text \<open>One step of a run that does not raise.\<close>

inductive graph_step :: "'w deps \<Rightarrow> node \<times> agent_state \<times> 'w sys \<Rightarrow> node \<times> agent_state \<times> 'w sys \<Rightarrow> bool" for d where
  graph_stepI: "n \<noteq> N_end \<Longrightarrow> run_node d n st sy = (Inr us, sy')
     \<Longrightarrow> graph_step d (n, st, sy) (next_node n (merge_update st us), merge_update st us, sy')"

inductive_cases graph_stepE: "graph_step d (n, st, sy) c"

subsection \<open>What the nodes write\<close>

lemmas upd_defs = merge_update_def

lemma classify_node_effect:
  "classify_node d st sy = (Inr us, sy') \<Longrightarrow> (\<exists>t. us = [] \<or> us = [U_task_type t]) \<and> sy_cache sy' = sy_cache sy"
  by (auto simp: classify_node_def Let_def split: if_splits option.splits prod.splits sum.splits)

text \<open>The planner may answer \<open>plan\<close> in some world.\<close>

definition planner_gives :: "'w deps \<Rightarrow> agent_state \<Rightarrow> pyval list \<Rightarrow> bool" where
  "planner_gives d st plan \<longleftrightarrow>
     (\<exists>w out parsed w'. d_planner d (plan_messages d st) PLAN_RESPONSE_SCHEMA w = (Inr out, w')
        \<and> parsed_or_content out = Inr parsed \<and> plan_of parsed = Inr plan)"

text \<open>The cache may answer \<open>plan\<close> under some key.\<close>

definition cache_gives :: "plan_cache option \<Rightarrow> pyval list \<Rightarrow> bool" where
  "cache_gives co plan \<longleftrightarrow> (\<exists>c k c'. co = Some c \<and> cache_get k c = (Some plan, c'))"

lemma planner_givesI:
  "d_planner d (plan_messages d st) PLAN_RESPONSE_SCHEMA w = (Inr out, w') \<Longrightarrow> parsed_or_content out = Inr parsed
    \<Longrightarrow> plan_of parsed = Inr plan \<Longrightarrow> planner_gives d st plan"
  by (auto simp: planner_gives_def)

lemma ask_planner_effect:
  "ask_planner d st pc sy = (Inr us, sy') \<Longrightarrow>
     (\<exists>err. us = plan_failed err pc) \<or> (\<exists>plan. us = new_plan plan pc False \<and> planner_gives d st plan)"
  by (auto simp: ask_planner_def onw_def dest: planner_givesI split: prod.splits sum.splits)

lemma plan_node_effect:
  assumes "plan_node d st sy = (Inr us, sy')"
  shows "(\<exists>err. us = plan_failed err (st_plan_count st + 1)) \<or>
     (\<exists>plan hit. st_plan_count st < PLAN_MAX \<and> us = new_plan plan (st_plan_count st + 1) hit \<and>
        (planner_gives d st plan \<or> st_plan_count st = 0 \<and> cache_gives (sy_cache sy) plan))"
proof (cases "st_plan_count st + 1 > PLAN_MAX")
  case True
  then show ?thesis using assms by (auto simp: plan_node_def Let_def)
next
  case False
  have A: ?thesis if "ask_planner d st (st_plan_count st + 1) sy2 = (Inr us, sy')" for sy2
    using ask_planner_effect [OF that] False by fastforce
  show ?thesis
  proof (cases "if st_plan_count st + 1 = 1 then sy_cache sy else None")
    case None
    with assms False have "ask_planner d st (st_plan_count st + 1) sy = (Inr us, sy')"
      by (simp add: plan_node_def Let_def)
    then show ?thesis by (rule A)
  next
    case (Some c)
    then have z: "st_plan_count st = 0" "sy_cache sy = Some c" by (auto split: if_splits)
    obtain ch c' where g: "cache_get (state_key d st) c = (ch, c')" by (cases "cache_get (state_key d st) c")
    show ?thesis
    proof (cases ch)
      case None
      with assms False z g have "ask_planner d st (st_plan_count st + 1) (sy\<lparr>sy_cache := Some c'\<rparr>) = (Inr us, sy')"
        by (simp add: plan_node_def Let_def)
      then show ?thesis by (rule A)
    next
      case (Some plan)
      with assms False z g have "us = new_plan plan (st_plan_count st + 1) True" by (simp add: plan_node_def Let_def)
      moreover have "cache_gives (sy_cache sy) plan" using g Some z by (auto simp: cache_gives_def)
      ultimately show ?thesis using z by (auto simp: PLAN_MAX_def)
    qed
  qed
qed

text \<open>An update that keeps the counters and the error flag.\<close>

definition loop_fields_kept :: "agent_state \<Rightarrow> agent_state \<Rightarrow> bool" where
  "loop_fields_kept st st' \<longleftrightarrow> st_step st' = st_step st \<and> st_reflect st' = st_reflect st
     \<and> st_plan_count st' = st_plan_count st \<and> length (st_plan st') = length (st_plan st)"

lemma act_harvest_merge:
  "loop_fields_kept st (merge_update st (act_harvest s a r))
    \<and> st_status (merge_update st (act_harvest s a r)) = st_status st
    \<and> st_tool_error (merge_update st (act_harvest s a r)) = st_tool_error st"
  by (auto simp: act_harvest_def add_observation_def loop_fields_kept_def)

lemma act_update_merge:
  "loop_fields_kept st (merge_update st (act_update s a r))
    \<and> st_status (merge_update st (act_update s a r)) = Verifying
    \<and> st_tool_error (merge_update st (act_update s a r)) = (if tr_ok r then st_tool_error st else tr_error r)"
proof -
  define s1 where "s1 = merge_update st ([U_tool_calls [dump_result r], U_status Verifying] @
     (if tr_ok r then [] else [U_fails (st_fails s + 1), U_tool_error (tr_error r)]))"
  have "merge_update st (act_update s a r) = merge_update s1 (act_harvest s a r)"
    by (simp add: act_update_def s1_def)
  moreover have "loop_fields_kept st s1 \<and> st_status s1 = Verifying
      \<and> st_tool_error s1 = (if tr_ok r then st_tool_error st else tr_error r)"
    by (simp add: s1_def loop_fields_kept_def)
  ultimately show ?thesis using act_harvest_merge [of s1 s a r] by (auto simp: loop_fields_kept_def)
qed

lemma write_step_merge:
  "write_step d st idx step' sy = (us, sy') \<Longrightarrow>
     loop_fields_kept st (merge_update st us) \<and> st_tool_error (merge_update st us) = st_tool_error st"
  by (auto simp: write_step_def Let_def loop_fields_kept_def split: if_splits)

text \<open>Every tool result that an action ends with is well formed.\<close>

lemma with_step_Inr: "with_step step m w = (Inr (r, step'), w') \<longleftrightarrow> step' = step \<and> m w = (Inr r, w')"
  by (auto simp: with_step_def map_act_def bindA_def split: prod.splits sum.splits)

lemma toolA_invoke: "toolA (invoke s name run) w = (Inr r, w') \<Longrightarrow> result_ok r"
  using invoke_ok by (auto simp: toolA_def split: prod.splits)

lemma synthetic_error_ok [simp]: "err \<noteq> [] \<Longrightarrow> result_ok (synthetic_error d name data err w)"
  by (simp add: synthetic_error_def result_ok_def)

lemma synthetic_error_id_ok [simp]: "err \<noteq> [] \<Longrightarrow> result_ok ((synthetic_error d name data err w)\<lparr>tr_call_id := i\<rparr>)"
  by (simp add: synthetic_error_def result_ok_def)

lemmas act_defs = act_goto_def act_click_def act_type_def act_screenshot_def act_screenshot_all_def act_search_def
  act_scroll_def act_scroll_to_def act_visit_each_link_def act_annotate_def act_click_mark_def act_type_mark_def

lemma bindA_result_ok:
  assumes "\<And>x w r w'. f x w = (Inr r, w') \<Longrightarrow> result_ok r" "bindA m f w = (Inr r, w')"
  shows "result_ok r"
  using assms by (auto simp: bindA_eq_Inr)

lemma act_goto_ok: "act_goto d t w = (Inr r, w') \<Longrightarrow> result_ok r"
  unfolding act_goto_def tool_defs by (rule bindA_result_ok [OF toolA_invoke])

lemma act_goto_search_result_ok: "act_goto_search_result d st step w = (Inr r, w') \<Longrightarrow> result_ok r"
  by (auto simp: act_goto_search_result_def Let_def bindA_eq_Inr dest!: act_goto_ok split: if_splits)

lemma act_on_mark_ok: "act_on_mark d v c w = (Inr r, w') \<Longrightarrow> result_ok r"
  by (auto simp: act_on_mark_def bindA_eq_Inr tool_defs split: if_splits)

lemma simple_act_ok:
  "act_click d t w = (Inr r, w') \<Longrightarrow> result_ok r"
  "act_type d t v w = (Inr r, w') \<Longrightarrow> result_ok r"
  "act_screenshot d idx step w = (Inr r, w') \<Longrightarrow> result_ok r"
  "act_screenshot_all d idx step w = (Inr r, w') \<Longrightarrow> result_ok r"
  "act_search d step w = (Inr r, w') \<Longrightarrow> result_ok r"
  "act_scroll d step w = (Inr r, w') \<Longrightarrow> result_ok r"
  "act_scroll_to d t w = (Inr r, w') \<Longrightarrow> result_ok r"
  "act_visit_each_link d step w = (Inr r, w') \<Longrightarrow> result_ok r"
  "act_annotate d idx t w = (Inr r, w') \<Longrightarrow> result_ok r"
  "act_click_mark d step w = (Inr r, w') \<Longrightarrow> result_ok r"
  "act_type_mark d step w = (Inr r, w') \<Longrightarrow> result_ok r"
  by (auto simp: act_defs tool_defs bindA_eq_Inr split: prod.splits)

lemma no_vision_error_ne: "no_vision_error \<noteq> []"
  by (simp add: no_vision_error_def)

lemma act_visual_do_ok: "act_visual_do d idx step w = (Inr (r, step'), w') \<Longrightarrow> result_ok r"
proof -
  assume run: "act_visual_do d idx step w = (Inr (r, step'), w')"
  obtain ann w1 where a: "tool_annotate (d_session d) (step_name idx @ ''_annotated'') w = (ann, w1)" by fastforce
  then have ok: "result_ok ann" unfolding tool_annotate_def by (rule invoke_eqD)
  show ?thesis
  proof (cases "tr_ok ann")
    case False
    with run a ok show ?thesis by (simp add: act_visual_do_def Let_def)
  next
    case True
    then show ?thesis
      using run a
      by (auto simp: act_visual_do_def Let_def with_step_Inr no_vision_error_ne
        split: sum.splits option.splits prod.splits dest: act_on_mark_ok)
  qed
qed

lemma act_dispatch_ok:
  assumes "act_dispatch d st idx step action = Some run" "run w = (Inr (r, step'), w')"
  shows "result_ok r"
  using assms
  by (auto simp: act_dispatch_def Let_def with_step_Inr tool_defs split: if_splits
      dest: act_goto_ok act_goto_search_result_ok simple_act_ok act_visual_do_ok)

text \<open>The act node keeps the loop counters, never clears a tool error and leaves one of three statuses.\<close>

lemma act_node_effect:
  assumes "act_node d st sy = (Inr us, sy')"
  shows "loop_fields_kept st (merge_update st us) \<and> st_status (merge_update st us) \<in> {Extracting, Failed, Verifying}
    \<and> (has_tool_error st \<longrightarrow> has_tool_error (merge_update st us))"
proof -
  consider "us = [U_status Extracting]" | e where "us = [U_status Failed, U_error e]"
    | v where "us = bad_step_update st (st_step st) v"
    | us1 a r step' sy1 sy2 where "us = us1 @ act_update st a r" "result_ok r"
        "write_step d st (st_step st) step' sy1 = (us1, sy2)"
  proof -
    show ?thesis using assms that
      by (auto simp: act_node_def Let_def onw_def split: if_splits pyval.splits option.splits sum.splits prod.splits
          dest: act_dispatch_ok)
  qed
  then show ?thesis
  proof cases
    case 4
    note w = write_step_merge [OF 4(3)]
    note a = act_update_merge [of "merge_update st us1" st a r]
    have k: "loop_fields_kept st (merge_update st us)"
      using w a 4(1) by (auto simp: loop_fields_kept_def)
    have "has_tool_error (merge_update st us)" if "has_tool_error st"
      using w a 4(1,2) that by (auto simp: has_tool_error_def result_ok_def)
    with k a 4(1) show ?thesis by simp
  qed (auto simp: loop_fields_kept_def bad_step_update_def has_tool_error_def)
qed

lemma observe_node_effect:
  assumes "observe_node d st sy = (Inr us, sy')"
  shows "(\<exists>e. us = [U_status Failed, U_error e]) \<or> (\<exists>obs. us = [U_obs obs])"
  using assms by (auto simp: observe_node_def onw_def split: if_splits prod.splits sum.splits)

lemma verify_node_effect:
  assumes "verify_node d st sy = (Inr us, sy')"
  shows "us = step_failed st \<or> us = advance st \<and> \<not> has_tool_error st"
  using assms by (auto simp: verify_node_def onw_def split: if_splits prod.splits sum.splits)

lemma extract_node_effect:
  assumes "extract_node d st sy = (Inr us, sy')"
  shows "\<exists>x. us = [U_extracted x, U_status Judging] \<or> (\<exists>es. us = [U_extracted x, U_extract_errors es, U_status Judging, U_judge_feedback PNone])"
  using assms by (auto simp: extract_node_def Let_def split: if_splits prod.splits sum.splits)

lemma judge_node_effect:
  assumes "judge_node d st sy = (Inr us, sy')"
  shows "(\<exists>v r f. st_reflect st < REFLECT_MAX \<and> us = [U_verdict v, U_verdict_reason r, U_judge_feedback f,
       U_reflect (st_reflect st + 1), U_status Extracting])
    \<or> (\<exists>v r. us = [U_verdict v, U_verdict_reason r, U_status Done_status])"
  using assms by (auto simp: judge_node_def judge_update_def onw_def split: if_splits prod.splits sum.splits)

lemmas node_effects = classify_node_effect plan_node_effect act_node_effect observe_node_effect
  verify_node_effect extract_node_effect judge_node_effect

subsection \<open>Termination\<close>

text \<open>
  \<open>rank L\<close> bounds the node executions left when no plan has more than \<open>L\<close> steps: each plan costs at most
  three nodes per step and per reflection, and the extract and judge nodes alternate at most four times.
\<close>

definition tail_rank :: "agent_state \<Rightarrow> nat" where
  "tail_rank st = 2 * (REFLECT_MAX - st_reflect st)"

definition plan_rank :: "nat \<Rightarrow> agent_state \<Rightarrow> nat" where
  "plan_rank L st = 8 + (PLAN_MAX - st_plan_count st) * (3 * L + 9)"

definition loop_rank :: "agent_state \<Rightarrow> nat" where
  "loop_rank st = 3 * ((length (st_plan st) - st_step st) + (REFLECT_MAX - 1 - st_reflect st))"

fun rank :: "nat \<Rightarrow> node \<Rightarrow> agent_state \<Rightarrow> nat" where
  "rank L N_classify st = plan_rank L st + 2"
| "rank L N_plan st = plan_rank L st + 1"
| "rank L N_act st = plan_rank L st + loop_rank st + 3"
| "rank L N_observe st = plan_rank L st + loop_rank st + 2"
| "rank L N_verify st = plan_rank L st + loop_rank st + 1"
| "rank L N_extract st = tail_rank st + 2"
| "rank L N_judge st = tail_rank st + 1"
| "rank L N_end st = 0"

lemmas rank_defs = tail_rank_def plan_rank_def loop_rank_def REFLECT_MAX_def PLAN_MAX_def

text \<open>Plans have at most \<open>L\<close> steps: those of the planner, and those of the cache at the first planning.\<close>

definition plans_bounded :: "nat \<Rightarrow> 'w deps \<Rightarrow> bool" where
  "plans_bounded L d \<longleftrightarrow> (\<forall>st plan. planner_gives d st plan \<longrightarrow> length plan \<le> L)"

definition run_ok :: "nat \<Rightarrow> node \<Rightarrow> agent_state \<Rightarrow> 'w sys \<Rightarrow> bool" where
  "run_ok L n st sy \<longleftrightarrow> (if n \<in> {N_classify, N_plan}
     then st_plan_count st = 0 \<longrightarrow> (\<forall>plan. cache_gives (sy_cache sy) plan \<longrightarrow> length plan \<le> L)
     else 0 < st_plan_count st)"

lemma tail_le: "tail_rank st \<le> 6"
  by (simp add: tail_rank_def REFLECT_MAX_def)

lemma rank_new_plan:
  assumes "st_plan_count st < PLAN_MAX" "length plan \<le> L"
    and m: "m = merge_update st (new_plan plan (st_plan_count st + 1) hit)"
  shows "rank L N_act m < rank L N_plan st"
proof -
  have f: "st_plan m = plan" "st_step m = 0" "st_reflect m = 0" "st_plan_count m = st_plan_count st + 1"
    by (simp_all add: m new_plan_def)
  have "PLAN_MAX - st_plan_count st = Suc (PLAN_MAX - st_plan_count m)" using assms(1) f by simp
  then have "plan_rank L st = plan_rank L m + (3 * L + 9)" by (simp add: plan_rank_def)
  moreover have "loop_rank m \<le> 3 * L + 6" using assms(2) f by (simp add: loop_rank_def REFLECT_MAX_def)
  ultimately show ?thesis by simp
qed

lemma rank_step_plan:
  assumes "plans_bounded L d" "run_ok L N_plan st sy" "plan_node d st sy = (Inr us, sy')"
  shows "rank L (next_node N_plan (merge_update st us)) (merge_update st us) < rank L N_plan st
    \<and> run_ok L (next_node N_plan (merge_update st us)) (merge_update st us) sy'"
  using plan_node_effect [OF assms(3)]
proof (elim disjE exE)
  fix err assume "us = plan_failed err (st_plan_count st + 1)"
  then show ?thesis by (simp add: plan_failed_def route_after_plan_def run_ok_def)
next
  fix plan hit
  assume *: "st_plan_count st < PLAN_MAX \<and> us = new_plan plan (st_plan_count st + 1) hit \<and>
        (planner_gives d st plan \<or> st_plan_count st = 0 \<and> cache_gives (sy_cache sy) plan)"
  then have l: "length plan \<le> L" using assms(1,2) by (auto simp: plans_bounded_def run_ok_def)
  let ?m = "merge_update st us"
  have "st_status ?m = Acting" "st_plan_count ?m = st_plan_count st + 1" using * by (simp_all add: new_plan_def)
  moreover have "rank L N_act ?m < rank L N_plan st" using * l by (intro rank_new_plan) auto
  ultimately show ?thesis by (simp add: route_after_plan_def run_ok_def del: rank.simps)
qed

lemma rank_step_act:
  assumes "run_ok L N_act st sy" "act_node d st sy = (Inr us, sy')"
  shows "rank L (next_node N_act (merge_update st us)) (merge_update st us) < rank L N_act st
    \<and> run_ok L (next_node N_act (merge_update st us)) (merge_update st us) sy'"
proof -
  let ?m = "merge_update st us"
  note e = act_node_effect [OF assms(2)]
  have p: "plan_rank L ?m = plan_rank L st" "loop_rank ?m = loop_rank st"
    using e by (simp_all add: loop_fields_kept_def plan_rank_def loop_rank_def)
  have t: "tail_rank ?m + 2 \<le> plan_rank L st" using tail_le [of ?m] by (simp add: plan_rank_def)
  have "0 < st_plan_count ?m" using e assms(1) by (simp add: loop_fields_kept_def run_ok_def)
  with p t show ?thesis by (auto simp: route_after_act_def run_ok_def)
qed

text \<open>Leaving the loop for the extract node is always possible within the rank.\<close>

lemma rank_leave: "rank L N_extract st' < rank L N_verify st"
  using tail_le [of st'] by (simp add: plan_rank_def)

lemma rank_again:
  assumes "plan_rank L st' = plan_rank L st" "loop_rank st' + 3 \<le> loop_rank st"
  shows "rank L N_act st' < rank L N_verify st"
  using assms by simp

lemma loop_rank_reflect:
  assumes "st_reflect st' = st_reflect st + 1" "st_step st' = st_step st" "st_plan st' = st_plan st"
    "st_reflect st + 1 < REFLECT_MAX"
  shows "loop_rank st' + 3 \<le> loop_rank st"
  using assms by (simp add: loop_rank_def REFLECT_MAX_def)

lemma loop_rank_advance:
  assumes "st_reflect st' = st_reflect st" "st_step st' = st_step st + 1" "st_plan st' = st_plan st"
    "st_step st' < length (st_plan st')"
  shows "loop_rank st' + 3 \<le> loop_rank st"
  using assms by (simp add: loop_rank_def)

lemma rank_step_verify:
  assumes "run_ok L N_verify st sy" "verify_node d st sy = (Inr us, sy')"
  shows "rank L (next_node N_verify (merge_update st us)) (merge_update st us) < rank L N_verify st
    \<and> run_ok L (next_node N_verify (merge_update st us)) (merge_update st us) sy'"
proof -
  let ?m = "merge_update st us"
  have pc: "0 < st_plan_count st" using assms(1) by (simp add: run_ok_def)
  consider (failed) "st_status ?m = Failed" "st_plan_count ?m = st_plan_count st"
    | (replan) "st_status ?m = Replanning" "st_plan_count ?m = st_plan_count st" "st_reflect st + 1 < REFLECT_MAX"
    | (reflect) "st_status ?m = Acting" "st_plan_count ?m = st_plan_count st" "st_reflect ?m = st_reflect st + 1"
        "st_step ?m = st_step st" "st_plan ?m = st_plan st" "st_reflect st + 1 < REFLECT_MAX"
    | (advance) "st_status ?m = Acting" "st_plan_count ?m = st_plan_count st" "st_reflect ?m = st_reflect st"
        "st_step ?m = st_step st + 1" "st_plan ?m = st_plan st"
    using verify_node_effect [OF assms(2)]
    by (auto simp: step_failed_def Let_def advance_def split: if_splits)
  then show ?thesis
  proof cases
    case failed
    then show ?thesis using pc by (simp add: route_after_verify_def run_ok_def)
  next
    case replan
    have "0 < loop_rank st" "plan_rank L ?m = plan_rank L st"
      using replan by (simp_all add: loop_rank_def REFLECT_MAX_def plan_rank_def)
    then show ?thesis using replan pc by (simp add: route_after_verify_def run_ok_def)
  next
    case reflect
    have "plan_rank L ?m = plan_rank L st" using reflect by (simp add: plan_rank_def)
    note again = rank_again [OF this loop_rank_reflect [OF reflect(3-6)]]
    show ?thesis
      using reflect(1,2) pc again rank_leave [of L ?m st]
      by (simp add: route_after_verify_def run_ok_def del: rank.simps)
  next
    case advance
    have pr: "plan_rank L ?m = plan_rank L st" using advance by (simp add: plan_rank_def)
    have "rank L N_act ?m < rank L N_verify st" if "st_step ?m < length (st_plan ?m)"
      by (rule rank_again [OF pr loop_rank_advance [OF advance(3-5) that]])
    then show ?thesis
      using advance(1,2) pc rank_leave [of L ?m st]
      by (simp add: route_after_verify_def run_ok_def not_le del: rank.simps)
  qed
qed

lemma rank_step:
  assumes "plans_bounded L d" "run_ok L n st sy" "n \<noteq> N_end" "run_node d n st sy = (Inr us, sy')"
  shows "rank L (next_node n (merge_update st us)) (merge_update st us) < rank L n st
    \<and> run_ok L (next_node n (merge_update st us)) (merge_update st us) sy'"
proof (cases n)
  case N_classify
  with assms show ?thesis
    by (auto simp: run_ok_def plan_rank_def dest!: classify_node_effect)
next
  case N_observe
  with assms show ?thesis
    by (auto simp: run_ok_def plan_rank_def loop_rank_def dest!: observe_node_effect)
next
  case N_extract
  with assms show ?thesis
    by (auto simp: run_ok_def tail_rank_def route_after_extract_def dest!: extract_node_effect)
next
  case N_judge
  with assms show ?thesis
    by (auto simp: run_ok_def tail_rank_def route_after_judge_def dest!: judge_node_effect)
next
  case N_plan
  with assms show ?thesis using rank_step_plan [of L d st sy us sy'] by simp
next
  case N_act
  with assms show ?thesis using rank_step_act [of L st sy d us sy'] by simp
next
  case N_verify
  with assms show ?thesis using rank_step_verify [of L st sy d us sy'] by simp
qed (use assms in simp)

lemma graph_run_enough:
  assumes "plans_bounded L d" "run_ok L n st sy" "rank L n st \<le> limit"
  shows "fst (graph_run d limit n st sy) \<noteq> Cut"
  using assms(2,3)
proof (induction limit arbitrary: n st sy)
  case 0
  then have "n = N_end" by (cases n) auto
  then show ?case by simp
next
  case (Suc limit)
  show ?case
  proof (cases "n = N_end")
    case False
    obtain r sy' where r: "run_node d n st sy = (r, sy')" by fastforce
    show ?thesis
    proof (cases r)
      case (Inl e)
      then show ?thesis using r False by simp
    next
      case (Inr us)
      have "rank L (next_node n (merge_update st us)) (merge_update st us) \<le> limit"
        "run_ok L (next_node n (merge_update st us)) (merge_update st us) sy'"
        using rank_step [OF assms(1) Suc.prems(1) False] r Inr Suc.prems(2) by fastforce+
      from Suc.IH [OF this(2,1)] show ?thesis using r Inr False by (simp add: Let_def)
    qed
  qed simp
qed

text \<open>The bound of a fresh sample.\<close>

lemma fresh_rank: "st_plan_count st = 0 \<Longrightarrow> rank L N_classify st = 9 * L + 37"
  by (simp add: plan_rank_def PLAN_MAX_def)

subsection \<open>Monotone and sticky fields\<close>

lemma graph_step_monotone:
  "graph_step d (n, st, sy) (n', st', sy') \<Longrightarrow>
     prefix (st_tool_calls st) (st_tool_calls st') \<and> prefix (st_evidence st) (st_evidence st')"
  using merge_monotone by (auto elim!: graph_stepE)

lemma graph_steps_monotone:
  "(graph_step d)\<^sup>*\<^sup>* (n, st, sy) (n', st', sy') \<Longrightarrow>
     prefix (st_tool_calls st) (st_tool_calls st') \<and> prefix (st_evidence st) (st_evidence st')"
proof (induction "(n', st', sy')" arbitrary: n' st' sy' rule: rtranclp_induct)
  case (step c)
  obtain n1 st1 sy1 where c: "c = (n1, st1, sy1)" by (cases c)
  with step.hyps(2) have "prefix (st_tool_calls st1) (st_tool_calls st') \<and> prefix (st_evidence st1) (st_evidence st')"
    using graph_step_monotone by blast
  with step.hyps(3) [OF c] show ?case by (auto intro: prefix_order.trans)
qed simp

lemma step_failed_keeps: "st_tool_error (merge_update st (step_failed st)) = st_tool_error st
    \<and> st_step (merge_update st (step_failed st)) = st_step st"
  by (simp add: step_failed_def Let_def)

text \<open>A step of the graph keeps a tool error and does not advance past it.\<close>

lemma tool_error_step:
  assumes "graph_step d (n, st, sy) (n', st', sy')" "has_tool_error st"
  shows "has_tool_error st' \<and> st_step st' \<in> {st_step st, 0}"
proof -
  obtain us where r: "run_node d n st sy = (Inr us, sy')" and st': "st' = merge_update st us"
    using assms(1) by (auto elim: graph_stepE)
  show ?thesis
  proof (cases n)
    case N_classify
    with r st' assms(2) show ?thesis by (auto dest!: classify_node_effect simp: has_tool_error_def)
  next
    case N_plan
    with r st' assms(2) show ?thesis
      by (auto dest!: plan_node_effect simp: has_tool_error_def plan_failed_def new_plan_def)
  next
    case N_act
    with r act_node_effect [of d st sy us sy'] st' assms(2) show ?thesis by (simp add: loop_fields_kept_def)
  next
    case N_observe
    with r st' assms(2) show ?thesis by (auto dest!: observe_node_effect simp: has_tool_error_def)
  next
    case N_verify
    with r st' assms(2) verify_node_effect [of d st sy us sy'] step_failed_keeps [of st] show ?thesis
      by (auto simp: has_tool_error_def)
  next
    case N_extract
    with r st' assms(2) show ?thesis by (auto dest!: extract_node_effect simp: has_tool_error_def)
  next
    case N_judge
    with r st' assms(2) show ?thesis by (auto dest!: judge_node_effect simp: has_tool_error_def)
  next
    case N_end
    with r st' assms(2) show ?thesis by simp
  qed
qed

lemma tool_error_steps:
  "(graph_step d)\<^sup>*\<^sup>* (n, st, sy) (n', st', sy') \<Longrightarrow> has_tool_error st \<Longrightarrow>
     has_tool_error st' \<and> st_step st' \<in> {st_step st, 0}"
proof (induction "(n', st', sy')" arbitrary: n' st' sy' rule: rtranclp_induct)
  case (step c)
  obtain n1 st1 sy1 where c: "c = (n1, st1, sy1)" by (cases c)
  with step tool_error_step [of d n1 st1 sy1 n' st' sy'] show ?case by auto
qed simp

subsection \<open>Counters and endings\<close>

definition counters_ok :: "node \<times> agent_state \<times> 'w sys \<Rightarrow> bool" where
  "counters_ok c \<longleftrightarrow> (case c of (n, st, sy) \<Rightarrow> st_reflect st \<le> REFLECT_MAX \<and> st_plan_count st \<le> PLAN_MAX + 1
     \<and> (n \<noteq> N_end \<longrightarrow> st_plan_count st \<le> PLAN_MAX))"

lemma counters_step:
  assumes "graph_step d (n, st, sy) c" "counters_ok (n, st, sy)"
  shows "counters_ok c"
proof -
  obtain us sy' where r: "run_node d n st sy = (Inr us, sy')"
    and c: "c = (next_node n (merge_update st us), merge_update st us, sy')"
    using assms(1) by (auto elim: graph_stepE)
  let ?m = "merge_update st us"
  have ok: "st_reflect st \<le> REFLECT_MAX" "st_plan_count st \<le> PLAN_MAX + 1"
    "n \<noteq> N_end \<Longrightarrow> st_plan_count st \<le> PLAN_MAX" using assms(2) by (auto simp: counters_ok_def)
  show ?thesis
  proof (cases n)
    case N_classify
    with r ok c show ?thesis by (auto dest!: classify_node_effect simp: counters_ok_def)
  next
    case N_plan
    with plan_node_effect [of d st sy us sy'] r ok(1) ok(3)
    have "st_plan_count ?m \<le> PLAN_MAX + 1 \<and> st_reflect ?m \<le> REFLECT_MAX
        \<and> (next_node N_plan ?m \<noteq> N_end \<longrightarrow> st_plan_count ?m \<le> PLAN_MAX)"
      by (auto simp: plan_failed_def new_plan_def route_after_plan_def)
    with N_plan c show ?thesis by (simp add: counters_ok_def)
  next
    case N_act
    with r act_node_effect [of d st sy us sy'] ok c show ?thesis by (simp add: counters_ok_def loop_fields_kept_def)
  next
    case N_observe
    with r ok c show ?thesis by (auto dest!: observe_node_effect simp: counters_ok_def)
  next
    case N_verify
    with r ok c show ?thesis
      by (auto dest!: verify_node_effect simp: counters_ok_def step_failed_def advance_def Let_def)
  next
    case N_extract
    with r ok c show ?thesis by (auto dest!: extract_node_effect simp: counters_ok_def)
  next
    case N_judge
    with r ok c show ?thesis by (auto dest!: judge_node_effect simp: counters_ok_def)
  next
    case N_end
    with assms(1) show ?thesis by (auto elim: graph_stepE)
  qed
qed

lemma counters_steps: "(graph_step d)\<^sup>*\<^sup>* c c' \<Longrightarrow> counters_ok c \<Longrightarrow> counters_ok c'"
proof (induction rule: rtranclp_induct)
  case (step b c)
  then show ?case using counters_step by (metis prod_cases3)
qed

text \<open>How a finished sample stands.\<close>

definition judged_or_failed :: "agent_state \<Rightarrow> bool" where
  "judged_or_failed st \<longleftrightarrow> st_status st = Failed \<or>
     (st_status st = Done_status \<and> (st_verdict st \<in> {PStr ''fail'', PStr ''uncertain''} \<longrightarrow> REFLECT_MAX \<le> st_reflect st))"

lemma end_step: "graph_step d (n, st, sy) (N_end, st', sy') \<Longrightarrow> judged_or_failed st'"
  by (erule graph_stepE, cases n)
    (auto simp: judged_or_failed_def route_after_plan_def route_after_act_def route_after_verify_def
      route_after_extract_def route_after_judge_def judge_node_def judge_update_def onw_def
      split: if_splits prod.splits sum.splits)

lemma graph_run_steps:
  "graph_run d limit n st sy = (Finished st', sy') \<Longrightarrow> (graph_step d)\<^sup>*\<^sup>* (n, st, sy) (N_end, st', sy')"
proof (induction limit arbitrary: n st sy)
  case 0
  then show ?case by (auto split: if_splits)
next
  case (Suc limit)
  show ?case
  proof (cases "n = N_end")
    case True
    with Suc.prems show ?thesis by simp
  next
    case False
    then obtain us sy1 where r: "run_node d n st sy = (Inr us, sy1)"
      and rest: "graph_run d limit (next_node n (merge_update st us)) (merge_update st us) sy1 = (Finished st', sy')"
      using Suc.prems by (auto simp: Let_def split: prod.splits sum.splits)
    have "graph_step d (n, st, sy) (next_node n (merge_update st us), merge_update st us, sy1)"
      using False r by (rule graph_stepI)
    then show ?thesis using Suc.IH [OF rest] by (rule converse_rtranclp_into_rtranclp)
  qed
qed

lemma finished_judged:
  assumes "graph_run d limit n st sy = (Finished st', sy')" "n \<noteq> N_end"
  shows "judged_or_failed st'"
proof -
  have "(graph_step d)\<^sup>*\<^sup>* (n, st, sy) (N_end, st', sy')" using assms(1) by (rule graph_run_steps)
  then show ?thesis
  proof (cases rule: rtranclp.cases)
    case rtrancl_refl
    with assms(2) show ?thesis by simp
  next
    case (rtrancl_into_rtrancl b)
    then show ?thesis using end_step by (metis prod_cases3)
  qed
qed

subsection \<open>A concrete agent\<close>

definition demo_session :: "unit session" where
  "demo_session = \<lparr> s_meta = (\<lambda>_. \<lparr>cm_call_id = ''c'', cm_elapsed_ms = 0, cm_timestamp = ''t''\<rparr>),
     s_goto = (\<lambda>u w. (Inl (Exn ''TimeoutError'' ''slow''), w)), s_click = (\<lambda>_. returnA ()), s_type = (\<lambda>_ _. returnA ()),
     s_screenshot = (\<lambda>n f g. returnA [(''name'', PStr n)]), s_scroll = (\<lambda>_. returnA []), s_scroll_to = (\<lambda>_. returnA []),
     s_screenshot_chunks = (\<lambda>_ _. returnA []), s_visit_each_link = (\<lambda>_ _ _ _. returnA []), s_extract = (\<lambda>_. returnA []),
     s_snapshot = returnA [(''url'', PStr ''u'')], s_mark_and_screenshot = (\<lambda>_. returnA ([], [])),
     s_click_mark = (\<lambda>_. returnA ()), s_type_mark = (\<lambda>_ _. returnA ()), s_serper_key = (\<lambda>_. None),
     s_serper = (\<lambda>_ _. returnA []) \<rparr>"

definition demo_plan :: "pyval list" where
  "demo_plan = [PDict [(''action'', PStr ''screenshot'')], PDict [(''action'', PStr ''done'')]]"

definition demo_texts :: node_texts where
  "demo_texts = \<lparr> nt_specialists = \<lparr>pt_extract = [], pt_form_fill = [], pt_list_iter = [], pt_navigate = [], pt_generic = []\<rparr>,
     nt_classifier = [], nt_vision = [], nt_verifier = [], nt_extractor = [], nt_judge = [], nt_judge_action = [] \<rparr>"

definition demo_deps :: "pyval list \<Rightarrow> unit deps" where
  "demo_deps plan = \<lparr> d_sha = (\<lambda>s. s), d_re = plain_search, d_texts = demo_texts,
     d_planner = (\<lambda>_ _. returnA [(''parsed'', PList plan)]),
     d_navigator = (\<lambda>_ _. returnA [(''content'', PStr ''no idea'')]),
     d_extractor = (\<lambda>_ _. returnA [(''parsed'', PDict [])]),
     d_judge = (\<lambda>_ _. returnA [(''content'', PStr (dumps_default (PDict [(''verdict'', PStr ''pass''), (''reason'', PStr ''ok'')])))]),
     d_classifier = None, d_vision = None, d_session = demo_session, d_read_image = (\<lambda>_. returnA []),
     d_validate = (\<lambda>_ _. Inr []) \<rparr>"

definition demo_state :: agent_state where
  "demo_state = \<lparr> st_run_id = ''r'', st_sample_id = ''s'', st_task_prompt = ''t'', st_input_data = PDict [], st_start_url = None,
     st_schema = [], st_plan = [], st_step = 0, st_obs = [], st_tool_calls = [], st_evidence = [], st_extracted = PNone,
     st_reflect = 0, st_fails = 0, st_plan_count = 0, st_cache_hit = False, st_task_type = [], st_tool_error = None,
     st_extract_errors = [], st_judge_feedback = PNone, st_status = Pending_status, st_verdict = PNone,
     st_verdict_reason = PNone, st_error = None \<rparr>"

definition demo_sys :: "unit sys" where
  "demo_sys = \<lparr> sy_world = (), sy_cache = None, sy_memo = Map.empty \<rparr>"

lemma demo_bounded: "plans_bounded (length plan) (demo_deps plan)"
  by (auto simp: plans_bounded_def planner_gives_def demo_deps_def parsed_or_content_def plan_of_def
      split: pyval.splits list.splits)

section \<open>Properties\<close>

text \<open>
  C5: a sample always comes to an end. If no plan (of the planner, or of the cache at the first planning)
  has more than \<open>L\<close> steps, a fresh sample ends within \<open>9 L + 37\<close> node executions, whatever the models, the
  tools and the judge answer; so with at most 18 steps per plan the recursion limit of 200 never cuts a run.
\<close>

theorem sample_run_terminates:
  assumes "plans_bounded L d" "st_plan_count st = 0" "\<And>plan. cache_gives (sy_cache sy) plan \<Longrightarrow> length plan \<le> L"
  shows "(9 * L + 37 \<le> limit \<longrightarrow> fst (graph_run d limit N_classify st sy) \<noteq> Cut)
    \<and> (L \<le> 18 \<longrightarrow> fst (graph_run d RECURSION_LIMIT N_classify st sy) \<noteq> Cut)"
proof -
  have ok: "run_ok L N_classify st sy" using assms(2,3) by (simp add: run_ok_def)
  have "fst (graph_run d limit N_classify st sy) \<noteq> Cut" if "9 * L + 37 \<le> limit" for limit
    using graph_run_enough [OF assms(1) ok, of limit] that fresh_rank [OF assms(2), of L] by simp
  then show ?thesis by (simp add: RECURSION_LIMIT_def)
qed

theorem sample_run_terminates_witness:
  "fst (graph_run (demo_deps demo_plan) RECURSION_LIMIT N_classify demo_state demo_sys) \<noteq> Cut"
proof -
  have l: "length demo_plan \<le> 18" by (simp add: demo_plan_def)
  show ?thesis
    using sample_run_terminates [OF demo_bounded [of demo_plan], of demo_state demo_sys] l
    by (simp add: demo_state_def demo_sys_def cache_gives_def)
qed

text \<open>
  C1: the retry budgets hold along every run: \<open>reflect_count\<close> never exceeds \<open>REFLECT_MAX\<close>, the plan node runs at
  most \<open>PLAN_MAX\<close> times with effect, and the recorded tool calls and the evidence only grow.
\<close>

theorem run_budgets_and_audit_trail:
  assumes "(graph_step d)\<^sup>*\<^sup>* (N_classify, st, sy) (n', st', sy')" "st_reflect st = 0" "st_plan_count st = 0"
  shows "st_reflect st' \<le> REFLECT_MAX \<and> st_plan_count st' \<le> PLAN_MAX + 1 \<and> (n' \<noteq> N_end \<longrightarrow> st_plan_count st' \<le> PLAN_MAX)
    \<and> prefix (st_tool_calls st) (st_tool_calls st') \<and> prefix (st_evidence st) (st_evidence st')"
proof -
  have "counters_ok (N_classify, st, sy)" using assms(2,3) by (simp add: counters_ok_def)
  then have "counters_ok (n', st', sy')" using counters_steps assms(1) by blast
  with graph_steps_monotone [OF assms(1)] show ?thesis by (simp add: counters_ok_def)
qed

theorem run_budgets_and_audit_trail_witness:
  "st_plan_count (merge_update demo_state [U_task_type ''unknown'']) \<le> PLAN_MAX + 1"
proof -
  have r: "run_node (demo_deps demo_plan) N_classify demo_state demo_sys = (Inr [U_task_type ''unknown''], demo_sys)"
    by (simp add: classify_node_def demo_deps_def demo_state_def)
  have "graph_step (demo_deps demo_plan) (N_classify, demo_state, demo_sys)
      (next_node N_classify (merge_update demo_state [U_task_type ''unknown'']),
       merge_update demo_state [U_task_type ''unknown''], demo_sys)"
    by (rule graph_stepI [OF _ r]) simp
  from run_budgets_and_audit_trail [OF r_into_rtranclp [of "graph_step (demo_deps demo_plan)", OF this]]
  show ?thesis by (simp add: demo_state_def)
qed

text \<open>
  C7: how a run that finishes stands: it failed, or the judge closed it; and a verdict of \<open>fail\<close> or
  \<open>uncertain\<close> is final only when the retries are used up.
\<close>

theorem finished_sample_judged_or_failed:
  assumes "graph_run d limit N_classify st sy = (Finished st', sy')"
  shows "st_status st' = Failed \<or> (st_status st' = Done_status
    \<and> (st_verdict st' \<in> {PStr ''fail'', PStr ''uncertain''} \<longrightarrow> REFLECT_MAX \<le> st_reflect st'))"
  using finished_judged [OF assms] by (simp add: judged_or_failed_def)

theorem finished_sample_judged_or_failed_witness:
  "\<exists>st' sy'. graph_run (demo_deps demo_plan) 20 N_classify demo_state demo_sys = (Finished st', sy')
     \<and> st_status st' = Done_status \<and> st_verdict st' = PStr ''pass''"
proof -
  have c: "case graph_run (demo_deps demo_plan) 20 N_classify demo_state demo_sys of
     (Finished st', sy') \<Rightarrow> st_status st' \<noteq> Failed \<and> st_verdict st' = PStr ''pass'' | _ \<Rightarrow> False" by code_simp
  then obtain st' sy' where r: "graph_run (demo_deps demo_plan) 20 N_classify demo_state demo_sys = (Finished st', sy')"
    "st_status st' \<noteq> Failed" "st_verdict st' = PStr ''pass''"
    by (auto split: prod.splits run_end.splits)
  with finished_sample_judged_or_failed [OF r(1)] show ?thesis by auto
qed

text \<open>
  C21: a tool error is never forgotten. Once \<open>last_tool_error\<close> is set, no later node of the sample clears it
  (only the advancing branch of verify does, and verify cannot take it while the error is set), so from
  then on verify never moves past a step: the step index stays, or is reset by a new plan.
\<close>

theorem tool_error_is_sticky:
  assumes "(graph_step d)\<^sup>*\<^sup>* (n, st, sy) (n', st', sy')" "has_tool_error st"
  shows "has_tool_error st' \<and> st_step st' \<in> {st_step st, 0}"
  using tool_error_steps [OF assms] .

definition demo_goto_state :: agent_state where
  "demo_goto_state = demo_state\<lparr>st_plan := [PDict [(''action'', PStr ''goto''), (''url'', PStr ''u'')], PDict [(''action'', PStr ''done'')]],
     st_plan_count := 1, st_tool_error := Some ''TimeoutError: slow'', st_step := 1\<rparr>"

theorem tool_error_is_sticky_witness:
  "has_tool_error (merge_update demo_goto_state [U_obs []]) \<and> st_step (merge_update demo_goto_state [U_obs []]) \<in> {1, 0}"
proof -
  have r: "run_node (demo_deps demo_plan) N_verify demo_goto_state demo_sys = (Inr (step_failed demo_goto_state), demo_sys)"
    by (simp add: verify_node_def demo_goto_state_def demo_state_def current_step_def attr_get_def has_tool_error_def
        NON_DOM_CHANGING_ACTIONS_def)
  have "graph_step (demo_deps demo_plan) (N_verify, demo_goto_state, demo_sys)
      (next_node N_verify (merge_update demo_goto_state (step_failed demo_goto_state)),
       merge_update demo_goto_state (step_failed demo_goto_state), demo_sys)"
    by (rule graph_stepI [OF _ r]) simp
  from tool_error_is_sticky [OF r_into_rtranclp [of "graph_step (demo_deps demo_plan)", OF this]]
  show ?thesis by (simp add: demo_goto_state_def has_tool_error_def)
qed

text \<open>
  C10: verification is safe against garbled output. The step index moves on only when no tool error is set
  and either the action is one that does not change the page, or the verifier's answer parses to an
  object whose \<open>ok\<close> is truthy.
\<close>

theorem verify_advances_only_on_success:
  assumes "verify_node d st sy = (Inr us, sy')" "st_step (merge_update st us) \<noteq> st_step st"
  shows "\<not> has_tool_error st \<and>
    (attr_get (current_step st) ''action'' \<in> Inr ` PStr ` set NON_DOM_CHANGING_ACTIONS \<or>
     (\<exists>out c v w. d_navigator d (verify_messages d st) PNone (sy_world sy) = (Inr out, w)
        \<and> getitem out ''content'' = Inr c \<and> parse_json c = Inr (PDict v) \<and> truthy (dget v ''ok'')))"
proof -
  have adv: "us \<noteq> step_failed st" using assms(2) step_failed_keeps [of st] by auto
  have v: "\<exists>c v. getitem out ''content'' = Inr c \<and> parse_json c = Inr (PDict v) \<and> truthy (dget v ''ok'')"
    if "verifier_ok out" for out
    using that by (auto simp: verifier_ok_def bindE_def attr_get_def split: sum.splits pyval.splits)
  show ?thesis
    using assms(1) adv v
    by (auto simp: verify_node_def onw_def split: if_splits prod.splits sum.splits)
qed

theorem verify_advances_only_on_success_witness:
  "\<not> has_tool_error (demo_state\<lparr>st_plan := demo_plan\<rparr>)"
proof -
  have r: "verify_node (demo_deps demo_plan) (demo_state\<lparr>st_plan := demo_plan\<rparr>) demo_sys
      = (Inr (advance (demo_state\<lparr>st_plan := demo_plan\<rparr>)), demo_sys)"
    by (simp add: verify_node_def demo_state_def current_step_def attr_get_def demo_plan_def has_tool_error_def
        NON_DOM_CHANGING_ACTIONS_def)
  show ?thesis
    by (rule verify_advances_only_on_success [OF r, THEN conjunct1]) (simp add: advance_def demo_state_def)
qed

text \<open>
  A plan step that is not an object ends the sample with an exception. The act node takes it as a tool
  error so that verify can replan, but verify reads the step's action before it looks at the error and
  raises \<open>AttributeError\<close>, whatever the browser answers in between.
\<close>

theorem bare_step_crashes_verify:
  assumes "st_step st < length (st_plan st)" "\<not> is_dict (st_plan st ! st_step st)"
  shows "\<exists>e sy'. graph_run d (k + 3) N_act st sy = (Raised e, sy') \<and> exn_class e = ''AttributeError''"
proof -
  let ?v = "st_plan st ! st_step st"
  let ?m = "merge_update st (bad_step_update st (st_step st) ?v)"
  have a: "act_node d st sy = (Inr (bad_step_update st (st_step st) ?v), sy)"
    using assms by (cases ?v) (auto simp: act_node_def Let_def)
  have m: "st_plan ?m = st_plan st" "st_step ?m = st_step st" "st_status ?m = Verifying" by (simp_all add: bad_step_update_def)
  have "\<exists>us sy1. observe_node d ?m sy = (Inr us, sy1)"
    by (cases "tr_ok (fst (tool_snapshot (d_session d) (sy_world sy)))")
      (auto simp: observe_node_def onw_def split: prod.splits)
  then obtain us sy1 where o1: "observe_node d ?m sy = (Inr us, sy1)" by blast
  have m2: "st_plan (merge_update ?m us) = st_plan st" "st_step (merge_update ?m us) = st_step st"
    using observe_node_effect [OF o1] m by auto
  have "\<exists>e. attr_get (current_step (merge_update ?m us)) ''action'' = Inl e \<and> exn_class e = ''AttributeError''"
    using assms m2 by (cases ?v) (auto simp: current_step_def attr_get_def)
  then obtain e where "verify_node d (merge_update ?m us) sy1 = (Inl e, sy1)" "exn_class e = ''AttributeError''"
    by (auto simp: verify_node_def)
  then show ?thesis
    using a o1 m by (simp add: numeral_3_eq_3 route_after_act_def Let_def)
qed

theorem bare_step_crashes_verify_witness:
  "\<exists>e sy'. graph_run (demo_deps []) 3 N_act (demo_state\<lparr>st_plan := [PStr ''goto x'']\<rparr>) demo_sys = (Raised e, sy')
     \<and> exn_class e = ''AttributeError''"
  using bare_step_crashes_verify [of "demo_state\<lparr>st_plan := [PStr ''goto x'']\<rparr>" "demo_deps []" 0 demo_sys]
  by (simp add: demo_state_def)

text \<open>
  A failed snapshot does not stop a sample. The observe node marks the sample failed, but its edge to
  verify is unconditional: after a page-neutral action verify sets the status back to acting and the run
  goes on, with the error text left in the state it ends with.
\<close>

theorem failed_snapshot_is_overruled:
  assumes "\<not> tr_ok (fst (tool_snapshot (d_session d) (sy_world sy)))" "\<not> has_tool_error st"
    and "attr_get (current_step st) ''action'' \<in> Inr ` PStr ` set NON_DOM_CHANGING_ACTIONS"
  shows "\<exists>st' sy'. graph_run d (k + 2) N_observe st sy = graph_run d k (route_after_verify st') st' sy'
    \<and> st_status st' = Acting \<and> st_step st' = st_step st + 1 \<and> st_error st' \<noteq> None"
proof -
  let ?r = "tool_snapshot (d_session d) (sy_world sy)"
  let ?us = "[U_status Failed, U_error (tr_error (fst ?r))]"
  let ?sy = "sy\<lparr>sy_world := snd ?r\<rparr>"
  let ?m = "merge_update st ?us"
  have ne: "tr_error (fst ?r) \<noteq> None" using assms(1) invoke_ok [of "d_session d" "''browser.snapshot''" "s_snapshot (d_session d)" "sy_world sy"]
    by (auto simp: result_ok_def tool_snapshot_def)
  have o1: "observe_node d st sy = (Inr ?us, ?sy)"
    using assms(1) by (simp add: observe_node_def onw_def split: prod.splits)
  have c: "current_step ?m = current_step st" "\<not> has_tool_error ?m"
    using assms(2) by (simp_all add: current_step_def has_tool_error_def)
  obtain a where a: "a \<in> set NON_DOM_CHANGING_ACTIONS" "attr_get (current_step st) ''action'' = Inr (PStr a)"
    using assms(3) by auto
  have v: "verify_node d ?m ?sy = (Inr (advance ?m), ?sy)"
    using c a by (simp add: verify_node_def)
  show ?thesis
    using o1 v ne
    by (intro exI [of _ "merge_update ?m (advance ?m)"] exI [of _ ?sy]) (simp add: advance_def Let_def)
qed

theorem failed_snapshot_is_overruled_witness:
  "\<exists>st' sy'. graph_run ((demo_deps demo_plan)\<lparr>d_session := demo_session\<lparr>s_snapshot := raiseA (Exn ''Error'' ''gone'')\<rparr>\<rparr>) 2
       N_observe (demo_state\<lparr>st_plan := demo_plan\<rparr>) demo_sys
     = graph_run ((demo_deps demo_plan)\<lparr>d_session := demo_session\<lparr>s_snapshot := raiseA (Exn ''Error'' ''gone'')\<rparr>\<rparr>) 0
         (route_after_verify st') st' sy'
     \<and> st_status st' = Acting \<and> st_error st' \<noteq> None"
proof -
  let ?d = "(demo_deps demo_plan)\<lparr>d_session := demo_session\<lparr>s_snapshot := raiseA (Exn ''Error'' ''gone'')\<rparr>\<rparr>"
  let ?st = "demo_state\<lparr>st_plan := demo_plan\<rparr>"
  have 1: "\<not> tr_ok (fst (tool_snapshot (d_session ?d) (sy_world demo_sys)))" by code_simp
  have 2: "\<not> has_tool_error ?st" by code_simp
  have 3: "attr_get (current_step ?st) ''action'' \<in> Inr ` PStr ` set NON_DOM_CHANGING_ACTIONS"
    by (simp add: demo_state_def demo_plan_def current_step_def attr_get_def NON_DOM_CHANGING_ACTIONS_def)
  from failed_snapshot_is_overruled [OF 1 2 3, of 0]
  show ?thesis unfolding add_0 by blast
qed

end
