(* ===== verification/GraphTypes.thy ===== *)
theory GraphTypes
  imports AgentGraph
begin

text \<open>
  The values a sample ends with (verdict, reason, extracted data, evidence) are JSON values, as the
  result row, the audit payload and \<open>samples.jsonl\<close> need. The verdict comes out of a JSON parser; of the
  extractor's structured answers and of the browser it is what their interfaces promise.
\<close>

definition wf_replies :: "'w chat \<Rightarrow> bool" where
  "wf_replies m \<longleftrightarrow> (\<forall>ms schema w out w'. m ms schema w = (Inr out, w') \<longrightarrow> wf_pyval (PDict out))"

definition wf_session :: "'w session \<Rightarrow> bool" where
  "wf_session s \<longleftrightarrow>
     (\<forall>n f g w a w'. s_screenshot s n f g w = (Inr a, w') \<longrightarrow> wf_pyval (PDict a))
   \<and> (\<forall>n g w as w'. s_screenshot_chunks s n g w = (Inr as, w') \<longrightarrow> (\<forall>a\<in>set as. wf_pyval (PDict a)))
   \<and> (\<forall>p l t g w a w'. s_visit_each_link s p l t g w = (Inr a, w') \<longrightarrow> wf_pyval (PDict a))
   \<and> (\<forall>w a w'. s_snapshot s w = (Inr a, w') \<longrightarrow> wf_pyval (PDict a))"

lemma wf_sessionD:
  assumes "wf_session s"
  shows "s_screenshot s n f g w = (Inr a, w') \<Longrightarrow> wf_pyval (PDict a)"
    "s_screenshot_chunks s n g w = (Inr as, w') \<Longrightarrow> \<forall>a\<in>set as. wf_pyval (PDict a)"
    "s_visit_each_link s p l t g w = (Inr a, w') \<Longrightarrow> wf_pyval (PDict a)"
    "s_snapshot s w = (Inr a, w') \<Longrightarrow> wf_pyval (PDict a)"
  by (insert assms, unfold wf_session_def) metis+

lemma wf_repliesD: "wf_replies m \<Longrightarrow> m ms schema w = (Inr out, w') \<Longrightarrow> wf_pyval (PDict out)"
  by (unfold wf_replies_def) metis

definition result_values :: "agent_state \<Rightarrow> bool" where
  "result_values st \<longleftrightarrow> wf_pyval (st_verdict st) \<and> wf_pyval (st_verdict_reason st) \<and> wf_pyval (st_extracted st)
     \<and> wf_elems (st_evidence st)"

text \<open>An update that writes well-formed values keeps the state so.\<close>

fun upd_values :: "upd \<Rightarrow> bool" where
  "upd_values (U_verdict v) = wf_pyval v"
| "upd_values (U_verdict_reason v) = wf_pyval v"
| "upd_values (U_extracted v) = wf_pyval v"
| "upd_values (U_evidence vs) = wf_elems vs"
| "upd_values _ = True"

lemma wf_elems_append [simp]: "wf_elems (xs @ ys) \<longleftrightarrow> wf_elems xs \<and> wf_elems ys"
  by (auto simp: wf_elems_set)

lemma merge_values: "result_values st \<Longrightarrow> list_all upd_values us \<Longrightarrow> result_values (merge_update st us)"
proof (induction us arbitrary: st)
  case (Cons u us)
  have "result_values (apply_upd u st)" using Cons.prems by (cases u) (auto simp: result_values_def)
  with Cons show ?case by simp
qed simp

lemma wf_get: "wf_pyval (PDict d) \<Longrightarrow> wf_pyval (dget d k)"
  by (auto simp: dget_def wf_items_set split: option.splits dest: map_of_SomeD)

lemma wf_dget_or: "wf_pyval (PDict d) \<Longrightarrow> wf_pyval v \<Longrightarrow> wf_pyval (dget_or d k v)"
  by (auto simp: dget_or_def wf_items_set split: option.splits dest: map_of_SomeD)

lemma wf_data_list: "wf_pyval (PDict d) \<Longrightarrow> wf_elems (data_list d k)"
  using wf_get [of d k] by (auto simp: data_list_def py_or_def split: pyval.splits)

lemma parse_json_wf: "parse_json t = Inr v \<Longrightarrow> wf_pyval v"
  by (auto simp: parse_json_def dest: json_loads_wf split: pyval.splits option.splits)

subsection \<open>The tools whose results become evidence\<close>

lemma evidence_data:
  assumes "wf_session (d_session d)" "act_dispatch d st idx step action = Some run" "run w = (Inr (r, step'), w')" "tr_ok r"
    "action \<in> {''screenshot'', ''screenshot_all'', ''visit_each_link''}"
  shows "wf_pyval (PDict (tr_data r))"
proof -
  have "toolA (tool_screenshot (d_session d) n m f) w = (Inr r, w') \<Longrightarrow> wf_pyval (PDict (tr_data r))" for n m f w
    using assms(1,4)
    by (auto simp: tool_screenshot_def toolA_def invoke_def map_act_def bindA_def opt_pv_def
        split: prod.splits sum.splits option.splits dest: wf_sessionD)
  moreover have "toolA (tool_screenshot_all (d_session d) n f) w = (Inr r, w') \<Longrightarrow> wf_pyval (PDict (tr_data r))" for n f w
    using assms(1,4)
    by (auto simp: tool_screenshot_all_def toolA_def invoke_def map_act_def bindA_def opt_pv_def wf_elems_set
        split: prod.splits sum.splits option.splits dest: wf_sessionD)
  moreover have "toolA (tool_visit_each_link (d_session d) p l t f) w = (Inr r, w') \<Longrightarrow> wf_pyval (PDict (tr_data r))" for p l t f w
    using assms(1,4)
    by (auto simp: tool_visit_each_link_def toolA_def invoke_def split: prod.splits sum.splits dest: wf_sessionD)
  ultimately show ?thesis
    using assms(2,3,5)
    by (auto simp del: toolA_eq simp: act_dispatch_def Let_def with_step_Inr act_screenshot_def act_screenshot_all_def
        act_visit_each_link_def bindA_eq_Inr)
qed

lemma act_harvest_values:
  assumes "action \<in> {''screenshot'', ''screenshot_all'', ''visit_each_link''} \<Longrightarrow> tr_ok r \<Longrightarrow> wf_pyval (PDict (tr_data r))"
  shows "list_all upd_values (act_harvest st action r)"
  using assms wf_get [of "tr_data r" "''artifact''"] wf_data_list [of "tr_data r" "''artifacts''"]
  by (auto simp: act_harvest_def add_observation_def)

lemma write_step_values: "write_step d st idx step' sy = (us, sy') \<Longrightarrow> list_all upd_values us"
  by (auto simp: write_step_def Let_def split: if_splits)

lemma act_node_values:
  assumes "wf_session (d_session d)" "act_node d st sy = (Inr us, sy')"
  shows "list_all upd_values us"
proof -
  consider "us = [U_status Extracting]" | e where "us = [U_status Failed, U_error e]"
    | v where "us = bad_step_update st (st_step st) v"
    | us1 a r step step' sy1 sy2 run w w' where "us = us1 @ act_update st a r"
        "act_dispatch d st (st_step st) step a = Some run" "run w = (Inr (r, step'), w')"
        "write_step d st (st_step st) step' sy1 = (us1, sy2)"
    using assms(2)
    by (auto simp: act_node_def Let_def onw_def split: if_splits pyval.splits option.splits sum.splits prod.splits)
  then show ?thesis
  proof cases
    case 3
    then show ?thesis by (simp add: bad_step_update_def)
  next
    case 4
    then have "list_all upd_values (act_harvest st a r)"
      using evidence_data [OF assms(1)] by (intro act_harvest_values) blast
    with 4 write_step_values [OF 4(4)] show ?thesis by (simp add: act_update_def)
  qed simp_all
qed

subsection \<open>The other nodes\<close>

lemma classify_node_values: "classify_node d st sy = (Inr us, sy') \<Longrightarrow> list_all upd_values us"
  by (auto simp: classify_node_def Let_def split: if_splits option.splits sum.splits prod.splits)

lemma plan_node_values: "plan_node d st sy = (Inr us, sy') \<Longrightarrow> list_all upd_values us"
  by (auto simp: plan_node_def ask_planner_def plan_failed_def new_plan_def Let_def
      split: if_splits option.splits sum.splits prod.splits)

lemma observe_node_values: "observe_node d st sy = (Inr us, sy') \<Longrightarrow> list_all upd_values us"
  by (auto simp: observe_node_def split: if_splits sum.splits prod.splits)

lemma verify_node_values: "verify_node d st sy = (Inr us, sy') \<Longrightarrow> list_all upd_values us"
  by (auto simp: verify_node_def advance_def step_failed_def Let_def split: if_splits sum.splits prod.splits)

lemma parsed_or_content_wf: "wf_pyval (PDict out) \<Longrightarrow> parsed_or_content out = Inr v \<Longrightarrow> wf_pyval v"
  by (auto simp: parsed_or_content_def bindE_Inr wf_get simp del: wf_pyval.simps dest: parse_json_wf split: if_splits)

lemma unwrap_items_wf: "wf_pyval v \<Longrightarrow> wf_pyval (unwrap_items b v)"
  using wf_get by (auto simp: unwrap_items_def simp del: wf_pyval.simps split: pyval.splits)

lemma extract_attempts_wf:
  assumes "wf_replies (d_extractor d)" "extract_attempts d st k first parsed errors sy = (Inr (v, es), sy')" "wf_pyval parsed"
  shows "wf_pyval v"
  using assms(2,3)
proof (induction k arbitrary: first parsed errors sy)
  case (Suc k)
  obtain r sy1 where run: "onw (d_extractor d (extract_messages d st first parsed errors)
      (if is_array_schema (st_schema st) then PNone else PDict (st_schema st))) sy = (r, sy1)" by fastforce
  show ?case
  proof (cases r)
    case (Inl e)
    with Suc.prems run show ?thesis by (simp add: Let_def)
  next
    case (Inr out)
    then have out: "wf_pyval (PDict out)"
      using run by (auto simp: onw_def simp del: wf_pyval.simps split: prod.splits dest: wf_repliesD [OF assms(1)])
    show ?thesis
    proof (cases "parsed_or_content out")
      case (Inl e)
      with Suc.prems run Inr Suc.IH [of False PNone] show ?thesis by (simp add: Let_def)
    next
      case p0: (Inr p0)
      let ?p = "unwrap_items (is_array_schema (st_schema st)) p0"
      have p: "wf_pyval ?p" using parsed_or_content_wf [OF out p0] by (rule unwrap_items_wf)
      show ?thesis
        using Suc.prems run Inr p0 p Suc.IH [of False ?p]
        by (auto simp: Let_def simp del: wf_pyval.simps split: sum.splits if_splits)
    qed
  qed
qed auto

lemma extract_node_values:
  assumes "wf_replies (d_extractor d)" "extract_node d st sy = (Inr us, sy')"
  shows "list_all upd_values us"
proof (cases "st_schema st = []")
  case True
  with assms(2) show ?thesis by (auto simp: extract_node_def)
next
  case False
  with assms(2) obtain v es sy1 where "extract_attempts d st (EXTRACT_RETRY_MAX + 1) True PNone [] sy = (Inr (v, es), sy1)"
    "us = [U_extracted (if v = PNone \<or> (is_array_schema (st_schema st) \<and> \<not> is_list v)
       then (if is_array_schema (st_schema st) then PList [] else PDict []) else v), U_extract_errors es, U_status Judging, U_judge_feedback PNone]"
    by (auto simp: extract_node_def Let_def split: prod.splits sum.splits)
  moreover from extract_attempts_wf [OF assms(1) this(1)] have "wf_pyval v" by simp
  ultimately show ?thesis by simp
qed

lemma judge_verdict_wf: "judge_verdict out = (v, r) \<Longrightarrow> wf_pyval v \<and> wf_pyval r"
  unfolding judge_verdict_def
  by (auto simp: bindE_Inr simp del: wf_pyval.simps(2) intro!: wf_dget_or dest!: parse_json_wf split: sum.splits pyval.splits)

lemma judge_node_values: "judge_node d st sy = (Inr us, sy') \<Longrightarrow> list_all upd_values us"
  using judge_verdict_wf
  by (auto simp: judge_node_def judge_update_def split: if_splits sum.splits prod.splits)

lemma run_node_values:
  assumes "wf_session (d_session d)" "wf_replies (d_extractor d)" "run_node d n st sy = (Inr us, sy')"
  shows "list_all upd_values us"
  using assms(3) act_node_values [OF assms(1)] extract_node_values [OF assms(2)] classify_node_values plan_node_values
    observe_node_values verify_node_values judge_node_values
  by (cases n) fastforce+

lemma graph_step_values:
  assumes "wf_session (d_session d)" "wf_replies (d_extractor d)" "graph_step d c c'" "result_values (fst (snd c))"
  shows "result_values (fst (snd c'))"
  using assms(3)
proof cases
  case (graph_stepI n st sy us sy')
  then show ?thesis using assms(4) run_node_values [OF assms(1,2)] merge_values by simp
qed

lemma graph_steps_values:
  assumes "wf_session (d_session d)" "wf_replies (d_extractor d)" "(graph_step d)\<^sup>*\<^sup>* c c'" "result_values (fst (snd c))"
  shows "result_values (fst (snd c'))"
  using assms(3,4) by (induction rule: rtranclp_induct) (auto intro: graph_step_values [OF assms(1,2)])

end
