(* ===== verification/CsvIO.thy ===== *)
theory CsvIO
  imports PyText
begin

text \<open>
  Tabular text: what the program uses of Python's \<open>csv\<close> module (the writer of the aggregate table in
  \<open>orchestrator/runner.py\<close>, the \<open>DictReader\<close> of \<open>orchestrator/inputs.py\<close>, both in the \<open>excel\<close>
  dialect), lines of JSON, and the loader of input rows. Files are opened with \<open>newline=""\<close> for CSV and
  with universal newlines otherwise. Workbooks are read by \<open>openpyxl\<close>, a parameter: the rows of the active
  sheet of a file, their cells empty, truth values, numbers or texts.
\<close>

definition DQ :: char where "DQ = CHR 0x22"
definition CR :: char where "CR = CHR 0x0D"
definition LF :: char where "LF = CHR 0x0A"
definition CM :: char where "CM = CHR 0x2C"

lemmas csv_chars = DQ_def CR_def LF_def CM_def

subsection \<open>Writing\<close>

definition csv_special :: "char \<Rightarrow> bool" where
  "csv_special c \<longleftrightarrow> c = CM \<or> c = DQ \<or> c = CR \<or> c = LF"

definition dbl :: "char \<Rightarrow> string" where
  "dbl c = (if c = DQ then [c, c] else [c])"

text \<open>\<open>QUOTE_MINIMAL\<close>: a cell with a separator, a quote or a line end is quoted, its quotes doubled.\<close>

definition csv_quote :: "string \<Rightarrow> string" where
  "csv_quote s = (if list_ex csv_special s then DQ # concat (map dbl s) @ [DQ] else s)"

text \<open>The text of a cell: \<open>None\<close> is empty, everything else \<open>str(v)\<close>.\<close>

definition csv_cell :: "pyval \<Rightarrow> string" where
  "csv_cell v = (if v = PNone then [] else py_str v)"

text \<open>One row, \<open>writerow\<close>; a row of one empty cell is written as two quotes.\<close>

definition csv_line :: "string list \<Rightarrow> string" where
  "csv_line cells = (if cells = [[]] then [DQ, DQ] else py_join [CM] (map csv_quote cells)) @ [CR, LF]"

subsection \<open>Reading\<close>

datatype csv_state = Row_start | Field_start | In_field | In_quotes | Quote_in_quotes

text \<open>The rest of the text after a line end that began with \<open>c\<close>.\<close>

definition eat_nl :: "char \<Rightarrow> string \<Rightarrow> string" where
  "eat_nl c s = (if c = CR \<and> s \<noteq> [] \<and> hd s = LF then tl s else s)"

lemma eat_nl_length: "length (eat_nl c s) \<le> length s"
  by (simp add: eat_nl_def)

text \<open>The reader's automaton, not strict; \<open>f\<close> is the field so far and \<open>r\<close> the row so far, both reversed.\<close>

function csv_read :: "csv_state \<Rightarrow> string \<Rightarrow> string list \<Rightarrow> string \<Rightarrow> string list list" where
  "csv_read st f r [] = (if st = Row_start then [] else [rev (rev f # r)])"
| "csv_read st f r (c # s) =
     (if st = In_quotes then (if c = DQ then csv_read Quote_in_quotes f r s else csv_read In_quotes (c # f) r s)
      else if st = Quote_in_quotes \<and> c = DQ then csv_read In_quotes (c # f) r s
      else if c = CR \<or> c = LF
        then (if st = Row_start then [] else rev (rev f # r)) # csv_read Row_start [] [] (eat_nl c s)
      else if c = CM then csv_read Field_start [] (rev f # r) s
      else if c = DQ \<and> (st = Row_start \<or> st = Field_start) then csv_read In_quotes f r s
      else csv_read In_field (c # f) r s)"
  by pat_completeness auto
termination
  using eat_nl_length by (relation "measure (\<lambda>(st, f, r, s). length s)") (auto simp: less_Suc_eq_le)

definition csv_rows :: "string \<Rightarrow> string list list" where
  "csv_rows s = csv_read Row_start [] [] s"

text \<open>
  \<open>DictReader\<close>: the first row names the columns, blank rows are skipped, a short row is filled with
  \<open>None\<close>, surplus cells go under the key \<open>None\<close> (\<open>null\<close> once the row is stored as JSON).
\<close>

definition csv_dict :: "string list \<Rightarrow> string list \<Rightarrow> pydict" where
  "csv_dict names row =
     (let d = dict_of (zip names (map PStr row));
          d1 = (if length names < length row then dset d ''null'' (PList (map PStr (drop (length names) row))) else d)
      in fold (\<lambda>k d. dset d k PNone) (drop (length row) names) d1)"

definition load_csv :: "string \<Rightarrow> pyval list" where
  "load_csv s = (case csv_rows s of [] \<Rightarrow> []
     | names # rows \<Rightarrow> map (\<lambda>r. PDict (csv_dict names r)) (filter (\<lambda>r. r \<noteq> []) rows))"

subsection \<open>Lines of JSON and the loader\<close>

definition universal_newlines :: "string \<Rightarrow> string" where
  "universal_newlines s = py_replace [CR] [LF] (py_replace [CR, LF] [LF] s)"

text \<open>The stripped lines of a text file, empty ones skipped.\<close>

definition text_lines :: "string \<Rightarrow> string list" where
  "text_lines s = filter (\<lambda>l. l \<noteq> []) (map py_strip (split_char LF (universal_newlines s)))"

definition load_jsonl :: "string \<Rightarrow> exn + pyval list" where
  "load_jsonl s = mapE (\<lambda>l. case json_loads l of None \<Rightarrow> Inl json_decode_error | Some v \<Rightarrow> Inr v) (text_lines s)"

definition load_json :: "string \<Rightarrow> exn + pyval list" where
  "load_json s = (case json_loads (universal_newlines s) of
     None \<Rightarrow> Inl json_decode_error
   | Some (PList xs) \<Rightarrow> Inr xs
   | Some v \<Rightarrow> Inl (Exn ''ValueError'' ''JSON input must be a list of objects''))"

text \<open>\<open>_load_xlsx\<close>: \<open>openpyxl\<close> is \<open>None\<close> when it is not installed. Cells beyond the header are dropped and a blank row is a row.\<close>

definition header_text :: "pyval \<Rightarrow> string" where
  "header_text h = (if h \<noteq> PNone then py_str h else [])"

definition load_xlsx :: "(string \<Rightarrow> exn + pyval list list) option \<Rightarrow> string \<Rightarrow> exn + pyval list" where
  "load_xlsx openpyxl s = (case openpyxl of
     None \<Rightarrow> Inl (Exn ''RuntimeError''
       (''xlsx inputs require openpyxl. Add it with '' @ [CHR 0x60] @ ''uv add openpyxl'' @ [CHR 0x60] @ ''.''))
   | Some read \<Rightarrow> bindE (read s) (\<lambda>rows. case rows of
         [] \<Rightarrow> Inr []
       | h # rest \<Rightarrow> Inr (map (\<lambda>row. PDict (dict_of (zip (map header_text h) row))) rest)))"

text \<open>\<open>load_inputs\<close> on the path, its lowered suffix, and the file's text (\<open>None\<close> if absent).\<close>

definition load_inputs :: "(string \<Rightarrow> exn + pyval list list) option \<Rightarrow> string \<Rightarrow> string \<Rightarrow> string option \<Rightarrow> exn + pyval list" where
  "load_inputs openpyxl path suffix0 file =
     (let suffix = py_lower suffix0 in
      case file of
        None \<Rightarrow> Inl (Exn ''FileNotFoundError'' (''input file not found: '' @ path))
      | Some s \<Rightarrow>
          if suffix = ''.csv'' then Inr (load_csv s)
          else if suffix \<in> {''.jsonl'', ''.ndjson''} then load_jsonl s
          else if suffix = ''.json'' then load_json s
          else if suffix \<in> {''.xlsx'', ''.xls''} then load_xlsx openpyxl s
          else Inl (Exn ''ValueError'' (''unsupported input format: '' @ suffix)))"

subsection \<open>Reading what was written\<close>

lemma csv_special_simps [simp]: "csv_special CM" "csv_special DQ" "csv_special CR" "csv_special LF"
  by (simp_all add: csv_special_def)

lemma csv_chars_distinct [simp]:
  "DQ \<noteq> CR" "CR \<noteq> DQ" "DQ \<noteq> LF" "LF \<noteq> DQ" "DQ \<noteq> CM" "CM \<noteq> DQ" "CR \<noteq> LF" "LF \<noteq> CR" "CR \<noteq> CM" "CM \<noteq> CR" "LF \<noteq> CM" "CM \<noteq> LF"
  by (simp_all add: csv_chars)

lemma csv_read_plain:
  "\<not> list_ex csv_special t \<Longrightarrow> st \<in> {Row_start, Field_start, In_field} \<Longrightarrow>
     csv_read st f r (t @ s) = csv_read (if t = [] then st else In_field) (rev t @ f) r s"
  by (induction t arbitrary: st f) (auto simp: csv_special_def)

lemma csv_read_quoted:
  "csv_read In_quotes f r (concat (map dbl t) @ DQ # s) = csv_read Quote_in_quotes (rev t @ f) r s"
  by (induction t arbitrary: f) (auto simp: dbl_def)

lemma csv_read_comma:
  "st \<in> {Row_start, Field_start} \<Longrightarrow>
     csv_read st [] r (csv_quote t @ CM # s) = csv_read Field_start [] (t # r) s"
  using csv_read_plain [of t st "[]" r "CM # s"] csv_read_quoted [of "[]" r t "CM # s"]
  by (auto simp: csv_quote_def)

lemma csv_read_end:
  assumes "st = Field_start \<or> st = Row_start \<and> csv_quote t \<noteq> []"
  shows "csv_read st [] r (csv_quote t @ CR # LF # s) = rev (t # r) # csv_read Row_start [] [] s"
  using assms csv_read_plain [of t st "[]" r "CR # LF # s"] csv_read_quoted [of "[]" r t "CR # LF # s"]
  by (auto simp: csv_quote_def eat_nl_def)

lemma csv_read_cells:
  assumes "cells \<noteq> []" "st = Field_start \<or> st = Row_start \<and> cells \<noteq> [[]]"
  shows "csv_read st [] r (py_join [CM] (map csv_quote cells) @ CR # LF # s)
    = (rev r @ cells) # csv_read Row_start [] [] s"
  using assms
proof (induction cells arbitrary: st r)
  case (Cons t ts)
  show ?case
  proof (cases ts)
    case Nil
    have "csv_quote t \<noteq> []" if "t \<noteq> []" using that by (auto simp: csv_quote_def)
    then show ?thesis using Nil Cons.prems csv_read_end [of st t r s] by auto
  next
    case (Cons u us)
    have "csv_read st [] r (csv_quote t @ CM # py_join [CM] (map csv_quote ts) @ CR # LF # s)
        = csv_read Field_start [] (t # r) (py_join [CM] (map csv_quote ts) @ CR # LF # s)"
      using Cons.prems by (intro csv_read_comma) auto
    then show ?thesis using Cons.IH [of Field_start "t # r"] Cons by simp
  qed
qed simp

lemma csv_read_line: "cells \<noteq> [] \<Longrightarrow> csv_read Row_start [] [] (csv_line cells @ s) = cells # csv_read Row_start [] [] s"
  using csv_read_cells [of cells Row_start "[]" s]
  by (auto simp: csv_line_def eat_nl_def)

lemma csv_rows_written: "[] \<notin> set rows \<Longrightarrow> csv_rows (concat (map csv_line rows)) = rows"
  unfolding csv_rows_def by (induction rows) (auto simp: csv_read_line)

lemma csv_dict_distinct:
  "distinct names \<Longrightarrow> length row = length names \<Longrightarrow> csv_dict names row = zip names (map PStr row)"
  by (simp add: csv_dict_def dict_of_distinct)

text \<open>A table with distinct column names and complete rows reads back cell by cell.\<close>

lemma load_csv_written:
  assumes "distinct names" "names \<noteq> []" "\<forall>r\<in>set rows. length r = length names"
  shows "load_csv (concat (map csv_line (names # rows))) = map (\<lambda>r. PDict (zip names (map PStr r))) rows"
proof -
  have "[] \<notin> set (names # rows)" using assms(2,3) by auto
  then have "csv_rows (concat (map csv_line (names # rows))) = names # rows" by (rule csv_rows_written)
  moreover have "filter (\<lambda>r. r \<noteq> []) rows = rows" using assms(2,3) by (intro filter_True) auto
  ultimately show ?thesis using assms(1,3) by (simp add: load_csv_def csv_dict_distinct)
qed

text \<open>A workbook of texts gives the rows that the same table written as CSV gives; only in a workbook is a blank row a sample.\<close>

lemma load_xlsx_as_csv:
  assumes "distinct names" "names \<noteq> []" "\<forall>r\<in>set rows. length r = length names"
    and "read s = Inr (map (map PStr) (names # rows))"
  shows "load_xlsx (Some read) s = Inr (load_csv (concat (map csv_line (names # rows))))"
proof -
  have "map header_text (map PStr names) = names" by (simp add: header_text_def comp_def)
  moreover have "dict_of (zip names (map PStr r)) = zip names (map PStr r)" if "r \<in> set rows" for r
    using assms(1,3) that by (simp add: dict_of_distinct)
  ultimately show ?thesis
    unfolding load_csv_written [OF assms(1-3)] by (simp add: load_xlsx_def assms(4) comp_def cong: map_cong)
qed

lemma load_xlsx_blank_row:
  assumes "names \<noteq> []" "distinct names" "read s = Inr [map PStr names, map (\<lambda>_. PNone) names]"
  shows "load_xlsx (Some read) s = Inr [PDict (zip names (map (\<lambda>_. PNone) names))]
    \<and> load_csv (csv_line names @ [CR, LF]) = []"
  using assms by (simp add: load_xlsx_def header_text_def comp_def dict_of_distinct load_csv_def csv_rows_def csv_read_line eat_nl_def)

end
