(* ===== verification/Manifest.thy ===== *)
theory Manifest
  imports ArtifactStore
begin

text \<open>
  \<open>storage/manifest.py\<close>: \<open>RUN_MANIFEST.json\<close>, the integrity root of a run. The files are those of the run's
  directory (theory ArtifactStore); \<open>sha\<close> is SHA-256 on texts (of the canonical JSON, of a file).
\<close>

definition manifest_path :: fpath where
  "manifest_path = [''RUN_MANIFEST.json'']"

definition sha_file :: "(string \<Rightarrow> string) \<Rightarrow> fs \<Rightarrow> fpath \<Rightarrow> string" where
  "sha_file sha f p = (case fs_read f p of None \<Rightarrow> [] | Some c \<Rightarrow> sha c)"

text \<open>\<open>sorted(blobs_root.rglob("*"))\<close>: paths compare by their components.\<close>

definition blob_paths :: "fs \<Rightarrow> fpath list" where
  "blob_paths f = sort (filter (\<lambda>p. p \<noteq> [] \<and> hd p = ''blobs'' \<and> length p > 1) (map fst (fs_names f)))"

definition artifact_entry :: "(string \<Rightarrow> string) \<Rightarrow> fs \<Rightarrow> fpath \<Rightarrow> pyval" where
  "artifact_entry sha f p =
     PDict [(''sha256'', PStr (sha_file sha f p)), (''path'', PStr (py_join ''/'' p)),
            (''size'', PInt (int (case fs_read f p of None \<Rightarrow> 0 | Some c \<Rightarrow> length c)))]"

text \<open>A sample counts as passed when its verdict is the text \<open>pass\<close>, and as failed in every other case.\<close>

definition passed :: "pydict \<Rightarrow> bool" where
  "passed s = (dget s ''verdict'' = PStr ''pass'')"

definition opt_text :: "string option \<Rightarrow> pyval" where
  "opt_text x = (case x of None \<Rightarrow> PNone | Some s \<Rightarrow> PStr s)"

definition manifest_body ::
  "(string \<Rightarrow> string) \<Rightarrow> string \<Rightarrow> string \<Rightarrow> pydict \<Rightarrow> pydict list \<Rightarrow> string option \<Rightarrow> pydict option \<Rightarrow> fs \<Rightarrow> pydict" where
  "manifest_body sha now run_id task samples audit_root_hash profile_excerpt f =
     (let artifacts = map (artifact_entry sha f) (blob_paths f) in
      [(''version'', PInt 1), (''run_id'', PStr run_id), (''generated_at'', PStr now),
       (''task'', PDict [(''task_id'', dget task ''task_id''), (''task_name'', dget task ''task_name''),
                         (''prompt'', dget task ''prompt''), (''extract_schema'', dget task ''extract_schema'')]),
       (''profile_excerpt'', PDict (case profile_excerpt of None \<Rightarrow> [] | Some d \<Rightarrow> d)),
       (''totals'', PDict [(''samples'', PInt (int (length samples))),
                           (''passed'', PInt (int (length (filter passed samples)))),
                           (''failed'', PInt (int (length (filter (\<lambda>s. \<not> passed s) samples)))),
                           (''artifacts'', PInt (int (length artifacts)))]),
       (''samples'', PList (map PDict samples)), (''artifacts'', PList artifacts),
       (''audit_root_hash'', opt_text audit_root_hash)])"

definition manifest_digest :: "(string \<Rightarrow> string) \<Rightarrow> pydict \<Rightarrow> string" where
  "manifest_digest sha d = sha (canonical_json (PDict d))"

definition write_manifest ::
  "(string \<Rightarrow> string) \<Rightarrow> string \<Rightarrow> string \<Rightarrow> pydict \<Rightarrow> pydict list \<Rightarrow> string option \<Rightarrow> pydict option \<Rightarrow> fs \<Rightarrow> fs" where
  "write_manifest sha now run_id task samples audit_root_hash profile_excerpt f =
     (let m = manifest_body sha now run_id task samples audit_root_hash profile_excerpt f;
          m' = dset m ''manifest_hash'' (PStr (manifest_digest sha m))
      in fs_write manifest_path (dumps_indent (PDict m')) f)"

subsection \<open>Verification\<close>

text \<open>\<open>m.pop("manifest_hash", None)\<close>\<close>

definition dpop :: "pydict \<Rightarrow> string \<Rightarrow> pyval \<times> pydict" where
  "dpop d k = (dget d k, filter (\<lambda>x. fst x \<noteq> k) d)"

text \<open>\<open>run_root / a["path"]\<close>: an absolute path is outside the run's directory, where no file is modelled.\<close>

definition run_file :: "string \<Rightarrow> fpath" where
  "run_file p = (if py_startswith p ''/'' then [] else filter (\<lambda>c. c \<noteq> [] \<and> c \<noteq> ''.'') (split_char (CHR ''/'') p))"

text \<open>One artifact: nothing, the entry with a reason, or the exception of a malformed entry.\<close>

definition check_artifact :: "(string \<Rightarrow> string) \<Rightarrow> fs \<Rightarrow> pyval \<Rightarrow> exn + pyval option" where
  "check_artifact sha f v = (case v of
     PDict a \<Rightarrow>
       (case map_of a ''path'' of
          None \<Rightarrow> Inl (Exn ''KeyError'' ''path'')
        | Some (PStr p) \<Rightarrow>
            (if \<not> fs_exists f (run_file p)
             then Inr (Some (PDict (dset a ''reason'' (PStr ''missing''))))
             else (case map_of a ''sha256'' of
                     None \<Rightarrow> Inl (Exn ''KeyError'' ''sha256'')
                   | Some h \<Rightarrow> if PStr (sha_file sha f (run_file p)) \<noteq> h
                       then Inr (Some (PDict (dset a ''reason'' (PStr ''hash mismatch''))))
                       else Inr None))
        | Some _ \<Rightarrow> Inl (Exn ''TypeError'' ''unsupported operand type(s) for /''))
   | _ \<Rightarrow> Inl (Exn ''TypeError'' (type_name v @ '' indices must be integers'')))"

fun check_artifacts :: "(string \<Rightarrow> string) \<Rightarrow> fs \<Rightarrow> pyval list \<Rightarrow> exn + pyval list" where
  "check_artifacts sha f [] = Inr []"
| "check_artifacts sha f (v # vs) = (case check_artifact sha f v of
     Inl e \<Rightarrow> Inl e
   | Inr bad \<Rightarrow> (case check_artifacts sha f vs of
        Inl e \<Rightarrow> Inl e
      | Inr bads \<Rightarrow> Inr ((case bad of None \<Rightarrow> [] | Some b \<Rightarrow> [b]) @ bads)))"

definition verify_manifest :: "(string \<Rightarrow> string) \<Rightarrow> fs \<Rightarrow> exn + pydict" where
  "verify_manifest sha f =
     (case fs_read f manifest_path of
        None \<Rightarrow> Inr [(''ok'', PBool False), (''error'', PStr ''manifest not found'')]
      | Some txt \<Rightarrow>
          (case json_loads txt of
             None \<Rightarrow> Inl (Exn ''JSONDecodeError'' ''Expecting value'')
           | Some (PDict m0) \<Rightarrow>
               (let (recorded, m) = dpop m0 ''manifest_hash'';
                    hash_ok = (recorded = PStr (manifest_digest sha m))
                in (case dget_or m ''artifacts'' (PList []) of
                      PList as \<Rightarrow>
                        (case check_artifacts sha f as of
                           Inl e \<Rightarrow> Inl e
                         | Inr bad \<Rightarrow>
                             Inr [(''ok'', PBool (hash_ok \<and> bad = [])), (''manifest_hash_ok'', PBool hash_ok),
                                  (''artifacts_checked'', PInt (int (length as))), (''bad_artifacts'', PList bad),
                                  (''audit_root_hash'', dget m ''audit_root_hash'')])
                    | v \<Rightarrow> Inl (Exn ''TypeError'' (type_name v @ '' object is not iterable''))))
           | Some v \<Rightarrow> Inl (Exn ''AttributeError'' (type_name v @ '' object has no attribute 'pop''))))"

subsection \<open>Facts\<close>

text \<open>Components that name a file: no separator, not empty, not a dot.\<close>

definition good_path :: "fpath \<Rightarrow> bool" where
  "good_path p \<longleftrightarrow> p \<noteq> [] \<and> (\<forall>c\<in>set p. c \<noteq> [] \<and> c \<noteq> ''.'' \<and> CHR ''/'' \<notin> set c)"

lemma split_char_join: "p \<noteq> [] \<Longrightarrow> \<forall>c\<in>set p. x \<notin> set c \<Longrightarrow> split_char x (py_join [x] p) = p"
  by (induction p rule: induct_list012) (auto simp: split_char_no split_char_append)

lemma join_first: "good_path p \<Longrightarrow> \<not> py_startswith (py_join ''/'' p) ''/''"
proof -
  assume g: "good_path p"
  then obtain c cs x xs where p: "p = (x # xs) # cs" "x \<noteq> CHR ''/''"
    by (cases p; cases "hd p") (auto simp: good_path_def)
  then show ?thesis by (cases cs) auto
qed

lemma run_file_join: "good_path p \<Longrightarrow> run_file (py_join ''/'' p) = p"
  using join_first [of p] split_char_join [of p "CHR ''/''"]
  by (auto simp: run_file_def good_path_def filter_id_conv)

lemma check_artifact_entry:
  assumes "good_path p"
  shows "check_artifact sha g (artifact_entry sha f p) =
     (if \<not> fs_exists g p then Inr (Some (PDict [(''sha256'', PStr (sha_file sha f p)), (''path'', PStr (py_join ''/'' p)),
            (''size'', PInt (int (case fs_read f p of None \<Rightarrow> 0 | Some c \<Rightarrow> length c))), (''reason'', PStr ''missing'')]))
      else if sha_file sha g p \<noteq> sha_file sha f p then Inr (Some (PDict [(''sha256'', PStr (sha_file sha f p)),
            (''path'', PStr (py_join ''/'' p)),
            (''size'', PInt (int (case fs_read f p of None \<Rightarrow> 0 | Some c \<Rightarrow> length c))), (''reason'', PStr ''hash mismatch'')]))
      else Inr None)"
  by (simp add: check_artifact_def artifact_entry_def run_file_join [OF assms] dset_def)

lemma check_artifacts_entries:
  assumes "\<forall>p\<in>set ps. good_path p"
  shows "\<exists>bad. check_artifacts sha g (map (artifact_entry sha f) ps) = Inr bad
    \<and> (bad = [] \<longleftrightarrow> (\<forall>p\<in>set ps. fs_exists g p \<and> sha_file sha g p = sha_file sha f p))"
  using assms
proof (induction ps)
  case (Cons p ps)
  then obtain bad where "check_artifacts sha g (map (artifact_entry sha f) ps) = Inr bad"
    "bad = [] \<longleftrightarrow> (\<forall>p\<in>set ps. fs_exists g p \<and> sha_file sha g p = sha_file sha f p)" by auto
  with Cons.prems show ?case by (simp add: check_artifact_entry)
qed simp

lemma set_blob_paths: "p \<in> set (blob_paths f) \<longleftrightarrow> fs_exists f p \<and> p \<noteq> [] \<and> hd p = ''blobs'' \<and> length p > 1"
  by (auto simp: blob_paths_def fs_exists_def fs_inode_def map_of_eq_None_iff image_iff)

text \<open>The manifest's own data, as Python dictionaries have it.\<close>

definition wf_manifest_args :: "pydict \<Rightarrow> pydict list \<Rightarrow> pydict option \<Rightarrow> bool" where
  "wf_manifest_args task samples profile_excerpt \<longleftrightarrow>
     wf_pyval (PDict task) \<and> (\<forall>s\<in>set samples. wf_pyval (PDict s))
     \<and> (case profile_excerpt of None \<Rightarrow> True | Some d \<Rightarrow> wf_pyval (PDict d))"

lemma wf_dget: "wf_items d \<Longrightarrow> wf_pyval (dget d k)"
  by (auto simp: dget_def wf_items_set split: option.splits dest: map_of_SomeD)

lemma wf_manifest_body:
  "wf_manifest_args task samples pe \<Longrightarrow> wf_pyval (PDict (manifest_body sha now run task samples root pe f))"
  by (auto simp: manifest_body_def Let_def wf_manifest_args_def wf_dget wf_elems_set artifact_entry_def opt_text_def
      split: option.splits)

lemma manifest_keys: "''manifest_hash'' \<notin> fst ` set (manifest_body sha now run task samples root pe f)"
  by (simp add: manifest_body_def Let_def)

lemma manifest_reread:
  assumes "wf_manifest_args task samples pe" and m_def: "m = manifest_body sha now run task samples root pe f"
  shows "json_loads (dumps_indent (PDict (dset m ''manifest_hash'' (PStr h)))) = Some (PDict (m @ [(''manifest_hash'', PStr h)]))"
    and "dpop (m @ [(''manifest_hash'', PStr h)]) ''manifest_hash'' = (PStr h, m)"
proof -
  have k: "''manifest_hash'' \<notin> fst ` set m" by (simp add: m_def manifest_keys)
  have d: "dset m ''manifest_hash'' (PStr h) = m @ [(''manifest_hash'', PStr h)]"
    using k by (simp add: dset_def update_new)
  have "wf_pyval (PDict m)" using wf_manifest_body [OF assms(1)] by (simp add: m_def)
  then have "wf_pyval (PDict (m @ [(''manifest_hash'', PStr h)]))"
    using k by (auto simp: wf_items_set)
  then show "json_loads (dumps_indent (PDict (dset m ''manifest_hash'' (PStr h)))) = Some (PDict (m @ [(''manifest_hash'', PStr h)]))"
    unfolding d by (rule loads_indent)
  have n: "filter (\<lambda>x. fst x \<noteq> ''manifest_hash'') m = m" using k by (force simp: filter_id_conv)
  have "map_of m ''manifest_hash'' = None" using k by (simp add: map_of_eq_None_iff)
  then have "dget (m @ [(''manifest_hash'', PStr h)]) ''manifest_hash'' = PStr h"
    by (simp add: dget_def map_add_def)
  with n show "dpop (m @ [(''manifest_hash'', PStr h)]) ''manifest_hash'' = (PStr h, m)" by (simp add: dpop_def)
qed

lemma manifest_artifacts:
  "dget_or (manifest_body sha now run task samples root pe f) ''artifacts'' (PList [])
     = PList (map (artifact_entry sha f) (blob_paths f))"
  by (simp add: manifest_body_def Let_def dget_or_def)

text \<open>No other name is a hard link to the manifest's file.\<close>

definition manifest_unshared :: "fs \<Rightarrow> bool" where
  "manifest_unshared f \<longleftrightarrow>
     (\<forall>(p, i)\<in>set (fs_names f). p \<noteq> manifest_path \<longrightarrow> fs_inode f manifest_path \<noteq> Some i)"

lemma fs_read_write_other:
  assumes "fs_wf f" "manifest_unshared f" "p \<noteq> manifest_path"
  shows "fs_read (fs_write manifest_path c f) p = fs_read f p"
proof (cases "fs_inode f manifest_path")
  case None
  then show ?thesis using fs_read_write_new [OF assms(1) None] assms(3) by simp
next
  case (Some i)
  have "fs_inode f p \<noteq> Some i"
    using assms(2,3) Some by (fastforce simp: manifest_unshared_def fs_inode_def dest: map_of_SomeD)
  then show ?thesis using Some by (cases "fs_inode f p") (auto simp: fs_read_def fs_write_def fs_inode_def)
qed

lemma verify_written:
  assumes "wf_manifest_args task samples pe" "\<forall>p\<in>set (blob_paths f). good_path p"
    and "fs_read k manifest_path = fs_read (write_manifest sha now run task samples root pe f) manifest_path"
  shows "\<exists>r. verify_manifest sha k = Inr r \<and> (dget r ''ok'' = PBool True \<longleftrightarrow>
      (\<forall>p\<in>set (blob_paths f). fs_exists k p \<and> sha_file sha k p = sha_file sha f p))"
proof -
  let ?m = "manifest_body sha now run task samples root pe f"
  let ?h = "manifest_digest sha ?m"
  let ?txt = "dumps_indent (PDict (dset ?m ''manifest_hash'' (PStr ?h)))"
  have "fs_read (fs_write manifest_path ?txt f) manifest_path = Some ?txt"
    by (auto simp: fs_read_def fs_inode_write) (auto simp: fs_write_def)
  then have k: "fs_read k manifest_path = Some ?txt" using assms(3) by (simp add: write_manifest_def Let_def)
  note mr = manifest_reread [OF assms(1) refl, of sha now run root f ?h]
  obtain bad where b: "check_artifacts sha k (map (artifact_entry sha f) (blob_paths f)) = Inr bad"
    "bad = [] \<longleftrightarrow> (\<forall>p\<in>set (blob_paths f). fs_exists k p \<and> sha_file sha k p = sha_file sha f p)"
    using check_artifacts_entries [OF assms(2)] by blast
  show ?thesis
    by (simp add: verify_manifest_def k mr(1) mr(2) manifest_artifacts b)
qed

section \<open>Properties\<close>

text \<open>
  C11: \<open>verify_manifest\<close> decides integrity exactly. Once a manifest is written, and as long as its own text is
  unchanged, verification never raises and reports \<open>ok\<close> if and only if every artifact that was there
  still exists with the digest it had; right after writing it reports \<open>ok\<close>.
\<close>

theorem verify_manifest_exact:
  assumes "wf_manifest_args task samples pe" "\<forall>p\<in>set (blob_paths f). good_path p"
    and "g = write_manifest sha now run task samples root pe f"
  shows "(fs_read k manifest_path = fs_read g manifest_path \<longrightarrow>
       (\<exists>r. verify_manifest sha k = Inr r \<and> (dget r ''ok'' = PBool True \<longleftrightarrow>
          (\<forall>p\<in>set (blob_paths f). fs_exists k p \<and> sha_file sha k p = sha_file sha f p))))
    \<and> (fs_wf f \<and> manifest_unshared f \<longrightarrow> (\<exists>r. verify_manifest sha g = Inr r \<and> dget r ''ok'' = PBool True))"
proof (intro conjI impI)
  assume "fs_read k manifest_path = fs_read g manifest_path"
  then show "\<exists>r. verify_manifest sha k = Inr r \<and> (dget r ''ok'' = PBool True \<longleftrightarrow>
          (\<forall>p\<in>set (blob_paths f). fs_exists k p \<and> sha_file sha k p = sha_file sha f p))"
    using verify_written [OF assms(1,2)] assms(3) by simp
next
  assume wf: "fs_wf f \<and> manifest_unshared f"
  have "fs_exists g p \<and> sha_file sha g p = sha_file sha f p" if p: "p \<in> set (blob_paths f)" for p
  proof -
    have "p \<noteq> manifest_path" and ex: "fs_exists f p" using p by (auto simp: set_blob_paths manifest_path_def)
    then have "fs_read g p = fs_read f p"
      using fs_read_write_other wf assms(3) by (simp add: write_manifest_def Let_def)
    then show ?thesis using ex by (simp add: fs_exists_read sha_file_def)
  qed
  then show "\<exists>r. verify_manifest sha g = Inr r \<and> dget r ''ok'' = PBool True"
    using verify_written [OF assms(1,2), of g] assms(3) by blast
qed

definition demo_blobs :: fs where
  "demo_blobs = fs_write [''blobs'', ''ab'', ''ab12.png''] ''png'' fs_empty"

theorem verify_manifest_exact_witness:
  "(\<exists>r. verify_manifest demo_digest (write_manifest demo_digest ''t'' ''r'' [] [[(''verdict'', PStr ''pass'')]] None None demo_blobs)
        = Inr r \<and> dget r ''ok'' = PBool True)
   \<and> (\<exists>r. verify_manifest demo_digest (fs_write [''blobs'', ''ab'', ''ab12.png''] ''forged''
        (write_manifest demo_digest ''t'' ''r'' [] [[(''verdict'', PStr ''pass'')]] None None demo_blobs))
        = Inr r \<and> dget r ''ok'' \<noteq> PBool True)"
proof -
  let ?s = "[[(''verdict'', PStr ''pass'')]]"
  let ?g = "write_manifest demo_digest ''t'' ''r'' [] ?s None None demo_blobs"
  let ?k = "fs_write [''blobs'', ''ab'', ''ab12.png''] ''forged'' ?g"
  have b: "blob_paths demo_blobs = [[''blobs'', ''ab'', ''ab12.png'']]" by code_simp
  have a: "wf_manifest_args [] ?s None" by code_simp
  have p: "\<forall>p\<in>set (blob_paths demo_blobs). good_path p" unfolding b by code_simp
  have w: "fs_wf demo_blobs \<and> manifest_unshared demo_blobs" by code_simp
  have r: "fs_read ?k manifest_path = fs_read ?g manifest_path"
    by (simp add: write_manifest_def Let_def fs_read_def fs_inode_def fs_write_def demo_blobs_def fs_empty_def manifest_path_def)
  have d: "sha_file demo_digest ?k [''blobs'', ''ab'', ''ab12.png''] \<noteq> sha_file demo_digest demo_blobs [''blobs'', ''ab'', ''ab12.png'']"
    by (simp add: write_manifest_def Let_def sha_file_def fs_read_def fs_inode_def fs_write_def demo_blobs_def fs_empty_def manifest_path_def
      demo_digest_def)
  note t = verify_manifest_exact [OF a p refl, where sha = demo_digest and now = "''t''" and run = "''r''" and root = None]
  have "\<exists>r. verify_manifest demo_digest ?g = Inr r \<and> dget r ''ok'' = PBool True" using t [THEN conjunct2] w by blast
  moreover have "\<exists>r. verify_manifest demo_digest ?k = Inr r \<and> dget r ''ok'' \<noteq> PBool True"
    using t [where k = ?k, THEN conjunct1, rule_format, OF r] d unfolding b by auto
  ultimately show ?thesis by blast
qed

end
