(* ===== verification/RunRecords.thy ===== *)
theory RunRecords
  imports CsvIO Manifest
begin

text \<open>
  The durable record of a run (\<open>orchestrator/runner.py\<close>): the counters and the set of completed samples in
  memory, \<open>samples.jsonl\<close> as the source of truth they are rebuilt from, the compact summaries for the
  manifest, and the aggregate table \<open>output.csv\<close>. A file is its text, \<open>None\<close> when it does not exist.
\<close>

subsection \<open>samples.jsonl\<close>

definition jsonl_append :: "pydict \<Rightarrow> string option \<Rightarrow> string option" where
  "jsonl_append row txt = Some ((case txt of None \<Rightarrow> [] | Some s \<Rightarrow> s) @ dumps_default (PDict row) @ [LF])"

text \<open>The rows that parse; lines that do not are skipped.\<close>

definition jsonl_rows :: "string option \<Rightarrow> pyval list" where
  "jsonl_rows txt = (case txt of None \<Rightarrow> [] | Some s \<Rightarrow> List.map_filter json_loads (text_lines s))"

subsection \<open>Counters\<close>

record progress =
  pr_total :: nat
  pr_passed :: nat
  pr_failed :: nat
  pr_done :: "pyval set"

definition progress_empty :: progress where
  "progress_empty = \<lparr>pr_total = 0, pr_passed = 0, pr_failed = 0, pr_done = {}\<rparr>"

definition count_sample :: "pyval \<Rightarrow> pyval \<Rightarrow> progress \<Rightarrow> progress" where
  "count_sample sid verdict p =
     \<lparr>pr_total = pr_total p + 1,
      pr_passed = (if verdict = PStr ''pass'' then pr_passed p + 1 else pr_passed p),
      pr_failed = (if verdict = PStr ''pass'' then pr_failed p else pr_failed p + 1),
      pr_done = insert sid (pr_done p)\<rparr>"

definition unhashable :: "pyval \<Rightarrow> bool" where
  "unhashable v \<longleftrightarrow> is_list v \<or> is_dict v"

definition unhashable_error :: "pyval \<Rightarrow> exn" where
  "unhashable_error v = Exn ''TypeError'' (''unhashable type: '' @ repr_str (type_name v))"

text \<open>\<open>_load_completed_from_disk\<close>: the first row of a sample counts.\<close>

fun load_rows :: "pyval list \<Rightarrow> progress \<Rightarrow> exn + progress" where
  "load_rows [] p = Inr p"
| "load_rows (v # vs) p =
     bindE (attr_get v ''sample_id'') (\<lambda>sid.
       if \<not> truthy sid then load_rows vs p
       else if unhashable sid then Inl (unhashable_error sid)
       else if sid \<in> pr_done p then load_rows vs p
       else bindE (attr_get v ''verdict'') (\<lambda>verdict. load_rows vs (count_sample sid verdict p)))"

definition load_completed :: "string option \<Rightarrow> progress \<Rightarrow> exn + progress" where
  "load_completed txt p = load_rows (jsonl_rows txt) p"

text \<open>\<open>_record_result\<close>, on the counters and the file.\<close>

definition record_result :: "pydict \<Rightarrow> progress \<times> string option \<Rightarrow> exn + progress \<times> string option" where
  "record_result result s =
     bindE (getitem result ''sample_id'') (\<lambda>sid.
       if unhashable sid then Inl (unhashable_error sid)
       else if sid \<in> pr_done (fst s) then Inr s
       else Inr (count_sample sid (dget result ''verdict'') (fst s), jsonl_append result (snd s)))"

fun record_all :: "pydict list \<Rightarrow> progress \<times> string option \<Rightarrow> exn + progress \<times> string option" where
  "record_all [] s = Inr s"
| "record_all (r # rs) s = bindE (record_result r s) (record_all rs)"

subsection \<open>Summaries\<close>

definition summary_keys :: "string list" where
  "summary_keys = [''sample_id'', ''row_index'', ''verdict'', ''verdict_reason'', ''status'', ''evidence_count'', ''extracted'', ''error'']"

definition summary_entry :: "pydict \<Rightarrow> pydict" where
  "summary_entry row = map (\<lambda>k. (k, if k = ''extracted'' \<and> \<not> (is_list (dget row k) \<or> is_dict (dget row k))
     then PDict [] else dget row k)) summary_keys"

text \<open>The dictionary \<open>seen\<close>: the last row of a sample wins, at the position of its first.\<close>

fun collect_summaries :: "pyval list \<Rightarrow> (pyval \<times> pydict) list \<Rightarrow> exn + (pyval \<times> pydict) list" where
  "collect_summaries [] seen = Inr seen"
| "collect_summaries (v # vs) seen =
     bindE (attr_get v ''sample_id'') (\<lambda>sid.
       if \<not> truthy sid then collect_summaries vs seen
       else if unhashable sid then Inl (unhashable_error sid)
       else (case v of PDict row \<Rightarrow> collect_summaries vs (AList.update sid (summary_entry row) seen)
             | _ \<Rightarrow> collect_summaries vs seen))"

text \<open>The sort key \<open>s.get("row_index") or 0\<close>; row indices are integers, texts do not compare with them.\<close>

definition row_key :: "pydict \<Rightarrow> int option" where
  "row_key s = (case py_or (dget s ''row_index'') (PInt 0) of PInt i \<Rightarrow> Some i | PBool b \<Rightarrow> Some 1 | _ \<Rightarrow> None)"

definition sort_summaries :: "pydict list \<Rightarrow> exn + pydict list" where
  "sort_summaries ss =
     (if length ss \<le> 1 then Inr ss
      else if list_all (\<lambda>s. row_key s \<noteq> None) ss then Inr (sort_key (\<lambda>s. the (row_key s)) ss)
      else Inl (Exn ''TypeError'' ''not supported between these row indices''))"

definition samples_summary :: "string option \<Rightarrow> exn + pydict list" where
  "samples_summary txt = bindE (collect_summaries (jsonl_rows txt) []) (\<lambda>seen. sort_summaries (map snd seen))"

subsection \<open>output.csv\<close>

text \<open>\<open>item or {}\<close>, which has to be a dictionary.\<close>

definition item_dict :: "pyval \<Rightarrow> exn + pydict" where
  "item_dict v = (if \<not> truthy v then Inr [] else (case v of PDict d \<Rightarrow> Inr d
     | _ \<Rightarrow> Inl (Exn ''AttributeError'' (CHR 0x27 # type_name v @ CHR 0x27 # '' object has no attribute '' @ repr_str ''keys''))))"

definition add_new :: "string list \<Rightarrow> string list \<Rightarrow> string list" where
  "add_new ks acc = foldl (\<lambda>acc k. if k \<in> set acc then acc else acc @ [k]) acc ks"

text \<open>The items of a sample for the columns, and for the rows (an empty list still gives one row).\<close>

definition column_items :: "pydict \<Rightarrow> pyval list" where
  "column_items r = (case dget r ''extracted'' of PList xs \<Rightarrow> xs | PDict d \<Rightarrow> [PDict d] | _ \<Rightarrow> [])"

definition row_items :: "pydict \<Rightarrow> pyval list" where
  "row_items r = (case dget r ''extracted'' of PList xs \<Rightarrow> if xs = [] then [PDict []] else xs
     | PDict d \<Rightarrow> [PDict d] | _ \<Rightarrow> [PDict []])"

definition csv_keys :: "pydict list \<Rightarrow> exn + string list" where
  "csv_keys rows = bindE (mapE item_dict (concat (map column_items rows)))
     (\<lambda>ds. Inr (fold (\<lambda>d. add_new (map fst d)) ds []))"

definition fan_out :: "pydict list \<Rightarrow> bool" where
  "fan_out rows = list_ex (\<lambda>r. is_list (dget r ''extracted'')) rows"

definition csv_header :: "bool \<Rightarrow> string list \<Rightarrow> string list" where
  "csv_header any_list keys =
     [''sample_id'', ''row_index''] @ (if any_list then [''item_index''] else []) @ [''verdict''] @ keys"

definition csv_record :: "bool \<Rightarrow> string list \<Rightarrow> pydict \<Rightarrow> nat \<Rightarrow> pyval \<Rightarrow> pyval list" where
  "csv_record any_list keys r i item =
     [dget r ''sample_id'', dget r ''row_index''] @ (if any_list then [PInt (int i)] else []) @ [dget r ''verdict''] @
     (case item_dict item of Inr d \<Rightarrow> map (\<lambda>k. dget_or d k (PStr [])) keys | Inl _ \<Rightarrow> [])"

definition csv_records :: "bool \<Rightarrow> string list \<Rightarrow> pydict list \<Rightarrow> pyval list list" where
  "csv_records any_list keys rows =
     concat (map (\<lambda>r. map (\<lambda>(i, item). csv_record any_list keys r i item) (enumerate 0 (row_items r))) rows)"

definition rebuild_csv :: "pydict list \<Rightarrow> exn + string" where
  "rebuild_csv rows =
     (if rows = [] then Inr []
      else bindE (csv_keys rows) (\<lambda>keys.
        Inr (concat (map csv_line (csv_header (fan_out rows) keys
               # map (map csv_cell) (csv_records (fan_out rows) keys rows))))))"

subsection \<open>The file and the counters\<close>

text \<open>The text ends with its last line, and holds no carriage return.\<close>

definition complete_lines :: "string option \<Rightarrow> bool" where
  "complete_lines txt \<longleftrightarrow> (case txt of None \<Rightarrow> True | Some s \<Rightarrow> CR \<notin> set s \<and> (s \<noteq> [] \<longrightarrow> last s = LF))"

lemma py_replace_absent: "c \<notin> set s \<Longrightarrow> py_replace (c # cs) new s = s"
proof (induction s)
  case (Cons x s)
  have "py_replace (c # cs) new (x # s) = x # py_replace (c # cs) new s"
    by (subst py_replace.simps) (use Cons.prems in auto)
  with Cons show ?case by simp
qed simp

lemma universal_newlines_id: "CR \<notin> set s \<Longrightarrow> universal_newlines s = s"
  by (simp add: universal_newlines_def py_replace_absent)

lemma split_char_sep: "split_char c (s @ c # t) = split_char c s @ split_char c t"
  by (induction s) (auto simp: split_char_ne split: list.splits)

lemma text_lines_snoc:
  assumes "CR \<notin> set s" "s = [] \<or> last s = LF" "CR \<notin> set d" "LF \<notin> set d"
  shows "text_lines (s @ d @ [LF]) = text_lines s @ (if py_strip d = [] then [] else [py_strip d])"
proof -
  have d: "split_char LF (d @ [LF]) = [d, []]" using split_char_append [OF assms(4), of "[]"] by simp
  have e: "py_strip [] = []" by (simp add: py_strip_def lstrip_by_def rstrip_by_def)
  have u: "universal_newlines (s @ d @ [LF]) = s @ d @ [LF]" "universal_newlines s = s"
    using assms by (auto intro!: universal_newlines_id)
  show ?thesis
  proof (cases s rule: rev_cases)
    case Nil
    then show ?thesis using d e u by (simp add: text_lines_def)
  next
    case (snoc s' x)
    then have "s = s' @ LF # []" using assms(2) by simp
    then have "split_char LF s = split_char LF s' @ [[]]"
      "split_char LF (s @ d @ [LF]) = split_char LF s' @ [d, []]"
      using split_char_sep [of LF s' "[]"] split_char_sep [of LF s' "d @ [LF]"] d by simp_all
    then show ?thesis using e by (simp add: text_lines_def u)
  qed
qed

text \<open>A complete file reads back what was appended, at its end.\<close>

lemma jsonl_rows_append:
  assumes "complete_lines txt" "wf_pyval (PDict row)"
  shows "jsonl_rows (jsonl_append row txt) = jsonl_rows txt @ [PDict row]" "complete_lines (jsonl_append row txt)"
proof -
  define s where "s = (case txt of None \<Rightarrow> [] | Some s \<Rightarrow> s)"
  have s: "CR \<notin> set s" "s = [] \<or> last s = LF" "jsonl_rows txt = List.map_filter json_loads (text_lines s)"
    using assms(1) by (auto simp: complete_lines_def s_def jsonl_rows_def text_lines_def universal_newlines_def
        py_strip_def lstrip_by_def rstrip_by_def List.map_filter_def split: option.splits)
  have d: "CR \<notin> set (dumps_default (PDict row))" "LF \<notin> set (dumps_default (PDict row))"
    by (simp_all add: default_no_ctrl csv_chars)
  have "text_lines (s @ dumps_default (PDict row) @ [LF]) = text_lines s @ [dumps_default (PDict row)]"
    using text_lines_snoc [OF s(1,2) d] strip_dumps by simp
  then show "jsonl_rows (jsonl_append row txt) = jsonl_rows txt @ [PDict row]"
    using s(3) loads_default [OF assms(2)]
    by (simp add: jsonl_append_def jsonl_rows_def List.map_filter_def flip: s_def)
  show "complete_lines (jsonl_append row txt)"
    using s(1) d by (simp add: complete_lines_def jsonl_append_def flip: s_def)
qed

subsection \<open>What a run has recorded\<close>

definition sample_of :: "pydict \<Rightarrow> pyval" where
  "sample_of r = dget r ''sample_id''"

text \<open>A result as \<open>_run_one\<close> makes it: a JSON object with a non-empty sample id and an integer row index.\<close>

definition wf_result :: "pydict \<Rightarrow> bool" where
  "wf_result r \<longleftrightarrow> wf_pyval (PDict r) \<and> (\<exists>s. map_of r ''sample_id'' = Some (PStr s) \<and> s \<noteq> []) \<and> row_key r \<noteq> None"

text \<open>The file holds the results \<open>ds\<close>, one per sample, and the counters count them.\<close>

definition recorded :: "pydict list \<Rightarrow> progress \<times> string option \<Rightarrow> bool" where
  "recorded ds s \<longleftrightarrow> complete_lines (snd s) \<and> jsonl_rows (snd s) = map PDict ds \<and> distinct (map sample_of ds)
     \<and> (\<forall>d\<in>set ds. wf_result d)
     \<and> fst s = \<lparr>pr_total = length ds, pr_passed = length (filter passed ds),
          pr_failed = length (filter (\<lambda>d. \<not> passed d) ds), pr_done = set (map sample_of ds)\<rparr>"

lemma wf_resultD:
  assumes "wf_result r"
  shows "truthy (sample_of r)" "\<not> unhashable (sample_of r)" "getitem r ''sample_id'' = Inr (sample_of r)"
    "wf_pyval (PDict r)" "row_key r \<noteq> None"
proof -
  obtain s where s: "map_of r ''sample_id'' = Some (PStr s)" "s \<noteq> []" using assms by (auto simp: wf_result_def)
  then have "sample_of r = PStr s" by (simp add: sample_of_def dget_def)
  with s assms show "truthy (sample_of r)" "\<not> unhashable (sample_of r)" "getitem r ''sample_id'' = Inr (sample_of r)"
    "wf_pyval (PDict r)" "row_key r \<noteq> None" by (simp_all add: unhashable_def getitem_def wf_result_def)
qed

lemma recorded_empty: "recorded [] (progress_empty, None)"
  by (simp add: recorded_def complete_lines_def jsonl_rows_def progress_empty_def)

lemma recorded_result:
  assumes "recorded ds s" "wf_result r"
  shows "\<exists>s'. record_result r s = Inr s' \<and>
    recorded (ds @ (if sample_of r \<in> set (map sample_of ds) then [] else [r])) s'"
proof -
  obtain p tx where s: "s = (p, tx)" by (cases s)
  note w = wf_resultD [OF assms(2)]
  have "pr_done p = set (map sample_of ds)" using assms(1) s by (simp add: recorded_def)
  then show ?thesis
    using assms s w jsonl_rows_append [of tx r]
    by (cases "sample_of r \<in> set (map sample_of ds)")
      (auto simp: record_result_def recorded_def count_sample_def passed_def)
qed

lemma recorded_all:
  assumes "recorded ds s" "\<forall>r\<in>set rs. wf_result r"
  shows "\<exists>s' ds'. record_all rs s = Inr s' \<and> recorded (ds @ ds') s' \<and> set ds' \<subseteq> set rs
    \<and> (\<forall>r\<in>set rs. sample_of r \<in> set (map sample_of (ds @ ds')))"
  using assms
proof (induction rs arbitrary: ds s)
  case Nil
  then show ?case by (intro exI [of _ s] exI [of _ "[]"]) simp
next
  case (Cons r rs)
  let ?new = "if sample_of r \<in> set (map sample_of ds) then [] else [r]"
  obtain s1 where s1: "record_result r s = Inr s1" "recorded (ds @ ?new) s1"
    using recorded_result [OF Cons.prems(1), of r] Cons.prems(2) by auto
  obtain s2 ds2 where s2: "record_all rs s1 = Inr s2" "recorded ((ds @ ?new) @ ds2) s2" "set ds2 \<subseteq> set rs"
    "\<forall>r\<in>set rs. sample_of r \<in> set (map sample_of ((ds @ ?new) @ ds2))"
    using Cons.IH [OF s1(2)] Cons.prems(2) by auto
  have "sample_of r \<in> set (map sample_of (ds @ ?new @ ds2))" by auto
  then show ?case using s1(1) s2 by (intro exI [of _ s2] exI [of _ "?new @ ds2"]) auto
qed

lemma load_rows_recorded:
  assumes "distinct (map sample_of ds)" "\<forall>d\<in>set ds. wf_result d" "set (map sample_of ds) \<inter> pr_done p = {}"
  shows "load_rows (map PDict ds) p = Inr \<lparr>pr_total = pr_total p + length ds, pr_passed = pr_passed p + length (filter passed ds),
     pr_failed = pr_failed p + length (filter (\<lambda>d. \<not> passed d) ds), pr_done = pr_done p \<union> set (map sample_of ds)\<rparr>"
  using assms
proof (induction ds arbitrary: p)
  case (Cons d ds)
  have w: "truthy (sample_of d)" "\<not> unhashable (sample_of d)" using Cons.prems(2) by (auto dest: wf_resultD)
  have "load_rows (map PDict (d # ds)) p = load_rows (map PDict ds) (count_sample (sample_of d) (dget d ''verdict'') p)"
    using w Cons.prems(3) by (simp add: attr_get_def sample_of_def)
  also have "\<dots> = Inr \<lparr>pr_total = pr_total p + length (d # ds), pr_passed = pr_passed p + length (filter passed (d # ds)),
     pr_failed = pr_failed p + length (filter (\<lambda>d. \<not> passed d) (d # ds)), pr_done = pr_done p \<union> set (map sample_of (d # ds))\<rparr>"
    using Cons by (subst Cons.IH) (auto simp: count_sample_def passed_def)
  finally show ?case .
qed (cases p, simp)

lemma load_recorded: "recorded ds (p, txt) \<Longrightarrow> load_completed txt progress_empty = Inr p"
  using load_rows_recorded [of ds progress_empty]
  by (simp add: recorded_def load_completed_def progress_empty_def)

lemma summary_keeps:
  "sample_of (summary_entry d) = sample_of d" "passed (summary_entry d) = passed d" "row_key (summary_entry d) = row_key d"
  by (simp_all add: sample_of_def passed_def row_key_def summary_entry_def summary_keys_def)

lemma collect_recorded:
  assumes "distinct (map sample_of ds)" "\<forall>d\<in>set ds. wf_result d" "set (map sample_of ds) \<inter> fst ` set seen = {}"
  shows "collect_summaries (map PDict ds) seen = Inr (seen @ map (\<lambda>d. (sample_of d, summary_entry d)) ds)"
  using assms
proof (induction ds arbitrary: seen)
  case (Cons d ds)
  have w: "truthy (sample_of d)" "\<not> unhashable (sample_of d)" using Cons.prems(2) by (auto dest: wf_resultD)
  have up: "AList.update (sample_of d) (summary_entry d) seen = seen @ [(sample_of d, summary_entry d)]"
    using Cons.prems(3) by (induction seen) auto
  have "collect_summaries (map PDict (d # ds)) seen
      = collect_summaries (map PDict ds) (seen @ [(sample_of d, summary_entry d)])"
    using w up by (simp add: attr_get_def sample_of_def)
  also have "\<dots> = Inr ((seen @ [(sample_of d, summary_entry d)]) @ map (\<lambda>d. (sample_of d, summary_entry d)) ds)"
    using Cons.prems by (intro Cons.IH) auto
  finally show ?case by simp
qed simp

lemma sort_summaries_eq:
  assumes "\<forall>s\<in>set ss. row_key s \<noteq> None"
  shows "sort_summaries ss = Inr (sort_key (\<lambda>s. the (row_key s)) ss)"
proof (cases "length ss \<le> 1")
  case True
  then have "ss = [] \<or> (\<exists>s. ss = [s])" by (cases ss) auto
  then show ?thesis by (auto simp: sort_summaries_def)
next
  case False
  then show ?thesis using assms by (simp add: sort_summaries_def list_all_iff)
qed

lemma summary_recorded:
  assumes "recorded ds (p, txt)"
  shows "samples_summary txt = Inr (sort_key (\<lambda>s. the (row_key s)) (map summary_entry ds))"
proof -
  have d: "distinct (map sample_of ds)" "\<forall>d\<in>set ds. wf_result d" "jsonl_rows txt = map PDict ds"
    using assms by (auto simp: recorded_def)
  have "collect_summaries (map PDict ds) [] = Inr (map (\<lambda>d. (sample_of d, summary_entry d)) ds)"
    using collect_recorded [OF d(1,2), of "[]"] by simp
  moreover have "\<forall>s\<in>set (map summary_entry ds). row_key s \<noteq> None"
    using d(2) by (auto simp: summary_keeps dest: wf_resultD)
  ultimately show ?thesis by (simp add: samples_summary_def d(3) sort_summaries_eq comp_def)
qed

subsection \<open>The table\<close>

lemma add_new_distinct: "distinct acc \<Longrightarrow> distinct (add_new ks acc)"
  unfolding add_new_def by (induction ks arbitrary: acc) auto

lemma csv_keys_distinct: "csv_keys rows = Inr keys \<Longrightarrow> distinct keys"
proof -
  assume "csv_keys rows = Inr keys"
  then have "\<exists>ds :: pydict list. keys = fold (\<lambda>d. add_new (map fst d)) ds []" by (auto simp: csv_keys_def bindE_Inr)
  then obtain ds :: "pydict list" where k: "keys = fold (\<lambda>d. add_new (map fst d)) ds []" by blast
  have "distinct (fold (\<lambda>d. add_new (map fst d)) (ds :: pydict list) acc)" if "distinct acc" for acc
    using that by (induction ds arbitrary: acc) (auto simp: add_new_distinct)
  then show ?thesis by (simp add: k)
qed

lemma mapE_set: "mapE f xs = Inr ys \<Longrightarrow> x \<in> set xs \<Longrightarrow> \<exists>y. f x = Inr y"
  by (induction xs arbitrary: ys) (auto simp: bindE_Inr)

lemma row_items_ok:
  assumes "csv_keys rows = Inr keys" "r \<in> set rows" "item \<in> set (row_items r)"
  shows "\<exists>d. item_dict item = Inr d"
proof -
  have "item \<in> set (column_items r) \<or> item = PDict []"
    using assms(3) by (auto simp: row_items_def column_items_def split: pyval.splits if_splits)
  then have "item \<in> set (concat (map column_items rows)) \<or> item = PDict []" using assms(2) by auto
  moreover obtain ds where "mapE item_dict (concat (map column_items rows)) = Inr ds"
    using assms(1) by (auto simp: csv_keys_def bindE_Inr)
  ultimately show ?thesis using mapE_set by (fastforce simp: item_dict_def)
qed

lemma csv_records_width:
  assumes "csv_keys rows = Inr keys" "rec \<in> set (csv_records a keys rows)"
  shows "length rec = length (csv_header a keys)"
proof -
  obtain r i item where r: "r \<in> set rows" "(i, item) \<in> set (enumerate 0 (row_items r))" "rec = csv_record a keys r i item"
    using assms(2) by (auto simp: csv_records_def)
  then have "item \<in> set (row_items r)" by (metis in_set_enumerate_eq add.right_neutral diff_zero nth_mem snd_conv)
  then obtain d where "item_dict item = Inr d" using row_items_ok [OF assms(1) r(1)] by blast
  then show ?thesis by (simp add: r(3) csv_record_def csv_header_def)
qed

text \<open>The columns that are always there.\<close>

definition fixed_columns :: "string list" where
  "fixed_columns = [''sample_id'', ''row_index'', ''item_index'', ''verdict'']"

section \<open>Properties\<close>


definition demo_result :: "string \<Rightarrow> int \<Rightarrow> string \<Rightarrow> pyval \<Rightarrow> pydict" where
  "demo_result sid i verdict extracted =
     [(''sample_id'', PStr sid), (''row_index'', PInt i), (''verdict'', PStr verdict), (''extracted'', extracted)]"

lemma demo_result_wf: "sid \<noteq> [] \<Longrightarrow> wf_pyval extracted \<Longrightarrow> wf_result (demo_result sid i verdict extracted)"
  by (auto simp: wf_result_def demo_result_def row_key_def py_or_def)


text \<open>
  Counters and manifest disagree on a sample that was written twice. The standalone workers append a row
  for every attempt, so a sample that fails and passes on its retry has two rows: the counters (and so
  the \<open>run.completed\<close> event and the run's result) take the first and count a failure, the manifest takes
  the last and counts a pass.
\<close>

theorem retried_sample_counted_twice:
  assumes "wf_result r1" "wf_result r2" "sample_of r1 = sample_of r2" "\<not> passed r1" "passed r2"
  shows "\<exists>p. load_completed (jsonl_append r2 (jsonl_append r1 None)) progress_empty = Inr p
      \<and> pr_total p = 1 \<and> pr_passed p = 0 \<and> pr_failed p = 1
      \<and> samples_summary (jsonl_append r2 (jsonl_append r1 None)) = Inr [summary_entry r2] \<and> passed (summary_entry r2)"
proof -
  note w1 = wf_resultD [OF assms(1)] and w2 = wf_resultD [OF assms(2)]
  have c0: "complete_lines None" by (simp add: complete_lines_def)
  note a1 = jsonl_rows_append [OF c0 w1(4)]
  have rows: "jsonl_rows (jsonl_append r2 (jsonl_append r1 None)) = [PDict r1, PDict r2]"
    using jsonl_rows_append [OF a1(2) w2(4)] a1(1) by (simp add: jsonl_rows_def)
  show ?thesis
    using w1 w2 assms(3-5)
    by (simp add: load_completed_def rows attr_get_def count_sample_def progress_empty_def passed_def sample_of_def
        samples_summary_def sort_summaries_def summary_keeps [unfolded passed_def])
qed

theorem retried_sample_counted_twice_witness:
  "\<exists>p. load_completed (jsonl_append (demo_result ''a'' 0 ''pass'' (PDict [])) (jsonl_append (demo_result ''a'' 0 ''fail'' (PDict [])) None))
      progress_empty = Inr p \<and> pr_passed p = 0"
  using retried_sample_counted_twice [of "demo_result ''a'' 0 ''fail'' (PDict [])" "demo_result ''a'' 0 ''pass'' (PDict [])"]
    demo_result_wf [of "''a''" "PDict []" 0 "''fail''"] demo_result_wf [of "''a''" "PDict []" 0 "''pass''"]
  by (auto simp: sample_of_def passed_def demo_result_def)

text \<open>
  C15: \<open>output.csv\<close> loses nothing. If no extracted field has the name of a fixed column, reading the table back
  with the program's own CSV loader gives one row per extracted item (one for a sample without items),
  each with the sample's id, row index, verdict and the text of every field, whatever characters the
  values hold; the columns are uniform, and an \<open>item_index\<close> column is there as soon as one sample has a list.
\<close>

theorem output_csv_reads_back:
  assumes "rows \<noteq> []" "csv_keys rows = Inr keys" "set keys \<inter> set fixed_columns = {}"
  shows "\<exists>tx. rebuild_csv rows = Inr tx
    \<and> load_csv tx = map (\<lambda>rec. PDict (zip (csv_header (fan_out rows) keys) (map (PStr \<circ> csv_cell) rec)))
         (csv_records (fan_out rows) keys rows)
    \<and> length (csv_records (fan_out rows) keys rows) = sum_list (map (length \<circ> row_items) rows)"
proof -
  let ?h = "csv_header (fan_out rows) keys" and ?rs = "csv_records (fan_out rows) keys rows"
  have h: "distinct ?h" "?h \<noteq> []"
    using csv_keys_distinct [OF assms(2)] assms(3) by (auto simp: csv_header_def fixed_columns_def)
  have "\<forall>r\<in>set (map (map csv_cell) ?rs). length r = length ?h" using csv_records_width [OF assms(2)] by auto
  note load = load_csv_written [OF h this]
  have "length ?rs = sum_list (map (length \<circ> row_items) rows)"
    by (simp add: csv_records_def length_concat comp_def)
  with assms(1,2) load show ?thesis by (simp add: rebuild_csv_def comp_def)
qed

definition demo_rows :: "pydict list" where
  "demo_rows = [demo_result ''a'' 0 ''pass'' (PList [PDict [(''title'', PStr (''x, '' @ [DQ, LF]))], PDict []])]"

theorem output_csv_reads_back_witness:
  "\<exists>tx. rebuild_csv demo_rows = Inr tx \<and> length (load_csv tx) = 2"
proof -
  have k: "csv_keys demo_rows = Inr [''title'']" by code_simp
  have n: "sum_list (map (length \<circ> row_items) demo_rows) = 2" by code_simp
  have "demo_rows \<noteq> []" by (simp add: demo_rows_def)
  from output_csv_reads_back [OF this k] n show ?thesis by (auto simp: fixed_columns_def)
qed

end
