(* ===== verification/Credentials.thy ===== *)
theory Credentials
  imports CsvIO
begin

text \<open>
  \<open>credentials/detect.py\<close> (the host of a URL, login walls) and \<open>credentials/storage_state.py\<close> (browser
  sessions sealed with AES-GCM per host, merged for a sample). What the standard library does here is
  written out: \<open>urlparse\<close>, \<open>base64\<close>, UTF-8 on the modelled characters. AES-GCM, HKDF and the validity test
  of bracketed IPv6 hosts are arguments.
\<close>

subsection \<open>URLs\<close>

definition url_trim :: "string \<Rightarrow> string" where
  "url_trim s = filter (\<lambda>c. c \<notin> {CHR 0x09, LF, CR}) (lstrip_by (\<lambda>c. of_char c \<le> (32 :: nat)) s)"

definition scheme_char :: "char \<Rightarrow> bool" where
  "scheme_char c \<longleftrightarrow> of_char c < (128 :: nat) \<and> is_alnum c \<or> c \<in> {CHR ''+'', CHR ''-'', CHR ''.''}"

definition split_scheme :: "string \<Rightarrow> string \<times> string" where
  "split_scheme s =
     (let pre = takeWhile (\<lambda>c. c \<noteq> CHR '':'') s; rest = dropWhile (\<lambda>c. c \<noteq> CHR '':'') s
      in if rest \<noteq> [] \<and> pre \<noteq> [] \<and> scheme_char (hd pre) \<and> is_alnum (hd pre) \<and> \<not> is_digit (hd pre) \<and> list_all scheme_char pre
         then (py_lower pre, tl rest) else ([], s))"

definition split_netloc :: "string \<Rightarrow> string \<times> string" where
  "split_netloc s =
     (if py_startswith s ''//''
      then (takeWhile (\<lambda>c. c \<notin> set ''/?#'') (drop 2 s), dropWhile (\<lambda>c. c \<notin> set ''/?#'') (drop 2 s)) else ([], s))"

definition before :: "char \<Rightarrow> string \<Rightarrow> string" where
  "before c s = takeWhile (\<lambda>x. x \<noteq> c) s"

definition after :: "char \<Rightarrow> string \<Rightarrow> string" where
  "after c s = tl (dropWhile (\<lambda>x. x \<noteq> c) s)"

text \<open>The schemes whose paths carry parameters, and \<open>_splitparams\<close>: the last segment ends at its semicolon.\<close>

definition uses_params :: "string list" where
  "uses_params = [[], ''ftp'', ''hdl'', ''prospero'', ''http'', ''https'', ''shttp'', ''rtsp'', ''rtspu'', ''sip'', ''sips'',
     ''mms'', ''sftp'', ''tel'']"

definition drop_params :: "string \<Rightarrow> string" where
  "drop_params s =
     (let segs = split_char (CHR ''/'') s in py_join ''/'' (butlast segs @ [before (CHR '';'') (last segs)]))"

text \<open>\<open>urlparse\<close>: the network location and the path; \<open>None\<close> for its \<open>ValueError\<close>.\<close>

definition url_parse :: "(string \<Rightarrow> bool) \<Rightarrow> string \<Rightarrow> (string \<times> string) option" where
  "url_parse v6 url =
     (let (scheme, r1) = split_scheme (url_trim url);
          (netloc, r2) = split_netloc r1;
          path = before (CHR ''?'') (before (CHR ''#'') r2)
      in if (CHR ''['' \<in> set netloc) \<noteq> (CHR '']'' \<in> set netloc) then None
         else if CHR ''['' \<in> set netloc \<and> \<not> v6 (before (CHR '']'') (after (CHR ''['') netloc)) then None
         else Some (netloc, if scheme \<in> set uses_params \<and> CHR '';'' \<in> set path then drop_params path else path))"

text \<open>\<open>.hostname\<close>, with empty as \<open>None\<close>.\<close>

definition url_hostname :: "string \<Rightarrow> string option" where
  "url_hostname netloc =
     (let info = last (split_char (CHR ''@'') netloc);
          h = (if CHR ''['' \<in> set info then before (CHR '']'') (after (CHR ''['') info) else before (CHR '':'') info)
      in if h = [] then None else Some (py_lower (before (CHR ''%'') h) @ drop (length (before (CHR ''%'') h)) h))"

definition LOGIN_PATH_TOKENS :: "string list" where
  "LOGIN_PATH_TOKENS = [''/login'', ''/signin'', ''/sign_in'', ''/sign-in'', ''/auth'', ''/sso'', ''/oauth'', ''/sessions/new'']"

text \<open>A value that is no text makes \<open>urlparse\<close> raise, which both functions take for no answer.\<close>

definition host_of :: "(string \<Rightarrow> bool) \<Rightarrow> pyval \<Rightarrow> string option" where
  "host_of v6 url = (case url of
     PStr u \<Rightarrow> if u = [] then None else (case url_parse v6 u of
         None \<Rightarrow> None
       | Some (netloc, path) \<Rightarrow> map_option py_lower (url_hostname netloc))
   | _ \<Rightarrow> None)"

definition looks_logged_out :: "(string \<Rightarrow> bool) \<Rightarrow> pyval \<Rightarrow> bool" where
  "looks_logged_out v6 url = (case url of
     PStr u \<Rightarrow> u \<noteq> [] \<and> (case url_parse v6 u of
         None \<Rightarrow> False
       | Some (netloc, path) \<Rightarrow> list_ex (\<lambda>tok. py_contains (py_lower path) tok) LOGIN_PATH_TOKENS)
   | _ \<Rightarrow> False)"

subsection \<open>Bytes\<close>

definition utf8_encode :: "string \<Rightarrow> string" where
  "utf8_encode s = concat (map (\<lambda>c. let n = of_char c :: nat in
     if n < 128 then [c] else [char_of (192 + n div 64), char_of (128 + n mod 64)]) s)"

text \<open>Decoding; \<open>None\<close> for malformed input (and for code points above 255).\<close>

fun utf8_decode :: "string \<Rightarrow> string option" where
  "utf8_decode [] = Some []"
| "utf8_decode [c] = (if of_char c < (128 :: nat) then Some [c] else None)"
| "utf8_decode (c # d # s) =
     (let n = of_char c :: nat; m = of_char d :: nat in
      if n < 128 then map_option (Cons c) (utf8_decode (d # s))
      else if (n = 194 \<or> n = 195) \<and> 128 \<le> m \<and> m < 192
      then map_option (Cons (char_of ((n - 192) * 64 + (m - 128)))) (utf8_decode s)
      else None)"

definition B64_ALPHABET :: string where
  "B64_ALPHABET = ''ABCDEFGHIJKLMNOPQRSTUVWXYZabcdefghijklmnopqrstuvwxyz0123456789+/''"

definition b64_char :: "nat \<Rightarrow> char" where
  "b64_char n = B64_ALPHABET ! n"

definition b64_val :: "char \<Rightarrow> nat option" where
  "b64_val c = index_of B64_ALPHABET c"

fun b64_encode :: "string \<Rightarrow> string" where
  "b64_encode [] = []"
| "b64_encode [a] = (let x = of_char a :: nat in
     [b64_char (x div 4), b64_char (x mod 4 * 16), CHR ''='', CHR ''=''])"
| "b64_encode [a, b] = (let x = of_char a :: nat; y = of_char b :: nat in
     [b64_char (x div 4), b64_char (x mod 4 * 16 + y div 16), b64_char (y mod 16 * 4), CHR ''=''])"
| "b64_encode (a # b # c # s) = (let x = of_char a :: nat; y = of_char b :: nat; z = of_char c :: nat in
     b64_char (x div 4) # b64_char (x mod 4 * 16 + y div 16) # b64_char (y mod 16 * 4 + z div 64)
       # b64_char (z mod 64) # b64_encode s)"

text \<open>
  The decoder of \<open>binascii\<close>: \<open>q\<close> counts the characters of the current quadruple, \<open>left\<close> holds the bits not yet
  written, \<open>pads\<close> the padding seen, \<open>started\<close> whether any was. Without \<open>strict\<close> other characters are skipped.
\<close>

fun b64_scan :: "bool \<Rightarrow> nat \<Rightarrow> nat \<Rightarrow> nat \<Rightarrow> bool \<Rightarrow> string \<Rightarrow> string option" where
  "b64_scan strict q left pads started [] = (if q = 0 then Some [] else None)"
| "b64_scan strict q left pads started (c # s) =
     (if c = CHR ''='' then
        (if strict \<and> q = 0 then None
         else if 2 \<le> q then
           (if 4 \<le> q + Suc pads then (if strict \<and> s \<noteq> [] then None else Some []) else b64_scan strict q left (Suc pads) True s)
         else b64_scan strict q left pads True s)
      else (case b64_val c of
          None \<Rightarrow> if strict then None else b64_scan strict q left pads started s
        | Some v \<Rightarrow>
            if strict \<and> started then None
            else if q = 0 then b64_scan strict 1 v 0 started s
            else if q = 1 then map_option (Cons (char_of (left * 4 + v div 16))) (b64_scan strict 2 (v mod 16) 0 started s)
            else if q = 2 then map_option (Cons (char_of (left * 16 + v div 4))) (b64_scan strict 3 (v mod 4) 0 started s)
            else map_option (Cons (char_of (left * 64 + v))) (b64_scan strict 0 0 0 started s)))"

definition b64_decode :: "bool \<Rightarrow> string \<Rightarrow> string option" where
  "b64_decode validate s = b64_scan validate 0 0 0 False s"

subsection \<open>Sealing\<close>

definition NONCE_BYTES :: nat where "NONCE_BYTES = 12"
definition KEY_BYTES :: nat where "KEY_BYTES = 32"

text \<open>The cryptography the store is built on: key derivation, AES-GCM encryption and (failing) decryption.\<close>

record crypto =
  cr_hkdf :: "string \<Rightarrow> string"
  cr_encrypt :: "string \<Rightarrow> string \<Rightarrow> string \<Rightarrow> string"
  cr_decrypt :: "string \<Rightarrow> string \<Rightarrow> string \<Rightarrow> string option"

text \<open>The master key is base64, or else the bytes of the text itself.\<close>

definition derive_key :: "crypto \<Rightarrow> string option \<Rightarrow> exn + string" where
  "derive_key cr env = (case env of
     None \<Rightarrow> Inl (Exn ''RuntimeError'' ''ANDERA_MASTER_KEY is not set.'')
   | Some raw \<Rightarrow>
       if raw = [] then Inl (Exn ''RuntimeError'' ''ANDERA_MASTER_KEY is not set.'')
       else Inr (cr_hkdf cr (case (if list_all (\<lambda>c. of_char c < (128 :: nat)) raw then b64_decode True raw else None) of
           Some material \<Rightarrow> material | None \<Rightarrow> utf8_encode raw)))"

definition seal :: "crypto \<Rightarrow> string \<Rightarrow> string \<Rightarrow> string \<Rightarrow> exn + string" where
  "seal cr nonce plaintext key =
     (if length key \<noteq> KEY_BYTES then Inl (Exn ''ValueError'' ''key must be 32 bytes'')
      else Inr (b64_encode (nonce @ cr_encrypt cr key nonce plaintext)))"

definition unseal :: "crypto \<Rightarrow> string \<Rightarrow> string \<Rightarrow> exn + string" where
  "unseal cr sealed key = (case b64_decode False sealed of
     None \<Rightarrow> Inl (Exn ''Error'' ''Incorrect padding'')
   | Some blob \<Rightarrow> (case cr_decrypt cr key (take NONCE_BYTES blob) (drop NONCE_BYTES blob) of
        None \<Rightarrow> Inl (Exn ''InvalidTag'' []) | Some p \<Rightarrow> Inr p))"

subsection \<open>The store\<close>

text \<open>The directory: its file names with their contents.\<close>

type_synonym sealed_dir = "(string \<times> string) list"

definition sealed_name :: "string \<Rightarrow> string" where
  "sealed_name host = map (\<lambda>c. if is_alnum c \<or> c \<in> set ''-._'' then c else CHR ''_'') host @ ''.sealed''"

definition sealed_has :: "string \<Rightarrow> sealed_dir \<Rightarrow> bool" where
  "sealed_has host dir \<longleftrightarrow> map_of dir (sealed_name host) \<noteq> None"

definition sealed_save :: "crypto \<Rightarrow> string option \<Rightarrow> string \<Rightarrow> string \<Rightarrow> pydict \<Rightarrow> sealed_dir \<Rightarrow> exn + sealed_dir" where
  "sealed_save cr env nonce host state dir =
     bindE (derive_key cr env) (\<lambda>key.
     bindE (seal cr nonce (utf8_encode (dumps_compact (PDict state))) key) (\<lambda>sealed.
     Inr (AList.update (sealed_name host) sealed dir)))"

definition sealed_load :: "crypto \<Rightarrow> string option \<Rightarrow> string \<Rightarrow> sealed_dir \<Rightarrow> exn + pyval" where
  "sealed_load cr env host dir = (case map_of dir (sealed_name host) of
     None \<Rightarrow> Inr PNone
   | Some sealed \<Rightarrow>
       bindE (derive_key cr env) (\<lambda>key.
       bindE (unseal cr sealed key) (\<lambda>bytes.
       (case utf8_decode bytes of
          None \<Rightarrow> Inl (Exn ''UnicodeDecodeError'' [])
        | Some s \<Rightarrow> (case json_loads s of None \<Rightarrow> Inl json_decode_error | Some v \<Rightarrow> Inr v)))))"

definition sealed_delete :: "string \<Rightarrow> sealed_dir \<Rightarrow> bool \<times> sealed_dir" where
  "sealed_delete host dir = (sealed_has host dir, AList.delete (sealed_name host) dir)"

text \<open>\<open>Path.stem\<close> of a sealed file; a leading dot does not start a suffix.\<close>

definition sealed_stem :: "string \<Rightarrow> string" where
  "sealed_stem n = (if n = ''.sealed'' then n else take (length n - 7) n)"

definition list_hosts :: "sealed_dir \<Rightarrow> string list" where
  "list_hosts dir = sort (map sealed_stem (filter (\<lambda>n. py_endswith n ''.sealed'') (map fst dir)))"

text \<open>The sessions merged so far, and whether any was; a host whose file does not load is skipped.\<close>

fun merge_hosts :: "(string \<Rightarrow> exn + pyval) \<Rightarrow> string list \<Rightarrow> pyval list \<times> pyval list \<times> bool
    \<Rightarrow> exn + pyval list \<times> pyval list \<times> bool" where
  "merge_hosts load [] acc = Inr acc"
| "merge_hosts load (h # hs) (cookies, origins, any) =
     (case load h of
        Inl e \<Rightarrow> merge_hosts load hs (cookies, origins, any)
      | Inr state \<Rightarrow>
          if \<not> truthy state then merge_hosts load hs (cookies, origins, any)
          else bindE (attr_get state ''cookies'') (\<lambda>c. bindE (py_iter (py_or c (PList []))) (\<lambda>cs.
               bindE (attr_get state ''origins'') (\<lambda>os. bindE (py_iter (py_or os (PList []))) (\<lambda>ors.
               merge_hosts load hs (cookies @ cs, origins @ ors, True))))))"

definition load_merged :: "crypto \<Rightarrow> string option \<Rightarrow> sealed_dir \<Rightarrow> exn + pydict option" where
  "load_merged cr env dir =
     bindE (merge_hosts (\<lambda>h. sealed_load cr env h dir) (list_hosts dir) ([], [], False)) (\<lambda>(cookies, origins, any).
     Inr (if any then Some [(''cookies'', PList cookies), (''origins'', PList origins)] else None))"

subsection \<open>Round trips of the encodings\<close>

lemma b64_alphabet: "length B64_ALPHABET = 64" "distinct B64_ALPHABET" "CHR ''='' \<notin> set B64_ALPHABET"
  by (simp_all add: B64_ALPHABET_def)

lemma index_of_nth: "distinct xs \<Longrightarrow> i < length xs \<Longrightarrow> index_of xs (xs ! i) = Some i"
proof (induction xs arbitrary: i)
  case (Cons x xs)
  then show ?case by (cases i) auto
qed simp

lemma b64_val_char [simp]: "n < 64 \<Longrightarrow> b64_val (b64_char n) = Some n"
  by (simp add: b64_val_def b64_char_def index_of_nth b64_alphabet)

lemma b64_char_not_pad [simp]: "n < 64 \<Longrightarrow> b64_char n \<noteq> CHR ''=''"
  unfolding b64_char_def using b64_alphabet(1,3) nth_mem [of n B64_ALPHABET] by metis

text \<open>Putting the six-bit groups of bytes together again.\<close>

lemma six_bits:
  fixes x y z :: nat
  assumes "x < 256" "y < 256" "z < 256"
  shows "x div 4 * 4 + (x mod 4 * 16 + y div 16) div 16 = x"
    and "(x mod 4 * 16 + y div 16) mod 16 * 16 + (y mod 16 * 4 + z div 64) div 4 = y"
proof -
  have y: "y div 16 < 16" using assms(2) by simp
  then have "(x mod 4 * 16 + y div 16) div 16 = x mod 4" by simp
  then show "x div 4 * 4 + (x mod 4 * 16 + y div 16) div 16 = x" by simp
  have "z div 64 < 4" using assms(3) by simp
  then have "(y mod 16 * 4 + z div 64) div 4 = y mod 16" by simp
  moreover have "(x mod 4 * 16 + y div 16) mod 16 = y div 16" using y by simp
  ultimately show "(x mod 4 * 16 + y div 16) mod 16 * 16 + (y mod 16 * 4 + z div 64) div 4 = y" by simp
qed

lemma b64_scan_steps:
  assumes "n < 64"
  shows "b64_scan strict 0 left pads False (b64_char n # s) = b64_scan strict 1 n 0 False s"
    and "b64_scan strict (Suc 0) left pads False (b64_char n # s) = map_option (Cons (char_of (left * 4 + n div 16))) (b64_scan strict 2 (n mod 16) 0 False s)"
    and "b64_scan strict 2 left pads False (b64_char n # s) = map_option (Cons (char_of (left * 16 + n div 4))) (b64_scan strict 3 (n mod 4) 0 False s)"
    and "b64_scan strict 3 left pads False (b64_char n # s) = map_option (Cons (char_of (left * 64 + n))) (b64_scan strict 0 0 0 False s)"
  using assms by simp_all

lemma b64_groups:
  "x < 256 \<Longrightarrow> x div 4 < 64" "x mod 4 * 16 < 64" "y < 256 \<Longrightarrow> x mod 4 * 16 + y div 16 < 64" "y mod 16 * 4 < 64"
  "z < 256 \<Longrightarrow> y mod 16 * 4 + z div 64 < 64" "z mod 64 < 64" for x y z :: nat
proof -
  show "x mod 4 * 16 + y div 16 < 64" if "y < 256"
    using that mod_less_divisor [of 4 x] by (simp add: less_mult_imp_div_less)
  show "y mod 16 * 4 + z div 64 < 64" if "z < 256"
    using that mod_less_divisor [of 16 y] by (simp add: less_mult_imp_div_less)
qed (simp_all add: less_mult_imp_div_less)

lemma b64_round_trip: "b64_scan strict 0 0 0 False (b64_encode s) = Some s"
proof (induction s rule: b64_encode.induct)
  case (2 a)
  have "of_char a < (256 :: nat)" by simp
  then show ?case using six_bits(1) [of "of_char a" 0 0] by (simp add: Let_def b64_scan_steps b64_groups)
next
  case (3 a b)
  have "of_char a < (256 :: nat)" "of_char b < (256 :: nat)" by simp_all
  then show ?case using six_bits [of "of_char a" "of_char b" 0] by (simp add: Let_def b64_scan_steps b64_groups)
next
  case (4 a b c s)
  let ?x = "of_char a :: nat" and ?y = "of_char b :: nat" and ?z = "of_char c :: nat"
  have l: "?x < 256" "?y < 256" "?z < 256" by simp_all
  have "(?y mod 16 * 4 + ?z div 64) mod 4 = ?z div 64" using l(3) by (simp add: less_mult_imp_div_less)
  then have "(?y mod 16 * 4 + ?z div 64) mod 4 * 64 + ?z mod 64 = ?z" by simp
  then show ?case using six_bits [OF l] l 4 by (simp add: Let_def b64_scan_steps b64_groups del: b64_scan.simps(2))
qed simp

lemma utf8_decode_ascii: "of_char c < (128 :: nat) \<Longrightarrow> utf8_decode (c # s) = map_option (Cons c) (utf8_decode s)"
  by (cases s) auto

lemma utf8_round_trip: "utf8_decode (utf8_encode s) = Some s"
proof (induction s)
  case (Cons c s)
  let ?n = "of_char c :: nat"
  have e: "utf8_encode (c # s) = (if ?n < 128 then [c] else [char_of (192 + ?n div 64), char_of (128 + ?n mod 64)]) @ utf8_encode s"
    by (simp add: utf8_encode_def Let_def)
  show ?case
  proof (cases "?n < 128")
    case True
    then show ?thesis using Cons e by (simp add: utf8_decode_ascii)
  next
    case False
    have l: "?n < 256" by simp
    with False have "?n div 64 = 2 \<or> ?n div 64 = 3" by linarith
    moreover have "char_of (128 + ?n mod 64) = c" if "?n div 64 = 2"
    proof -
      have "128 + ?n mod 64 = ?n" using that div_mult_mod_eq [of ?n 64] by simp
      then show ?thesis by (metis char_of_char)
    qed
    moreover have "char_of (192 + ?n mod 64) = c" if "?n div 64 = 3"
    proof -
      have "192 + ?n mod 64 = ?n" using that div_mult_mod_eq [of ?n 64] by simp
      then show ?thesis by (metis char_of_char)
    qed
    moreover have "?n mod 64 < 64" by simp
    ultimately show ?thesis using False Cons e by (auto simp: Let_def)
  qed
qed (simp add: utf8_encode_def)

subsection \<open>Facts on the store\<close>

text \<open>The documented behaviour of the cryptography: decryption inverts encryption, derived keys have 32 bytes.\<close>

definition good_crypto :: "crypto \<Rightarrow> bool" where
  "good_crypto cr \<longleftrightarrow> (\<forall>k n p. cr_decrypt cr k n (cr_encrypt cr k n p) = Some p) \<and> (\<forall>m. length (cr_hkdf cr m) = KEY_BYTES)"

lemma derive_key_set: "env = Some raw \<Longrightarrow> raw \<noteq> [] \<Longrightarrow> \<exists>m. derive_key cr env = Inr (cr_hkdf cr m)"
  by (auto simp: derive_key_def)

lemma unseal_seal:
  "good_crypto cr \<Longrightarrow> length nonce = NONCE_BYTES \<Longrightarrow> seal cr nonce p key = Inr sealed \<Longrightarrow> unseal cr sealed key = Inr p"
  by (auto simp: seal_def unseal_def b64_decode_def b64_round_trip good_crypto_def split: if_splits)

lemma loads_compact_utf8: "wf_pyval v \<Longrightarrow> map_option json_loads (utf8_decode (utf8_encode (dumps_compact v))) = Some (Some v)"
  by (simp add: utf8_round_trip)

lemma sealed_save_load:
  assumes "good_crypto cr" "env = Some raw" "raw \<noteq> []" "length nonce = NONCE_BYTES" "wf_pyval (PDict state)"
  shows "\<exists>dir'. sealed_save cr env nonce host state dir = Inr dir' \<and> sealed_load cr env host dir' = Inr (PDict state)
    \<and> (\<forall>h. sealed_name h \<noteq> sealed_name host \<longrightarrow> sealed_load cr env h dir' = sealed_load cr env h dir)"
proof -
  obtain m where k: "derive_key cr env = Inr (cr_hkdf cr m)" using derive_key_set [OF assms(2,3)] by blast
  let ?p = "utf8_encode (dumps_compact (PDict state))"
  obtain sealed where s: "seal cr nonce ?p (cr_hkdf cr m) = Inr sealed"
    using assms(1) by (auto simp: seal_def good_crypto_def)
  note u = unseal_seal [OF assms(1,4) s]
  let ?d = "AList.update (sealed_name host) sealed dir"
  have "sealed_save cr env nonce host state dir = Inr ?d" by (simp add: sealed_save_def k s)
  moreover have "sealed_load cr env host ?d = Inr (PDict state)"
    using assms(5) by (simp add: sealed_load_def update_conv k u utf8_round_trip)
  moreover have "sealed_load cr env h ?d = sealed_load cr env h dir" if "sealed_name h \<noteq> sealed_name host" for h
    using that by (simp add: sealed_load_def update_conv)
  ultimately show ?thesis by blast
qed

text \<open>What merging yields when every session it can load is a dictionary of lists.\<close>

definition session_list :: "string \<Rightarrow> exn + pyval \<Rightarrow> pyval list" where
  "session_list k r = (case r of Inr (PDict d) \<Rightarrow> (case dget d k of PList xs \<Rightarrow> xs | _ \<Rightarrow> []) | _ \<Rightarrow> [])"

definition storage_state :: "exn + pyval \<Rightarrow> bool" where
  "storage_state r \<longleftrightarrow> (case r of Inl e \<Rightarrow> True | Inr v \<Rightarrow> v = PNone \<or>
     (\<exists>d cs os. v = PDict d \<and> dget d ''cookies'' = PList cs \<and> dget d ''origins'' = PList os))"

lemma merge_hosts_eq:
  assumes "\<forall>h\<in>set hs. storage_state (load h)"
  shows "\<exists>any'. merge_hosts load hs (cookies, origins, any) =
    Inr (cookies @ concat (map (\<lambda>h. session_list ''cookies'' (load h)) hs), origins @ concat (map (\<lambda>h. session_list ''origins'' (load h)) hs), any')
    \<and> any' = (any \<or> (\<exists>h\<in>set hs. \<exists>v. load h = Inr v \<and> truthy v))"
  using assms
proof (induction hs arbitrary: cookies origins any)
  case (Cons h hs)
  have IH: "\<exists>any'. merge_hosts load hs (c, o', a) =
    Inr (c @ concat (map (\<lambda>h. session_list ''cookies'' (load h)) hs), o' @ concat (map (\<lambda>h. session_list ''origins'' (load h)) hs), any')
    \<and> any' = (a \<or> (\<exists>h\<in>set hs. \<exists>v. load h = Inr v \<and> truthy v))" for c o' a
    using Cons by simp
  have "storage_state (load h)" using Cons.prems by simp
  then consider (err) e where "load h = Inl e" | (none) "load h = Inr PNone"
    | (dict) d cs os where "load h = Inr (PDict d)" "dget d ''cookies'' = PList cs" "dget d ''origins'' = PList os"
    by (cases "load h") (auto simp: storage_state_def)
  then show ?case
  proof cases
    case dict
    then have "d \<noteq> []" by auto
    moreover have "py_iter (py_or (PList xs) (PList [])) = Inr xs" for xs by (cases xs) (simp_all add: py_iter_def)
    moreover have "session_list ''cookies'' (load h) = cs" "session_list ''origins'' (load h) = os"
      using dict by (simp_all add: session_list_def)
    ultimately show ?thesis
      using dict IH [of "cookies @ cs" "origins @ os" True] by (simp add: attr_get_def)
  qed (use IH [of cookies origins any] in \<open>simp_all add: session_list_def\<close>)
qed simp

subsection \<open>Plain web addresses\<close>

definition plain_host :: "string \<Rightarrow> bool" where
  "plain_host h \<longleftrightarrow> h \<noteq> [] \<and> list_all (\<lambda>c. of_char c > (32 :: nat) \<and> c \<notin> set ''/?#[]@:%'') h"

definition plain_path :: "string \<Rightarrow> bool" where
  "plain_path p \<longleftrightarrow> p \<noteq> [] \<and> hd p = CHR ''/'' \<and> list_all (\<lambda>c. of_char c > (32 :: nat) \<and> c \<notin> set ''?#;'') p"

definition plain_query :: "string \<Rightarrow> bool" where
  "plain_query q \<longleftrightarrow> q = [] \<or> hd q = CHR ''?'' \<and> list_all (\<lambda>c. of_char c > (32 :: nat)) q"

lemma before_absent: "c \<notin> set s \<Longrightarrow> before c s = s"
  by (induction s) (auto simp: before_def)

lemma before_append: "c \<notin> set s \<Longrightarrow> before c (s @ c # t) = s"
  by (induction s) (auto simp: before_def)

lemma url_trim_id: "u \<noteq> [] \<Longrightarrow> \<forall>c\<in>set u. of_char c > (32 :: nat) \<Longrightarrow> url_trim u = u"
proof -
  assume u: "u \<noteq> []" "\<forall>c\<in>set u. of_char c > (32 :: nat)"
  have "\<forall>c\<in>set u. c \<notin> {CHR 0x09, LF, CR}"
  proof
    fix c assume "c \<in> set u"
    then have "of_char c > (32 :: nat)" using u(2) by blast
    then show "c \<notin> {CHR 0x09, LF, CR}" by (auto simp: LF_def CR_def)
  qed
  moreover have "\<not> of_char (hd u) \<le> (32 :: nat)" using u by (simp add: not_le)
  then have "dropWhile (\<lambda>c. of_char c \<le> (32 :: nat)) u = u" by (simp only: dropWhile_eq_self_iff) simp
  ultimately show ?thesis by (simp add: url_trim_def lstrip_by_def)
qed

lemma split_scheme_https: "split_scheme (''https://'' @ s) = (''https'', ''//'' @ s)"
  by (simp add: split_scheme_def scheme_char_def is_alnum_def is_digit_def py_lower_def lower_char_def Let_def)

lemma split_netloc_plain:
  assumes "list_all (\<lambda>c. c \<notin> set ''/?#'') h" "hd p = CHR ''/''" "p \<noteq> []"
  shows "split_netloc (''//'' @ h @ p) = (h, p)"
  using assms by (cases p) (simp_all add: split_netloc_def list_all_iff takeWhile_append2 dropWhile_append2)

lemma strip_query:
  assumes "CHR ''?'' \<notin> set p" "CHR ''#'' \<notin> set p" "q = [] \<or> hd q = CHR ''?''"
  shows "before (CHR ''?'') (before (CHR ''#'') (p @ q)) = p"
proof (cases q)
  case Nil
  then show ?thesis using assms by (simp add: before_absent)
next
  case (Cons c q')
  have "before (CHR ''#'') (p @ CHR ''?'' # q') = p @ CHR ''?'' # before (CHR ''#'') q'"
    using assms(2) by (induction p) (auto simp: before_def)
  then show ?thesis using Cons assms(1,3) by (simp add: before_append)
qed

lemma url_parse_plain:
  assumes "plain_host h" "plain_path p" "plain_query q"
  shows "url_parse v6 (''https://'' @ h @ p @ q) = Some (h, p)"
proof -
  let ?u = "''https://'' @ h @ p @ q"
  have ht: "\<forall>c\<in>set ''https://''. of_char c > (32 :: nat)" by simp
  have hb: "\<forall>c\<in>set h. of_char c > (32 :: nat)" "list_all (\<lambda>c. c \<notin> set ''/?#'') h"
    "CHR ''['' \<notin> set h" "CHR '']'' \<notin> set h"
    using assms(1) by (simp_all add: plain_host_def list_all_iff) blast+
  have pb: "\<forall>c\<in>set p. of_char c > (32 :: nat)" "p \<noteq> []" "hd p = CHR ''/''"
    "CHR ''?'' \<notin> set p" "CHR ''#'' \<notin> set p" "CHR '';'' \<notin> set p"
    using assms(2) by (simp_all add: plain_path_def list_all_iff) blast+
  have qb: "\<forall>c\<in>set q. of_char c > (32 :: nat)" "q = [] \<or> hd q = CHR ''?''"
    using assms(3) by (auto simp: plain_query_def list_all_iff)
  have "\<forall>c\<in>set ?u. of_char c > (32 :: nat)" using ht hb(1) pb(1) qb(1) unfolding set_append by blast
  then have trim: "url_trim ?u = ?u" by (intro url_trim_id) simp_all
  have net: "split_netloc (''//'' @ h @ p @ q) = (h, p @ q)"
    using split_netloc_plain [OF hb(2), of "p @ q"] pb(2,3) by simp
  show ?thesis
    unfolding url_parse_def trim split_scheme_https Let_def prod.case net
    using strip_query [OF pb(4,5) qb(2)] hb(3,4) pb(6) by simp
qed

lemma url_hostname_plain: "plain_host h \<Longrightarrow> url_hostname h = Some (py_lower h)"
proof -
  assume h: "plain_host h"
  then have no: "CHR ''@'' \<notin> set h" "CHR ''['' \<notin> set h" "CHR '':'' \<notin> set h" "CHR ''%'' \<notin> set h" "h \<noteq> []"
    by (auto simp: plain_host_def list_all_iff)
  then show ?thesis by (simp add: url_hostname_def split_char_no before_absent)
qed

lemma py_lower_idem: "py_lower (py_lower s) = py_lower s"
proof -
  have "lower_char (lower_char c) = lower_char c" for c
    by (auto simp: lower_char_def Let_def)
  then show ?thesis by (simp add: py_lower_def)
qed

section \<open>Properties\<close>

text \<open>
  C31: sealing loses nothing. With a master key set, saving a host's session succeeds, loading it gives the
  session back, and the sessions of hosts with another file name are untouched; and the merged session holds
  the cookies and origins of every host that loads, in host order, skipping those that do not. (AES-GCM
  decryption inverts encryption under the same key and nonce; HKDF returns 32 bytes.)
\<close>

theorem sealed_state_round_trip:
  assumes "good_crypto cr" "env = Some raw" "raw \<noteq> []" "length nonce = NONCE_BYTES" "wf_pyval (PDict state)"
    and "\<forall>h\<in>set (list_hosts dir). storage_state (sealed_load cr env h dir)"
  shows "(\<exists>dir'. sealed_save cr env nonce host state dir = Inr dir' \<and> sealed_load cr env host dir' = Inr (PDict state)
      \<and> (\<forall>h. sealed_name h \<noteq> sealed_name host \<longrightarrow> sealed_load cr env h dir' = sealed_load cr env h dir))
    \<and> load_merged cr env dir = Inr
        (if \<exists>h\<in>set (list_hosts dir). \<exists>v. sealed_load cr env h dir = Inr v \<and> truthy v
         then Some [(''cookies'', PList (concat (map (\<lambda>h. session_list ''cookies'' (sealed_load cr env h dir)) (list_hosts dir)))),
                    (''origins'', PList (concat (map (\<lambda>h. session_list ''origins'' (sealed_load cr env h dir)) (list_hosts dir))))]
         else None)"
  using sealed_save_load [OF assms(1-5)] merge_hosts_eq [OF assms(6), of "[]" "[]" False]
  by (auto simp: load_merged_def)

definition xor_crypto :: crypto where
  "xor_crypto = \<lparr> cr_hkdf = (\<lambda>m. take 32 (m @ replicate 32 (CHR ''k''))), cr_encrypt = (\<lambda>k n p. hd k # p),
     cr_decrypt = (\<lambda>k n c. if c \<noteq> [] \<and> hd c = hd k then Some (tl c) else None) \<rparr>"

lemma xor_crypto_good: "good_crypto xor_crypto"
  by (auto simp: good_crypto_def xor_crypto_def KEY_BYTES_def min_def)

definition demo_cookies :: pydict where
  "demo_cookies = [(''cookies'', PList [PStr ''c''])]"

theorem sealed_state_round_trip_witness:
  "\<exists>dir'. sealed_save xor_crypto (Some ''key'') (replicate 12 (CHR ''n'')) ''a.b'' demo_cookies [] = Inr dir'
     \<and> sealed_load xor_crypto (Some ''key'') ''a.b'' dir' = Inr (PDict demo_cookies)"
  using sealed_state_round_trip [OF xor_crypto_good, of "Some ''key''" "''key''" "replicate 12 (CHR ''n'')" demo_cookies "[]" "''a.b''"]
  by (auto simp: NONCE_BYTES_def demo_cookies_def list_hosts_def)

text \<open>
  The login-wall test looks at the path alone, and too eagerly. For a plain address it answers whether a
  token occurs in the lowered path, whatever the host and the query; so an ordinary page whose path
  continues a token, such as a list of authors, is taken for a login wall, and its sample is failed before
  the agent starts.
\<close>

theorem login_wall_by_path:
  assumes "plain_host h" "plain_path p" "plain_query q"
  shows "host_of v6 (PStr (''https://'' @ h @ p @ q)) = Some (py_lower h)
    \<and> looks_logged_out v6 (PStr (''https://'' @ h @ p @ q)) = list_ex (py_contains (py_lower p)) LOGIN_PATH_TOKENS
    \<and> looks_logged_out v6 (PStr (''https://'' @ h @ ''/authors/7''))"
proof -
  have "plain_path ''/authors/7''" "plain_query []" by (simp_all add: plain_path_def plain_query_def)
  from url_parse_plain [OF assms(1) this, of v6]
  have "looks_logged_out v6 (PStr (''https://'' @ h @ ''/authors/7''))"
    by (simp add: looks_logged_out_def LOGIN_PATH_TOKENS_def py_lower_def lower_char_def Let_def)
  with url_parse_plain [OF assms, of v6] show ?thesis
    by (simp add: host_of_def looks_logged_out_def url_hostname_plain [OF assms(1)] py_lower_idem)
qed

theorem login_wall_by_path_witness:
  "host_of (\<lambda>_. False) (PStr ''https://Example.com/issues/1?next=/login'') = Some ''example.com''
    \<and> \<not> looks_logged_out (\<lambda>_. False) (PStr ''https://Example.com/issues/1?next=/login'')"
proof -
  have h: "plain_host ''Example.com''" by (simp add: plain_host_def)
  have p: "plain_path ''/issues/1''" by (simp add: plain_path_def)
  have q: "plain_query ''?next=/login''" by (simp add: plain_query_def)
  have l: "py_lower ''Example.com'' = ''example.com''" "\<not> list_ex (py_contains (py_lower ''/issues/1'')) LOGIN_PATH_TOKENS"
    by code_simp+
  from login_wall_by_path [OF h p q, of "\<lambda>_. False"] l show ?thesis by simp
qed

end
