(* ===== verification/SampleRun.thy ===== *)
theory SampleRun
  imports GraphTypes RunRecords Credentials AuditLog
begin

text \<open>
  One sample from a queued job to its result: \<open>RunWorkflow._run_one\<close> of \<open>orchestrator/runner.py\<close> and
  \<open>_execute_sample\<close> of \<open>worker.py\<close>. Sessions are merged, the start is logged, a browser is acquired, the start
  page is tried, the graph runs on the sample's thread, the end is logged. The checkpointer is LangGraph's:
  on a thread that has a checkpoint the input is merged into the state kept there.
\<close>

subsection \<open>What a sample runs on\<close>

text \<open>The models by role (\<open>get_model\<close>), and everything fixed while a run lasts.\<close>

record 'w models =
  mo_planner :: "'w chat"
  mo_navigator :: "'w chat"
  mo_extractor :: "'w chat"
  mo_judge :: "'w chat"
  mo_vision :: "'w chat option"

record 'w runtime =
  rt_run_id :: string
  rt_task :: pydict
  rt_models :: "'w models"
  rt_deps :: "'w deps"
  rt_sha :: hash_fn
  rt_v6 :: "string \<Rightarrow> bool"
  rt_crypto :: crypto
  rt_master_key :: "string option"
  rt_acquire :: "string \<Rightarrow> pydict option \<Rightarrow> ('w, 'w session) act"
  rt_release :: "'w \<Rightarrow> 'w"
  rt_clock :: "'w \<Rightarrow> string"
  rt_uuid :: "'w \<Rightarrow> nat \<Rightarrow> string"

text \<open>\<open>_build_deps\<close>: the classifier is the extractor's model.\<close>

definition build_deps :: "'w runtime \<Rightarrow> 'w session \<Rightarrow> 'w deps" where
  "build_deps rt session = (rt_deps rt)\<lparr>d_planner := mo_planner (rt_models rt), d_navigator := mo_navigator (rt_models rt),
     d_extractor := mo_extractor (rt_models rt), d_judge := mo_judge (rt_models rt),
     d_classifier := Some (mo_extractor (rt_models rt)), d_vision := mo_vision (rt_models rt), d_session := session\<rparr>"

text \<open>What a sample reads and writes: the world with cache, the audit log, the checkpoints, the sealed sessions.\<close>

record 'w proc =
  px_sys :: "'w sys"
  px_audit :: "audit_row list"
  px_ckpt :: "string \<Rightarrow> agent_state option"
  px_creds :: sealed_dir
  px_record :: "progress \<times> string option"

definition onp :: "('w, 'a) act \<Rightarrow> ('w proc, 'a) act" where
  "onp m p = (case m (sy_world (px_sys p)) of (r, w') \<Rightarrow> (r, p\<lparr>px_sys := (px_sys p)\<lparr>sy_world := w'\<rparr>\<rparr>))"

definition log_event :: "'w runtime \<Rightarrow> string \<Rightarrow> string \<Rightarrow> pydict \<Rightarrow> ('w proc, unit) act" where
  "log_event rt kind sample payload p =
     (let w = sy_world (px_sys p);
          ev = \<lparr>ev_kind = kind, ev_payload = Some payload, ev_run_id = Some (rt_run_id rt), ev_sample_id = Some sample, ev_id = None\<rparr>
      in case audit_append (rt_sha rt) (rt_clock rt w) (rt_uuid rt w (length (px_audit p))) ev (px_audit p) of
        Inl e \<Rightarrow> (Inl e, p)
      | Inr (rows, h) \<Rightarrow> (Inr (), p\<lparr>px_audit := rows\<rparr>))"

subsection \<open>The graph on a thread\<close>

definition blank_state :: agent_state where
  "blank_state = \<lparr> st_run_id = [], st_sample_id = [], st_task_prompt = [], st_input_data = PDict [], st_start_url = None,
     st_schema = [], st_plan = [], st_step = 0, st_obs = [], st_tool_calls = [], st_evidence = [], st_extracted = PNone,
     st_reflect = 0, st_fails = 0, st_plan_count = 0, st_cache_hit = False, st_task_type = [], st_tool_error = None,
     st_extract_errors = [], st_judge_feedback = PNone, st_status = Pending_status, st_verdict = PNone,
     st_verdict_reason = PNone, st_error = None \<rparr>"

text \<open>The state a run leaves in the checkpoint: that after the last node that returned.\<close>

fun graph_last :: "'w deps \<Rightarrow> nat \<Rightarrow> node \<Rightarrow> agent_state \<Rightarrow> 'w sys \<Rightarrow> agent_state" where
  "graph_last d 0 n st sy = st"
| "graph_last d (Suc limit) n st sy =
     (if n = N_end then st
      else (case run_node d n st sy of
          (Inl e, sy') \<Rightarrow> st
        | (Inr us, sy') \<Rightarrow> (let st' = merge_update st us in graph_last d limit (next_node n st') st' sy')))"

text \<open>The keys of the input; a key the input lacks keeps what the checkpoint has.\<close>

definition job_text :: "pyval \<Rightarrow> string option" where
  "job_text v = (case v of PStr s \<Rightarrow> Some s | _ \<Rightarrow> None)"

definition input_state :: "'w runtime \<Rightarrow> pydict \<Rightarrow> string \<Rightarrow> pydict list option \<Rightarrow> agent_state \<Rightarrow> agent_state" where
  "input_state rt job sample obs st =
     st\<lparr>st_run_id := rt_run_id rt, st_sample_id := sample,
        st_task_prompt := (case dget_or (rt_task rt) ''prompt'' (PStr []) of PStr s \<Rightarrow> s | _ \<Rightarrow> []),
        st_input_data := py_or (dget job ''input_data'') (PDict []),
        st_start_url := job_text (dget job ''start_url''),
        st_schema := (case py_or (dget (rt_task rt) ''extract_schema'') (PDict []) of PDict d \<Rightarrow> d | _ \<Rightarrow> []),
        st_status := Pending_status,
        st_obs := (case obs of Some os \<Rightarrow> os | None \<Rightarrow> st_obs st)\<rparr>"

text \<open>
  \<open>run_sample\<close> on a thread: the graph is built anew, so the memo of its classify node is empty; the state
  reached is checkpointed however the run ends.
\<close>

definition thread_run :: "'w deps \<Rightarrow> string \<Rightarrow> (agent_state \<Rightarrow> agent_state) \<Rightarrow> ('w proc, agent_state) act" where
  "thread_run d thread input p =
     (let st = input (case px_ckpt p thread of Some st \<Rightarrow> st | None \<Rightarrow> blank_state);
          sy = (px_sys p)\<lparr>sy_memo := Map.empty\<rparr>
      in case run_sample d st sy of
        (r, sy') \<Rightarrow> (r, p\<lparr>px_sys := sy', px_ckpt := (px_ckpt p)(thread \<mapsto> graph_last d RECURSION_LIMIT N_classify st sy)\<rparr>))"

subsection \<open>The start page\<close>

datatype preflight = Login_wall pyval pydict | Page "pydict option"

text \<open>An exception of the browser leaves the preflight without a snapshot.\<close>

definition run_preflight :: "'w runtime \<Rightarrow> 'w session \<Rightarrow> pyval \<Rightarrow> 'w \<Rightarrow> preflight \<times> 'w" where
  "run_preflight rt session start_url w =
     (case job_text start_url of
        None \<Rightarrow> (Page None, w)
      | Some u \<Rightarrow>
          if u = [] then (Page None, w)
          else (case s_goto session u w of
              (Inl e, w') \<Rightarrow> (Page None, w')
            | (Inr _, w') \<Rightarrow> (case s_snapshot session w' of
                  (Inl e, w'') \<Rightarrow> (Page None, w'')
                | (Inr snap, w'') \<Rightarrow>
                    let landed = py_or (dget snap ''url'') start_url
                    in (if looks_logged_out (rt_v6 rt) landed \<and> host_of (rt_v6 rt) start_url \<noteq> None
                        then Login_wall landed snap else Page (Some snap), w''))))"

definition auth_message :: "string \<Rightarrow> bool \<Rightarrow> string" where
  "auth_message host preauthed =
     ''auth required for '' @ host @ '': run `andera login '' @ host @ '' --url <login-url>` and retry'' @
     (if preauthed then '' (saved session appears expired)'' else [])"

definition auth_failure :: "pydict \<Rightarrow> string \<Rightarrow> string \<Rightarrow> pydict" where
  "auth_failure job sample msg =
     [(''sample_id'', PStr sample), (''row_index'', dget job ''row_index''), (''verdict'', PStr ''fail''),
      (''verdict_reason'', PStr msg), (''extracted'', PDict []), (''evidence'', PList []), (''evidence_count'', PInt 0),
      (''status'', PStr ''failed''), (''error'', PStr msg)]"

subsection \<open>The result\<close>

fun status_text :: "status \<Rightarrow> string" where
  "status_text Pending_status = ''pending''"
| "status_text Planning = ''planning''"
| "status_text Acting = ''acting''"
| "status_text Verifying = ''verifying''"
| "status_text Extracting = ''extracting''"
| "status_text Persisting = ''persisting''"
| "status_text Judging = ''judging''"
| "status_text Done_status = ''done''"
| "status_text Failed = ''failed''"
| "status_text Replanning = ''replanning''"

definition final_result :: "pydict \<Rightarrow> string \<Rightarrow> agent_state \<Rightarrow> pydict" where
  "final_result job sample st =
     [(''sample_id'', PStr sample), (''row_index'', dget job ''row_index''), (''verdict'', st_verdict st),
      (''verdict_reason'', st_verdict_reason st), (''extracted'', py_or (st_extracted st) (PDict [])),
      (''evidence'', PList (st_evidence st)), (''evidence_count'', PInt (int (length (st_evidence st)))),
      (''status'', PStr (status_text (st_status st))), (''error'', opt_pv (st_error st))]"

definition end_kind :: "pydict \<Rightarrow> string" where
  "end_kind result = (if dget result ''verdict'' = PStr ''pass'' then ''sample.completed'' else ''sample.failed'')"

text \<open>The sample id of a job, which both coordinators write as a text.\<close>

definition job_sample :: "pydict \<Rightarrow> exn + string" where
  "job_sample job = bindE (getitem job ''sample_id'') field_str"

subsection \<open>One sample\<close>

text \<open>A body on an acquired session, which is released however the body ends.\<close>

definition with_session :: "'w runtime \<Rightarrow> string \<Rightarrow> pydict option \<Rightarrow> ('w session \<Rightarrow> ('w proc, 'a) act) \<Rightarrow> ('w proc, 'a) act" where
  "with_session rt sample storage body p =
     (case onp (rt_acquire rt sample storage) p of
        (Inl e, p1) \<Rightarrow> (Inl e, p1)
      | (Inr session, p1) \<Rightarrow>
          (case body session p1 of
             (r, p2) \<Rightarrow> (r, p2\<lparr>px_sys := (px_sys p2)\<lparr>sy_world := rt_release rt (sy_world (px_sys p2))\<rparr>\<rparr>)))"

text \<open>\<open>load_merged\<close>; an exception counts as no session.\<close>

definition merged_session :: "'w runtime \<Rightarrow> 'w proc \<Rightarrow> pydict option" where
  "merged_session rt p = (case load_merged (rt_crypto rt) (rt_master_key rt) (px_creds p) of Inl e \<Rightarrow> None | Inr s \<Rightarrow> s)"

definition run_agent :: "'w runtime \<Rightarrow> pydict \<Rightarrow> string \<Rightarrow> pydict list option \<Rightarrow> 'w session \<Rightarrow> ('w proc, agent_state) act" where
  "run_agent rt job sample obs session = thread_run (build_deps rt session) sample (input_state rt job sample obs)"

text \<open>The observations a preflight snapshot seeds.\<close>

definition seed_obs :: "pydict option \<Rightarrow> pydict list" where
  "seed_obs s = (case s of Some (x # xs) \<Rightarrow> [[(''kind'', PStr ''snapshot''), (''data'', PDict (x # xs))]] | _ \<Rightarrow> [])"

text \<open>\<open>_run_one\<close> inside the session: \<open>Inl\<close> is the early result of a login wall.\<close>

definition one_body ::
  "'w runtime \<Rightarrow> pydict \<Rightarrow> string \<Rightarrow> bool \<Rightarrow> 'w session \<Rightarrow> ('w proc, pydict + agent_state) act" where
  "one_body rt job sample preauthed session p =
     (let start_url = dget job ''start_url''; host = host_of (rt_v6 rt) start_url;
          agent = (\<lambda>snap. map_act Inr (run_agent rt job sample (Some (seed_obs snap)) session))
      in case onp (\<lambda>w. case run_preflight rt session start_url w of (pf, w') \<Rightarrow> (Inr pf, w')) p of
        (Inr (Login_wall landed snap), p1) \<Rightarrow>
          (case log_event rt ''sample.failed'' sample
                [(''reason'', PStr ''auth_required''), (''host'', opt_pv host), (''landed'', landed)] p1 of
             (Inr _, p2) \<Rightarrow> (Inr (Inl (auth_failure job sample (auth_message (the host) preauthed))), p2)
           | (Inl e, p2) \<Rightarrow> agent (Some snap) p2)
      | (Inr (Page snap), p1) \<Rightarrow> agent snap p1
      | (Inl e, p1) \<Rightarrow> agent None p1)"

definition run_one :: "'w runtime \<Rightarrow> pydict \<Rightarrow> ('w proc, pydict) act" where
  "run_one rt job p =
     (case job_sample job of
        Inl e \<Rightarrow> (Inl e, p)
      | Inr sample \<Rightarrow>
          (let storage = merged_session rt p;
               host = host_of (rt_v6 rt) (dget job ''start_url'')
           in bindA (log_event rt ''sample.started'' sample
                 [(''row_index'', dget job ''row_index''), (''host'', opt_pv host), (''preauthed'', PBool (storage \<noteq> None))])
               (\<lambda>_. bindA (with_session rt sample storage (one_body rt job sample (storage \<noteq> None)))
               (\<lambda>r. case r of
                   Inl early \<Rightarrow> returnA early
                 | Inr final \<Rightarrow>
                     (let result = final_result job sample final in
                      bindA (log_event rt (end_kind result) sample
                          [(''verdict'', dget result ''verdict''), (''row_index'', dget result ''row_index'')])
                        (\<lambda>_. returnA result)))) p))"

text \<open>
  \<open>_execute_sample\<close>, the workers' version: the start page is tried but its snapshot not handed on, results
  carry the worker's name, and the row is appended to \<open>samples.jsonl\<close> here, at every attempt.
\<close>

definition write_row :: "pydict \<Rightarrow> 'w proc \<Rightarrow> 'w proc" where
  "write_row row p = p\<lparr>px_record := (fst (px_record p), jsonl_append row (snd (px_record p)))\<rparr>"

definition worker_body ::
  "'w runtime \<Rightarrow> string \<Rightarrow> pydict \<Rightarrow> string \<Rightarrow> bool \<Rightarrow> 'w session \<Rightarrow> ('w proc, pydict + agent_state) act" where
  "worker_body rt worker job sample preauthed session p =
     (let start_url = dget job ''start_url''; host = host_of (rt_v6 rt) start_url;
          agent = map_act Inr (run_agent rt job sample None session)
      in case onp (\<lambda>w. case run_preflight rt session start_url w of (pf, w') \<Rightarrow> (Inr pf, w')) p of
        (Inr (Login_wall landed snap), p1) \<Rightarrow>
          (case log_event rt ''sample.failed'' sample
                [(''reason'', PStr ''auth_required''), (''host'', opt_pv host), (''worker'', PStr worker)] p1 of
             (Inr _, p2) \<Rightarrow>
               (let result = auth_failure job sample (auth_message (the host) preauthed) @ [(''worker_id'', PStr worker)]
                in (Inr (Inl result), write_row result p2))
           | (Inl e, p2) \<Rightarrow> agent p2)
      | (Inr (Page snap), p1) \<Rightarrow> agent p1
      | (Inl e, p1) \<Rightarrow> agent p1)"

definition execute_sample :: "'w runtime \<Rightarrow> string \<Rightarrow> pydict \<Rightarrow> ('w proc, pydict) act" where
  "execute_sample rt worker job p =
     (case job_sample job of
        Inl e \<Rightarrow> (Inl e, p)
      | Inr sample \<Rightarrow>
          (let storage = merged_session rt p;
               host = host_of (rt_v6 rt) (dget job ''start_url'')
           in bindA (log_event rt ''sample.started'' sample
                 [(''row_index'', dget job ''row_index''), (''worker'', PStr worker), (''host'', opt_pv host),
                  (''preauthed'', PBool (storage \<noteq> None))])
               (\<lambda>_. bindA (with_session rt sample storage (worker_body rt worker job sample (storage \<noteq> None)))
               (\<lambda>r. case r of
                   Inl early \<Rightarrow> returnA early
                 | Inr final \<Rightarrow>
                     (let result = final_result job sample final @ [(''worker_id'', PStr worker)] in
                      bindA (log_event rt (end_kind result) sample
                          [(''verdict'', dget result ''verdict''), (''worker'', PStr worker)])
                        (\<lambda>_ p. (Inr result, write_row result p))))) p))"

text \<open>\<open>_record_result\<close> after a sample of the coordinator: what its worker runs on a job.\<close>

definition run_and_record :: "'w runtime \<Rightarrow> pydict \<Rightarrow> ('w proc, pydict) act" where
  "run_and_record rt job = bindA (run_one rt job) (\<lambda>res p.
     case record_result res (px_record p) of
       Inl e \<Rightarrow> (Inl e, p)
     | Inr r \<Rightarrow> (Inr res, p\<lparr>px_record := r\<rparr>))"

section \<open>What an attempt leaves\<close>

text \<open>The outside world as the interfaces promise it: sessions and the extractor's model give JSON values.\<close>

definition wf_runtime :: "'w runtime \<Rightarrow> bool" where
  "wf_runtime rt \<longleftrightarrow> wf_replies (mo_extractor (rt_models rt))
     \<and> (\<forall>sample storage w s w'. rt_acquire rt sample storage w = (Inr s, w') \<longrightarrow> wf_session s)"

definition log_verifies :: "'w runtime \<Rightarrow> 'w proc \<Rightarrow> bool" where
  "log_verifies rt p \<longleftrightarrow> verify_chain (rt_sha rt) (px_audit p) = Inr True"

text \<open>Between samples: the audit chain verifies and every checkpoint holds JSON values.\<close>

definition proc_ok :: "'w runtime \<Rightarrow> 'w proc \<Rightarrow> bool" where
  "proc_ok rt p \<longleftrightarrow> log_verifies rt p \<and> (\<forall>t st. px_ckpt p t = Some st \<longrightarrow> result_values st)"

definition event_of :: "'w runtime \<Rightarrow> string \<Rightarrow> string \<Rightarrow> audit_row \<Rightarrow> bool" where
  "event_of rt sample kind row \<longleftrightarrow> a_kind row = kind \<and> a_sample_id row = Some sample \<and> a_run_id row = Some (rt_run_id rt)"

lemma proc_ok_world [simp]: "proc_ok rt (p\<lparr>px_sys := s\<rparr>) = proc_ok rt p"
  by (simp add: proc_ok_def log_verifies_def)

lemma log_eventD:
  assumes "log_event rt kind sample payload p = (r, p')" "proc_ok rt p" "wf_pyval (PDict payload)"
  shows "proc_ok rt p' \<and> (case r of Inl e \<Rightarrow> p' = p
    | Inr _ \<Rightarrow> \<exists>row. px_audit p' = px_audit p @ [row] \<and> event_of rt sample kind row)"
proof -
  let ?w = "sy_world (px_sys p)"
  let ?ev = "\<lparr>ev_kind = kind, ev_payload = Some payload, ev_run_id = Some (rt_run_id rt), ev_sample_id = Some sample, ev_id = None\<rparr>"
  have wf: "wf_event ?ev" using assms(3) by (simp add: wf_event_def payload_or_def)
  consider (fail) e where "r = Inl e" "p' = p"
    | (ok) rows h where "audit_append (rt_sha rt) (rt_clock rt ?w) (rt_uuid rt ?w (length (px_audit p))) ?ev (px_audit p) = Inr (rows, h)"
      "r = Inr ()" "p' = p\<lparr>px_audit := rows\<rparr>"
    using assms(1) by (auto simp: log_event_def Let_def split: sum.splits)
  then show ?thesis
  proof cases
    case fail
    with assms(2) show ?thesis by simp
  next
    case ok
    then have "sqlite_appends (rt_sha rt) (px_audit p) rows" using wf by (auto simp: sqlite_appends_def)
    with sqlite_log.append_verifies assms(2) ok have "proc_ok rt p'"
      by (auto simp: proc_ok_def log_verifies_def verify_chain_def)
    with ok show ?thesis by (auto simp: audit_append_def Let_def event_of_def make_row_def split: if_splits)
  qed
qed

lemma graph_last_reached: "\<exists>n' sy'. (graph_step d)\<^sup>*\<^sup>* (n, st, sy) (n', graph_last d limit n st sy, sy')"
proof (induction limit arbitrary: n st sy)
  case 0
  then show ?case by auto
next
  case (Suc limit)
  show ?case
  proof (cases "n = N_end \<or> (\<exists>e. fst (run_node d n st sy) = Inl e)")
    case True
    then have "graph_last d (Suc limit) n st sy = st" by (auto split: prod.splits)
    then show ?thesis by auto
  next
    case False
    then obtain us sy1 where r: "run_node d n st sy = (Inr us, sy1)" "n \<noteq> N_end"
      by (metis sum.exhaust fst_conv surj_pair)
    from graph_stepI [OF r(2,1)] Suc.IH [of "next_node n (merge_update st us)" "merge_update st us" sy1] r
    show ?thesis by (auto simp: Let_def intro: converse_rtranclp_into_rtranclp)
  qed
qed

lemma run_sample_values:
  assumes "wf_session (d_session d)" "wf_replies (d_extractor d)" "result_values st"
  shows "run_sample d st sy = (Inr st', sy') \<Longrightarrow> result_values st'"
    and "result_values (graph_last d limit n st sy)"
proof -
  show "result_values st'" if "run_sample d st sy = (Inr st', sy')"
  proof -
    have "graph_run d RECURSION_LIMIT N_classify st sy = (Finished st', sy')"
      using that by (auto simp: run_sample_def split: prod.splits run_end.splits)
    from graph_steps_values [OF assms(1,2) graph_run_steps [OF this]] assms(3) show ?thesis by simp
  qed
  show "result_values (graph_last d limit n st sy)"
    using graph_steps_values [OF assms(1,2)] graph_last_reached [of d n st sy limit] assms(3) by fastforce
qed

lemma blank_values: "result_values blank_state"
  by (simp add: result_values_def blank_state_def)

lemma input_values [simp]: "result_values (input_state rt job sample obs st) = result_values st"
  by (simp add: result_values_def input_state_def)

text \<open>A sample on its thread leaves the log alone and JSON values in its result and its checkpoint.\<close>

lemma run_agent_post:
  assumes "run_agent rt job sample obs session p = (r, p')" "proc_ok rt p" "wf_runtime rt" "wf_session session"
  shows "proc_ok rt p' \<and> px_audit p' = px_audit p \<and> (\<forall>st. r = Inr st \<longrightarrow> result_values st)"
proof -
  let ?d = "build_deps rt session"
  let ?st = "input_state rt job sample obs (case px_ckpt p sample of Some st \<Rightarrow> st | None \<Rightarrow> blank_state)"
  let ?sy = "(px_sys p)\<lparr>sy_memo := Map.empty\<rparr>"
  have d: "wf_session (d_session ?d)" "wf_replies (d_extractor ?d)"
    using assms(3,4) by (simp_all add: build_deps_def wf_runtime_def)
  have st: "result_values ?st" using assms(2) blank_values by (auto simp: proc_ok_def split: option.splits)
  obtain sy' where run: "run_sample ?d ?st ?sy = (r, sy')"
    and p': "p' = p\<lparr>px_sys := sy', px_ckpt := (px_ckpt p)(sample \<mapsto> graph_last ?d RECURSION_LIMIT N_classify ?st ?sy)\<rparr>"
    using assms(1) by (auto simp: run_agent_def thread_run_def Let_def split: prod.splits)
  show ?thesis
    using assms(2) run p' run_sample_values [OF d st]
    by (auto simp: proc_ok_def log_verifies_def)
qed

lemma auth_failure_wf: "wf_pyval (PDict job) \<Longrightarrow> wf_pyval (PDict (auth_failure job sample msg))"
  using wf_get [of job "''row_index''"] by (simp add: auth_failure_def)

lemma final_result_wf: "wf_pyval (PDict job) \<Longrightarrow> result_values st \<Longrightarrow> wf_pyval (PDict (final_result job sample st))"
  using wf_get [of job "''row_index''"] by (auto simp: final_result_def result_values_def py_or_def opt_pv_def split: option.splits)

lemma preflight_wf:
  assumes "run_preflight rt session url w = (Login_wall landed snap, w')" "wf_session session" "wf_pyval url"
  shows "wf_pyval landed"
proof -
  obtain w1 w2 where "s_snapshot session w1 = (Inr snap, w2)" "landed = py_or (dget snap ''url'') url"
    using assms(1) by (auto simp: run_preflight_def Let_def split: option.splits if_splits prod.splits sum.splits)
  with wf_sessionD(4) [OF assms(2)] wf_get [of snap "''url''"] assms(3) show ?thesis by (metis py_or_def)
qed

text \<open>What a body may leave behind: at most the event of a login wall, together with the result that reports it.\<close>

definition body_post :: "'w runtime \<Rightarrow> pydict \<Rightarrow> string \<Rightarrow> 'w proc \<Rightarrow> (exn + pydict + agent_state) \<Rightarrow> 'w proc \<Rightarrow> bool" where
  "body_post rt job sample p r p' \<longleftrightarrow> proc_ok rt p' \<and>
     (case r of
        Inl e \<Rightarrow> px_audit p' = px_audit p
      | Inr (Inl early) \<Rightarrow> (\<exists>msg extra. early = auth_failure job sample msg @ extra \<and> wf_pyval (PDict early))
          \<and> (\<exists>row. px_audit p' = px_audit p @ [row] \<and> event_of rt sample ''sample.failed'' row)
      | Inr (Inr st) \<Rightarrow> px_audit p' = px_audit p \<and> result_values st)"

lemma body_post_world [simp]: "body_post rt job sample (p\<lparr>px_sys := s\<rparr>) r p' = body_post rt job sample p r p'"
  by (auto simp: body_post_def split: sum.splits)

lemma agent_post:
  assumes "map_act Inr (run_agent rt job sample obs session) p = (r, p')" "proc_ok rt p" "wf_runtime rt" "wf_session session"
  shows "body_post rt job sample p r p'"
  using assms(1) run_agent_post [OF _ assms(2-4), of job sample obs]
  by (auto simp: body_post_def map_act_def bindA_def split: sum.splits prod.splits)

lemma write_row_simps [simp]:
  "proc_ok rt (write_row row p) = proc_ok rt p" "px_audit (write_row row p) = px_audit p"
  by (simp_all add: write_row_def proc_ok_def log_verifies_def)

lemma one_body_post:
  assumes "one_body rt job sample preauthed session p = (r, p')" "proc_ok rt p" "wf_runtime rt" "wf_session session"
    "wf_pyval (PDict job)"
  shows "body_post rt job sample p r p'"
proof -
  let ?url = "dget job ''start_url''"
  obtain pf w1 where pf: "run_preflight rt session ?url (sy_world (px_sys p)) = (pf, w1)" by fastforce
  let ?p1 = "p\<lparr>px_sys := (px_sys p)\<lparr>sy_world := w1\<rparr>\<rparr>"
  show ?thesis
  proof (cases pf)
    case (Page snap)
    with assms(1) pf have "map_act Inr (run_agent rt job sample (Some (seed_obs snap)) session) ?p1 = (r, p')"
      by (simp add: one_body_def Let_def onp_def)
    from agent_post [OF this _ assms(3,4)] assms(2) show ?thesis by simp
  next
    case (Login_wall landed snap)
    let ?payload = "[(''reason'', PStr ''auth_required''), (''host'', opt_pv (host_of (rt_v6 rt) ?url)), (''landed'', landed)]"
    have wf: "wf_pyval (PDict ?payload)"
      using preflight_wf [OF pf [unfolded Login_wall] assms(4) wf_get [OF assms(5)]] by (simp add: opt_pv_def split: option.splits)
    obtain lr p2 where log: "log_event rt ''sample.failed'' sample ?payload ?p1 = (lr, p2)" by fastforce
    have post: "proc_ok rt p2 \<and> (case lr of Inl e \<Rightarrow> p2 = ?p1
        | Inr _ \<Rightarrow> \<exists>row. px_audit p2 = px_audit ?p1 @ [row] \<and> event_of rt sample ''sample.failed'' row)"
      by (rule log_eventD [OF log _ wf]) (simp add: assms(2))
    show ?thesis
    proof (cases lr)
      case (Inl e)
      with assms(1) pf Login_wall log have "map_act Inr (run_agent rt job sample (Some (seed_obs (Some snap))) session) p2 = (r, p')"
        by (simp add: one_body_def Let_def onp_def)
      from agent_post [OF this _ assms(3,4)] post Inl show ?thesis by simp
    next
      case (Inr u)
      with assms(1) pf Login_wall log
      have "r = Inr (Inl (auth_failure job sample (auth_message (the (host_of (rt_v6 rt) ?url)) preauthed)))" "p' = p2"
        by (auto simp: one_body_def Let_def onp_def)
      with post Inr auth_failure_wf [OF assms(5)] show ?thesis by (auto simp: body_post_def)
    qed
  qed
qed

lemma worker_body_post:
  assumes "worker_body rt worker job sample preauthed session p = (r, p')" "proc_ok rt p" "wf_runtime rt" "wf_session session"
    "wf_pyval (PDict job)"
  shows "body_post rt job sample p r p'"
proof -
  let ?url = "dget job ''start_url''"
  obtain pf w1 where pf: "run_preflight rt session ?url (sy_world (px_sys p)) = (pf, w1)" by fastforce
  let ?p1 = "p\<lparr>px_sys := (px_sys p)\<lparr>sy_world := w1\<rparr>\<rparr>"
  show ?thesis
  proof (cases pf)
    case (Page snap)
    with assms(1) pf have "map_act Inr (run_agent rt job sample None session) ?p1 = (r, p')"
      by (simp add: worker_body_def Let_def onp_def)
    from agent_post [OF this _ assms(3,4)] assms(2) show ?thesis by simp
  next
    case (Login_wall landed snap)
    let ?payload = "[(''reason'', PStr ''auth_required''), (''host'', opt_pv (host_of (rt_v6 rt) ?url)), (''worker'', PStr worker)]"
    have wf: "wf_pyval (PDict ?payload)" by (simp add: opt_pv_def split: option.splits)
    obtain lr p2 where log: "log_event rt ''sample.failed'' sample ?payload ?p1 = (lr, p2)" by fastforce
    have post: "proc_ok rt p2 \<and> (case lr of Inl e \<Rightarrow> p2 = ?p1
        | Inr _ \<Rightarrow> \<exists>row. px_audit p2 = px_audit ?p1 @ [row] \<and> event_of rt sample ''sample.failed'' row)"
      by (rule log_eventD [OF log _ wf]) (simp add: assms(2))
    show ?thesis
    proof (cases lr)
      case (Inl e)
      with assms(1) pf Login_wall log have "map_act Inr (run_agent rt job sample None session) p2 = (r, p')"
        by (simp add: worker_body_def Let_def onp_def)
      from agent_post [OF this _ assms(3,4)] post Inl show ?thesis by simp
    next
      case (Inr u)
      let ?early = "auth_failure job sample (auth_message (the (host_of (rt_v6 rt) ?url)) preauthed) @ [(''worker_id'', PStr worker)]"
      from Inr assms(1) pf Login_wall log have "r = Inr (Inl ?early)" "p' = write_row ?early p2"
        by (auto simp: worker_body_def Let_def onp_def)
      moreover have "wf_pyval (PDict ?early)" using wf_get [OF assms(5), of "''row_index''"] by (simp add: auth_failure_def)
      ultimately show ?thesis using post Inr by (auto simp: body_post_def)
    qed
  qed
qed

lemma with_session_post:
  assumes "with_session rt sample storage body p = (r, p')" "proc_ok rt p" "wf_runtime rt"
    "\<And>session p1 r p2. body session p1 = (r, p2) \<Longrightarrow> proc_ok rt p1 \<Longrightarrow> wf_session session \<Longrightarrow> body_post rt job sample p1 r p2"
  shows "body_post rt job sample p r p'"
proof -
  obtain a w1 where acq: "rt_acquire rt sample storage (sy_world (px_sys p)) = (a, w1)" by fastforce
  let ?p1 = "p\<lparr>px_sys := (px_sys p)\<lparr>sy_world := w1\<rparr>\<rparr>"
  show ?thesis
  proof (cases a)
    case (Inl e)
    with assms(1,2) acq show ?thesis by (auto simp: with_session_def onp_def body_post_def)
  next
    case (Inr session)
    obtain r2 p2 where b: "body session ?p1 = (r2, p2)" by fastforce
    have "wf_session session" using assms(3) acq Inr unfolding wf_runtime_def by metis
    from assms(4) [OF b _ this] assms(2) have "body_post rt job sample p r2 p2" by simp
    with assms(1) acq Inr b show ?thesis by (auto simp: with_session_def onp_def body_post_def split: sum.splits)
  qed
qed

text \<open>The shape both versions of an attempt have: the start is logged, the body runs, the end is logged.\<close>

lemma attempt_shape:
  assumes run: "bindA (log_event rt ''sample.started'' sample start) (\<lambda>_. bindA (with_session rt sample storage body)
      (\<lambda>r. case r of Inl early \<Rightarrow> returnA early
        | Inr final \<Rightarrow> bindA (log_event rt (end_kind (finish final)) sample (stop final)) (\<lambda>_. leave final))) p = (r, p')"
    and p: "proc_ok rt p" and rt: "wf_runtime rt" and start: "wf_pyval (PDict start)"
    and body: "\<And>session p1 r p2. body session p1 = (r, p2) \<Longrightarrow> proc_ok rt p1 \<Longrightarrow> wf_session session \<Longrightarrow> body_post rt job sample p1 r p2"
    and finish: "\<And>st. result_values st \<Longrightarrow> \<exists>extra. finish st = final_result job sample st @ extra \<and> wf_pyval (PDict (finish st))"
    and stop: "\<And>st. result_values st \<Longrightarrow> wf_pyval (PDict (stop st))"
    and leave: "\<And>st p1 r p2. leave st p1 = (r, p2) \<Longrightarrow> r = Inr (finish st) \<and> px_audit p2 = px_audit p1 \<and> proc_ok rt p2 = proc_ok rt p1"
  shows "proc_ok rt p' \<and> (case r of
      Inl e \<Rightarrow> px_audit p' = px_audit p \<or> (\<exists>s. px_audit p' = px_audit p @ [s] \<and> event_of rt sample ''sample.started'' s)
    | Inr res \<Rightarrow> wf_pyval (PDict res) \<and> dget res ''sample_id'' = PStr sample \<and> dget res ''row_index'' = dget job ''row_index''
        \<and> (\<exists>s e. px_audit p' = px_audit p @ [s, e] \<and> event_of rt sample ''sample.started'' s \<and> event_of rt sample (end_kind res) e))"
proof -
  obtain r1 p1 where l1: "log_event rt ''sample.started'' sample start p = (r1, p1)" by fastforce
  note post1 = log_eventD [OF l1 p start]
  show ?thesis
  proof (cases r1)
    case (Inl e)
    with run l1 post1 show ?thesis by auto
  next
    case (Inr u)
    with post1 obtain s where s: "px_audit p1 = px_audit p @ [s]" "event_of rt sample ''sample.started'' s" "proc_ok rt p1" by auto
    obtain r2 p2 where l2: "with_session rt sample storage body p1 = (r2, p2)" by fastforce
    have post2: "body_post rt job sample p1 r2 p2" using l2 s(3) rt body by (rule with_session_post)
    show ?thesis
    proof (cases r2)
      case (Inl e)
      with run l1 l2 Inr post2 s show ?thesis by (auto simp: body_post_def)
    next
      case r2: (Inr x)
      show ?thesis
      proof (cases x)
        case (Inl early)
        with run l1 l2 Inr r2 have "r = Inr early" "p' = p2" by auto
        with post2 r2 Inl s show ?thesis by (auto simp: body_post_def auth_failure_def end_kind_def)
      next
        case x: (Inr st)
        with post2 r2 have st: "result_values st" "px_audit p2 = px_audit p1" "proc_ok rt p2" by (simp_all add: body_post_def)
        obtain r3 p3 where l3: "log_event rt (end_kind (finish st)) sample (stop st) p2 = (r3, p3)" by fastforce
        note post3 = log_eventD [OF l3 st(3) stop [OF st(1)]]
        obtain extra where f: "finish st = final_result job sample st @ extra" "wf_pyval (PDict (finish st))" using finish [OF st(1)] by auto
        show ?thesis
        proof (cases r3)
          case (Inl e)
          with run l1 l2 l3 Inr r2 x have "r = Inl e" "p' = p3" by auto
          with post3 st s Inl show ?thesis by auto
        next
          case r3: (Inr u)
          with run l1 l2 l3 Inr r2 x have "leave st p3 = (r, p')" by auto
          from leave [OF this] post3 st s r3 f show ?thesis by (auto simp: final_result_def)
        qed
      qed
    qed
  qed
qed

lemma run_one_shape:
  assumes "run_one rt job p = (r, p')" "job_sample job = Inr sample" "proc_ok rt p" "wf_runtime rt" "wf_pyval (PDict job)"
  shows "proc_ok rt p' \<and> (case r of
      Inl e \<Rightarrow> px_audit p' = px_audit p \<or> (\<exists>s. px_audit p' = px_audit p @ [s] \<and> event_of rt sample ''sample.started'' s)
    | Inr res \<Rightarrow> wf_pyval (PDict res) \<and> dget res ''sample_id'' = PStr sample \<and> dget res ''row_index'' = dget job ''row_index''
        \<and> (\<exists>s e. px_audit p' = px_audit p @ [s, e] \<and> event_of rt sample ''sample.started'' s \<and> event_of rt sample (end_kind res) e))"
proof (rule attempt_shape)
  show "bindA (log_event rt ''sample.started'' sample
         [(''row_index'', dget job ''row_index''), (''host'', opt_pv (host_of (rt_v6 rt) (dget job ''start_url''))),
          (''preauthed'', PBool (merged_session rt p \<noteq> None))])
      (\<lambda>_. bindA (with_session rt sample (merged_session rt p) (one_body rt job sample (merged_session rt p \<noteq> None)))
      (\<lambda>r. case r of Inl early \<Rightarrow> returnA early
        | Inr final \<Rightarrow> bindA (log_event rt (end_kind (final_result job sample final)) sample
            [(''verdict'', dget (final_result job sample final) ''verdict''), (''row_index'', dget (final_result job sample final) ''row_index'')])
            (\<lambda>_. returnA (final_result job sample final)))) p = (r, p')"
    using assms(1,2) by (simp add: run_one_def Let_def)
  have row: "wf_pyval (dget job ''row_index'')" using assms(5) by (rule wf_get)
  show "proc_ok rt p" "wf_runtime rt" by fact+
  show "wf_pyval (PDict [(''row_index'', dget job ''row_index''), (''host'', opt_pv (host_of (rt_v6 rt) (dget job ''start_url''))),
      (''preauthed'', PBool (merged_session rt p \<noteq> None))])"
    using row by (simp add: opt_pv_def split: option.splits)
  show "body_post rt job sample p1 r p2"
    if "one_body rt job sample (merged_session rt p \<noteq> None) session p1 = (r, p2)" "proc_ok rt p1" "wf_session session"
    for session p1 r p2 using that by (rule one_body_post [OF _ _ assms(4) _ assms(5)])
  show "\<exists>extra. final_result job sample st = final_result job sample st @ extra \<and> wf_pyval (PDict (final_result job sample st))"
    if "result_values st" for st using final_result_wf [OF assms(5) that] by (intro exI [of _ "[]"]) simp
  show "wf_pyval (PDict [(''verdict'', dget (final_result job sample st) ''verdict''), (''row_index'', dget (final_result job sample st) ''row_index'')])"
    if "result_values st" for st using that row by (simp add: final_result_def result_values_def)
qed (auto simp: returnA_def)

lemma execute_sample_shape:
  assumes "execute_sample rt worker job p = (r, p')" "job_sample job = Inr sample" "proc_ok rt p" "wf_runtime rt" "wf_pyval (PDict job)"
  shows "proc_ok rt p' \<and> (case r of
      Inl e \<Rightarrow> px_audit p' = px_audit p \<or> (\<exists>s. px_audit p' = px_audit p @ [s] \<and> event_of rt sample ''sample.started'' s)
    | Inr res \<Rightarrow> wf_pyval (PDict res) \<and> dget res ''sample_id'' = PStr sample \<and> dget res ''row_index'' = dget job ''row_index''
        \<and> (\<exists>s e. px_audit p' = px_audit p @ [s, e] \<and> event_of rt sample ''sample.started'' s \<and> event_of rt sample (end_kind res) e))"
proof (rule attempt_shape)
  let ?fin = "\<lambda>st. final_result job sample st @ [(''worker_id'', PStr worker)]"
  show "bindA (log_event rt ''sample.started'' sample
         [(''row_index'', dget job ''row_index''), (''worker'', PStr worker), (''host'', opt_pv (host_of (rt_v6 rt) (dget job ''start_url''))),
          (''preauthed'', PBool (merged_session rt p \<noteq> None))])
      (\<lambda>_. bindA (with_session rt sample (merged_session rt p) (worker_body rt worker job sample (merged_session rt p \<noteq> None)))
      (\<lambda>r. case r of Inl early \<Rightarrow> returnA early
        | Inr final \<Rightarrow> bindA (log_event rt (end_kind (?fin final)) sample [(''verdict'', dget (?fin final) ''verdict''), (''worker'', PStr worker)])
            (\<lambda>_ p. (Inr (?fin final), write_row (?fin final) p)))) p = (r, p')"
    using assms(1,2) by (simp add: execute_sample_def Let_def)
  have row: "wf_pyval (dget job ''row_index'')" using assms(5) by (rule wf_get)
  show "proc_ok rt p" "wf_runtime rt" by fact+
  show "wf_pyval (PDict [(''row_index'', dget job ''row_index''), (''worker'', PStr worker), (''host'', opt_pv (host_of (rt_v6 rt) (dget job ''start_url''))),
      (''preauthed'', PBool (merged_session rt p \<noteq> None))])"
    using row by (simp add: opt_pv_def split: option.splits)
  show "body_post rt job sample p1 r p2"
    if "worker_body rt worker job sample (merged_session rt p \<noteq> None) session p1 = (r, p2)" "proc_ok rt p1" "wf_session session"
    for session p1 r p2 using that by (rule worker_body_post [OF _ _ assms(4) _ assms(5)])
  show "\<exists>extra. ?fin st = final_result job sample st @ extra \<and> wf_pyval (PDict (?fin st))"
    if "result_values st" for st using final_result_wf [OF assms(5) that] by (auto simp: final_result_def wf_items_set)
  show "wf_pyval (PDict [(''verdict'', dget (?fin st) ''verdict''), (''worker'', PStr worker)])"
    if "result_values st" for st using that by (simp add: final_result_def result_values_def)
qed auto

subsection \<open>Retries\<close>

lemma input_keeps [simp]:
  "st_plan_count (input_state rt job sample obs st) = st_plan_count st"
  "st_task_type (input_state rt job sample obs st) = st_task_type st"
  "has_tool_error (input_state rt job sample obs st) = has_tool_error st"
  "st_verdict (input_state rt job sample obs st) = st_verdict st"
  by (simp_all add: input_state_def has_tool_error_def)

text \<open>With the plannings used up, a run ends at the plan node without a call.\<close>

lemma plan_cap_run:
  assumes "PLAN_MAX \<le> st_plan_count st" "st_task_type st \<noteq> []" "2 \<le> limit"
  shows "graph_run d limit N_classify st sy =
      (Finished (merge_update st (plan_failed (''plan cap reached ('' @ show_nat PLAN_MAX @ '' attempts)'') (st_plan_count st + 1))), sy)"
    and "graph_last d limit N_classify st sy =
      merge_update st (plan_failed (''plan cap reached ('' @ show_nat PLAN_MAX @ '' attempts)'') (st_plan_count st + 1))"
proof -
  obtain l where l: "limit = Suc (Suc l)" using assms(3) by (metis One_nat_def Suc_1 Suc_le_D Suc_le_mono)
  have end_run: "graph_run d l N_end s sy = (Finished s, sy)" "graph_last d l N_end s sy = s" for s by (cases l; simp)+
  show "graph_run d limit N_classify st sy =
      (Finished (merge_update st (plan_failed (''plan cap reached ('' @ show_nat PLAN_MAX @ '' attempts)'') (st_plan_count st + 1))), sy)"
    "graph_last d limit N_classify st sy =
      merge_update st (plan_failed (''plan cap reached ('' @ show_nat PLAN_MAX @ '' attempts)'') (st_plan_count st + 1))"
    using assms(1,2) end_run
    by (simp_all add: l classify_node_def plan_node_def Let_def plan_failed_def route_after_plan_def)
qed

subsection \<open>A concrete attempt\<close>

definition demo_rt :: "unit runtime" where
  "demo_rt = \<lparr> rt_run_id = ''run-1'', rt_task = [(''prompt'', PStr ''look'')],
     rt_models = \<lparr> mo_planner = d_planner (demo_deps demo_plan), mo_navigator = d_navigator (demo_deps demo_plan),
       mo_extractor = d_extractor (demo_deps demo_plan), mo_judge = d_judge (demo_deps demo_plan), mo_vision = None \<rparr>,
     rt_deps = demo_deps demo_plan, rt_sha = demo_sha, rt_v6 = (\<lambda>_. False), rt_crypto = xor_crypto, rt_master_key = None,
     rt_acquire = (\<lambda>_ _. returnA demo_session), rt_release = id, rt_clock = (\<lambda>_. ''t''),
     rt_uuid = (\<lambda>_ n. ''e'' @ show_nat n) \<rparr>"

definition demo_proc :: "unit proc" where
  "demo_proc = \<lparr> px_sys = demo_sys, px_audit = [], px_ckpt = Map.empty, px_creds = [], px_record = (progress_empty, None) \<rparr>"

definition demo_job :: pydict where
  "demo_job = [(''sample_id'', PStr ''run-1-00000''), (''row_index'', PInt 0), (''input_data'', PDict [])]"

lemma demo_rt_wf: "wf_runtime demo_rt"
  by (auto simp: wf_runtime_def demo_rt_def demo_deps_def wf_replies_def wf_session_def demo_session_def)

lemma demo_proc_ok: "proc_ok demo_rt demo_proc"
  by (simp add: proc_ok_def log_verifies_def demo_proc_def)

section \<open>Properties\<close>

text \<open>
  C13: every attempt at a sample is accounted for. If it returns a result, by the coordinator or by a
  standalone worker, the result is a JSON object for that sample and row, and the audit log has grown by
  exactly a \<open>sample.started\<close> and then a \<open>sample.completed\<close> or \<open>sample.failed\<close> event, the former only for
  a pass. If it raises, at most the start was logged. The chain still verifies either way, and so does
  the invariant the next attempt needs.
\<close>

theorem sample_attempt_is_logged:
  assumes "run_one rt job p = (r, p') \<or> execute_sample rt worker job p = (r, p')"
    and "job_sample job = Inr sample" "wf_pyval (PDict job)" "wf_runtime rt" "proc_ok rt p"
  shows "proc_ok rt p' \<and> verify_chain (rt_sha rt) (px_audit p') = Inr True \<and> (case r of
      Inl e \<Rightarrow> px_audit p' = px_audit p \<or> (\<exists>s. px_audit p' = px_audit p @ [s] \<and> event_of rt sample ''sample.started'' s)
    | Inr res \<Rightarrow> wf_pyval (PDict res) \<and> dget res ''sample_id'' = PStr sample \<and> dget res ''row_index'' = dget job ''row_index''
        \<and> (\<exists>s e. px_audit p' = px_audit p @ [s, e] \<and> event_of rt sample ''sample.started'' s
             \<and> event_of rt sample (if dget res ''verdict'' = PStr ''pass'' then ''sample.completed'' else ''sample.failed'') e))"
proof -
  have "proc_ok rt p' \<and> (case r of
      Inl e \<Rightarrow> px_audit p' = px_audit p \<or> (\<exists>s. px_audit p' = px_audit p @ [s] \<and> event_of rt sample ''sample.started'' s)
    | Inr res \<Rightarrow> wf_pyval (PDict res) \<and> dget res ''sample_id'' = PStr sample \<and> dget res ''row_index'' = dget job ''row_index''
        \<and> (\<exists>s e. px_audit p' = px_audit p @ [s, e] \<and> event_of rt sample ''sample.started'' s \<and> event_of rt sample (end_kind res) e))"
    using assms(1)
  proof
    assume "run_one rt job p = (r, p')"
    then show ?thesis by (rule run_one_shape [OF _ assms(2,5,4,3)])
  next
    assume "execute_sample rt worker job p = (r, p')"
    then show ?thesis by (rule execute_sample_shape [OF _ assms(2,5,4,3)])
  qed
  then show ?thesis unfolding end_kind_def by (simp add: proc_ok_def log_verifies_def)
qed

theorem sample_attempt_is_logged_witness:
  "verify_chain demo_sha (px_audit (snd (run_one demo_rt demo_job demo_proc))) = Inr True"
  using sample_attempt_is_logged [of demo_rt demo_job demo_proc "fst (run_one demo_rt demo_job demo_proc)"
      "snd (run_one demo_rt demo_job demo_proc)" "''w''" "''run-1-00000''"] demo_rt_wf demo_proc_ok
  by (simp add: demo_job_def job_sample_def getitem_def field_str_def demo_rt_def)

text \<open>
  A retry is not a fresh start. The checkpointer's thread is the sample, so a second attempt finds
  the planning count of the first: if that attempt used up its plannings, the retry fails at once with
  the plan cap, calls no model and no tool, and leaves a checkpoint from which every further retry fails
  in the same way. A tool error of the first attempt is likewise there from the start, in every state
  the retry reaches.
\<close>

theorem retry_inherits_checkpoint:
  assumes "px_ckpt p sample = Some st"
  shows "(PLAN_MAX \<le> st_plan_count st \<and> st_task_type st \<noteq> [] \<longrightarrow>
      (\<exists>st' p'. run_agent rt job sample obs session p = (Inr st', p') \<and> st_status st' = Failed
        \<and> st_error st' = Some (''plan cap reached ('' @ show_nat PLAN_MAX @ '' attempts)'')
        \<and> sy_world (px_sys p') = sy_world (px_sys p) \<and> px_ckpt p' sample = Some st'
        \<and> PLAN_MAX \<le> st_plan_count st' \<and> st_task_type st' \<noteq> []))
    \<and> (has_tool_error st \<longrightarrow> (\<forall>n' st' sy sy'.
        (graph_step (build_deps rt session))\<^sup>*\<^sup>* (N_classify, input_state rt job sample obs st, sy) (n', st', sy')
        \<longrightarrow> has_tool_error st'))"
proof -
  let ?in = "input_state rt job sample obs st"
  have "has_tool_error st'" if "has_tool_error st"
    "(graph_step (build_deps rt session))\<^sup>*\<^sup>* (N_classify, ?in, sy) (n', st', sy')" for n' st' sy sy'
    using tool_error_steps [OF that(2)] that(1) by simp
  moreover have "\<exists>st' p'. run_agent rt job sample obs session p = (Inr st', p') \<and> st_status st' = Failed
        \<and> st_error st' = Some (''plan cap reached ('' @ show_nat PLAN_MAX @ '' attempts)'')
        \<and> sy_world (px_sys p') = sy_world (px_sys p) \<and> px_ckpt p' sample = Some st'
        \<and> PLAN_MAX \<le> st_plan_count st' \<and> st_task_type st' \<noteq> []"
    if "PLAN_MAX \<le> st_plan_count st" "st_task_type st \<noteq> []"
    using plan_cap_run [of ?in RECURSION_LIMIT "build_deps rt session" "(px_sys p)\<lparr>sy_memo := Map.empty\<rparr>"] that assms
    by (simp add: run_agent_def thread_run_def Let_def run_sample_def RECURSION_LIMIT_def plan_failed_def)
  ultimately show ?thesis by blast
qed

theorem retry_inherits_checkpoint_witness:
  "\<exists>st' p'. run_agent demo_rt demo_job ''s'' None demo_session
       (demo_proc\<lparr>px_ckpt := [''s'' \<mapsto> blank_state\<lparr>st_plan_count := 4, st_task_type := ''extract''\<rparr>]\<rparr>) = (Inr st', p')
     \<and> st_status st' = Failed"
  using retry_inherits_checkpoint [of "demo_proc\<lparr>px_ckpt := [''s'' \<mapsto> blank_state\<lparr>st_plan_count := 4, st_task_type := ''extract''\<rparr>]\<rparr>"
      "''s''" "blank_state\<lparr>st_plan_count := 4, st_task_type := ''extract''\<rparr>" demo_rt demo_job None demo_session]
  by (auto simp: PLAN_MAX_def)

end
