(* ===== verification/TaskQueue.thy ===== *)
theory TaskQueue
  imports Json
begin

text \<open>
  The \<open>TaskQueue\<close> port of \<open>contracts/protocols.py\<close>: what the orchestrator relies on from either
  queue, as a locale, and the loop of the workers over it (\<open>RunWorkflow._worker\<close> in
  \<open>orchestrator/runner.py\<close>, \<open>WorkerNode.run\<close> and \<open>run_agent_pool\<close> in \<open>worker.py\<close>), as one function
  that takes the queue's operations as arguments. Times are microseconds since the epoch; the ISO
  texts the code compares order the same way.
\<close>

datatype item_status = Pending | Claimed | Done | Dead

text \<open>What one queue call reads from outside: the clock and a fresh \<open>uuid4\<close>.\<close>

record qenv =
  e_now :: int
  e_uuid :: string

subsection \<open>The worker loop\<close>

text \<open>How one delivered job ends: \<open>ack\<close>, or \<open>nack\<close> with a reason.\<close>

datatype outcome = Ack | Nack string

text \<open>
  \<open>res.get("verdict") == "pass" or res.get("status") == "done"\<close> decides between \<open>ack\<close> and
  \<open>nack(item_id, res.get("error") or "no verdict")\<close>; the three loops share it. An exception from
  the job becomes a \<open>nack\<close> with its text.
\<close>

definition job_outcome :: "pydict \<Rightarrow> outcome" where
  "job_outcome res =
     (if dget res ''verdict'' = PStr ''pass'' \<or> dget res ''status'' = PStr ''done'' then Ack
      else Nack (case dget res ''error'' of PStr e \<Rightarrow> if e = [] then ''no verdict'' else e
                 | _ \<Rightarrow> ''no verdict''))"

definition settle_outcome :: "exn + pydict \<Rightarrow> outcome" where
  "settle_outcome r = (case r of Inl e \<Rightarrow> Nack (exn_text e) | Inr res \<Rightarrow> job_outcome res)"

text \<open>The item id of a delivered job: \<open>job["item_id"]\<close>.\<close>

definition job_item_id :: "pydict \<Rightarrow> string" where
  "job_item_id job = (case dget job ''item_id'' of PStr i \<Rightarrow> i | _ \<Rightarrow> [])"

text \<open>
  The operations as the loop sees them: \<open>deq\<close> gives the claimed job or \<open>None\<close> (an
  exception of its own leaves the loop), \<open>work\<close> runs a job in
  the world \<open>'w\<close>, \<open>stop\<close> reads the stop event, \<open>env\<close> the clock and identifiers of the next call. The
  fuel bounds the number of jobs; \<open>task_queue.worker_loop_enough\<close> says how much is enough.
\<close>

fun worker_loop ::
  "(qenv \<Rightarrow> 'q \<Rightarrow> (exn + pydict option) \<times> 'q) \<Rightarrow> (qenv \<Rightarrow> string \<Rightarrow> 'q \<Rightarrow> 'q)
   \<Rightarrow> (qenv \<Rightarrow> string \<Rightarrow> string \<Rightarrow> 'q \<Rightarrow> 'q) \<Rightarrow> ('w \<Rightarrow> bool) \<Rightarrow> ('w \<Rightarrow> qenv)
   \<Rightarrow> (pydict \<Rightarrow> ('w, pydict) act) \<Rightarrow> nat \<Rightarrow> 'q \<times> 'w \<Rightarrow> ((exn + unit) \<times> 'q \<times> 'w) option" where
  "worker_loop deq ack nack stop env work 0 (q, w) = None"
| "worker_loop deq ack nack stop env work (Suc fuel) (q, w) =
     (if stop w then Some (Inr (), q, w)
      else (case deq (env w) q of
              (Inl ex, q') \<Rightarrow> Some (Inl ex, q', w)
            | (Inr None, q') \<Rightarrow> Some (Inr (), q', w)
            | (Inr (Some job), q') \<Rightarrow>
                (case work job w of
                   (r, w') \<Rightarrow>
                     (let i = job_item_id job;
                          q'' = (case settle_outcome r of
                                   Ack \<Rightarrow> ack (env w') i q'
                                 | Nack reason \<Rightarrow> nack (env w') i reason q')
                      in worker_loop deq ack nack stop env work fuel (q'', w')))))"

subsection \<open>Several workers on one queue\<close>

text \<open>
  A step of the system: some worker claims a job, finishes the one it holds with \<open>ack\<close> or \<open>nack\<close>,
  or dies holding it. Queue operations are serialised (a lock and a transaction, or one Redis
  pipeline), so a step is one of them. \<open>held w\<close> is the item worker \<open>w\<close> is running.
\<close>

inductive pool_step ::
  "(qenv \<Rightarrow> 'q \<Rightarrow> (exn + pydict option) \<times> 'q) \<Rightarrow> (qenv \<Rightarrow> string \<Rightarrow> 'q \<Rightarrow> 'q)
   \<Rightarrow> (qenv \<Rightarrow> string \<Rightarrow> string \<Rightarrow> 'q \<Rightarrow> 'q)
   \<Rightarrow> 'q \<times> (nat \<Rightarrow> string option) \<Rightarrow> 'q \<times> (nat \<Rightarrow> string option) \<Rightarrow> bool"
  for deq ack nack where
  step_claim: "held w = None \<Longrightarrow> deq e q = (Inr (Some job), q')
     \<Longrightarrow> pool_step deq ack nack (q, held) (q', held(w := Some (job_item_id job)))"
| step_ack: "held w = Some i
     \<Longrightarrow> pool_step deq ack nack (q, held) (ack e i q, held(w := None))"
| step_nack: "held w = Some i
     \<Longrightarrow> pool_step deq ack nack (q, held) (nack e i reason q, held(w := None))"
| step_crash: "held w = Some i
     \<Longrightarrow> pool_step deq ack nack (q, held) (q, held(w := None))"

text \<open>Every held item is claimed in the queue, and no item is held twice.\<close>

definition pool_inv :: "('q \<Rightarrow> string \<Rightarrow> item_status option) \<Rightarrow> ('q \<Rightarrow> bool)
    \<Rightarrow> 'q \<times> (nat \<Rightarrow> string option) \<Rightarrow> bool" where
  "pool_inv status_of qinv s \<longleftrightarrow> qinv (fst s)
     \<and> (\<forall>w i. snd s w = Some i \<longrightarrow> status_of (fst s) i = Some Claimed)
     \<and> (\<forall>w w' i. snd s w = Some i \<longrightarrow> snd s w' = Some i \<longrightarrow> w = w')"

subsection \<open>The interface\<close>

text \<open>
  \<open>status_of\<close> and \<open>attempts_of\<close> are what a queue shows of an item, \<open>qinv\<close> its invariant, \<open>q_max\<close> the
  \<open>max_attempts\<close> it was built with. A job comes out under the id it is stored with; \<open>ack\<close> and \<open>nack\<close>
  are used on claimed items, \<open>enq\<close> on fresh ids.
\<close>

locale task_queue =
  fixes status_of :: "'q \<Rightarrow> string \<Rightarrow> item_status option"
    and attempts_of :: "'q \<Rightarrow> string \<Rightarrow> nat"
    and qinv :: "'q \<Rightarrow> bool"
    and q_max :: nat
    and enq :: "qenv \<Rightarrow> pydict \<Rightarrow> 'q \<Rightarrow> string \<times> 'q"
    and deq :: "qenv \<Rightarrow> 'q \<Rightarrow> (exn + pydict option) \<times> 'q"
    and ack :: "qenv \<Rightarrow> string \<Rightarrow> 'q \<Rightarrow> 'q"
    and nack :: "qenv \<Rightarrow> string \<Rightarrow> string \<Rightarrow> 'q \<Rightarrow> 'q"
  assumes finite_items: "qinv q \<Longrightarrow> finite (dom (status_of q))"
    and live_attempts: "qinv q \<Longrightarrow> status_of q i = Some s \<Longrightarrow> s \<in> {Pending, Claimed} \<Longrightarrow> attempts_of q i < q_max"
    and enq_law: "qinv q \<Longrightarrow> enq e item q = (i, q') \<Longrightarrow> status_of q i = None \<Longrightarrow> 0 < q_max
      \<Longrightarrow> wf_pyval (PDict item)
      \<Longrightarrow> qinv q' \<and> status_of q' = (status_of q)(i \<mapsto> Pending) \<and> attempts_of q' = (attempts_of q)(i := 0)"
    and deq_returns: "qinv q \<Longrightarrow> \<exists>job q'. deq e q = (Inr job, q')"
    and deq_None: "qinv q \<Longrightarrow> deq e q = (Inr None, q') \<Longrightarrow> q' = q \<and> (\<forall>i. status_of q i \<noteq> Some Pending)"
    and deq_Some: "qinv q \<Longrightarrow> deq e q = (Inr (Some job), q') \<Longrightarrow> qinv q' \<and>
      status_of q (job_item_id job) = Some Pending \<and>
      status_of q' = (status_of q)(job_item_id job \<mapsto> Claimed) \<and> attempts_of q' = attempts_of q"
    and ack_law: "qinv q \<Longrightarrow> status_of q i = Some Claimed \<Longrightarrow> qinv (ack e i q) \<and>
      status_of (ack e i q) = (status_of q)(i \<mapsto> Done) \<and> attempts_of (ack e i q) = attempts_of q"
    and nack_law: "qinv q \<Longrightarrow> status_of q i = Some Claimed \<Longrightarrow> qinv (nack e i reason q) \<and>
      status_of (nack e i reason q) =
        (status_of q)(i \<mapsto> (if q_max \<le> Suc (attempts_of q i) then Dead else Pending)) \<and>
      attempts_of (nack e i reason q) = (attempts_of q)(i := Suc (attempts_of q i))"

text \<open>The deliveries a queue can still make: what is left of every pending item's attempts.\<close>

definition deliveries_left ::
  "('q \<Rightarrow> string \<Rightarrow> item_status option) \<Rightarrow> ('q \<Rightarrow> string \<Rightarrow> nat) \<Rightarrow> nat \<Rightarrow> 'q \<Rightarrow> nat" where
  "deliveries_left status_of attempts_of q_max q =
     (\<Sum>i | status_of q i = Some Pending. q_max - attempts_of q i)"

context task_queue
begin

lemma finite_pending: "qinv q \<Longrightarrow> finite {i. status_of q i = Some Pending}"
  by (rule finite_subset [OF _ finite_items]) auto

text \<open>A claim removes an item from the sum, a \<open>nack\<close> may put it back with one attempt less.\<close>

lemma deliveries_after_settle:
  assumes inv: "qinv q" and deq: "deq e q = (Inr (Some job), q')" and i: "i = job_item_id job"
    and settle: "q'' = ack e' i q' \<or> q'' = nack e' i reason q'"
  shows "qinv q''"
    and "deliveries_left status_of attempts_of q_max q'' < deliveries_left status_of attempts_of q_max q"
    and "\<forall>j. j \<noteq> i \<longrightarrow> status_of q'' j = status_of q j \<and> attempts_of q'' j = attempts_of q j"
    and "status_of q'' i \<in> {Some Pending, Some Done, Some Dead}"
proof -
  note d = deq_Some [OF inv deq, folded i]
  let ?P = "{j. status_of q j = Some Pending}"
  let ?f = "\<lambda>q j. q_max - attempts_of q j"
  have claimed: "status_of q' i = Some Claimed" using d by simp
  have lt: "attempts_of q i < q_max" using live_attempts [OF inv, of i Pending] d by simp
  have fin: "finite ?P" using finite_pending [OF inv] .
  have iP: "i \<in> ?P" using d by simp
  note a = ack_law [of q' i e', OF conjunct1 [OF d] claimed]
  note n = nack_law [of q' i e' reason, OF conjunct1 [OF d] claimed]
  show "qinv q''" using settle a n by auto
  show "\<forall>j. j \<noteq> i \<longrightarrow> status_of q'' j = status_of q j \<and> attempts_of q'' j = attempts_of q j"
    using settle a n d by auto
  show "status_of q'' i \<in> {Some Pending, Some Done, Some Dead}"
    using settle a n by (auto split: if_splits)
  have sum_q: "sum (?f q) ?P = ?f q i + sum (?f q) (?P - {i})"
    using fin iP by (simp add: sum.remove)
  have rest: "sum (?f q'') (?P - {i}) = sum (?f q) (?P - {i})"
    using settle a n d by (intro sum.cong) auto
  have "{j. status_of q'' j = Some Pending} = ?P - {i} \<or>
        {j. status_of q'' j = Some Pending} = ?P \<and> attempts_of q'' i = Suc (attempts_of q i)"
    using settle a n d by (auto split: if_splits)
  then show "deliveries_left status_of attempts_of q_max q'' < deliveries_left status_of attempts_of q_max q"
  proof
    assume "{j. status_of q'' j = Some Pending} = ?P - {i}"
    then show ?thesis using sum_q rest lt by (simp add: deliveries_left_def)
  next
    assume b: "{j. status_of q'' j = Some Pending} = ?P \<and> attempts_of q'' i = Suc (attempts_of q i)"
    have "sum (?f q'') ?P = ?f q'' i + sum (?f q'') (?P - {i})"
      using fin iP by (simp add: sum.remove)
    with b sum_q rest lt show ?thesis by (simp add: deliveries_left_def)
  qed
qed

text \<open>
  The loop ends: with more fuel than deliveries left it returns, keeps the invariant, and, if no stop
  was requested, leaves nothing pending.
\<close>

lemma worker_loop_enough:
  assumes "qinv q" "deliveries_left status_of attempts_of q_max q < fuel"
  shows "\<exists>q' w'. worker_loop deq ack nack stop env work fuel (q, w) = Some (Inr (), q', w') \<and> qinv q'
    \<and> (stop w' \<or> (\<forall>i. status_of q' i \<noteq> Some Pending))
    \<and> (\<forall>i. status_of q i \<noteq> Some Pending \<longrightarrow> status_of q' i = status_of q i)
    \<and> (\<forall>i. status_of q i = Some Pending \<longrightarrow> status_of q' i \<in> {Some Pending, Some Done, Some Dead})"
  using assms
proof (induction fuel arbitrary: q w)
  case 0
  then show ?case by simp
next
  case (Suc fuel)
  show ?case
  proof (cases "stop w")
    case True
    with Suc.prems show ?thesis by simp
  next
    case False
    obtain r q' where d: "deq (env w) q = (Inr r, q')" using deq_returns [OF Suc.prems(1)] by blast
    show ?thesis
    proof (cases r)
      case None
      with d deq_None [OF Suc.prems(1)] False Suc.prems show ?thesis by auto
    next
      case (Some job)
      let ?i = "job_item_id job"
      obtain res w' where w: "work job w = (res, w')" by (cases "work job w")
      define q'' where "q'' = (case settle_outcome res of
        Ack \<Rightarrow> ack (env w') ?i q' | Nack reason \<Rightarrow> nack (env w') ?i reason q')"
      have set: "\<exists>reason. q'' = ack (env w') ?i q' \<or> q'' = nack (env w') ?i reason q'"
        by (cases "settle_outcome res") (auto simp: q''_def)
      then obtain reason where q'': "q'' = ack (env w') ?i q' \<or> q'' = nack (env w') ?i reason q'" by blast
      note s = deliveries_after_settle [OF Suc.prems(1) d [unfolded Some] refl q'']
      have pend: "status_of q ?i = Some Pending" using deq_Some [OF Suc.prems(1) d [unfolded Some]] by simp
      have "deliveries_left status_of attempts_of q_max q'' < fuel" using s(2) Suc.prems(2) by simp
      from Suc.IH [OF s(1) this, of w'] obtain q3 w3
        where ih: "worker_loop deq ack nack stop env work fuel (q'', w') = Some (Inr (), q3, w3)" "qinv q3"
          "stop w3 \<or> (\<forall>i. status_of q3 i \<noteq> Some Pending)"
          "\<forall>i. status_of q'' i \<noteq> Some Pending \<longrightarrow> status_of q3 i = status_of q'' i"
          "\<forall>i. status_of q'' i = Some Pending \<longrightarrow> status_of q3 i \<in> {Some Pending, Some Done, Some Dead}"
        by blast
      have run: "worker_loop deq ack nack stop env work (Suc fuel) (q, w) = Some (Inr (), q3, w3)"
        using False d Some w ih(1) by (simp add: q''_def Let_def)
      have "status_of q3 j = status_of q j" if "status_of q j \<noteq> Some Pending" for j
        using that s(3) ih(4) pend by (metis)
      moreover have "status_of q3 j \<in> {Some Pending, Some Done, Some Dead}"
        if "status_of q j = Some Pending" for j
      proof (cases "j = ?i")
        case True
        then show ?thesis using s(4) ih(4,5) by metis
      next
        case False
        with that s(3) ih(5) show ?thesis by metis
      qed
      ultimately show ?thesis using run ih(2,3) by blast
    qed
  qed
qed

lemma pool_step_inv:
  "pool_step deq ack nack s t \<Longrightarrow> pool_inv status_of qinv s \<Longrightarrow> pool_inv status_of qinv t"
proof (induction rule: pool_step.induct)
  case (step_claim held w e q job q')
  then show ?case using deq_Some [of q e job q'] by (auto simp: pool_inv_def)
next
  case (step_ack held w i q e)
  then have "status_of q i = Some Claimed" "qinv q" by (auto simp: pool_inv_def)
  with step_ack ack_law [of q i e] show ?case by (auto simp: pool_inv_def)
next
  case (step_nack held w i q e reason)
  then have "status_of q i = Some Claimed" "qinv q" by (auto simp: pool_inv_def)
  with step_nack nack_law [of q i e reason] show ?case by (auto simp: pool_inv_def)
next
  case (step_crash held w i q)
  then show ?case by (auto simp: pool_inv_def)
qed

lemma pool_steps_inv:
  "(pool_step deq ack nack)\<^sup>*\<^sup>* s t \<Longrightarrow> pool_inv status_of qinv s \<Longrightarrow> pool_inv status_of qinv t"
  by (induction rule: rtranclp_induct) (auto intro: pool_step_inv)

lemma pool_exclusive:
  assumes "(pool_step deq ack nack)\<^sup>*\<^sup>* (q, \<lambda>_. None) (q', held)" "qinv q"
    and "held w = Some i" "held w' = Some i"
  shows "w = w'"
proof -
  have "pool_inv status_of qinv (q, \<lambda>_. None)" using assms(2) by (simp add: pool_inv_def)
  with assms(1) have "pool_inv status_of qinv (q', held)" by (rule pool_steps_inv)
  with assms(3,4) show ?thesis by (auto simp: pool_inv_def)
qed

end

end
