(* ===== verification/SqliteQueue.thy ===== *)
theory SqliteQueue
  imports TaskQueue
begin

text \<open>
  \<open>queue/sqlite_queue.py\<close>: the table \<open>queue\<close> as the list of its rows in \<open>rowid\<close> order. Each method
  holds the lock and runs one transaction, so each is one function on the table.
\<close>

record queue_row =
  q_item_id :: string
  q_payload_json :: string
  q_status :: item_status
  q_claimed_at :: "int option"
  q_claim_token :: "string option"
  q_attempts :: nat
  q_last_error :: "string option"
  q_created_at :: int
  q_updated_at :: int

type_synonym queue_table = "queue_row list"

definition MAX_ATTEMPTS_DEFAULT :: nat where
  "MAX_ATTEMPTS_DEFAULT = 3"

subsection \<open>Operations\<close>

text \<open>\<open>item.get("item_id") or str(uuid.uuid4())\<close>; ids are texts.\<close>

definition item_id_or :: "string \<Rightarrow> pydict \<Rightarrow> string" where
  "item_id_or uuid item = (case dget item ''item_id'' of PStr i \<Rightarrow> if i = [] then uuid else i | _ \<Rightarrow> uuid)"

text \<open>\<open>INSERT OR REPLACE\<close> deletes a row of the same key and inserts at the end.\<close>

definition sql_enqueue :: "qenv \<Rightarrow> pydict \<Rightarrow> queue_table \<Rightarrow> string \<times> queue_table" where
  "sql_enqueue e item t =
     (let i = item_id_or (e_uuid e) item in
      (i, filter (\<lambda>r. q_item_id r \<noteq> i) t @
          [\<lparr> q_item_id = i, q_payload_json = dumps_default (PDict item), q_status = Pending,
             q_claimed_at = None, q_claim_token = None, q_attempts = 0, q_last_error = None,
             q_created_at = e_now e, q_updated_at = e_now e \<rparr>]))"

text \<open>\<open>WHERE status='pending' ORDER BY created_at ASC LIMIT 1\<close>: the first of the oldest.\<close>

definition oldest_pending :: "queue_table \<Rightarrow> queue_row option" where
  "oldest_pending t =
     (let ps = filter (\<lambda>r. q_status r = Pending) t in
      if ps = [] then None else Some (arg_min_list q_created_at ps))"

text \<open>\<open>UPDATE queue SET ... WHERE item_id=?\<close>\<close>

definition update_item :: "string \<Rightarrow> (queue_row \<Rightarrow> queue_row) \<Rightarrow> queue_table \<Rightarrow> queue_table" where
  "update_item i f t = map (\<lambda>r. if q_item_id r = i then f r else r) t"

definition find_item :: "string \<Rightarrow> queue_table \<Rightarrow> queue_row option" where
  "find_item i t = find (\<lambda>r. q_item_id r = i) t"

text \<open>The claim is committed before the payload is parsed, so a bad payload raises with the row claimed.\<close>

definition claimed_job :: "queue_row \<Rightarrow> string \<Rightarrow> exn + pydict option" where
  "claimed_job r token =
     (case json_loads (q_payload_json r) of
        None \<Rightarrow> Inl (Exn ''JSONDecodeError'' ''Expecting value'')
      | Some (PDict d) \<Rightarrow>
          Inr (Some (dset (dset (dset d ''item_id'' (PStr (q_item_id r))) ''claim_token'' (PStr token))
                ''attempts'' (PInt (int (q_attempts r)))))
      | Some v \<Rightarrow> Inl (Exn ''TypeError'' (type_name v @ '' object does not support item assignment'')))"

definition sql_dequeue :: "qenv \<Rightarrow> queue_table \<Rightarrow> (exn + pydict option) \<times> queue_table" where
  "sql_dequeue e t =
     (case oldest_pending t of
        None \<Rightarrow> (Inr None, t)
      | Some r \<Rightarrow>
          (claimed_job r (e_uuid e),
           update_item (q_item_id r)
             (\<lambda>x. x\<lparr>q_status := Claimed, q_claim_token := Some (e_uuid e),
                    q_claimed_at := Some (e_now e), q_updated_at := e_now e\<rparr>) t))"

definition sql_ack :: "qenv \<Rightarrow> string \<Rightarrow> queue_table \<Rightarrow> queue_table" where
  "sql_ack e i t = update_item i (\<lambda>x. x\<lparr>q_status := Done, q_updated_at := e_now e\<rparr>) t"

definition sql_nack :: "nat \<Rightarrow> qenv \<Rightarrow> string \<Rightarrow> string \<Rightarrow> queue_table \<Rightarrow> queue_table" where
  "sql_nack max_attempts e i reason t =
     (case find_item i t of
        None \<Rightarrow> t
      | Some row \<Rightarrow>
          (let attempts = q_attempts row + 1 in
           if attempts \<ge> max_attempts
           then update_item i (\<lambda>x. x\<lparr>q_status := Dead, q_attempts := attempts,
                  q_last_error := Some reason, q_updated_at := e_now e\<rparr>) t
           else update_item i (\<lambda>x. x\<lparr>q_status := Pending, q_attempts := attempts,
                  q_last_error := Some reason, q_claim_token := None, q_claimed_at := None,
                  q_updated_at := e_now e\<rparr>) t))"

definition sql_dead_letter :: "qenv \<Rightarrow> string \<Rightarrow> queue_table \<Rightarrow> queue_table" where
  "sql_dead_letter e i t = update_item i (\<lambda>x. x\<lparr>q_status := Dead, q_updated_at := e_now e\<rparr>) t"

text \<open>\<open>SELECT status, COUNT(*) ... GROUP BY status\<close>: a status no row has is absent.\<close>

definition sql_counts :: "queue_table \<Rightarrow> item_status \<Rightarrow> nat option" where
  "sql_counts t s = (let n = length (filter (\<lambda>r. q_status r = s) t) in if n = 0 then None else Some n)"

text \<open>\<open>claimed_at < cutoff\<close> is false for NULL.\<close>

definition is_stale :: "int \<Rightarrow> queue_row \<Rightarrow> bool" where
  "is_stale cutoff r = (q_status r = Claimed \<and> (case q_claimed_at r of None \<Rightarrow> False | Some c \<Rightarrow> c < cutoff))"

definition sql_reclaim_stale :: "qenv \<Rightarrow> nat \<Rightarrow> queue_table \<Rightarrow> nat \<times> queue_table" where
  "sql_reclaim_stale e older_than_seconds t =
     (let cutoff = e_now e - 1000000 * int older_than_seconds in
      (length (filter (is_stale cutoff) t),
       map (\<lambda>r. if is_stale cutoff r
                then r\<lparr>q_status := Pending, q_claim_token := None, q_claimed_at := None,
                        q_updated_at := e_now e\<rparr>
                else r) t))"

subsection \<open>Invariant\<close>

text \<open>
  Ids are unique, payloads are dictionaries, a pending row holds no claim and a claimed one holds
  both parts of it, and a row that can still run has attempts left.
\<close>

definition row_inv :: "nat \<Rightarrow> queue_row \<Rightarrow> bool" where
  "row_inv max_attempts r \<longleftrightarrow>
     (\<exists>d. json_loads (q_payload_json r) = Some (PDict d))
     \<and> (q_status r = Pending \<longrightarrow> q_claim_token r = None \<and> q_claimed_at r = None)
     \<and> (q_status r = Claimed \<longrightarrow> q_claim_token r \<noteq> None \<and> q_claimed_at r \<noteq> None)
     \<and> (q_status r \<in> {Pending, Claimed} \<longrightarrow> q_attempts r < max_attempts)"

definition table_inv :: "nat \<Rightarrow> queue_table \<Rightarrow> bool" where
  "table_inv max_attempts t \<longleftrightarrow> distinct (map q_item_id t) \<and> (\<forall>r\<in>set t. row_inv max_attempts r)"

definition sql_status :: "queue_table \<Rightarrow> string \<Rightarrow> item_status option" where
  "sql_status t i = map_option q_status (find_item i t)"

definition sql_attempts :: "queue_table \<Rightarrow> string \<Rightarrow> nat" where
  "sql_attempts t i = (case find_item i t of None \<Rightarrow> 0 | Some r \<Rightarrow> q_attempts r)"

subsection \<open>Lookups and updates\<close>

lemma find_item_SomeD: "find_item i t = Some r \<Longrightarrow> r \<in> set t \<and> q_item_id r = i"
  by (auto simp: find_item_def find_Some_iff)

lemma find_item_None: "find_item i t = None \<longleftrightarrow> i \<notin> q_item_id ` set t"
  by (auto simp: find_item_def find_None_iff)

lemma find_item_member: "distinct (map q_item_id t) \<Longrightarrow> r \<in> set t \<Longrightarrow> find_item (q_item_id r) t = Some r"
proof (induction t)
  case (Cons x t)
  then show ?case by (cases "q_item_id x = q_item_id r") (auto simp: find_item_def rev_image_eqI)
qed simp

lemma find_item_append:
  "find_item i (t @ t') = (case find_item i t of Some r \<Rightarrow> Some r | None \<Rightarrow> find_item i t')"
  by (induction t) (auto simp: find_item_def)

lemma find_item_single: "find_item j [r] = (if q_item_id r = j then Some r else None)"
  by (simp add: find_item_def)

lemma find_item_filter_other:
  "find_item j (filter (\<lambda>r. q_item_id r \<noteq> i) t) = (if j = i then None else find_item j t)"
  by (induction t) (auto simp: find_item_def)

lemma find_item_update:
  assumes "\<And>r. q_item_id (f r) = q_item_id r"
  shows "find_item j (update_item i f t) = (if j = i then map_option f (find_item j t) else find_item j t)"
  by (induction t) (auto simp: find_item_def update_item_def assms)

lemma ids_update_item:
  assumes "\<And>r. q_item_id (f r) = q_item_id r"
  shows "map q_item_id (update_item i f t) = map q_item_id t"
  by (simp add: update_item_def assms cong: map_cong if_cong)

lemma table_inv_update:
  assumes "table_inv m t" "\<And>r. q_item_id (f r) = q_item_id r"
    and "\<And>r. r \<in> set t \<Longrightarrow> q_item_id r = i \<Longrightarrow> row_inv m r \<Longrightarrow> row_inv m (f r)"
  shows "table_inv m (update_item i f t)"
proof -
  have "distinct (map q_item_id (update_item i f t))"
    using assms(1,2) by (simp add: table_inv_def ids_update_item)
  moreover have "\<forall>r\<in>set (update_item i f t). row_inv m r"
    using assms(1,3) by (auto simp: table_inv_def update_item_def)
  ultimately show ?thesis by (simp add: table_inv_def)
qed

lemma oldest_pending_None: "oldest_pending t = None \<longleftrightarrow> (\<forall>r\<in>set t. q_status r \<noteq> Pending)"
  by (auto simp: oldest_pending_def Let_def filter_empty_conv)

lemma oldest_pending_Some:
  assumes "oldest_pending t = Some r"
  shows "r \<in> set t" "q_status r = Pending"
    "\<forall>x\<in>set t. q_status x = Pending \<longrightarrow> q_created_at r \<le> q_created_at x"
proof -
  let ?ps = "filter (\<lambda>r. q_status r = Pending) t"
  have ne: "?ps \<noteq> []" and r: "r = arg_min_list q_created_at ?ps"
    using assms by (auto simp: oldest_pending_def Let_def split: if_splits)
  have "r \<in> set ?ps" unfolding r by (rule arg_min_list_in [OF ne])
  then show "r \<in> set t" "q_status r = Pending" by auto
  have "q_created_at r = Min (q_created_at ` set ?ps)"
    unfolding r by (rule f_arg_min_list_f [OF ne])
  then show "\<forall>x\<in>set t. q_status x = Pending \<longrightarrow> q_created_at r \<le> q_created_at x" by auto
qed

lemma sql_status_pending:
  "table_inv m t \<Longrightarrow> (\<exists>i. sql_status t i = Some Pending) \<longleftrightarrow> oldest_pending t \<noteq> None"
proof
  assume "\<exists>i. sql_status t i = Some Pending"
  then show "oldest_pending t \<noteq> None"
    by (auto simp: sql_status_def oldest_pending_None dest: find_item_SomeD)
next
  assume i: "table_inv m t" "oldest_pending t \<noteq> None"
  then obtain r where "r \<in> set t" "q_status r = Pending" by (auto simp: oldest_pending_None)
  with i(1) show "\<exists>i. sql_status t i = Some Pending"
    by (intro exI [of _ "q_item_id r"]) (simp add: sql_status_def find_item_member table_inv_def)
qed

lemma job_item_id_dset: "job_item_id (dset (dset (dset d ''item_id'' (PStr i)) ''claim_token'' x) ''attempts'' y) = i"
  by (simp add: job_item_id_def)

lemma claimed_job_ok:
  "row_inv m r \<Longrightarrow> \<exists>job. claimed_job r token = Inr (Some job) \<and> job_item_id job = q_item_id r"
  by (auto simp: row_inv_def claimed_job_def job_item_id_dset)

subsection \<open>The contract\<close>

lemma sql_deq_Some:
  assumes inv: "table_inv m t" and deq: "sql_dequeue e t = (Inr (Some job), t')"
  shows "table_inv m t' \<and> sql_status t (job_item_id job) = Some Pending
    \<and> sql_status t' = (sql_status t)(job_item_id job \<mapsto> Claimed) \<and> sql_attempts t' = sql_attempts t"
proof -
  obtain r where r: "oldest_pending t = Some r"
    using deq by (auto simp: sql_dequeue_def split: option.splits)
  note o = oldest_pending_Some [OF r]
  let ?f = "\<lambda>x. x\<lparr>q_status := Claimed, q_claim_token := Some (e_uuid e),
                 q_claimed_at := Some (e_now e), q_updated_at := e_now e\<rparr>"
  have ri: "row_inv m r" using inv o by (simp add: table_inv_def)
  have t': "t' = update_item (q_item_id r) ?f t" and job: "claimed_job r (e_uuid e) = Inr (Some job)"
    using deq r by (auto simp: sql_dequeue_def)
  have id: "job_item_id job = q_item_id r" using claimed_job_ok [OF ri, of "e_uuid e"] job by auto
  have fr: "find_item (q_item_id r) t = Some r" using inv o by (simp add: table_inv_def find_item_member)
  have "table_inv m t'" unfolding t'
  proof (rule table_inv_update [OF inv])
    fix x assume "x \<in> set t" "q_item_id x = q_item_id r" "row_inv m x"
    moreover from this fr have "x = r"
      using find_item_member [of t x] inv by (simp add: table_inv_def)
    ultimately show "row_inv m (?f x)" using o by (simp add: row_inv_def)
  qed simp
  then show ?thesis
    using o fr by (auto simp: id t' sql_status_def sql_attempts_def find_item_update fun_eq_iff)
qed

lemma sql_nack_eq:
  "find_item i t = Some r \<Longrightarrow> sql_nack m e i reason t = update_item i (\<lambda>x.
     if m \<le> Suc (q_attempts r)
     then x\<lparr>q_status := Dead, q_attempts := Suc (q_attempts r), q_last_error := Some reason, q_updated_at := e_now e\<rparr>
     else x\<lparr>q_status := Pending, q_attempts := Suc (q_attempts r), q_last_error := Some reason,
            q_claim_token := None, q_claimed_at := None, q_updated_at := e_now e\<rparr>) t"
  by (simp add: sql_nack_def Let_def update_item_def)

lemma sql_nack_law:
  assumes inv: "table_inv m t" and cl: "sql_status t i = Some Claimed"
  shows "table_inv m (sql_nack m e i reason t) \<and>
    sql_status (sql_nack m e i reason t) =
      (sql_status t)(i \<mapsto> (if m \<le> Suc (sql_attempts t i) then Dead else Pending)) \<and>
    sql_attempts (sql_nack m e i reason t) = (sql_attempts t)(i := Suc (sql_attempts t i))"
proof -
  obtain r where r: "find_item i t = Some r" using cl by (auto simp: sql_status_def)
  have "table_inv m (sql_nack m e i reason t)"
    unfolding sql_nack_eq [OF r]
    by (rule table_inv_update [OF inv]) (auto simp: row_inv_def)
  then show ?thesis
    using r by (auto simp: sql_nack_eq sql_status_def sql_attempts_def find_item_update fun_eq_iff)
qed

interpretation sql_queue: task_queue sql_status sql_attempts "table_inv m" m sql_enqueue sql_dequeue
    sql_ack "sql_nack m" for m
proof (unfold_locales, goal_cases)
  case (1 t)
  have "dom (sql_status t) \<subseteq> q_item_id ` set t"
    by (auto simp: sql_status_def dest!: find_item_SomeD)
  then show ?case by (rule finite_subset) simp
next
  case (2 t i s)
  then obtain r where r: "find_item i t = Some r" "q_status r = s" by (auto simp: sql_status_def)
  with 2 have "row_inv m r" by (auto simp: table_inv_def dest: find_item_SomeD)
  with r 2 show ?case by (auto simp: row_inv_def sql_attempts_def)
next
  case (3 t e item i t')
  then have new: "find_item i t = None" by (auto simp: sql_status_def)
  have "filter (\<lambda>r. q_item_id r \<noteq> i) t = t"
    using new by (auto simp: filter_id_conv find_item_None)
  with 3 have t': "t' = t @ [\<lparr> q_item_id = i, q_payload_json = dumps_default (PDict item), q_status = Pending,
             q_claimed_at = None, q_claim_token = None, q_attempts = 0, q_last_error = None,
             q_created_at = e_now e, q_updated_at = e_now e \<rparr>]"
    by (auto simp: sql_enqueue_def Let_def)
  have "table_inv m t'" using 3 new unfolding t'
    by (auto simp: table_inv_def row_inv_def find_item_None)
  then show ?case using new
    by (auto simp: t' sql_status_def sql_attempts_def find_item_append find_item_single fun_eq_iff
        split: option.splits)
next
  case (4 t e)
  show ?case
  proof (cases "oldest_pending t")
    case (Some r)
    then have "row_inv m r" using 4 oldest_pending_Some(1) by (auto simp: table_inv_def)
    with Some show ?thesis using claimed_job_ok [of m r "e_uuid e"] by (auto simp: sql_dequeue_def)
  qed (simp add: sql_dequeue_def)
next
  case (5 t e t')
  have none: "oldest_pending t = None"
  proof (rule ccontr)
    assume "oldest_pending t \<noteq> None"
    then obtain r where r: "oldest_pending t = Some r" by blast
    then have "row_inv m r" using 5 oldest_pending_Some(1) by (auto simp: table_inv_def)
    then show False using claimed_job_ok [of m r "e_uuid e"] r 5 by (auto simp: sql_dequeue_def)
  qed
  then have "t' = t" using 5 by (simp add: sql_dequeue_def)
  moreover have "\<not> (\<exists>i. sql_status t i = Some Pending)"
    using none sql_status_pending [of m t] 5 by blast
  ultimately show ?case by blast
next
  case (6 t e job t')
  then show ?case by (rule sql_deq_Some)
next
  case (7 t i e)
  have "table_inv m (sql_ack e i t)"
    unfolding sql_ack_def by (rule table_inv_update [OF 7(1)]) (auto simp: row_inv_def)
  with 7 show ?case
    by (auto simp: sql_ack_def sql_status_def sql_attempts_def find_item_update fun_eq_iff)
next
  case (8 t i e reason)
  then show ?case by (rule sql_nack_law)
qed

text \<open>Every pending item has at most \<open>m\<close> deliveries left.\<close>

lemma sql_deliveries_bound: "deliveries_left sql_status sql_attempts m t \<le> m * length t"
proof -
  let ?P = "{i. sql_status t i = Some Pending}"
  have sub: "?P \<subseteq> q_item_id ` set t" by (auto simp: sql_status_def dest!: find_item_SomeD)
  have "deliveries_left sql_status sql_attempts m t \<le> (\<Sum>i\<in>?P. m)"
    unfolding deliveries_left_def by (rule sum_mono) simp
  also have "\<dots> = m * card ?P" by simp
  also have "card ?P \<le> length t"
    using card_mono [OF _ sub] card_image_le [of "set t" q_item_id] card_length [of t] by auto
  finally show ?thesis by simp
qed

lemma sql_enqueue_inv:
  assumes "table_inv m t" "sql_enqueue e item t = (i, t')" "0 < m" "wf_pyval (PDict item)"
  shows "table_inv m t'"
proof -
  have "table_inv m (filter (\<lambda>r. q_item_id r \<noteq> i) t)"
    using assms(1) by (auto simp: table_inv_def distinct_map_filter)
  with assms(2-4) show ?thesis
    by (auto simp: sql_enqueue_def Let_def table_inv_def row_inv_def)
qed

lemma sql_reclaim_inv: "table_inv m t \<Longrightarrow> table_inv m (snd (sql_reclaim_stale e n t))"
proof -
  assume inv: "table_inv m t"
  have "map q_item_id (snd (sql_reclaim_stale e n t)) = map q_item_id t"
    by (simp add: sql_reclaim_stale_def Let_def cong: if_cong)
  moreover have "\<forall>r\<in>set (snd (sql_reclaim_stale e n t)). row_inv m r"
    using inv by (auto simp: sql_reclaim_stale_def Let_def table_inv_def row_inv_def is_stale_def)
  ultimately show ?thesis using inv by (simp add: table_inv_def)
qed

lemma find_item_map:
  assumes "\<And>r. q_item_id (f r) = q_item_id r"
  shows "find_item i (map f t) = map_option f (find_item i t)"
  by (induction t) (auto simp: find_item_def assms)

subsection \<open>A concrete table\<close>

definition demo_env :: "int \<Rightarrow> qenv" where
  "demo_env n = \<lparr> e_now = n, e_uuid = ''tok'' \<rparr>"

definition demo_table :: queue_table where
  "demo_table = snd (sql_enqueue (demo_env 2) [(''item_id'', PStr ''b'')]
     (snd (sql_enqueue (demo_env 1) [(''item_id'', PStr ''a'')] [])))"

lemma demo_table_inv: "table_inv 3 demo_table"
proof -
  have "table_inv 3 []" by (simp add: table_inv_def)
  then have "table_inv 3 (snd (sql_enqueue (demo_env 1) [(''item_id'', PStr ''a'')] []))"
    by (rule sql_enqueue_inv [OF _ prod.collapse [symmetric]]) simp_all
  then show ?thesis unfolding demo_table_def
    by (rule sql_enqueue_inv [OF _ prod.collapse [symmetric]]) simp_all
qed

section \<open>Properties\<close>

text \<open>
  \<open>SqliteQueue.dequeue\<close> on a well-formed table never raises. It answers nothing exactly when no
  item is pending; otherwise it claims an item that is pending and at least as old as every other
  pending item, under a fresh token, and touches no other item's status or attempts.
\<close>

theorem sqlite_dequeue_oldest_first:
  assumes "table_inv m t"
  shows "case sql_dequeue e t of
      (Inl ex, t') \<Rightarrow> False
    | (Inr None, t') \<Rightarrow> t' = t \<and> (\<forall>r\<in>set t. q_status r \<noteq> Pending)
    | (Inr (Some job), t') \<Rightarrow>
        (\<exists>r\<in>set t. q_item_id r = job_item_id job \<and> q_status r = Pending
           \<and> (\<forall>x\<in>set t. q_status x = Pending \<longrightarrow> q_created_at r \<le> q_created_at x))
        \<and> dget job ''claim_token'' = PStr (e_uuid e) \<and> table_inv m t'
        \<and> sql_status t' = (sql_status t)(job_item_id job \<mapsto> Claimed) \<and> sql_attempts t' = sql_attempts t"
proof (cases "oldest_pending t")
  case None
  then show ?thesis by (auto simp: sql_dequeue_def oldest_pending_None [THEN iffD1])
next
  case (Some r)
  note o = oldest_pending_Some [OF Some]
  have ri: "row_inv m r" using assms o by (simp add: table_inv_def)
  obtain job t' where d: "sql_dequeue e t = (Inr (Some job), t')" "job_item_id job = q_item_id r"
    "dget job ''claim_token'' = PStr (e_uuid e)"
    using claimed_job_ok [OF ri, of "e_uuid e"] ri Some
    by (auto simp: sql_dequeue_def claimed_job_def row_inv_def)
  then show ?thesis using sql_deq_Some [OF assms d(1)] o by auto
qed

theorem sqlite_dequeue_oldest_first_witness:
  "\<exists>job t'. sql_dequeue (demo_env 5) demo_table = (Inr (Some job), t')
     \<and> sql_status t' = (sql_status demo_table)(''a'' \<mapsto> Claimed)"
proof -
  obtain job t' where d: "sql_dequeue (demo_env 5) demo_table = (Inr (Some job), t')" "job_item_id job = ''a''"
  proof -
    have "case sql_dequeue (demo_env 5) demo_table of (Inr (Some job), t') \<Rightarrow> job_item_id job = ''a'' | _ \<Rightarrow> False"
      by code_simp
    then show ?thesis using that by (auto split: prod.splits sum.splits option.splits)
  qed
  then show ?thesis using sqlite_dequeue_oldest_first [OF demo_table_inv, of "demo_env 5"] by auto
qed

text \<open>
  C3: however many workers share the queue, whatever they claim, ack, nack or drop by crashing, in any
  interleaving, no item is ever held by two of them at once.
\<close>

theorem sqlite_claims_are_exclusive:
  assumes "table_inv m t" "(pool_step sql_dequeue sql_ack (sql_nack m))\<^sup>*\<^sup>* (t, \<lambda>_. None) (t', held)"
    and "held w = Some i" "held w' = Some i"
  shows "w = w'"
  by (rule sql_queue.pool_exclusive [OF assms(2) assms(1) assms(3,4)])

theorem sqlite_claims_are_exclusive_witness:
  "\<exists>t'. pool_step sql_dequeue sql_ack (sql_nack 3) (demo_table, \<lambda>_. None) (t', (\<lambda>_. None)(0 := Some ''a''))
     \<and> (\<forall>w. ((\<lambda>_. None)(0 := Some ''a'')) w = Some ''a'' \<longrightarrow> w = (0::nat))"
proof -
  obtain job t' where d: "sql_dequeue (demo_env 5) demo_table = (Inr (Some job), t')" "job_item_id job = ''a''"
  proof -
    have "case sql_dequeue (demo_env 5) demo_table of (Inr (Some job), t') \<Rightarrow> job_item_id job = ''a'' | _ \<Rightarrow> False"
      by code_simp
    then show ?thesis using that by (auto split: prod.splits sum.splits option.splits)
  qed
  have st: "pool_step sql_dequeue sql_ack (sql_nack 3) (demo_table, \<lambda>_. None) (t', (\<lambda>_. None)(0 := Some ''a''))"
    using step_claim [of "\<lambda>_. None" 0 sql_dequeue "demo_env 5" demo_table job t'] d by simp
  have "(pool_step sql_dequeue sql_ack (sql_nack 3))\<^sup>*\<^sup>* (demo_table, \<lambda>_. None) (t', (\<lambda>_. None)(0 := Some ''a''))"
    using st by (rule r_into_rtranclp)
  note ex = sqlite_claims_are_exclusive [OF demo_table_inv this, of _ "''a''" 0]
  show ?thesis
  proof (intro exI [of _ t'] conjI allI impI)
    fix w :: nat assume "((\<lambda>_. None)(0 := Some ''a'')) w = Some ''a''"
    then show "w = 0" by (rule ex) simp
  qed (rule st)
qed

text \<open>
  The worker loop over the SQLite queue returns, whatever the jobs do (results, failures and
  exceptions included), after at most \<open>max_attempts\<close> deliveries per row; and if no stop was requested
  every item that was pending has then ended \<open>done\<close> or \<open>dead\<close>, and no other item has moved.
\<close>

theorem sqlite_worker_loop_drains:
  assumes "table_inv m t" "m * length t < fuel"
  shows "\<exists>t' w'. worker_loop sql_dequeue sql_ack (sql_nack m) stop env work fuel (t, w) = Some (Inr (), t', w')
    \<and> table_inv m t'
    \<and> (\<not> stop w' \<longrightarrow> (\<forall>i. sql_status t i = Some Pending \<longrightarrow> sql_status t' i \<in> {Some Done, Some Dead}))
    \<and> (\<forall>i. sql_status t i \<noteq> Some Pending \<longrightarrow> sql_status t' i = sql_status t i)"
proof -
  have "deliveries_left sql_status sql_attempts m t < fuel" using sql_deliveries_bound [of m t] assms(2) by simp
  from sql_queue.worker_loop_enough [OF assms(1) this, of stop env work w] show ?thesis by fastforce
qed

theorem sqlite_worker_loop_drains_witness:
  "\<exists>t' w'. worker_loop sql_dequeue sql_ack (sql_nack 3) (\<lambda>_. False) (\<lambda>n. demo_env (int n))
       (\<lambda>job n. (Inl (Exn ''TimeoutError'' ''x''), Suc n)) 7 (demo_table, 9) = Some (Inr (), t', w')
     \<and> sql_status t' ''a'' \<in> {Some Done, Some Dead} \<and> sql_status t' ''b'' \<in> {Some Done, Some Dead}"
proof -
  have f: "3 * length demo_table < 7" by code_simp
  have p: "sql_status demo_table ''a'' = Some Pending" "sql_status demo_table ''b'' = Some Pending"
    by code_simp+
  show ?thesis
    using sqlite_worker_loop_drains [OF demo_table_inv f, of "\<lambda>_. False" "\<lambda>n. demo_env (int n)"
        "\<lambda>job n. (Inl (Exn ''TimeoutError'' ''x''), Suc n)" 9] p by blast
qed

text \<open>
  \<open>reclaim_stale\<close> returns exactly the claims older than the cutoff to pending and reports how many;
  it keeps every other status and all attempts, so a job whose worker dies is redelivered without
  coming nearer to the dead letters.
\<close>

theorem sqlite_reclaim_releases_stale_claims:
  assumes "table_inv m t" "sql_reclaim_stale e secs t = (n, t')"
  shows "table_inv m t' \<and> sql_attempts t' = sql_attempts t
    \<and> n = card {i. \<exists>r. find_item i t = Some r \<and> is_stale (e_now e - 1000000 * int secs) r}
    \<and> sql_status t' = (\<lambda>i. case find_item i t of None \<Rightarrow> None | Some r \<Rightarrow>
        Some (if is_stale (e_now e - 1000000 * int secs) r then Pending else q_status r))"
proof -
  let ?c = "e_now e - 1000000 * int secs"
  let ?f = "\<lambda>r. if is_stale ?c r
      then r\<lparr>q_status := Pending, q_claim_token := None, q_claimed_at := None, q_updated_at := e_now e\<rparr> else r"
  have t': "t' = map ?f t" and n: "n = length (filter (is_stale ?c) t)"
    using assms(2) by (auto simp: sql_reclaim_stale_def Let_def)
  have f: "find_item i t' = map_option ?f (find_item i t)" for i
    unfolding t' by (rule find_item_map) simp
  have d: "distinct (map q_item_id (filter (is_stale ?c) t))"
    using assms(1) by (simp add: table_inv_def distinct_map_filter)
  have "{i. \<exists>r. find_item i t = Some r \<and> is_stale ?c r} = set (map q_item_id (filter (is_stale ?c) t))"
    using assms(1) find_item_member find_item_SomeD by (fastforce simp: table_inv_def)
  then have "n = card {i. \<exists>r. find_item i t = Some r \<and> is_stale ?c r}"
    using distinct_card [OF d] n by simp
  moreover have "table_inv m t'" using sql_reclaim_inv [OF assms(1), of e secs] assms(2) by simp
  ultimately show ?thesis
    by (auto simp: sql_status_def sql_attempts_def f fun_eq_iff split: option.splits)
qed

theorem sqlite_reclaim_releases_stale_claims_witness:
  "sql_attempts (snd (sql_reclaim_stale (demo_env 900000000) 300 (snd (sql_dequeue (demo_env 5) demo_table))))
     = sql_attempts (snd (sql_dequeue (demo_env 5) demo_table))
   \<and> fst (sql_reclaim_stale (demo_env 900000000) 300 (snd (sql_dequeue (demo_env 5) demo_table))) = 1"
proof -
  have inv: "table_inv 3 (snd (sql_dequeue (demo_env 5) demo_table))"
    using sql_queue.deq_returns [OF demo_table_inv, of "demo_env 5"] sql_queue.deq_None [OF demo_table_inv]
      sql_queue.deq_Some [OF demo_table_inv] demo_table_inv
    by (metis option.exhaust snd_conv)
  have "fst (sql_reclaim_stale (demo_env 900000000) 300 (snd (sql_dequeue (demo_env 5) demo_table))) = 1"
    by code_simp
  with sqlite_reclaim_releases_stale_claims [OF inv prod.collapse [symmetric], of "demo_env 900000000" 300]
  show ?thesis by simp
qed

end
