(* ===== verification/RedisQueue.thy ===== *)
theory RedisQueue
  imports SqliteQueue
begin

text \<open>
  \<open>queue/redis_queue.py\<close>: the pending list, the hashes of the items, the sorted set of claims and the
  set of dead ids, with the commands the code sends. A pipeline runs as one transaction. \<open>dequeue\<close> is
  two round trips, \<open>RPOP\<close> and then the claim, and both are definitions of their own, so that a worker
  that dies between them can be stated. Also \<open>queue/__init__.py\<close>: the factory \<open>make_queue\<close>.
\<close>

text \<open>A hash field that was never set is \<open>None\<close>. \<open>claimed_at\<close> is \<open>Some None\<close> for the empty text.\<close>

record redis_item =
  h_status :: "item_status option"
  h_payload_json :: "string option"
  h_attempts :: "nat option"
  h_claim_token :: "string option"
  h_claimed_at :: "int option option"
  h_created_at :: "int option"
  h_updated_at :: "int option"
  h_last_error :: "string option"

record redis_state =
  rd_pending :: "string list"
  rd_items :: "string \<Rightarrow> redis_item option"
  rd_claimed :: "(int \<times> string) list"
  rd_dead :: "string list"

subsection \<open>Redis commands\<close>

definition no_fields :: redis_item where
  "no_fields = \<lparr> h_status = None, h_payload_json = None, h_attempts = None, h_claim_token = None,
     h_claimed_at = None, h_created_at = None, h_updated_at = None, h_last_error = None \<rparr>"

text \<open>\<open>HSET\<close> creates a missing hash and keeps the fields it does not name.\<close>

definition item_fields :: "redis_state \<Rightarrow> string \<Rightarrow> redis_item" where
  "item_fields s i = (case rd_items s i of None \<Rightarrow> no_fields | Some h \<Rightarrow> h)"

definition r_hset :: "string \<Rightarrow> (redis_item \<Rightarrow> redis_item) \<Rightarrow> redis_state \<Rightarrow> redis_state" where
  "r_hset i f s = s\<lparr>rd_items := (rd_items s)(i \<mapsto> f (item_fields s i))\<rparr>"

definition r_lpush :: "string \<Rightarrow> redis_state \<Rightarrow> redis_state" where
  "r_lpush i s = s\<lparr>rd_pending := i # rd_pending s\<rparr>"

definition r_rpop :: "redis_state \<Rightarrow> string option \<times> redis_state" where
  "r_rpop s = (if rd_pending s = [] then (None, s)
     else (Some (last (rd_pending s)), s\<lparr>rd_pending := butlast (rd_pending s)\<rparr>))"

text \<open>The sorted set, kept in the order of score and then member.\<close>

definition r_zrem :: "string \<Rightarrow> redis_state \<Rightarrow> redis_state" where
  "r_zrem i s = s\<lparr>rd_claimed := filter (\<lambda>x. snd x \<noteq> i) (rd_claimed s)\<rparr>"

fun z_insert :: "int \<Rightarrow> string \<Rightarrow> (int \<times> string) list \<Rightarrow> (int \<times> string) list" where
  "z_insert sc i [] = [(sc, i)]"
| "z_insert sc i ((sc', j) # zs) =
     (if sc < sc' \<or> (sc = sc' \<and> i \<le> j) then (sc, i) # (sc', j) # zs else (sc', j) # z_insert sc i zs)"

definition r_zadd :: "int \<Rightarrow> string \<Rightarrow> redis_state \<Rightarrow> redis_state" where
  "r_zadd sc i s = s\<lparr>rd_claimed := z_insert sc i (filter (\<lambda>x. snd x \<noteq> i) (rd_claimed s))\<rparr>"

definition r_zrangebyscore :: "int \<Rightarrow> int \<Rightarrow> redis_state \<Rightarrow> string list" where
  "r_zrangebyscore lo hi s = map snd (filter (\<lambda>x. lo \<le> fst x \<and> fst x \<le> hi) (rd_claimed s))"

definition r_sadd :: "string \<Rightarrow> redis_state \<Rightarrow> redis_state" where
  "r_sadd i s = s\<lparr>rd_dead := List.insert i (rd_dead s)\<rparr>"

lemmas r_cmds = r_hset_def r_lpush_def r_zrem_def r_zadd_def r_sadd_def item_fields_def

subsection \<open>The queue\<close>

definition redis_enqueue :: "qenv \<Rightarrow> pydict \<Rightarrow> redis_state \<Rightarrow> string \<times> redis_state" where
  "redis_enqueue e item s =
     (let i = item_id_or (e_uuid e) item in
      (i, r_lpush i (r_hset i (\<lambda>h. h\<lparr>h_status := Some Pending,
             h_payload_json := Some (dumps_default (PDict item)), h_attempts := Some 0,
             h_created_at := Some (e_now e), h_updated_at := Some (e_now e)\<rparr>) s)))"

text \<open>\<open>json.loads(payload_json) if payload_json else {}\<close>, then three keys are set.\<close>

definition redis_job :: "string \<Rightarrow> string \<Rightarrow> redis_item \<Rightarrow> exn + pydict option" where
  "redis_job i token h =
     (case (case h_payload_json h of None \<Rightarrow> Some (PDict [])
            | Some p \<Rightarrow> if p = [] then Some (PDict []) else json_loads p) of
        None \<Rightarrow> Inl (Exn ''JSONDecodeError'' ''Expecting value'')
      | Some (PDict d) \<Rightarrow>
          Inr (Some (dset (dset (dset d ''item_id'' (PStr i)) ''claim_token'' (PStr token))
                ''attempts'' (PInt (int (case h_attempts h of None \<Rightarrow> 0 | Some n \<Rightarrow> n)))))
      | Some v \<Rightarrow> Inl (Exn ''TypeError'' (type_name v @ '' object does not support item assignment'')))"

text \<open>The second round trip of \<open>dequeue\<close>: hash, sorted set and the two reads in one pipeline.\<close>

definition redis_claim :: "qenv \<Rightarrow> string \<Rightarrow> redis_state \<Rightarrow> (exn + pydict option) \<times> redis_state" where
  "redis_claim e i s =
     (let s' = r_zadd (e_now e) i (r_hset i (\<lambda>h. h\<lparr>h_status := Some Claimed,
                 h_claim_token := Some (e_uuid e), h_claimed_at := Some (Some (e_now e)),
                 h_updated_at := Some (e_now e)\<rparr>) s)
      in (redis_job i (e_uuid e) (item_fields s' i), s'))"

definition redis_dequeue :: "qenv \<Rightarrow> redis_state \<Rightarrow> (exn + pydict option) \<times> redis_state" where
  "redis_dequeue e s =
     (case r_rpop s of
        (None, s') \<Rightarrow> (Inr None, s')
      | (Some i, s') \<Rightarrow> redis_claim e i s')"

definition redis_ack :: "qenv \<Rightarrow> string \<Rightarrow> redis_state \<Rightarrow> redis_state" where
  "redis_ack e i s = r_zrem i (r_hset i (\<lambda>h. h\<lparr>h_status := Some Done, h_updated_at := Some (e_now e)\<rparr>) s)"

definition redis_nack :: "nat \<Rightarrow> qenv \<Rightarrow> string \<Rightarrow> string \<Rightarrow> redis_state \<Rightarrow> redis_state" where
  "redis_nack max_attempts e i reason s =
     (let attempts = (case h_attempts (item_fields s i) of None \<Rightarrow> 0 | Some n \<Rightarrow> n) + 1 in
      if attempts \<ge> max_attempts
      then r_sadd i (r_zrem i (r_hset i (\<lambda>h. h\<lparr>h_status := Some Dead, h_attempts := Some attempts,
             h_last_error := Some reason, h_updated_at := Some (e_now e)\<rparr>) s))
      else r_lpush i (r_zrem i (r_hset i (\<lambda>h. h\<lparr>h_status := Some Pending, h_attempts := Some attempts,
             h_last_error := Some reason, h_updated_at := Some (e_now e),
             h_claim_token := Some '''', h_claimed_at := Some None\<rparr>) s)))"

definition redis_dead_letter :: "qenv \<Rightarrow> string \<Rightarrow> redis_state \<Rightarrow> redis_state" where
  "redis_dead_letter e i s =
     r_sadd i (r_zrem i (r_hset i (\<lambda>h. h\<lparr>h_status := Some Dead, h_updated_at := Some (e_now e)\<rparr>) s))"

text \<open>\<open>counts\<close>: pending, claimed, dead. Unlike the SQLite queue there is no count of done items.\<close>

definition redis_counts :: "redis_state \<Rightarrow> nat \<times> nat \<times> nat" where
  "redis_counts s = (length (rd_pending s), length (rd_claimed s), length (rd_dead s))"

definition redis_release :: "qenv \<Rightarrow> string \<Rightarrow> redis_state \<Rightarrow> redis_state" where
  "redis_release e i s =
     r_lpush i (r_zrem i (r_hset i (\<lambda>h. h\<lparr>h_status := Some Pending, h_claim_token := Some '''',
        h_claimed_at := Some None, h_updated_at := Some (e_now e)\<rparr>) s))"

text \<open>Scores are the claim times in microseconds (the code has them as float seconds).\<close>

definition redis_reclaim_stale :: "qenv \<Rightarrow> nat \<Rightarrow> redis_state \<Rightarrow> nat \<times> redis_state" where
  "redis_reclaim_stale e older_than_seconds s =
     (let stale = r_zrangebyscore 0 (e_now e - 1000000 * int older_than_seconds) s
      in (length stale, fold (redis_release e) stale s))"

subsection \<open>The factory\<close>

text \<open>Which queue \<open>make_queue\<close> builds: the database path, or the key prefix and the URL.\<close>

datatype backend_choice = UseSqlite string nat | UseRedis string string nat

definition GLOBAL_QUEUE_PREFIX :: string where
  "GLOBAL_QUEUE_PREFIX = ''andera:queue:global''"

definition str_or :: "string option \<Rightarrow> string \<Rightarrow> string" where
  "str_or x d = (case x of None \<Rightarrow> d | Some s \<Rightarrow> if s = [] then d else s)"

definition make_queue ::
  "string option \<Rightarrow> string option \<Rightarrow> string option \<Rightarrow> string option \<Rightarrow> string option \<Rightarrow> nat \<Rightarrow> bool
    \<Rightarrow> exn + backend_choice" where
  "make_queue backend run_id sqlite_path redis_url redis_prefix max_attempts global_queue =
     (let b = py_lower (str_or backend ''sqlite'') in
      if b = ''sqlite'' then
        if global_queue then Inl (Exn ''ValueError'' ''global queue requires redis backend'')
        else (case run_id of
            None \<Rightarrow> Inl (Exn ''ValueError'' ''sqlite queue needs a run_id'')
          | Some r \<Rightarrow> Inr (UseSqlite (str_or sqlite_path (path_join ''data'' (r @ ''.queue.db''))) max_attempts))
      else if b = ''redis'' then
        let url = str_or redis_url ''redis://localhost:6379/0'' in
        if global_queue then Inr (UseRedis url GLOBAL_QUEUE_PREFIX max_attempts)
        else (case run_id of
            None \<Rightarrow> Inl (Exn ''ValueError'' ''run-scoped redis queue needs a run_id'')
          | Some r \<Rightarrow> Inr (UseRedis url (str_or redis_prefix (''andera:queue:'' @ r)) max_attempts))
      else Inl (Exn ''ValueError'' (''unknown queue backend: '' @ [CHR 0x27] @ b @ [CHR 0x27])))"

subsection \<open>Invariant\<close>

definition redis_status :: "redis_state \<Rightarrow> string \<Rightarrow> item_status option" where
  "redis_status s i = Option.bind (rd_items s i) h_status"

definition redis_attempts :: "redis_state \<Rightarrow> string \<Rightarrow> nat" where
  "redis_attempts s i = (case rd_items s i of None \<Rightarrow> 0 | Some h \<Rightarrow> (case h_attempts h of None \<Rightarrow> 0 | Some n \<Rightarrow> n))"

definition hash_inv :: "nat \<Rightarrow> redis_item \<Rightarrow> bool" where
  "hash_inv m h \<longleftrightarrow>
     (\<exists>p d. h_payload_json h = Some p \<and> json_loads p = Some (PDict d))
     \<and> h_status h \<noteq> None
     \<and> (\<exists>n. h_attempts h = Some n \<and> (h_status h \<in> {Some Pending, Some Claimed} \<longrightarrow> n < m))"

text \<open>The list and the sorted set are duplicate-free indexes of the hashes' status fields.\<close>

definition redis_inv :: "nat \<Rightarrow> redis_state \<Rightarrow> bool" where
  "redis_inv m s \<longleftrightarrow>
     finite (dom (rd_items s)) \<and> distinct (rd_pending s) \<and> distinct (map snd (rd_claimed s))
     \<and> (\<forall>i. i \<in> set (rd_pending s) \<longleftrightarrow> redis_status s i = Some Pending)
     \<and> (\<forall>i. i \<in> snd ` set (rd_claimed s) \<longleftrightarrow> redis_status s i = Some Claimed)
     \<and> (\<forall>i h. rd_items s i = Some h \<longrightarrow> hash_inv m h)"

definition redis_empty :: redis_state where
  "redis_empty = \<lparr> rd_pending = [], rd_items = Map.empty, rd_claimed = [], rd_dead = [] \<rparr>"

lemma redis_empty_inv: "redis_inv m redis_empty"
  by (simp add: redis_inv_def redis_empty_def redis_status_def)

lemma set_z_insert [simp]: "set (z_insert sc i zs) = insert (sc, i) (set zs)"
  by (induction zs) (auto split: if_splits)

lemma distinct_z_insert:
  "distinct (map snd zs) \<Longrightarrow> i \<notin> snd ` set zs \<Longrightarrow> distinct (map snd (z_insert sc i zs))"
  by (induction zs) (auto simp: image_iff split: if_splits)

lemma distinct_zrem: "distinct (map snd zs) \<Longrightarrow> distinct (map snd (filter (\<lambda>x. snd x \<noteq> i) zs))"
  by (simp add: distinct_map_filter)

lemma snd_zrem: "snd ` set (filter (\<lambda>x. snd x \<noteq> i) zs) = snd ` set zs - {i}"
  by auto

lemma redis_status_upd:
  "rd_items t = (rd_items s)(i \<mapsto> h) \<Longrightarrow> redis_status t = (redis_status s)(i := h_status h)"
  by (auto simp: redis_status_def fun_eq_iff)

lemma redis_attempts_upd:
  "rd_items t = (rd_items s)(i \<mapsto> h) \<Longrightarrow> h_attempts h = Some n \<Longrightarrow> redis_attempts t = (redis_attempts s)(i := n)"
  by (auto simp: redis_attempts_def fun_eq_iff)

text \<open>One rule for every operation: it writes one hash and moves the id between the two indexes.\<close>

lemma redis_inv_move:
  assumes inv: "redis_inv m s" and items: "rd_items t = (rd_items s)(i \<mapsto> h)" and h: "hash_inv m h"
    and pend: "distinct (rd_pending t)"
      "set (rd_pending t) = (if h_status h = Some Pending then insert i (set (rd_pending s)) else set (rd_pending s) - {i})"
    and cl: "distinct (map snd (rd_claimed t))"
      "snd ` set (rd_claimed t) = (if h_status h = Some Claimed then insert i (snd ` set (rd_claimed s))
         else snd ` set (rd_claimed s) - {i})"
  shows "redis_inv m t"
  unfolding redis_inv_def redis_status_upd [OF items] pend(2) cl(2)
  using inv h pend(1) cl(1) by (auto simp: redis_inv_def items split: if_splits)

lemma redis_item_of:
  assumes "redis_inv m s" "redis_status s i = Some st"
  obtains h p d n where "rd_items s i = Some h" "h_status h = Some st" "h_payload_json h = Some p"
    "json_loads p = Some (PDict d)" "h_attempts h = Some n" "redis_attempts s i = n"
    "st \<in> {Pending, Claimed} \<Longrightarrow> n < m" "item_fields s i = h"
proof -
  from assms(2) obtain h where h: "rd_items s i = Some h" "h_status h = Some st"
    by (auto simp: redis_status_def Option.bind_eq_Some_conv)
  with assms(1) have "hash_inv m h" by (simp add: redis_inv_def)
  with h that show ?thesis by (auto simp: hash_inv_def redis_attempts_def item_fields_def)
qed

lemma not_empty_json: "json_loads p = Some (PDict d) \<Longrightarrow> p \<noteq> []"
  by (auto, code_simp)

lemma redis_pop_claim:
  assumes inv: "redis_inv m s" and ne: "rd_pending s \<noteq> []" and i: "i = last (rd_pending s)"
  obtains job t where "redis_dequeue e s = (Inr (Some job), t)" "job_item_id job = i"
    "dget job ''claim_token'' = PStr (e_uuid e)" "redis_inv m t"
    "redis_status s i = Some Pending" "redis_status t = (redis_status s)(i \<mapsto> Claimed)"
    "redis_attempts t = redis_attempts s" "rd_pending t = butlast (rd_pending s)"
proof -
  have pend: "redis_status s i = Some Pending" using inv ne i by (auto simp: redis_inv_def)
  obtain h p d n where h: "rd_items s i = Some h" "h_payload_json h = Some p"
    "json_loads p = Some (PDict d)" "h_attempts h = Some n" "n < m"
    using redis_item_of [OF inv pend] by (metis insertI1)
  define h' where "h' = h\<lparr>h_status := Some Claimed, h_claim_token := Some (e_uuid e),
     h_claimed_at := Some (Some (e_now e)), h_updated_at := Some (e_now e)\<rparr>"
  define t where "t = s\<lparr>rd_pending := butlast (rd_pending s), rd_items := (rd_items s)(i \<mapsto> h'),
     rd_claimed := z_insert (e_now e) i (filter (\<lambda>x. snd x \<noteq> i) (rd_claimed s))\<rparr>"
  have "\<exists>job. redis_dequeue e s = (Inr (Some job), t) \<and> job_item_id job = i
      \<and> dget job ''claim_token'' = PStr (e_uuid e)"
    using h ne i not_empty_json [OF h(3)]
    by (auto simp: redis_dequeue_def r_rpop_def redis_claim_def Let_def r_cmds redis_job_def t_def h'_def
        job_item_id_dset)
  moreover have "redis_inv m t"
  proof (rule redis_inv_move [OF inv, where i = i and h = h'])
    have d: "distinct (butlast (rd_pending s) @ [i])" using inv ne i by (simp add: redis_inv_def)
    have st: "set (rd_pending s) = insert i (set (butlast (rd_pending s)))"
      using ne i by (metis append_butlast_last_id list.set(1,2) set_append Un_insert_right sup_bot_right)
    show "distinct (rd_pending t)" using d by (simp add: t_def)
    show "set (rd_pending t) = (if h_status h' = Some Pending then insert i (set (rd_pending s))
        else set (rd_pending s) - {i})" using d st by (auto simp: t_def h'_def)
    show "distinct (map snd (rd_claimed t))"
      unfolding t_def using inv by (auto simp: redis_inv_def intro!: distinct_z_insert distinct_zrem)
    show "snd ` set (rd_claimed t) = (if h_status h' = Some Claimed then insert i (snd ` set (rd_claimed s))
         else snd ` set (rd_claimed s) - {i})" by (auto simp: t_def h'_def)
  qed (use h in \<open>auto simp: t_def h'_def hash_inv_def\<close>)
  moreover have "redis_status t = (redis_status s)(i \<mapsto> Claimed)"
    by (subst redis_status_upd [of t s i h']) (simp_all add: t_def h'_def)
  moreover have "redis_attempts t = redis_attempts s"
    using h by (auto simp: redis_attempts_def t_def h'_def fun_eq_iff)
  ultimately show ?thesis using that pend by (auto simp: t_def)
qed

lemma redis_nack_law:
  assumes inv: "redis_inv m s" and cl: "redis_status s i = Some Claimed"
  shows "redis_inv m (redis_nack m e i reason s) \<and>
    redis_status (redis_nack m e i reason s) =
      (redis_status s)(i \<mapsto> (if m \<le> Suc (redis_attempts s i) then Dead else Pending)) \<and>
    redis_attempts (redis_nack m e i reason s) = (redis_attempts s)(i := Suc (redis_attempts s i))"
proof -
  obtain h p d n where h: "rd_items s i = Some h" "h_payload_json h = Some p"
    "json_loads p = Some (PDict d)" "h_attempts h = Some n" "n < m" "redis_attempts s i = n" "item_fields s i = h"
    using redis_item_of [OF inv cl] by (metis insertI1 insertI2)
  define st where "st = (if m \<le> Suc n then Dead else Pending)"
  define h' where "h' = (if m \<le> Suc n then h\<lparr>h_status := Some Dead, h_attempts := Some (Suc n),
             h_last_error := Some reason, h_updated_at := Some (e_now e)\<rparr>
       else h\<lparr>h_status := Some Pending, h_attempts := Some (Suc n),
             h_last_error := Some reason, h_updated_at := Some (e_now e),
             h_claim_token := Some '''', h_claimed_at := Some None\<rparr>)"
  let ?t = "redis_nack m e i reason s"
  have items: "rd_items ?t = (rd_items s)(i \<mapsto> h')"
    using h by (simp add: redis_nack_def Let_def r_cmds h'_def)
  have pend: "rd_pending ?t = (if m \<le> Suc n then rd_pending s else i # rd_pending s)"
    and clm: "rd_claimed ?t = filter (\<lambda>x. snd x \<noteq> i) (rd_claimed s)"
    using h by (simp_all add: redis_nack_def Let_def r_cmds)
  have ni: "i \<notin> set (rd_pending s)" using inv cl by (simp add: redis_inv_def)
  have st: "h_status h' = Some st" "h_attempts h' = Some (Suc n)" by (simp_all add: h'_def st_def)
  have "redis_inv m ?t"
    by (rule redis_inv_move [OF inv items])
      (use inv h ni in \<open>auto simp: pend clm redis_inv_def distinct_map_filter hash_inv_def h'_def\<close>)
  then show ?thesis
    using redis_status_upd [OF items] redis_attempts_upd [OF items st(2)] st h
    by (simp add: st_def)
qed

lemma redis_ack_law:
  assumes inv: "redis_inv m s" and cl: "redis_status s i = Some Claimed"
  shows "redis_inv m (redis_ack e i s) \<and> redis_status (redis_ack e i s) = (redis_status s)(i \<mapsto> Done)
     \<and> redis_attempts (redis_ack e i s) = redis_attempts s"
proof -
  obtain h p d n where h: "rd_items s i = Some h" "h_payload_json h = Some p"
    "json_loads p = Some (PDict d)" "h_attempts h = Some n" "redis_attempts s i = n" "item_fields s i = h"
    using redis_item_of [OF inv cl] by metis
  let ?h = "h\<lparr>h_status := Some Done, h_updated_at := Some (e_now e)\<rparr>"
  have items: "rd_items (redis_ack e i s) = (rd_items s)(i \<mapsto> ?h)"
    using h by (simp add: redis_ack_def r_cmds)
  have idx: "rd_pending (redis_ack e i s) = rd_pending s"
    "rd_claimed (redis_ack e i s) = filter (\<lambda>x. snd x \<noteq> i) (rd_claimed s)"
    by (simp_all add: redis_ack_def r_cmds)
  have ni: "i \<notin> set (rd_pending s)" using inv cl by (simp add: redis_inv_def)
  have "redis_inv m (redis_ack e i s)"
    by (rule redis_inv_move [OF inv items])
      (use inv h ni in \<open>auto simp: idx redis_inv_def distinct_map_filter hash_inv_def\<close>)
  moreover have "redis_attempts (redis_ack e i s) = (redis_attempts s)(i := n)"
    by (rule redis_attempts_upd [OF items]) (simp add: h)
  ultimately show ?thesis using redis_status_upd [OF items] h by auto
qed

lemma redis_enq_law:
  assumes inv: "redis_inv m s" and enq: "redis_enqueue e item s = (i, t)" and new: "redis_status s i = None"
    and m: "0 < m" and wf: "wf_pyval (PDict item)"
  shows "redis_inv m t \<and> redis_status t = (redis_status s)(i \<mapsto> Pending) \<and> redis_attempts t = (redis_attempts s)(i := 0)"
proof -
  have none: "rd_items s i = None"
  proof (rule ccontr)
    assume "rd_items s i \<noteq> None"
    then obtain h where h: "rd_items s i = Some h" by blast
    with inv have "hash_inv m h" by (simp add: redis_inv_def)
    with h new show False by (auto simp: hash_inv_def redis_status_def)
  qed
  let ?h = "no_fields\<lparr>h_status := Some Pending,
             h_payload_json := Some (dumps_default (PDict item)), h_attempts := Some 0,
             h_created_at := Some (e_now e), h_updated_at := Some (e_now e)\<rparr>"
  have items: "rd_items t = (rd_items s)(i \<mapsto> ?h)" and idx: "rd_pending t = i # rd_pending s" "rd_claimed t = rd_claimed s"
    using enq none by (auto simp: redis_enqueue_def Let_def r_cmds)
  have ni: "i \<notin> set (rd_pending s)" "i \<notin> snd ` set (rd_claimed s)" using inv new by (auto simp: redis_inv_def)
  have "json_loads (dumps_default (PDict item)) = Some (PDict item)" using wf by (simp add: loads_default del: wf_pyval.simps)
  then have "redis_inv m t"
    by (intro redis_inv_move [OF inv items]) (use inv ni m in \<open>auto simp: idx redis_inv_def hash_inv_def\<close>)
  then show ?thesis
    using redis_status_upd [OF items] redis_attempts_upd [OF items, of 0] by simp
qed

interpretation redis_queue: task_queue redis_status redis_attempts "redis_inv m" m redis_enqueue
    redis_dequeue redis_ack "redis_nack m" for m
proof (unfold_locales, goal_cases)
  case (1 s)
  have "dom (redis_status s) \<subseteq> dom (rd_items s)"
    by (auto simp: redis_status_def Option.bind_eq_Some_conv)
  with 1 show ?case by (auto simp: redis_inv_def intro: finite_subset)
next
  case (2 s i st)
  then show ?case using redis_item_of [OF 2(1,2)] by metis
next
  case (3 s e item i s')
  then show ?case by (rule redis_enq_law)
next
  case (4 s e)
  show ?case
  proof (cases "rd_pending s = []")
    case True
    then show ?thesis by (simp add: redis_dequeue_def r_rpop_def)
  next
    case False
    from redis_pop_claim [OF 4 False refl, of e] show ?thesis by metis
  qed
next
  case (5 s e s')
  then have "rd_pending s = []"
    using redis_pop_claim [OF 5(1) _ refl, of e] by (metis Inr_inject option.distinct(1) prod.inject)
  with 5 show ?case by (auto simp: redis_dequeue_def r_rpop_def redis_inv_def)
next
  case (6 s e job s')
  then have ne: "rd_pending s \<noteq> []" by (auto simp: redis_dequeue_def r_rpop_def)
  from redis_pop_claim [OF 6(1) ne refl, of e] 6(2) show ?case by (metis Inr_inject option.inject prod.inject)
next
  case (7 s i e)
  then show ?case by (rule redis_ack_law)
next
  case (8 s i e reason)
  then show ?case by (rule redis_nack_law)
qed

subsection \<open>Releasing stale claims\<close>

lemma redis_release_law:
  assumes inv: "redis_inv m s" and cl: "redis_status s i = Some Claimed"
  shows "redis_inv m (redis_release e i s) \<and> redis_status (redis_release e i s) = (redis_status s)(i \<mapsto> Pending)
     \<and> redis_attempts (redis_release e i s) = redis_attempts s"
proof -
  obtain h p d n where h: "rd_items s i = Some h" "h_payload_json h = Some p"
    "json_loads p = Some (PDict d)" "h_attempts h = Some n" "n < m" "redis_attempts s i = n" "item_fields s i = h"
    using redis_item_of [OF inv cl] by (metis insertI1 insertI2)
  let ?h = "h\<lparr>h_status := Some Pending, h_claim_token := Some '''', h_claimed_at := Some None,
      h_updated_at := Some (e_now e)\<rparr>"
  have items: "rd_items (redis_release e i s) = (rd_items s)(i \<mapsto> ?h)"
    using h by (simp add: redis_release_def r_cmds)
  have idx: "rd_pending (redis_release e i s) = i # rd_pending s"
    "rd_claimed (redis_release e i s) = filter (\<lambda>x. snd x \<noteq> i) (rd_claimed s)"
    by (simp_all add: redis_release_def r_cmds)
  have ni: "i \<notin> set (rd_pending s)" using inv cl by (simp add: redis_inv_def)
  have "redis_inv m (redis_release e i s)"
    by (rule redis_inv_move [OF inv items])
      (use inv h ni in \<open>auto simp: idx redis_inv_def distinct_map_filter hash_inv_def\<close>)
  moreover have "redis_attempts (redis_release e i s) = (redis_attempts s)(i := n)"
    by (rule redis_attempts_upd [OF items]) (simp add: h)
  ultimately show ?thesis using redis_status_upd [OF items] h by auto
qed

lemma redis_releases_law:
  assumes "redis_inv m s" "distinct is" "\<forall>i\<in>set is. redis_status s i = Some Claimed"
  shows "redis_inv m (fold (redis_release e) is s)
    \<and> redis_status (fold (redis_release e) is s) = (\<lambda>i. if i \<in> set is then Some Pending else redis_status s i)
    \<and> redis_attempts (fold (redis_release e) is s) = redis_attempts s"
  using assms
proof (induction "is" arbitrary: s)
  case (Cons i "is")
  have r: "redis_inv m (redis_release e i s)"
    "redis_status (redis_release e i s) = (redis_status s)(i \<mapsto> Pending)"
    "redis_attempts (redis_release e i s) = redis_attempts s"
    using redis_release_law [of m s i e] Cons.prems by simp_all
  have "\<forall>j\<in>set is. redis_status (redis_release e i s) j = Some Claimed"
    using Cons.prems r(2) by auto
  from Cons.IH [OF r(1) _ this] Cons.prems r show ?case by (auto simp: fun_eq_iff)
qed simp

subsection \<open>A claim that was never written\<close>

text \<open>
  Everything the other workers and the coordinator may do after a worker has popped \<open>i\<close> and died: no
  one but its worker acks, nacks or dead-letters \<open>i\<close>, and no new item takes its id.
\<close>

inductive redis_step :: "nat \<Rightarrow> string \<Rightarrow> redis_state \<Rightarrow> redis_state \<Rightarrow> bool" for m i where
  rs_enqueue: "item_id_or (e_uuid e) item \<noteq> i \<Longrightarrow> redis_step m i s (snd (redis_enqueue e item s))"
| rs_dequeue: "redis_step m i s (snd (redis_dequeue e s))"
| rs_ack: "j \<noteq> i \<Longrightarrow> redis_step m i s (redis_ack e j s)"
| rs_nack: "j \<noteq> i \<Longrightarrow> redis_step m i s (redis_nack m e j reason s)"
| rs_dead_letter: "j \<noteq> i \<Longrightarrow> redis_step m i s (redis_dead_letter e j s)"
| rs_reclaim: "redis_step m i s (snd (redis_reclaim_stale e n s))"

definition orphan :: "string \<Rightarrow> redis_state \<Rightarrow> bool" where
  "orphan i s \<longleftrightarrow> i \<notin> set (rd_pending s) \<and> i \<notin> snd ` set (rd_claimed s) \<and> redis_status s i = Some Pending"

lemma orphan_release: "j \<noteq> i \<Longrightarrow> orphan i s \<Longrightarrow> orphan i (redis_release e j s)"
  by (auto simp: orphan_def redis_release_def r_cmds redis_status_def)

lemma orphan_releases: "i \<notin> set is \<Longrightarrow> orphan i s \<Longrightarrow> orphan i (fold (redis_release e) is s)"
  by (induction "is" arbitrary: s) (auto simp: orphan_release)

lemma orphan_dequeue: "orphan i s \<Longrightarrow> orphan i (snd (redis_dequeue e s))"
  by (auto simp: orphan_def redis_dequeue_def r_rpop_def redis_claim_def Let_def r_cmds redis_status_def
      dest: in_set_butlastD)

lemma orphan_step: "redis_step m i s t \<Longrightarrow> orphan i s \<Longrightarrow> orphan i t"
proof (induction rule: redis_step.induct)
  case (rs_reclaim s e n)
  then have "i \<notin> set (r_zrangebyscore 0 (e_now e - 1000000 * int n) s)"
    by (auto simp: orphan_def r_zrangebyscore_def)
  with rs_reclaim show ?case by (simp add: redis_reclaim_stale_def Let_def orphan_releases)
qed (auto simp: orphan_dequeue, auto simp: orphan_def redis_enqueue_def redis_ack_def redis_nack_def
    redis_dead_letter_def Let_def r_cmds redis_status_def)

lemma orphan_steps: "(redis_step m i)\<^sup>*\<^sup>* s t \<Longrightarrow> orphan i s \<Longrightarrow> orphan i t"
  by (induction rule: rtranclp_induct) (auto intro: orphan_step)

lemma redis_job_id: "redis_dequeue e s = (Inr (Some job), t) \<Longrightarrow> job_item_id job \<in> set (rd_pending s)"
  by (auto simp: redis_dequeue_def r_rpop_def redis_claim_def Let_def redis_job_def job_item_id_dset
      split: option.splits pyval.splits if_splits)

subsection \<open>A concrete queue\<close>

definition demo_redis :: redis_state where
  "demo_redis = snd (redis_enqueue (demo_env 2) [(''item_id'', PStr ''b'')]
     (snd (redis_enqueue (demo_env 1) [(''item_id'', PStr ''a'')] redis_empty)))"

lemma demo_redis_inv: "redis_inv 3 demo_redis"
proof -
  let ?s = "snd (redis_enqueue (demo_env 1) [(''item_id'', PStr ''a'')] redis_empty)"
  have i: "fst (redis_enqueue e [(''item_id'', PStr (x # xs))] s) = x # xs" for e x xs s
    by (simp add: redis_enqueue_def Let_def item_id_or_def)
  have a: "redis_inv 3 ?s"
    by (rule redis_enq_law [OF redis_empty_inv prod.collapse [symmetric], THEN conjunct1])
      (simp_all add: redis_status_def redis_empty_def)
  have b: "redis_status ?s ''b'' = None" by code_simp
  show ?thesis unfolding demo_redis_def
    by (rule redis_enq_law [OF a prod.collapse [symmetric], THEN conjunct1]) (simp_all add: i b)
qed

section \<open>Properties\<close>

text \<open>
  C9: the Redis queue refines a plain FIFO. Read from the right, its pending list is the abstract queue:
  \<open>enqueue\<close> adds at the back, \<open>dequeue\<close> never raises and claims the front element (or answers nothing
  when it is empty), and a \<open>nack\<close> with attempts left puts the item at the back again.
\<close>

theorem redis_refines_fifo:
  assumes "redis_inv m s"
  shows "rev (rd_pending (snd (redis_enqueue e item s))) = rev (rd_pending s) @ [fst (redis_enqueue e item s)]
    \<and> (case rev (rd_pending s) of
         [] \<Rightarrow> redis_dequeue e s = (Inr None, s)
       | i # rest \<Rightarrow> (\<exists>job t. redis_dequeue e s = (Inr (Some job), t) \<and> job_item_id job = i
           \<and> rev (rd_pending t) = rest \<and> redis_status t = (redis_status s)(i \<mapsto> Claimed) \<and> redis_inv m t))
    \<and> (redis_status s j = Some Claimed \<and> Suc (redis_attempts s j) < m \<longrightarrow>
         rev (rd_pending (redis_nack m e j reason s)) = rev (rd_pending s) @ [j])"
proof (intro conjI impI)
  show "rev (rd_pending (snd (redis_enqueue e item s))) = rev (rd_pending s) @ [fst (redis_enqueue e item s)]"
    by (simp add: redis_enqueue_def Let_def r_cmds)
next
  show "case rev (rd_pending s) of
         [] \<Rightarrow> redis_dequeue e s = (Inr None, s)
       | i # rest \<Rightarrow> (\<exists>job t. redis_dequeue e s = (Inr (Some job), t) \<and> job_item_id job = i
           \<and> rev (rd_pending t) = rest \<and> redis_status t = (redis_status s)(i \<mapsto> Claimed) \<and> redis_inv m t)"
  proof (cases "rev (rd_pending s)")
    case (Cons i rest)
    then have ps: "rd_pending s = rev rest @ [i]" by (metis rev.simps(2) rev_rev_ident)
    then have ne: "rd_pending s \<noteq> []" and i: "i = last (rd_pending s)" and r: "rest = rev (butlast (rd_pending s))"
      by simp_all
    obtain job t where t: "redis_dequeue e s = (Inr (Some job), t)" "job_item_id job = i" "redis_inv m t"
      "redis_status t = (redis_status s)(i \<mapsto> Claimed)" "rd_pending t = butlast (rd_pending s)"
      by (rule redis_pop_claim [OF assms ne i, of e])
    then show ?thesis unfolding Cons list.case r by (intro exI [of _ job] exI [of _ t]) simp
  qed (simp add: redis_dequeue_def r_rpop_def)
next
  assume j: "redis_status s j = Some Claimed \<and> Suc (redis_attempts s j) < m"
  then show "rev (rd_pending (redis_nack m e j reason s)) = rev (rd_pending s) @ [j]"
    by (auto simp: redis_nack_def Let_def r_cmds redis_attempts_def redis_status_def split: option.splits)
qed

theorem redis_refines_fifo_witness:
  "\<exists>job t. redis_dequeue (demo_env 5) demo_redis = (Inr (Some job), t) \<and> job_item_id job = ''a''
     \<and> redis_status t = (redis_status demo_redis)(''a'' \<mapsto> Claimed)"
proof -
  have p: "rev (rd_pending demo_redis) = [''a'', ''b'']" by code_simp
  show ?thesis
    using redis_refines_fifo [OF demo_redis_inv, of "demo_env 5", THEN conjunct2, THEN conjunct1] unfolding p by auto
qed



text \<open>
  A worker that dies between the \<open>RPOP\<close> and the claim pipeline loses its item for good: whatever the
  others do afterwards, \<open>reclaim_stale\<close> included, the item keeps the status \<open>pending\<close>, is on no list,
  and no \<open>dequeue\<close> ever delivers it.
\<close>

theorem redis_crash_between_pop_and_claim_loses_item:
  assumes "redis_inv m s" "r_rpop s = (Some i, s')" "(redis_step m i)\<^sup>*\<^sup>* s' t"
  shows "redis_status t i = Some Pending \<and> i \<notin> set (r_zrangebyscore lo hi t)
    \<and> (\<forall>e job t'. redis_dequeue e t = (Inr (Some job), t') \<longrightarrow> job_item_id job \<noteq> i)"
proof -
  have ne: "rd_pending s \<noteq> []" and i: "i = last (rd_pending s)" and s': "s' = s\<lparr>rd_pending := butlast (rd_pending s)\<rparr>"
    using assms(2) by (auto simp: r_rpop_def split: if_splits)
  have d: "distinct (butlast (rd_pending s) @ [i])" and st: "redis_status s i = Some Pending"
    using assms(1) ne i by (auto simp: redis_inv_def)
  then have "orphan i s'" using assms(1) by (auto simp: s' orphan_def redis_inv_def redis_status_def)
  then have "orphan i t" using orphan_steps [OF assms(3)] by blast
  then show ?thesis by (auto simp: orphan_def r_zrangebyscore_def dest: redis_job_id)
qed

theorem redis_crash_between_pop_and_claim_loses_item_witness:
  "redis_status (snd (redis_reclaim_stale (demo_env 900000000) 300 (snd (r_rpop demo_redis)))) ''a'' = Some Pending
   \<and> ''a'' \<notin> set (r_zrangebyscore 0 5 (snd (redis_reclaim_stale (demo_env 900000000) 300 (snd (r_rpop demo_redis)))))"
proof -
  have p: "r_rpop demo_redis = (Some ''a'', snd (r_rpop demo_redis))"
    by (rule prod_eqI) (code_simp, simp)
  have st: "(redis_step 3 ''a'')\<^sup>*\<^sup>* (snd (r_rpop demo_redis))
      (snd (redis_reclaim_stale (demo_env 900000000) 300 (snd (r_rpop demo_redis))))"
    by (rule r_into_rtranclp) (rule rs_reclaim)
  from redis_crash_between_pop_and_claim_loses_item [OF demo_redis_inv p st, of 0 5] show ?thesis by simp
qed

text \<open>
  \<open>reclaim_stale\<close> puts exactly the claims whose score is at most the cutoff back to pending, counts
  them, leaves every other status and all attempts as they were, and keeps the queue well formed.
\<close>

theorem redis_reclaim_releases_stale_claims:
  assumes "redis_inv m s" "redis_reclaim_stale e secs s = (n, t)"
  shows "redis_inv m t \<and> redis_attempts t = redis_attempts s
    \<and> redis_status t = (\<lambda>i. if i \<in> set (r_zrangebyscore 0 (e_now e - 1000000 * int secs) s) then Some Pending
         else redis_status s i)
    \<and> n = card (set (r_zrangebyscore 0 (e_now e - 1000000 * int secs) s))"
proof -
  let ?is = "r_zrangebyscore 0 (e_now e - 1000000 * int secs) s"
  have d: "distinct ?is" using assms(1) by (simp add: r_zrangebyscore_def redis_inv_def distinct_map_filter)
  have c: "\<forall>i\<in>set ?is. redis_status s i = Some Claimed"
    using assms(1) by (force simp: r_zrangebyscore_def redis_inv_def)
  from redis_releases_law [OF assms(1) d c, of e] assms(2) distinct_card [OF d]
  show ?thesis by (auto simp: redis_reclaim_stale_def Let_def)
qed

theorem redis_reclaim_releases_stale_claims_witness:
  "redis_inv 3 (snd (redis_reclaim_stale (demo_env 900000000) 300 demo_redis))"
  using redis_reclaim_releases_stale_claims [OF demo_redis_inv prod.collapse [symmetric], of "demo_env 900000000" 300]
  by blast

end
