(* ===== verification/RunQueue.thy ===== *)
theory RunQueue
  imports RedisQueue
begin

text \<open>
  What the run workflow needs of a queue beyond the worker loop's \<open>task_queue\<close>: a job comes out with the
  fields it was put in with, the rescue of stale claims after a restart, and the counts the coordinator
  polls. \<open>run_queue\<close> extends \<open>task_queue\<close> with them, and both queues provide it.
\<close>

subsection \<open>The operations as one value\<close>

text \<open>
  What \<open>make_queue\<close> returns, as the workflow uses it. \<open>qo_pending\<close> and \<open>qo_claimed\<close> are \<open>counts().get(..., 0)\<close>.
\<close>

record 'q queue_ops =
  qo_enqueue :: "qenv \<Rightarrow> pydict \<Rightarrow> 'q \<Rightarrow> string \<times> 'q"
  qo_dequeue :: "qenv \<Rightarrow> 'q \<Rightarrow> (exn + pydict option) \<times> 'q"
  qo_ack :: "qenv \<Rightarrow> string \<Rightarrow> 'q \<Rightarrow> 'q"
  qo_nack :: "qenv \<Rightarrow> string \<Rightarrow> string \<Rightarrow> 'q \<Rightarrow> 'q"
  qo_dead_letter :: "qenv \<Rightarrow> string \<Rightarrow> 'q \<Rightarrow> 'q"
  qo_pending :: "'q \<Rightarrow> nat"
  qo_claimed :: "'q \<Rightarrow> nat"
  qo_reclaim :: "qenv \<Rightarrow> nat \<Rightarrow> 'q \<Rightarrow> nat \<times> 'q"

definition count_or_0 :: "nat option \<Rightarrow> nat" where
  "count_or_0 n = (case n of None \<Rightarrow> 0 | Some k \<Rightarrow> k)"

definition sql_ops :: "nat \<Rightarrow> queue_table queue_ops" where
  "sql_ops m = \<lparr> qo_enqueue = sql_enqueue, qo_dequeue = sql_dequeue, qo_ack = sql_ack, qo_nack = sql_nack m,
     qo_dead_letter = sql_dead_letter, qo_pending = (\<lambda>t. count_or_0 (sql_counts t Pending)),
     qo_claimed = (\<lambda>t. count_or_0 (sql_counts t Claimed)), qo_reclaim = sql_reclaim_stale \<rparr>"

definition redis_ops :: "nat \<Rightarrow> redis_state queue_ops" where
  "redis_ops m = \<lparr> qo_enqueue = redis_enqueue, qo_dequeue = redis_dequeue, qo_ack = redis_ack, qo_nack = redis_nack m,
     qo_dead_letter = redis_dead_letter, qo_pending = (\<lambda>s. fst (redis_counts s)),
     qo_claimed = (\<lambda>s. fst (snd (redis_counts s))), qo_reclaim = redis_reclaim_stale \<rparr>"

lemmas ops_defs = sql_ops_def redis_ops_def

subsection \<open>The interface\<close>

text \<open>The fields a delivery adds to a job.\<close>

definition delivery_keys :: "string set" where
  "delivery_keys = {''item_id'', ''claim_token'', ''attempts''}"

definition same_job :: "pydict \<Rightarrow> pydict \<Rightarrow> bool" where
  "same_job d job \<longleftrightarrow> wf_pyval (PDict job) \<and> (\<forall>k. k \<notin> delivery_keys \<longrightarrow> map_of job k = map_of d k)"

locale run_queue = task_queue status_of attempts_of qinv q_max "qo_enqueue ops" "qo_dequeue ops" "qo_ack ops" "qo_nack ops"
  for status_of :: "'q \<Rightarrow> string \<Rightarrow> item_status option" and attempts_of :: "'q \<Rightarrow> string \<Rightarrow> nat"
    and qinv :: "'q \<Rightarrow> bool" and q_max :: nat and ops :: "'q queue_ops" +
  fixes payload_of :: "'q \<Rightarrow> string \<Rightarrow> pydict option"
  assumes enq_payload: "qinv q \<Longrightarrow> qo_enqueue ops e item q = (i, q') \<Longrightarrow> status_of q i = None \<Longrightarrow> wf_pyval (PDict item)
      \<Longrightarrow> payload_of q' = (payload_of q)(i \<mapsto> item)"
    and enq_id: "dget item ''item_id'' = PNone \<Longrightarrow> fst (qo_enqueue ops e item q) = e_uuid e"
    and deq_payload: "qinv q \<Longrightarrow> qo_dequeue ops e q = (Inr (Some job), q') \<Longrightarrow> payload_of q' = payload_of q
      \<and> (\<exists>d. payload_of q (job_item_id job) = Some d \<and> same_job d job)"
    and ack_payload: "qinv q \<Longrightarrow> status_of q i = Some Claimed \<Longrightarrow> payload_of (qo_ack ops e i q) = payload_of q"
    and nack_payload: "qinv q \<Longrightarrow> status_of q i = Some Claimed \<Longrightarrow> payload_of (qo_nack ops e i reason q) = payload_of q"
    and reclaim_law: "qinv q \<Longrightarrow> qo_reclaim ops e secs q = (n, q') \<Longrightarrow> qinv q' \<and> attempts_of q' = attempts_of q
      \<and> payload_of q' = payload_of q
      \<and> (\<forall>i. status_of q' i = status_of q i \<or> status_of q i = Some Claimed \<and> status_of q' i = Some Pending)"
    and pending_law: "qinv q \<Longrightarrow> qo_pending ops q = 0 \<longleftrightarrow> (\<forall>i. status_of q i \<noteq> Some Pending)"
    and claimed_law: "qinv q \<Longrightarrow> qo_claimed ops q = 0 \<longleftrightarrow> (\<forall>i. status_of q i \<noteq> Some Claimed)"

subsection \<open>The SQLite queue\<close>

definition dict_text :: "string \<Rightarrow> pydict option" where
  "dict_text p = (case json_loads p of Some (PDict d) \<Rightarrow> Some d | _ \<Rightarrow> None)"

definition sql_payload :: "queue_table \<Rightarrow> string \<Rightarrow> pydict option" where
  "sql_payload t i = Option.bind (find_item i t) (\<lambda>r. dict_text (q_payload_json r))"

lemma dict_text_dumps: "wf_pyval (PDict d) \<Longrightarrow> dict_text (dumps_default (PDict d)) = Some d"
  by (simp add: dict_text_def del: wf_pyval.simps)

lemma map_of_dset: "map_of (dset d k v) = (map_of d)(k \<mapsto> v)"
  by (simp add: dset_def update_conv')

lemma delivered_same_job:
  assumes "wf_pyval (PDict d)"
  shows "same_job d (dset (dset (dset d ''item_id'' (PStr i)) ''claim_token'' (PStr tok)) ''attempts'' (PInt n))"
  using assms unfolding same_job_def delivery_keys_def
  by (auto simp del: wf_pyval.simps(2) intro!: dset_wf simp: map_of_dset)

lemma sql_payload_update:
  assumes "\<And>r. q_item_id (f r) = q_item_id r" "\<And>r. q_payload_json (f r) = q_payload_json r"
  shows "sql_payload (update_item i f t) = sql_payload t"
proof (rule ext)
  fix j
  show "sql_payload (update_item i f t) j = sql_payload t j"
    by (cases "find_item j t") (auto simp: sql_payload_def find_item_update assms)
qed

lemma sql_deq_payload:
  assumes "table_inv m t" "sql_dequeue e t = (Inr (Some job), t')"
  shows "sql_payload t' = sql_payload t \<and> (\<exists>d. sql_payload t (job_item_id job) = Some d \<and> same_job d job)"
proof -
  obtain r where r: "oldest_pending t = Some r" using assms(2) by (auto simp: sql_dequeue_def split: option.splits)
  note o = oldest_pending_Some [OF r]
  have ri: "row_inv m r" using assms(1) o by (simp add: table_inv_def)
  then obtain d where d: "json_loads (q_payload_json r) = Some (PDict d)" by (auto simp: row_inv_def)
  have fr: "find_item (q_item_id r) t = Some r" using assms(1) o by (simp add: table_inv_def find_item_member)
  have job: "job = dset (dset (dset d ''item_id'' (PStr (q_item_id r))) ''claim_token'' (PStr (e_uuid e)))
      ''attempts'' (PInt (int (q_attempts r)))"
    using assms(2) r d by (auto simp: sql_dequeue_def claimed_job_def)
  have "sql_payload t' = sql_payload t" using assms(2) r by (auto simp: sql_dequeue_def intro!: sql_payload_update)
  moreover have "same_job d job" unfolding job using json_loads_wf [OF d] by (rule delivered_same_job)
  ultimately show ?thesis
    using fr d by (auto simp: sql_payload_def dict_text_def job job_item_id_dset)
qed

lemma sql_count_zero: "table_inv m t \<Longrightarrow> count_or_0 (sql_counts t s) = 0 \<longleftrightarrow> (\<forall>i. sql_status t i \<noteq> Some s)"
proof -
  assume inv: "table_inv m t"
  have "count_or_0 (sql_counts t s) = 0 \<longleftrightarrow> (\<forall>r\<in>set t. q_status r \<noteq> s)"
    by (simp add: count_or_0_def sql_counts_def Let_def filter_empty_conv)
  also have "\<dots> \<longleftrightarrow> (\<forall>i. sql_status t i \<noteq> Some s)"
    using inv find_item_member find_item_SomeD by (fastforce simp: sql_status_def table_inv_def)
  finally show ?thesis .
qed

lemma enqueue_id: "dget item ''item_id'' = PNone \<Longrightarrow> item_id_or u item = u"
  by (simp add: item_id_or_def)

interpretation sql_run: run_queue sql_status sql_attempts "table_inv m" m "sql_ops m" sql_payload for m
proof (intro run_queue.intro run_queue_axioms.intro, goal_cases)
  case 1
  show ?case using sql_queue.task_queue_axioms [of m] by (simp add: sql_ops_def)
next
  case (2 t e item i t')
  then have new: "find_item i t = None" by (auto simp: sql_status_def)
  then have "filter (\<lambda>r. q_item_id r \<noteq> i) t = t" by (auto simp: filter_id_conv find_item_None)
  with 2 new show ?case
    by (auto simp: sql_ops_def sql_enqueue_def Let_def sql_payload_def find_item_append find_item_single dict_text_dumps fun_eq_iff
        simp del: wf_pyval.simps split: option.splits)
next
  case (3 item e t)
  then show ?case by (simp add: sql_ops_def sql_enqueue_def Let_def enqueue_id)
next
  case (4 t e job t')
  then show ?case by (simp add: sql_ops_def sql_deq_payload)
next
  case (5 t i e)
  show ?case by (simp add: sql_ops_def sql_ack_def sql_payload_update)
next
  case (6 t i e reason)
  then obtain r where "find_item i t = Some r" by (auto simp: sql_status_def)
  from sql_nack_eq [OF this, of m e reason] show ?case by (auto simp: sql_ops_def intro!: sql_payload_update)
next
  case (7 t e secs n t')
  let ?f = "\<lambda>r. if is_stale (e_now e - 1000000 * int secs) r
      then r\<lparr>q_status := Pending, q_claim_token := None, q_claimed_at := None, q_updated_at := e_now e\<rparr> else r"
  from 7 have t': "t' = map ?f t" by (auto simp: sql_ops_def sql_reclaim_stale_def Let_def)
  have f: "find_item i t' = map_option ?f (find_item i t)" for i unfolding t' by (rule find_item_map) simp
  have "table_inv m t'" using sql_reclaim_inv [OF 7(1), of e secs] 7(2) by (simp add: sql_ops_def)
  moreover have "sql_attempts t' i = sql_attempts t i \<and> sql_payload t' i = sql_payload t i
      \<and> (sql_status t' i = sql_status t i \<or> sql_status t i = Some Claimed \<and> sql_status t' i = Some Pending)" for i
    by (cases "find_item i t") (simp_all add: sql_status_def sql_attempts_def sql_payload_def f is_stale_def)
  ultimately show ?case by (simp add: fun_eq_iff)
next
  case (8 t)
  then show ?case by (simp add: sql_ops_def sql_count_zero)
next
  case (9 t)
  then show ?case by (simp add: sql_ops_def sql_count_zero)
qed

subsection \<open>The Redis queue\<close>

definition redis_payload :: "redis_state \<Rightarrow> string \<Rightarrow> pydict option" where
  "redis_payload s i = Option.bind (rd_items s i) (\<lambda>h. Option.bind (h_payload_json h) dict_text)"

lemma redis_payload_hset:
  assumes "rd_items t = (rd_items s)(i \<mapsto> f (item_fields s i))" "\<And>h. h_payload_json (f h) = h_payload_json h"
  shows "redis_payload t = redis_payload s"
  using assms by (auto simp: redis_payload_def item_fields_def no_fields_def fun_eq_iff split: option.splits)

lemma redis_deq_payload:
  assumes "redis_inv m s" "redis_dequeue e s = (Inr (Some job), t)"
  shows "redis_payload t = redis_payload s \<and> (\<exists>d. redis_payload s (job_item_id job) = Some d \<and> same_job d job)"
proof -
  have ne: "rd_pending s \<noteq> []" using assms(2) by (auto simp: redis_dequeue_def r_rpop_def)
  let ?i = "last (rd_pending s)"
  have pend: "redis_status s ?i = Some Pending" using assms(1) ne by (auto simp: redis_inv_def)
  obtain h p d n where h: "rd_items s ?i = Some h" "h_payload_json h = Some p" "json_loads p = Some (PDict d)" "h_attempts h = Some n"
    using redis_item_of [OF assms(1) pend] by metis
  have job: "job = dset (dset (dset d ''item_id'' (PStr ?i)) ''claim_token'' (PStr (e_uuid e))) ''attempts'' (PInt (int n))"
    using assms(2) ne h not_empty_json [OF h(3)]
    by (auto simp: redis_dequeue_def r_rpop_def redis_claim_def Let_def r_cmds redis_job_def)
  have "redis_payload t = redis_payload s"
    using assms(2) ne h by (auto simp: redis_dequeue_def r_rpop_def redis_claim_def Let_def r_cmds redis_payload_def fun_eq_iff)
  moreover have "same_job d job" unfolding job using json_loads_wf [OF h(3)] by (rule delivered_same_job)
  ultimately show ?thesis using h by (auto simp: redis_payload_def dict_text_def job job_item_id_dset)
qed

lemma redis_release_payload: "redis_payload (fold (redis_release e) is s) = redis_payload s"
proof (induction "is" arbitrary: s)
  case (Cons i "is")
  have "redis_payload (redis_release e i s) = redis_payload s"
    by (rule redis_payload_hset [where i = i and f = "\<lambda>h. h\<lparr>h_status := Some Pending, h_claim_token := Some '''',
        h_claimed_at := Some None, h_updated_at := Some (e_now e)\<rparr>"]) (simp_all add: redis_release_def r_cmds)
  with Cons show ?case by simp
qed simp

interpretation redis_run: run_queue redis_status redis_attempts "redis_inv m" m "redis_ops m" redis_payload for m
proof (intro run_queue.intro run_queue_axioms.intro, goal_cases)
  case 1
  show ?case using redis_queue.task_queue_axioms [of m] by (simp add: redis_ops_def)
next
  case (2 s e item i t)
  then show ?case
    by (auto simp: redis_ops_def redis_enqueue_def Let_def r_cmds redis_payload_def dict_text_dumps fun_eq_iff
        simp del: wf_pyval.simps)
next
  case (3 item e s)
  then show ?case by (simp add: redis_ops_def redis_enqueue_def Let_def enqueue_id)
next
  case (4 s e job t)
  then show ?case by (simp add: redis_ops_def redis_deq_payload)
next
  case (5 s i e)
  have "redis_payload (redis_ack e i s) = redis_payload s"
    by (rule redis_payload_hset [where i = i and f = "\<lambda>h. h\<lparr>h_status := Some Done, h_updated_at := Some (e_now e)\<rparr>"])
      (simp_all add: redis_ack_def r_cmds)
  then show ?case by (simp add: redis_ops_def)
next
  case (6 s i e reason)
  have "redis_payload (redis_nack m e i reason s) = redis_payload s"
    by (auto simp: redis_nack_def Let_def r_cmds redis_payload_def no_fields_def fun_eq_iff split: option.splits)
  then show ?case by (simp add: redis_ops_def)
next
  case (7 s e secs n t)
  let ?is = "r_zrangebyscore 0 (e_now e - 1000000 * int secs) s"
  have d: "distinct ?is" using 7(1) by (simp add: r_zrangebyscore_def redis_inv_def distinct_map_filter)
  have c: "\<forall>i\<in>set ?is. redis_status s i = Some Claimed" using 7(1) by (force simp: r_zrangebyscore_def redis_inv_def)
  have t: "t = fold (redis_release e) ?is s" using 7(2) by (auto simp: redis_ops_def redis_reclaim_stale_def Let_def)
  show ?case using redis_releases_law [OF 7(1) d c, of e] c redis_release_payload unfolding t by auto
next
  case (8 s)
  then show ?case by (auto simp: redis_ops_def redis_counts_def redis_inv_def)
next
  case (9 s)
  have "fst (snd (redis_counts s)) = 0 \<longleftrightarrow> snd ` set (rd_claimed s) = {}" by (simp add: redis_counts_def)
  also have "\<dots> \<longleftrightarrow> (\<forall>i. redis_status s i \<noteq> Some Claimed)" using 9 by (auto simp: redis_inv_def)
  finally show ?case by (simp add: redis_ops_def)
qed

end
