(* ===== verification/RunWorkflow.thy ===== *)
theory RunWorkflow
  imports SampleRun RunQueue
begin

text \<open>
  \<open>RunWorkflow\<close> of \<open>orchestrator/runner.py\<close>: a run from its input rows to its totals. The rows become jobs on
  the queue; workers take jobs, run them, record the results and settle them; when nothing is pending the
  totals, the table and the manifest are rebuilt from \<open>samples.jsonl\<close>. A run that died is resumed from
  its files and its queue. The workers are coroutines: a turn of a worker is a stretch of it between two
  points where others may run, and a schedule is the list of the workers that take turns.
\<close>

subsection \<open>Rows to jobs\<close>

text \<open>\<open>input_rows[:max_samples] if max_samples else input_rows\<close>\<close>

definition run_rows :: "int option \<Rightarrow> pyval list \<Rightarrow> pyval list" where
  "run_rows max_samples rows = (case max_samples of None \<Rightarrow> rows | Some n \<Rightarrow> if n = 0 then rows else py_take n rows)"

definition sample_id_of :: "string \<Rightarrow> nat \<Rightarrow> string" where
  "sample_id_of run_id idx = run_id @ ''-'' @ pad_nat 5 idx"

definition sample_job :: "'w runtime \<Rightarrow> nat \<Rightarrow> pyval \<Rightarrow> exn + pydict" where
  "sample_job rt idx row = bindE (attr_get row ''url'') (\<lambda>url.
     Inr [(''sample_id'', PStr (sample_id_of (rt_run_id rt) idx)), (''row_index'', PInt (int idx)), (''input_data'', row),
          (''start_url'', py_or url (dget (rt_task rt) ''default_url'')), (''run_id'', PStr (rt_run_id rt)),
          (''task'', PDict (rt_task rt))])"

text \<open>\<open>_enqueue_all\<close>; \<open>env\<close> gives the clock and the identifier of each call.\<close>

fun enqueue_all ::
  "'q queue_ops \<Rightarrow> (nat \<Rightarrow> qenv) \<Rightarrow> 'w runtime \<Rightarrow> pyval set \<Rightarrow> nat \<Rightarrow> pyval list \<Rightarrow> 'q \<Rightarrow> (exn + unit) \<times> 'q" where
  "enqueue_all ops env rt completed idx [] q = (Inr (), q)"
| "enqueue_all ops env rt completed idx (row # rows) q =
     (if PStr (sample_id_of (rt_run_id rt) idx) \<in> completed then enqueue_all ops env rt completed (Suc idx) rows q
      else (case sample_job rt idx row of
          Inl e \<Rightarrow> (Inl e, q)
        | Inr job \<Rightarrow> enqueue_all ops env rt completed (Suc idx) rows (snd (qo_enqueue ops (env idx) job q))))"

subsection \<open>The run directory\<close>

text \<open>The files of the run directory other than \<open>samples.jsonl\<close>, which the sessions write evidence to as well.\<close>

record 'w disk =
  dk_files :: "'w \<Rightarrow> fs"
  dk_store :: "fs \<Rightarrow> 'w \<Rightarrow> 'w"

definition write_file :: "'w disk \<Rightarrow> string \<Rightarrow> string \<Rightarrow> 'w \<Rightarrow> 'w" where
  "write_file dk name content w = dk_store dk (fs_write [name] content (dk_files dk w)) w"

definition on_world :: "('w \<Rightarrow> 'w) \<Rightarrow> 'w proc \<Rightarrow> 'w proc" where
  "on_world f p = p\<lparr>px_sys := (px_sys p)\<lparr>sy_world := f (sy_world (px_sys p))\<rparr>\<rparr>"

definition run_config_text :: "'w runtime \<Rightarrow> pyval list \<Rightarrow> string" where
  "run_config_text rt rows = dumps_indent (PDict [(''run_id'', PStr (rt_run_id rt)), (''task'', PDict (rt_task rt)),
     (''max_samples_applied'', PInt (int (length rows)))])"

text \<open>A run-level event of the audit log.\<close>

definition log_run_event :: "'w runtime \<Rightarrow> string \<Rightarrow> pydict \<Rightarrow> ('w proc, unit) act" where
  "log_run_event rt kind payload p =
     (let w = sy_world (px_sys p);
          ev = \<lparr>ev_kind = kind, ev_payload = Some payload, ev_run_id = Some (rt_run_id rt), ev_sample_id = None, ev_id = None\<rparr>
      in case audit_append (rt_sha rt) (rt_clock rt w) (rt_uuid rt w (length (px_audit p))) ev (px_audit p) of
        Inl e \<Rightarrow> (Inl e, p)
      | Inr (rows, h) \<Rightarrow> (Inr (), p\<lparr>px_audit := rows\<rparr>))"

subsection \<open>Workers\<close>

text \<open>Where a worker is between two turns: \<open>Ran\<close> has the result recorded but not yet settled on the queue.\<close>

datatype phase = Idle | Holding pydict | Ran pydict outcome | Stopped "exn option"

record ('w, 'q) pool =
  po_proc :: "'w proc"
  po_queue :: 'q
  po_phase :: "nat \<Rightarrow> phase"

text \<open>What the environment of a run provides: the stop event, the clock and identifiers of a queue call.\<close>

record 'w run_env =
  re_stop :: "'w proc \<Rightarrow> bool"
  re_env :: "'w proc \<Rightarrow> qenv"
  re_disk :: "'w disk"
  re_excerpt :: pydict
  re_workers :: nat
  re_distributed :: bool

text \<open>\<open>_worker\<close>, one turn: take a job, run and record it, or settle it. An exception of \<open>dequeue\<close> ends the worker.\<close>

definition worker_turn :: "'q queue_ops \<Rightarrow> 'w run_env \<Rightarrow> 'w runtime \<Rightarrow> nat \<Rightarrow> ('w, 'q) pool \<Rightarrow> ('w, 'q) pool" where
  "worker_turn ops re rt i s =
     (let go = (\<lambda>ph s. s\<lparr>po_phase := (po_phase s)(i := ph)\<rparr>); p = po_proc s; q = po_queue s in
      case po_phase s i of
        Stopped e \<Rightarrow> s
      | Idle \<Rightarrow>
          (if re_stop re p then go (Stopped None) s
           else (case qo_dequeue ops (re_env re p) q of
               (Inl e, q') \<Rightarrow> go (Stopped (Some e)) (s\<lparr>po_queue := q'\<rparr>)
             | (Inr None, q') \<Rightarrow> go (Stopped None) (s\<lparr>po_queue := q'\<rparr>)
             | (Inr (Some job), q') \<Rightarrow> go (Holding job) (s\<lparr>po_queue := q'\<rparr>)))
      | Holding job \<Rightarrow> (case run_and_record rt job p of (r, p') \<Rightarrow> go (Ran job (settle_outcome r)) (s\<lparr>po_proc := p'\<rparr>))
      | Ran job out \<Rightarrow>
          go Idle (s\<lparr>po_queue := (case out of Ack \<Rightarrow> qo_ack ops (re_env re p) (job_item_id job) q
                     | Nack reason \<Rightarrow> qo_nack ops (re_env re p) (job_item_id job) reason q)\<rparr>))"

definition run_turns :: "'q queue_ops \<Rightarrow> 'w run_env \<Rightarrow> 'w runtime \<Rightarrow> nat list \<Rightarrow> ('w, 'q) pool \<Rightarrow> ('w, 'q) pool" where
  "run_turns ops re rt schedule s = fold (worker_turn ops re rt) schedule s"

text \<open>
  The drain loop of \<open>execute\<close>, a schedule per round of \<open>asyncio.gather\<close>: a round ends when every worker
  has stopped, and there is another while something is pending and no stop was asked for. \<open>None\<close> when the
  schedules end before the loop does.
\<close>

definition workers :: "'w run_env \<Rightarrow> nat list" where
  "workers re = [0..<max 1 (re_workers re)]"

definition stopped :: "phase \<Rightarrow> bool" where
  "stopped ph = (case ph of Stopped e \<Rightarrow> True | _ \<Rightarrow> False)"

definition stop_error :: "phase \<Rightarrow> exn option" where
  "stop_error ph = (case ph of Stopped e \<Rightarrow> e | _ \<Rightarrow> None)"

fun run_rounds ::
  "'q queue_ops \<Rightarrow> 'w run_env \<Rightarrow> 'w runtime \<Rightarrow> nat list list \<Rightarrow> ('w, 'q) pool \<Rightarrow> ((exn + unit) \<times> ('w, 'q) pool) option" where
  "run_rounds ops re rt [] s = None"
| "run_rounds ops re rt (schedule # rest) s =
     (let s' = run_turns ops re rt (filter (\<lambda>i. i \<in> set (workers re)) schedule) (s\<lparr>po_phase := (\<lambda>_. Idle)\<rparr>) in
      if \<not> list_all (\<lambda>i. stopped (po_phase s' i)) (workers re) then None
      else (case List.map_filter (\<lambda>i. stop_error (po_phase s' i)) (workers re) of
          e # _ \<Rightarrow> Some (Inl e, s')
        | [] \<Rightarrow> if re_stop re (po_proc s') \<or> qo_pending ops (po_queue s') = 0 then Some (Inr (), s')
                else run_rounds ops re rt rest s'))"

subsection \<open>The beginning and the end of a run\<close>

text \<open>
  \<open>execute\<close> up to the workers: the configuration is written, a resumed run reads its record back and
  releases every claim, the start is logged and the rows are enqueued.
\<close>

definition set_progress :: "progress \<Rightarrow> 'w proc \<Rightarrow> 'w proc" where
  "set_progress pr p = p\<lparr>px_record := (pr, snd (px_record p))\<rparr>"

definition start_payload :: "'w run_env \<Rightarrow> 'w runtime \<Rightarrow> pyval list \<Rightarrow> pydict" where
  "start_payload re rt rows = [(''task'', dget (rt_task rt) ''task_id''), (''total'', PInt (int (length rows))),
     (''distributed'', PBool (re_distributed re))]"

definition resume_payload :: "'w run_env \<Rightarrow> progress \<Rightarrow> nat \<Rightarrow> pydict" where
  "resume_payload re pr reclaimed = [(''resumed'', PBool True), (''already_completed'', PInt (int (card (pr_done pr)))),
     (''reclaimed_stale'', PInt (int reclaimed)), (''distributed'', PBool (re_distributed re))]"

definition begin_run ::
  "'q queue_ops \<Rightarrow> (nat \<Rightarrow> qenv) \<Rightarrow> 'w run_env \<Rightarrow> 'w runtime \<Rightarrow> bool \<Rightarrow> pyval list \<Rightarrow> ('w, 'q) pool \<Rightarrow> (exn + unit) \<times> ('w, 'q) pool" where
  "begin_run ops env re rt resuming rows s =
     (let p = on_world (write_file (re_disk re) ''.run_config.json'' (run_config_text rt rows)) (po_proc s);
          enqueue = (\<lambda>r p q. case r of
             Inl e \<Rightarrow> (Inl e, s\<lparr>po_proc := p, po_queue := q\<rparr>)
           | Inr _ \<Rightarrow> (case enqueue_all ops env rt (pr_done (fst (px_record p))) 0 rows q of
                 (r', q') \<Rightarrow> (r', s\<lparr>po_proc := p, po_queue := q'\<rparr>)))
      in if resuming then
           (case load_completed (snd (px_record p)) (fst (px_record p)) of
              Inl e \<Rightarrow> (Inl e, s\<lparr>po_proc := p\<rparr>)
            | Inr pr \<Rightarrow>
                (case qo_reclaim ops (re_env re p) 0 (po_queue s) of (n, q) \<Rightarrow>
                   (case log_run_event rt ''run.started'' (resume_payload re pr n) (set_progress pr p) of
                      (r, p') \<Rightarrow> enqueue r p' q)))
         else (case log_run_event rt ''run.started'' (start_payload re rt rows) p of
                 (r, p') \<Rightarrow> enqueue r p' (po_queue s)))"

record run_result =
  rr_total :: nat
  rr_passed :: nat
  rr_failed :: nat
  rr_extracted :: "pyval list"
  rr_csv :: "string option"
  rr_manifest :: "fpath option"

text \<open>\<open>finalize\<close>: everything is rebuilt from \<open>samples.jsonl\<close>.\<close>

definition finalize :: "'w run_env \<Rightarrow> 'w runtime \<Rightarrow> ('w proc, run_result) act" where
  "finalize re rt p0 =
     (let txt = snd (px_record p0); p = set_progress progress_empty p0 in
      case load_completed txt progress_empty of
        Inl e \<Rightarrow> (Inl e, p)
      | Inr pr \<Rightarrow>
          (let p = set_progress pr p in
           case samples_summary txt of
             Inl e \<Rightarrow> (Inl e, p)
           | Inr summaries \<Rightarrow>
               (case rebuild_csv summaries of
                  Inl e \<Rightarrow> (Inl e, p)
                | Inr csv \<Rightarrow>
                    bindA (log_run_event rt ''run.completed'' [(''passed'', PInt (int (pr_passed pr))),
                        (''failed'', PInt (int (pr_failed pr))), (''total'', PInt (int (pr_total pr)))])
                      (\<lambda>_ p. (Inr \<lparr>rr_total = pr_total pr, rr_passed = pr_passed pr, rr_failed = pr_failed pr,
                          rr_extracted = map (\<lambda>s. py_or (dget s ''extracted'') (PDict [])) summaries,
                          rr_csv = Some csv, rr_manifest = Some manifest_path\<rparr>,
                        on_world (\<lambda>w. dk_store (re_disk re)
                          (write_manifest (rt_sha rt) (rt_clock rt w) (rt_run_id rt) (rt_task rt) summaries
                             (Some (root_hash (Some (rt_run_id rt)) (px_audit p))) (Some (re_excerpt re)) (dk_files (re_disk re) w)) w) p))
                      (on_world (write_file (re_disk re) ''output.csv'' csv) p))))"

text \<open>\<open>execute\<close>: with \<open>distributed\<close> set it returns after enqueueing; otherwise the workers drain the queue.\<close>

definition execute ::
  "'q queue_ops \<Rightarrow> (nat \<Rightarrow> qenv) \<Rightarrow> 'w run_env \<Rightarrow> 'w runtime \<Rightarrow> bool \<Rightarrow> pyval list \<Rightarrow> nat list list \<Rightarrow> ('w, 'q) pool
    \<Rightarrow> ((exn + run_result) \<times> ('w, 'q) pool) option" where
  "execute ops env re rt resuming rows schedules s =
     (case begin_run ops env re rt resuming rows s of
        (Inl e, s1) \<Rightarrow> Some (Inl e, s1)
      | (Inr _, s1) \<Rightarrow>
          if re_distributed re
          then Some (Inr \<lparr>rr_total = length rows, rr_passed = 0, rr_failed = 0, rr_extracted = [], rr_csv = None, rr_manifest = None\<rparr>, s1)
          else (case run_rounds ops re rt schedules s1 of
              None \<Rightarrow> None
            | Some (Inl e, s2) \<Rightarrow> Some (Inl e, s2)
            | Some (Inr _, s2) \<Rightarrow>
                (case finalize re rt (po_proc s2) of (r, p) \<Rightarrow> Some (r, s2\<lparr>po_proc := p\<rparr>))))"

text \<open>\<open>queue_drained\<close>, which the finalizer of a distributed run polls, and the exit code of \<open>andera run\<close>.\<close>

definition queue_drained :: "'q queue_ops \<Rightarrow> 'q \<Rightarrow> bool" where
  "queue_drained ops q \<longleftrightarrow> qo_pending ops q = 0 \<and> qo_claimed ops q = 0"

definition exit_code :: "run_result \<Rightarrow> int" where
  "exit_code r = (if rr_failed r = 0 then 0 else 1)"

text \<open>\<open>resume\<close>: a new process, which has the files, the queue and the audit log of the old one.\<close>

definition resume_run ::
  "'q queue_ops \<Rightarrow> (nat \<Rightarrow> qenv) \<Rightarrow> 'w run_env \<Rightarrow> 'w runtime \<Rightarrow> nat list list \<Rightarrow> ('w, 'q) pool
    \<Rightarrow> ((exn + run_result) \<times> ('w, 'q) pool) option" where
  "resume_run ops env re rt schedules s =
     (case fs_read (dk_files (re_disk re) (sy_world (px_sys (po_proc s)))) [''.run_config.json''] of
        None \<Rightarrow> Some (Inl (Exn ''FileNotFoundError'' (''run config missing: runs/'' @ rt_run_id rt @ ''/.run_config.json'')), s)
      | Some txt \<Rightarrow>
          (case json_loads txt of
             Some (PDict cfg) \<Rightarrow>
               (case getitem cfg ''task'' of
                  Inr (PDict task) \<Rightarrow>
                    execute ops env re (rt\<lparr>rt_task := task\<rparr>) True [] schedules (s\<lparr>po_proc := set_progress progress_empty (po_proc s)\<rparr>)
                | Inr v \<Rightarrow> Some (Inl (Exn ''AttributeError'' (type_name v @ '' object has no attribute get'')), s)
                | Inl e \<Rightarrow> Some (Inl e, s))
           | Some v \<Rightarrow> Some (Inl (Exn ''TypeError'' (type_name v @ '' indices must be integers'')), s)
           | None \<Rightarrow> Some (Inl json_error, s)))"

section \<open>The invariant of a run\<close>

subsection \<open>One job\<close>

lemma log_event_record [simp]: "px_record (snd (log_event rt kind sample payload p)) = px_record p"
  by (simp add: log_event_def Let_def split: sum.splits prod.splits)

lemma thread_run_record [simp]: "px_record (snd (thread_run d t input p)) = px_record p"
  by (simp add: thread_run_def Let_def split: prod.splits)

lemma run_agent_record [simp]: "px_record (snd (run_agent rt job sample obs session p)) = px_record p"
  by (simp add: run_agent_def)

lemma bindA_record:
  "(\<And>p. px_record (snd (m p)) = px_record p) \<Longrightarrow> (\<And>x p. px_record (snd (f x p)) = px_record p)
    \<Longrightarrow> px_record (snd (bindA m f p)) = px_record p"
  by (auto simp: bindA_def case_prod_beta split: sum.splits)

lemma map_act_record: "(\<And>p. px_record (snd (m p)) = px_record p) \<Longrightarrow> px_record (snd (map_act f m p)) = px_record p"
  unfolding map_act_def by (rule bindA_record) simp_all

lemma one_body_record [simp]: "px_record (snd (one_body rt job sample pre session p)) = px_record p"
proof -
  have agent: "px_record (snd (map_act (Inr :: agent_state \<Rightarrow> pydict + agent_state) (run_agent rt job sample obs session) p)) = px_record p" for obs p
    by (rule map_act_record) simp
  obtain pf w where pf: "run_preflight rt session (dget job ''start_url'') (sy_world (px_sys p)) = (pf, w)" by fastforce
  show ?thesis
  proof (cases pf)
    case (Login_wall landed snap)
    let ?p = "p\<lparr>px_sys := px_sys p\<lparr>sy_world := w\<rparr>\<rparr>"
    let ?m = "log_event rt ''sample.failed'' sample [(''reason'', PStr ''auth_required''),
      (''host'', opt_pv (host_of (rt_v6 rt) (dget job ''start_url''))), (''landed'', landed)] ?p"
    have "px_record (snd ?m) = px_record p" by simp
    then show ?thesis using agent pf Login_wall
      by (cases ?m; cases "fst ?m") (simp_all add: one_body_def Let_def onp_def)
  qed (use agent pf in \<open>simp add: one_body_def Let_def onp_def\<close>)
qed

lemma with_session_record:
  "(\<And>s p. px_record (snd (body s p)) = px_record p) \<Longrightarrow> px_record (snd (with_session rt sample storage body p)) = px_record p"
  by (simp add: with_session_def onp_def case_prod_beta split: sum.splits)

lemma run_one_record [simp]: "px_record (snd (run_one rt job p)) = px_record p"
  unfolding run_one_def Let_def
  by (auto simp: returnA_def intro!: bindA_record with_session_record split: sum.splits)

text \<open>A job as \<open>_enqueue_all\<close> makes it.\<close>

definition run_job :: "pydict \<Rightarrow> bool" where
  "run_job d \<longleftrightarrow> (\<exists>sid n. map_of d ''sample_id'' = Some (PStr sid) \<and> sid \<noteq> [] \<and> map_of d ''row_index'' = Some (PInt n))"

lemma run_job_same: "run_job d \<Longrightarrow> same_job d job \<Longrightarrow> run_job job \<and> sample_of job = sample_of d \<and> wf_pyval (PDict job)"
  by (auto simp: run_job_def same_job_def delivery_keys_def sample_of_def dget_def simp del: wf_pyval.simps)

lemma run_and_record_post:
  assumes "run_and_record rt job p = (r, p')" "run_job job" "wf_pyval (PDict job)" "proc_ok rt p" "wf_runtime rt"
    "recorded ds (px_record p)"
  shows "proc_ok rt p' \<and> (\<exists>new. recorded (ds @ new) (px_record p') \<and> set new \<subseteq> {res. r = Inr res}
    \<and> (\<forall>res. r = Inr res \<longrightarrow> sample_of job \<in> set (map sample_of (ds @ new))))"
proof -
  from assms(2) obtain sid n where sid: "map_of job ''sample_id'' = Some (PStr sid)" "sid \<noteq> []" "map_of job ''row_index'' = Some (PInt n)"
    by (auto simp: run_job_def)
  have js: "job_sample job = Inr sid" using sid by (simp add: job_sample_def getitem_def field_str_def)
  obtain r1 p1 where one: "run_one rt job p = (r1, p1)" by fastforce
  note shape = run_one_shape [OF one js assms(4,5,3)]
  have rec1: "px_record p1 = px_record p" using run_one_record [of rt job p] one by simp
  show ?thesis
  proof (cases r1)
    case (Inl e)
    with assms(1,6) one shape rec1 show ?thesis by (auto simp: run_and_record_def intro!: exI [of _ "[]"])
  next
    case (Inr res)
    with shape have res: "wf_pyval (PDict res)" "dget res ''sample_id'' = PStr sid" "dget res ''row_index'' = PInt n" "proc_ok rt p1"
      using sid by (auto simp: dget_def simp del: wf_pyval.simps)
    have wf: "wf_result res"
      using res sid(2) by (auto simp: wf_result_def row_key_def py_or_def dget_def simp del: wf_pyval.simps split: option.splits)
    have so: "sample_of res = sample_of job" using res sid by (simp add: sample_of_def dget_def)
    from recorded_result [OF assms(6) wf] obtain s' where s': "record_result res (px_record p) = Inr s'"
      "recorded (ds @ (if sample_of res \<in> set (map sample_of ds) then [] else [res])) s'" by auto
    have "r = Inr res" "p' = p1\<lparr>px_record := s'\<rparr>"
      using assms(1) one Inr s'(1) rec1 by (simp_all add: run_and_record_def)
    with s'(2) so res(4) show ?thesis
      by (intro conjI exI [of _ "if sample_of res \<in> set (map sample_of ds) then [] else [res]"])
        (auto simp: proc_ok_def log_verifies_def)
  qed
qed

subsection \<open>The pool\<close>

definition holds :: "phase \<Rightarrow> pydict option" where
  "holds ph = (case ph of Holding job \<Rightarrow> Some job | Ran job out \<Rightarrow> Some job | _ \<Rightarrow> None)"

lemma holds_simps [simp]: "holds Idle = None" "holds (Holding job) = Some job" "holds (Ran job out) = Some job"
  "holds (Stopped e) = None"
  by (simp_all add: holds_def)

text \<open>
  What holds between any two turns: the queue, the log and the record are well formed; every job a worker
  holds is claimed, and by that worker alone; an item that is done, or about to be, has its sample in the record.
\<close>

definition held_ok :: "('q \<Rightarrow> string \<Rightarrow> item_status option) \<Rightarrow> ('q \<Rightarrow> string \<Rightarrow> pydict option) \<Rightarrow> ('w, 'q) pool \<Rightarrow> bool" where
  "held_ok status_of payload_of s \<longleftrightarrow>
     (\<forall>w job. holds (po_phase s w) = Some job \<longrightarrow> status_of (po_queue s) (job_item_id job) = Some Claimed
        \<and> (\<exists>d. payload_of (po_queue s) (job_item_id job) = Some d \<and> same_job d job))
   \<and> (\<forall>w w' job job'. holds (po_phase s w) = Some job \<longrightarrow> holds (po_phase s w') = Some job'
        \<longrightarrow> job_item_id job = job_item_id job' \<longrightarrow> w = w')"

definition settled_ok :: "('q \<Rightarrow> string \<Rightarrow> item_status option) \<Rightarrow> ('q \<Rightarrow> string \<Rightarrow> pydict option) \<Rightarrow> pydict list \<Rightarrow> ('w, 'q) pool \<Rightarrow> bool" where
  "settled_ok status_of payload_of ds s \<longleftrightarrow> recorded ds (px_record (po_proc s))
     \<and> (\<forall>i. status_of (po_queue s) i = Some Done \<longrightarrow>
          (\<exists>d. payload_of (po_queue s) i = Some d \<and> sample_of d \<in> set (map sample_of ds)))
     \<and> (\<forall>w job. po_phase s w = Ran job Ack \<longrightarrow> sample_of job \<in> set (map sample_of ds))"

definition pool_ok ::
  "('q \<Rightarrow> string \<Rightarrow> item_status option) \<Rightarrow> ('q \<Rightarrow> string \<Rightarrow> pydict option) \<Rightarrow> ('q \<Rightarrow> bool) \<Rightarrow> 'w runtime \<Rightarrow> ('w, 'q) pool \<Rightarrow> bool" where
  "pool_ok status_of payload_of qinv rt s \<longleftrightarrow> qinv (po_queue s) \<and> proc_ok rt (po_proc s)
     \<and> (\<forall>i d. payload_of (po_queue s) i = Some d \<longrightarrow> run_job d)
     \<and> held_ok status_of payload_of s \<and> (\<exists>ds. settled_ok status_of payload_of ds s)"

text \<open>A turn of a worker, or the death of the process and its resumption with a new state in memory.\<close>

inductive run_step :: "'q queue_ops \<Rightarrow> 'w run_env \<Rightarrow> 'w runtime \<Rightarrow> ('w, 'q) pool \<Rightarrow> ('w, 'q) pool \<Rightarrow> bool" for ops re rt where
  step_turn: "run_step ops re rt s (worker_turn ops re rt i s)"
| step_resume: "begin_run ops env re rt True []
      (s\<lparr>po_phase := (\<lambda>_. Idle), po_proc := (po_proc s)\<lparr>px_sys := sys, px_record := (progress_empty, snd (px_record (po_proc s)))\<rparr>\<rparr>)
      = (Inr (), t) \<Longrightarrow> run_step ops re rt s t"

lemma settle_AckD: "settle_outcome r = Ack \<Longrightarrow> \<exists>res. r = Inr res"
  by (cases r) (auto simp: settle_outcome_def)

lemma held_okD:
  assumes "held_ok status_of payload_of s" "holds (po_phase s w) = Some job"
  obtains d where "status_of (po_queue s) (job_item_id job) = Some Claimed"
    "payload_of (po_queue s) (job_item_id job) = Some d" "same_job d job"
  using assms unfolding held_ok_def by blast

lemma held_ok_unique:
  "held_ok status_of payload_of s \<Longrightarrow> holds (po_phase s w) = Some job \<Longrightarrow> holds (po_phase s w') = Some job'
    \<Longrightarrow> job_item_id job = job_item_id job' \<Longrightarrow> w = w'"
  unfolding held_ok_def by blast

lemma held_ok_idle: "held_ok status_of payload_of (s\<lparr>po_phase := (\<lambda>_. Idle)\<rparr>)"
  by (simp add: held_ok_def)

context run_queue
begin

lemma turn_claim:
  assumes ok: "pool_ok status_of payload_of qinv rt s" and idle: "po_phase s i = Idle"
    and deq: "qo_dequeue ops e (po_queue s) = (Inr (Some job), q')"
  shows "pool_ok status_of payload_of qinv rt (s\<lparr>po_queue := q', po_phase := (po_phase s)(i := Holding job)\<rparr>)"
proof -
  have inv: "qinv (po_queue s)" using ok by (simp add: pool_ok_def)
  note d = deq_Some [OF inv deq] and pl = deq_payload [OF inv deq]
  have held: "held_ok status_of payload_of s" using ok by (simp add: pool_ok_def)
  have others: "job_item_id job' \<noteq> job_item_id job" if "holds (po_phase s w) = Some job'" for w job'
    using held_okD [OF held that] d by (metis item_status.distinct(1) option.inject)
  have "held_ok status_of payload_of (s\<lparr>po_queue := q', po_phase := (po_phase s)(i := Holding job)\<rparr>)"
    using held others d pl unfolding held_ok_def by (auto split: if_splits)
  moreover have "settled_ok status_of payload_of ds (s\<lparr>po_queue := q', po_phase := (po_phase s)(i := Holding job)\<rparr>)"
    if "settled_ok status_of payload_of ds s" for ds
    using that d pl by (auto simp: settled_ok_def)
  ultimately show ?thesis using ok d pl by (auto simp: pool_ok_def)
qed

lemma turn_stop:
  "pool_ok status_of payload_of qinv rt s \<Longrightarrow> pool_ok status_of payload_of qinv rt (s\<lparr>po_phase := (po_phase s)(i := Stopped x)\<rparr>)"
  by (auto simp: pool_ok_def held_ok_def settled_ok_def)

lemma turn_run:
  assumes ok: "pool_ok status_of payload_of qinv rt s" and ph: "po_phase s i = Holding job" and rt: "wf_runtime rt"
    and run: "run_and_record rt job (po_proc s) = (r, p')"
  shows "pool_ok status_of payload_of qinv rt (s\<lparr>po_proc := p', po_phase := (po_phase s)(i := Ran job (settle_outcome r))\<rparr>)"
    (is "pool_ok _ _ _ _ ?s'")
proof -
  have h: "holds (po_phase s i) = Some job" using ph by simp
  obtain d where d: "payload_of (po_queue s) (job_item_id job) = Some d" "same_job d job"
    using ok by (auto simp: pool_ok_def elim: held_okD [OF _ h])
  have j: "run_job job" "wf_pyval (PDict job)" using ok d run_job_same [of d job] by (auto simp: pool_ok_def)
  obtain ds where ds: "settled_ok status_of payload_of ds s" using ok by (auto simp: pool_ok_def)
  then have rec: "recorded ds (px_record (po_proc s))" by (simp add: settled_ok_def)
  have p: "proc_ok rt (po_proc s)" using ok by (simp add: pool_ok_def)
  obtain new where new: "proc_ok rt p'" "recorded (ds @ new) (px_record p')"
    "\<forall>res. r = Inr res \<longrightarrow> sample_of job \<in> set (map sample_of (ds @ new))"
    using run_and_record_post [OF run j p rt rec] by auto
  have "held_ok status_of payload_of ?s'"
    using ok h by (auto simp: pool_ok_def held_ok_def split: if_splits)
  moreover have "settled_ok status_of payload_of (ds @ new) ?s'"
    using ds new settle_AckD [of r] by (fastforce simp: settled_ok_def split: if_splits)
  ultimately show ?thesis using ok new by (auto simp: pool_ok_def)
qed

lemma turn_settle:
  assumes ok: "pool_ok status_of payload_of qinv rt s" and ph: "po_phase s i = Ran job out"
  shows "pool_ok status_of payload_of qinv rt (s\<lparr>po_queue := (case out of Ack \<Rightarrow> qo_ack ops e (job_item_id job) (po_queue s)
      | Nack reason \<Rightarrow> qo_nack ops e (job_item_id job) reason (po_queue s)), po_phase := (po_phase s)(i := Idle)\<rparr>)"
    (is "pool_ok _ _ _ _ ?s'")
proof -
  let ?q = "po_queue s" and ?j = "job_item_id job"
  have inv: "qinv ?q" and h: "holds (po_phase s i) = Some job" using ok ph by (simp_all add: pool_ok_def)
  then obtain d where d: "status_of ?q ?j = Some Claimed" "payload_of ?q ?j = Some d" "same_job d job"
    using ok by (auto simp: pool_ok_def elim: held_okD [OF _ h])
  have rj: "run_job d" using ok d by (auto simp: pool_ok_def)
  have others: "job_item_id job' \<noteq> ?j" if "w \<noteq> i" "holds (po_phase s w) = Some job'" for w job'
    using ok held_ok_unique [OF _ that(2) h] that(1) by (auto simp: pool_ok_def)
  have q': "qinv (po_queue ?s')" "payload_of (po_queue ?s') = payload_of ?q"
    "\<forall>k. k \<noteq> ?j \<longrightarrow> status_of (po_queue ?s') k = status_of ?q k"
    "status_of (po_queue ?s') ?j = Some Done \<longrightarrow> out = Ack"
    using ack_law [OF inv d(1), of e] nack_law [OF inv d(1), of e] ack_payload [OF inv d(1), of e]
      nack_payload [OF inv d(1), of e] by (auto split: outcome.splits if_splits)
  have "held_ok status_of payload_of ?s'"
    using ok others q' unfolding pool_ok_def held_ok_def
    by (auto split: if_splits)
  moreover have "settled_ok status_of payload_of ds ?s'" if ds: "settled_ok status_of payload_of ds s" for ds
  proof -
    have "sample_of d \<in> set (map sample_of ds)" if "out = Ack"
    proof -
      have "sample_of job \<in> set (map sample_of ds)" using ds ph that unfolding settled_ok_def by blast
      with run_job_same [OF rj d(3)] show ?thesis by simp
    qed
    then have "\<exists>d'. payload_of ?q k = Some d' \<and> sample_of d' \<in> set (map sample_of ds)"
      if "status_of (po_queue ?s') k = Some Done" for k
      using that q'(3,4) d(2) ds unfolding settled_ok_def by (cases "k = ?j") (auto simp del: set_map)
    with ds q'(2) show ?thesis unfolding settled_ok_def by (auto split: if_splits)
  qed
  ultimately show ?thesis using ok q' by (auto simp: pool_ok_def)
qed

lemma worker_turn_ok:
  assumes "pool_ok status_of payload_of qinv rt s" "wf_runtime rt"
  shows "pool_ok status_of payload_of qinv rt (worker_turn ops re rt i s)"
proof (cases "po_phase s i")
  case Idle
  have inv: "qinv (po_queue s)" using assms(1) by (simp add: pool_ok_def)
  obtain x q' where deq: "qo_dequeue ops (re_env re (po_proc s)) (po_queue s) = (Inr x, q')"
    using deq_returns [OF inv] by blast
  show ?thesis
  proof (cases x)
    case None
    with deq deq_None [OF inv] have "q' = po_queue s" by blast
    with Idle None deq turn_stop [OF assms(1), of i] show ?thesis by (simp add: worker_turn_def Let_def)
  next
    case (Some job)
    with Idle deq turn_claim [OF assms(1) Idle] turn_stop [OF assms(1), of i] show ?thesis by (simp add: worker_turn_def Let_def)
  qed
next
  case (Holding job)
  obtain r p' where "run_and_record rt job (po_proc s) = (r, p')" by fastforce
  with turn_run [OF assms(1) Holding assms(2) this] Holding show ?thesis by (simp add: worker_turn_def Let_def)
next
  case (Ran job out)
  with turn_settle [OF assms(1) Ran, of "re_env re (po_proc s)"] show ?thesis by (simp add: worker_turn_def Let_def)
next
  case (Stopped e)
  with assms(1) show ?thesis by (simp add: worker_turn_def)
qed

end

subsection \<open>Beginning and resuming\<close>

lemma log_run_eventD:
  assumes "log_run_event rt kind payload p = (r, p')" "proc_ok rt p" "wf_pyval (PDict payload)"
  shows "proc_ok rt p' \<and> px_record p' = px_record p"
proof -
  let ?w = "sy_world (px_sys p)"
  let ?ev = "\<lparr>ev_kind = kind, ev_payload = Some payload, ev_run_id = Some (rt_run_id rt), ev_sample_id = None, ev_id = None\<rparr>"
  have wf: "wf_event ?ev" using assms(3) by (simp add: wf_event_def payload_or_def)
  consider "p' = p" | (ok) rows h where "p' = p\<lparr>px_audit := rows\<rparr>"
      "audit_append (rt_sha rt) (rt_clock rt ?w) (rt_uuid rt ?w (length (px_audit p))) ?ev (px_audit p) = Inr (rows, h)"
    using assms(1) by (auto simp: log_run_event_def Let_def split: sum.splits)
  then show ?thesis
  proof cases
    case ok
    then have "sqlite_appends (rt_sha rt) (px_audit p) rows" using wf by (auto simp: sqlite_appends_def)
    with sqlite_log.append_verifies assms(2) ok show ?thesis by (auto simp: proc_ok_def log_verifies_def verify_chain_def)
  qed (use assms(2) in simp)
qed

lemma on_world_simps [simp]:
  "proc_ok rt (on_world f p) = proc_ok rt p" "px_record (on_world f p) = px_record p" "px_audit (on_world f p) = px_audit p"
  by (simp_all add: on_world_def)

lemma set_progress_simps [simp]:
  "proc_ok rt (set_progress pr p) = proc_ok rt p" "px_record (set_progress pr p) = (pr, snd (px_record p))"
  by (simp_all add: set_progress_def proc_ok_def log_verifies_def)

lemma sample_id_ne [simp]: "sample_id_of run idx \<noteq> []"
  by (simp add: sample_id_of_def)

lemma sample_jobD:
  assumes "sample_job rt idx row = Inr job" "wf_pyval row" "wf_pyval (PDict (rt_task rt))"
  shows "run_job job \<and> wf_pyval (PDict job) \<and> dget job ''item_id'' = PNone \<and> sample_of job = PStr (sample_id_of (rt_run_id rt) idx)"
proof -
  obtain d where row: "row = PDict d" using assms(1) by (cases row) (auto simp: sample_job_def attr_get_def)
  have w: "wf_pyval (dget d ''url'')" "wf_pyval (dget (rt_task rt) ''default_url'')"
    using assms(2,3) row by (auto intro!: wf_get simp del: wf_pyval.simps)
  have "job = [(''sample_id'', PStr (sample_id_of (rt_run_id rt) idx)), (''row_index'', PInt (int idx)), (''input_data'', row),
          (''start_url'', py_or (dget d ''url'') (dget (rt_task rt) ''default_url'')), (''run_id'', PStr (rt_run_id rt)),
          (''task'', PDict (rt_task rt))]"
    using assms(1) row by (simp add: sample_job_def attr_get_def)
  with w assms(2,3) show ?thesis by (auto simp: run_job_def sample_of_def py_or_def)
qed

text \<open>The identifiers the rows are enqueued under are new and differ from each other.\<close>

definition fresh_ids :: "('q \<Rightarrow> string \<Rightarrow> item_status option) \<Rightarrow> (nat \<Rightarrow> qenv) \<Rightarrow> nat \<Rightarrow> nat \<Rightarrow> 'q \<Rightarrow> bool" where
  "fresh_ids status_of env idx n q \<longleftrightarrow>
     (\<forall>k\<in>{idx..<idx + n}. status_of q (e_uuid (env k)) = None) \<and> inj_on (\<lambda>k. e_uuid (env k)) {idx..<idx + n}"

context run_queue
begin

lemma enqueue_all_ok:
  assumes "enqueue_all ops env rt completed idx rows q = (r, q')" "qinv q" "0 < q_max" "wf_pyval (PDict (rt_task rt))"
    "\<forall>row\<in>set rows. wf_pyval row" "fresh_ids status_of env idx (length rows) q" "\<forall>i d. payload_of q i = Some d \<longrightarrow> run_job d"
  shows "qinv q' \<and> (\<forall>i d. payload_of q' i = Some d \<longrightarrow> run_job d)
    \<and> (\<forall>i. status_of q i \<noteq> None \<longrightarrow> status_of q' i = status_of q i \<and> payload_of q' i = payload_of q i)
    \<and> (\<forall>i x. status_of q i = None \<longrightarrow> status_of q' i = Some x
         \<longrightarrow> x = Pending \<and> i \<in> (\<lambda>k. e_uuid (env k)) ` {idx..<idx + length rows})
    \<and> (r = Inr () \<longrightarrow> (\<forall>k\<in>{idx..<idx + length rows}. PStr (sample_id_of (rt_run_id rt) k) \<notin> completed \<longrightarrow>
         status_of q' (e_uuid (env k)) = Some Pending
         \<and> (\<exists>d. payload_of q' (e_uuid (env k)) = Some d \<and> sample_of d = PStr (sample_id_of (rt_run_id rt) k))))"
  using assms(1,2,5-7)
proof (induction rows arbitrary: idx q)
  case Nil
  then show ?case by auto
next
  case (Cons row rows)
  have fresh: "fresh_ids status_of env (Suc idx) (length rows) q"
    using Cons.prems(4) by (auto simp: fresh_ids_def inj_on_def)
  have split: "{idx..<idx + length (row # rows)} = insert idx {Suc idx..<Suc idx + length rows}" by auto
  show ?case
  proof (cases "PStr (sample_id_of (rt_run_id rt) idx) \<in> completed")
    case True
    with Cons.prems have "enqueue_all ops env rt completed (Suc idx) rows q = (r, q')" by simp
    from Cons.IH [OF this Cons.prems(2) _ fresh Cons.prems(5)] Cons.prems(3) True show ?thesis
      unfolding split by auto
  next
    case False
    show ?thesis
    proof (cases "sample_job rt idx row")
      case (Inl e)
      with Cons.prems False show ?thesis by auto
    next
      case (Inr job)
      let ?u = "e_uuid (env idx)"
      note j = sample_jobD [OF Inr _ assms(4)]
      have wf: "run_job job" "wf_pyval (PDict job)" "dget job ''item_id'' = PNone"
        "sample_of job = PStr (sample_id_of (rt_run_id rt) idx)" using j Cons.prems(3) by simp_all
      obtain q1 where enq: "qo_enqueue ops (env idx) job q = (?u, q1)"
        using enq_id [OF wf(3), of "env idx" q] by (metis prod.collapse)
      have new: "status_of q ?u = None" using Cons.prems(4) by (simp add: fresh_ids_def)
      note law = enq_law [OF Cons.prems(2) enq new assms(3) wf(2)] and pl = enq_payload [OF Cons.prems(2) enq new wf(2)]
      have fresh1: "fresh_ids status_of env (Suc idx) (length rows) q1"
      proof -
        have "e_uuid (env k) \<noteq> ?u" if "k \<in> {Suc idx..<Suc idx + length rows}" for k
        proof
          assume "e_uuid (env k) = ?u"
          moreover have "inj_on (\<lambda>k. e_uuid (env k)) {idx..<idx + length (row # rows)}"
            using Cons.prems(4) by (simp add: fresh_ids_def)
          ultimately have "k = idx" by (elim inj_onD [rotated]) (use that in auto)
          with that show False by simp
        qed
        then show ?thesis using fresh law by (simp add: fresh_ids_def)
      qed
      have rest: "enqueue_all ops env rt completed (Suc idx) rows q1 = (r, q')" using Cons.prems(1) False Inr enq by simp
      have pre: "qinv q1" "\<forall>row\<in>set rows. wf_pyval row" "\<forall>i d. payload_of q1 i = Some d \<longrightarrow> run_job d"
        using law pl wf(1) Cons.prems(3,5) by auto
      have ih: "qinv q' \<and> (\<forall>i d. payload_of q' i = Some d \<longrightarrow> run_job d)
        \<and> (\<forall>i. status_of q1 i \<noteq> None \<longrightarrow> status_of q' i = status_of q1 i \<and> payload_of q' i = payload_of q1 i)
        \<and> (\<forall>i x. status_of q1 i = None \<longrightarrow> status_of q' i = Some x
             \<longrightarrow> x = Pending \<and> i \<in> (\<lambda>k. e_uuid (env k)) ` {Suc idx..<Suc idx + length rows})
        \<and> (r = Inr () \<longrightarrow> (\<forall>k\<in>{Suc idx..<Suc idx + length rows}. PStr (sample_id_of (rt_run_id rt) k) \<notin> completed \<longrightarrow>
             status_of q' (e_uuid (env k)) = Some Pending
             \<and> (\<exists>d. payload_of q' (e_uuid (env k)) = Some d \<and> sample_of d = PStr (sample_id_of (rt_run_id rt) k))))"
        by (rule Cons.IH [OF rest pre(1,2) fresh1 pre(3)])
      then have u: "status_of q' ?u = Some Pending" "payload_of q' ?u = Some job" using law pl by auto
      have "status_of q' i = status_of q i \<and> payload_of q' i = payload_of q i" if "status_of q i \<noteq> None" for i
        using ih law pl new that by (cases "i = ?u") auto
      moreover have "x = Pending \<and> i \<in> (\<lambda>k. e_uuid (env k)) ` {idx..<idx + length (row # rows)}"
        if "status_of q i = None" "status_of q' i = Some x" for i x
        proof (cases "i = ?u")
        case True
        with u that split show ?thesis by simp
      next
        case False
        then have "status_of q1 i = None" using law that by simp
        with ih that(2) show ?thesis unfolding split by blast
      qed
      ultimately show ?thesis using ih u wf(4) unfolding split by auto
    qed
  qed
qed

end

context run_queue
begin

lemma resume_ok:
  assumes "begin_run ops env re rt True [] s = (r, t)" "pool_ok status_of payload_of qinv rt (s\<lparr>po_proc := pold\<rparr>)"
    "po_proc s = pold\<lparr>px_sys := sys, px_record := (progress_empty, snd (px_record pold))\<rparr>" "po_phase s = (\<lambda>_. Idle)"
  shows "pool_ok status_of payload_of qinv rt t \<and> fst (px_record (po_proc t)) = fst (px_record pold)
    \<and> snd (px_record (po_proc t)) = snd (px_record pold)"
proof -
  let ?p = "on_world (write_file (re_disk re) ''.run_config.json'' (run_config_text rt [])) (po_proc s)"
  obtain ds where ds: "settled_ok status_of payload_of ds (s\<lparr>po_proc := pold\<rparr>)" using assms(2) by (auto simp: pool_ok_def)
  then have rec: "recorded ds (px_record pold)" by (simp add: settled_ok_def)
  obtain pr tx where prt: "px_record pold = (pr, tx)" by fastforce
  with rec have load: "load_completed tx progress_empty = Inr pr" using load_recorded [of ds pr tx] by simp
  obtain n q where recl: "qo_reclaim ops (re_env re ?p) 0 (po_queue s) = (n, q)" by fastforce
  have inv: "qinv (po_queue s)" and ok0: "proc_ok rt pold" using assms(2) by (simp_all add: pool_ok_def)
  note law = reclaim_law [OF inv recl]
  obtain r1 p1 where log: "log_run_event rt ''run.started'' (resume_payload re pr n) (set_progress pr ?p) = (r1, p1)" by fastforce
  have "proc_ok rt (pold\<lparr>px_sys := x, px_record := y\<rparr>)" for x y using ok0 by (simp add: proc_ok_def log_verifies_def)
  then have "proc_ok rt (set_progress pr ?p)" by (simp add: assms(3) set_progress_def on_world_def)
  from log_run_eventD [OF log this] have p1: "proc_ok rt p1" "px_record p1 = (pr, tx)"
    using assms(3) prt by (auto simp: resume_payload_def)
  have t: "t = s\<lparr>po_proc := p1, po_queue := q\<rparr>"
    using assms(1,3) load recl log prt by (auto simp: begin_run_def Let_def split: sum.splits)
  have "settled_ok status_of payload_of ds t"
    using ds law rec p1 prt assms(4) unfolding t settled_ok_def by (auto, metis item_status.distinct(3) option.inject)
  moreover have "held_ok status_of payload_of t" using assms(4) by (simp add: t held_ok_def)
  ultimately show ?thesis using assms(2) law p1 prt unfolding t pool_ok_def by auto
qed

lemma run_step_ok:
  assumes "run_step ops re rt s t" "pool_ok status_of payload_of qinv rt s" "wf_runtime rt"
  shows "pool_ok status_of payload_of qinv rt t"
  using assms(1)
proof cases
  case (step_turn i)
  with worker_turn_ok [OF assms(2,3)] show ?thesis by simp
next
  case (step_resume env sys)
  have "pool_ok status_of payload_of qinv rt (s\<lparr>po_phase := (\<lambda>_. Idle)\<rparr>)"
    using assms(2) by (auto simp: pool_ok_def held_ok_def settled_ok_def)
  then have idle: "pool_ok status_of payload_of qinv rt (s\<lparr>po_phase := (\<lambda>_. Idle),
      po_proc := (po_proc s)\<lparr>px_sys := sys, px_record := (progress_empty, snd (px_record (po_proc s)))\<rparr>\<rparr>\<lparr>po_proc := po_proc s\<rparr>)"
    by simp
  show ?thesis by (rule resume_ok [OF step_resume idle, THEN conjunct1]) simp_all
qed

lemma run_steps_ok:
  "(run_step ops re rt)\<^sup>*\<^sup>* s t \<Longrightarrow> pool_ok status_of payload_of qinv rt s \<Longrightarrow> wf_runtime rt
    \<Longrightarrow> pool_ok status_of payload_of qinv rt t"
  by (induction rule: rtranclp_induct) (auto intro: run_step_ok)

text \<open>A new run on an empty queue.\<close>

lemma start_ok:
  assumes "begin_run ops env re rt False rows s = (r, t)" "qinv (po_queue s)" "\<forall>i. status_of (po_queue s) i = None \<and> payload_of (po_queue s) i = None"
    "proc_ok rt (po_proc s)" "px_record (po_proc s) = (progress_empty, None)" "po_phase s = (\<lambda>_. Idle)" "0 < q_max"
    "wf_pyval (PDict (rt_task rt))" "\<forall>row\<in>set rows. wf_pyval row" "inj_on (\<lambda>k. e_uuid (env k)) {0..<length rows}"
  shows "pool_ok status_of payload_of qinv rt t \<and> px_record (po_proc t) = (progress_empty, None)
    \<and> po_phase t = (\<lambda>_. Idle) \<and> dom (status_of (po_queue t)) \<subseteq> (\<lambda>k. e_uuid (env k)) ` {0..<length rows}
    \<and> (\<forall>i. status_of (po_queue t) i \<in> {None, Some Pending})
    \<and> (r = Inr () \<longrightarrow> (\<forall>k<length rows. \<exists>i d. status_of (po_queue t) i = Some Pending \<and> payload_of (po_queue t) i = Some d
         \<and> sample_of d = PStr (sample_id_of (rt_run_id rt) k)))"
proof -
  let ?p = "on_world (write_file (re_disk re) ''.run_config.json'' (run_config_text rt rows)) (po_proc s)"
  obtain r1 p1 where log: "log_run_event rt ''run.started'' (start_payload re rt rows) ?p = (r1, p1)" by fastforce
  have "wf_pyval (PDict (start_payload re rt rows))" using wf_get [OF assms(8)] by (simp add: start_payload_def)
  from log_run_eventD [OF log _ this] have p1: "proc_ok rt p1" "px_record p1 = (progress_empty, None)" using assms(4,5) by simp_all
  have rec: "recorded [] (px_record p1)" using p1 recorded_empty by simp
  show ?thesis
  proof (cases r1)
    case (Inl e)
    then have t: "t = s\<lparr>po_proc := p1\<rparr>" "r = Inl e" using assms(1) log by (auto simp: begin_run_def Let_def)
    have "settled_ok status_of payload_of [] t" using rec assms(3,6) t by (simp add: settled_ok_def)
    then show ?thesis using t assms(2,3,6) p1 by (auto simp: pool_ok_def held_ok_def)
  next
    case (Inr u)
    obtain r2 q2 where enq: "enqueue_all ops env rt (pr_done (fst (px_record p1))) 0 rows (po_queue s) = (r2, q2)" by fastforce
    have t: "t = s\<lparr>po_proc := p1, po_queue := q2\<rparr>" "r = r2" using assms(1) log Inr enq by (auto simp: begin_run_def Let_def)
    have "fresh_ids status_of env 0 (length rows) (po_queue s)" using assms(3,10) by (simp add: fresh_ids_def)
    from enqueue_all_ok [OF enq assms(2,7,8,9) this] assms(3)
    have q2: "qinv q2" "\<forall>i d. payload_of q2 i = Some d \<longrightarrow> run_job d" "\<forall>i x. status_of q2 i = Some x \<longrightarrow> x = Pending \<and> i \<in> (\<lambda>k. e_uuid (env k)) ` {0..<length rows}"
      "r2 = Inr () \<longrightarrow> (\<forall>k<length rows. status_of q2 (e_uuid (env k)) = Some Pending
         \<and> (\<exists>d. payload_of q2 (e_uuid (env k)) = Some d \<and> sample_of d = PStr (sample_id_of (rt_run_id rt) k)))"
      using p1 by (auto simp: progress_empty_def)
    have pend: "status_of q2 i \<noteq> Some Done \<and> status_of q2 i \<in> {None, Some Pending}" for i using q2(3) by (cases "status_of q2 i") auto
    then have "settled_ok status_of payload_of [] t" using rec assms(6) t by (simp add: settled_ok_def)
    then show ?thesis using t assms(6) p1 q2 pend by (auto simp: pool_ok_def held_ok_def)
  qed
qed

end

subsection \<open>The workers stop\<close>

text \<open>
  Every turn of a worker that has not stopped uses up part of what is left of the run: an attempt of an
  item takes three turns, and a worker with nothing to do one more.
\<close>

definition live_left :: "('q \<Rightarrow> string \<Rightarrow> item_status option) \<Rightarrow> ('q \<Rightarrow> string \<Rightarrow> nat) \<Rightarrow> nat \<Rightarrow> 'q \<Rightarrow> nat" where
  "live_left status_of attempts_of q_max q =
     (\<Sum>i | status_of q i \<in> {Some Pending, Some Claimed}. q_max - attempts_of q i)"

definition phase_left :: "phase \<Rightarrow> nat" where
  "phase_left ph = (case ph of Idle \<Rightarrow> 2 | Holding job \<Rightarrow> 1 | _ \<Rightarrow> 0)"

definition turns_left ::
  "('q \<Rightarrow> string \<Rightarrow> item_status option) \<Rightarrow> ('q \<Rightarrow> string \<Rightarrow> nat) \<Rightarrow> nat \<Rightarrow> 'w run_env \<Rightarrow> ('w, 'q) pool \<Rightarrow> nat" where
  "turns_left status_of attempts_of q_max re s =
     3 * live_left status_of attempts_of q_max (po_queue s) + (\<Sum>w\<leftarrow>workers re. phase_left (po_phase s w))"

text \<open>
  Nothing is forgotten: a claimed item is held by a worker, while something is pending a worker is not
  stopped, and no worker stopped on an error.
\<close>

definition pool_live :: "('q \<Rightarrow> string \<Rightarrow> item_status option) \<Rightarrow> 'w run_env \<Rightarrow> ('w, 'q) pool \<Rightarrow> bool" where
  "pool_live status_of re s \<longleftrightarrow>
     (\<forall>i. status_of (po_queue s) i = Some Claimed \<longrightarrow>
        (\<exists>w\<in>set (workers re). \<exists>job. holds (po_phase s w) = Some job \<and> job_item_id job = i))
   \<and> ((\<exists>i. status_of (po_queue s) i = Some Pending) \<longrightarrow> (\<exists>w\<in>set (workers re). \<not> stopped (po_phase s w)))
   \<and> (\<forall>w\<in>set (workers re). stop_error (po_phase s w) = None)"

lemma stopped_simps [simp]: "\<not> stopped Idle" "\<not> stopped (Holding job)" "\<not> stopped (Ran job out)" "stopped (Stopped e)"
  by (simp_all add: stopped_def)

lemma stop_error_simps [simp]: "stop_error Idle = None" "stop_error (Holding job) = None" "stop_error (Ran job out) = None"
  "stop_error (Stopped e) = e"
  by (simp_all add: stop_error_def)

lemma holds_stopped: "stopped ph \<Longrightarrow> holds ph = None"
  by (cases ph) simp_all

lemma distinct_workers [simp]: "distinct (workers re)" "workers re \<noteq> []" "0 \<in> set (workers re)"
  by (auto simp: workers_def)

lemma sum_phase_upd:
  "i \<in> set (workers re) \<Longrightarrow> (\<Sum>w\<leftarrow>workers re. phase_left ((ph(i := x)) w)) + phase_left (ph i)
    = (\<Sum>w\<leftarrow>workers re. phase_left (ph w)) + phase_left x"
  by (simp add: sum_list_distinct_conv_sum_set sum.remove [of _ i])

text \<open>A worker whose turn changes nothing has stopped.\<close>

lemma turn_stopped: "stopped (po_phase s i) \<Longrightarrow> worker_turn ops re rt i s = s"
  by (cases "po_phase s i") (simp_all add: worker_turn_def)

context run_queue
begin

lemma live_left_claim:
  assumes "status_of q i = Some Pending" "status_of q' = (status_of q)(i \<mapsto> Claimed)" "attempts_of q' = attempts_of q"
  shows "live_left status_of attempts_of q_max q' = live_left status_of attempts_of q_max q"
proof -
  have "status_of q' j \<in> {Some Pending, Some Claimed} \<longleftrightarrow> status_of q j \<in> {Some Pending, Some Claimed}" for j
    using assms by (cases "j = i") auto
  with assms(3) show ?thesis by (simp only: live_left_def)
qed

lemma live_left_settle:
  assumes "qinv q" "status_of q i = Some Claimed"
    and "status_of q' = (status_of q)(i \<mapsto> Done) \<and> attempts_of q' = attempts_of q
      \<or> status_of q' = (status_of q)(i \<mapsto> (if q_max \<le> Suc (attempts_of q i) then Dead else Pending))
        \<and> attempts_of q' = (attempts_of q)(i := Suc (attempts_of q i))"
  shows "live_left status_of attempts_of q_max q' < live_left status_of attempts_of q_max q"
proof -
  let ?L = "\<lambda>q. {j. status_of q j \<in> {Some Pending, Some Claimed}}"
  have fin: "finite (?L q)" by (rule finite_subset [OF _ finite_items [OF assms(1)]]) auto
  have lt: "attempts_of q i < q_max" using live_attempts [OF assms(1,2)] by simp
  have iL: "i \<in> ?L q" using assms(2) by simp
  have split: "live_left status_of attempts_of q_max q = (q_max - attempts_of q i) + (\<Sum>j\<in>?L q - {i}. q_max - attempts_of q j)"
    unfolding live_left_def by (rule sum.remove [OF fin iL])
  have rest: "(\<Sum>j\<in>?L q - {i}. q_max - attempts_of q' j) = (\<Sum>j\<in>?L q - {i}. q_max - attempts_of q j)"
    using assms(3) by (intro sum.cong) auto
  have "?L q' = ?L q - {i} \<or> ?L q' = ?L q \<and> attempts_of q' i = Suc (attempts_of q i)"
    using assms(2,3) by (auto split: if_splits)
  then show ?thesis
  proof
    assume "?L q' = ?L q - {i}"
    with split rest lt show ?thesis by (simp add: live_left_def)
  next
    assume b: "?L q' = ?L q \<and> attempts_of q' i = Suc (attempts_of q i)"
    have "live_left status_of attempts_of q_max q' = (\<Sum>j\<in>?L q. q_max - attempts_of q' j)" using b by (simp add: live_left_def)
    also have "\<dots> = (q_max - attempts_of q' i) + (\<Sum>j\<in>?L q - {i}. q_max - attempts_of q' j)" by (rule sum.remove [OF fin iL])
    finally show ?thesis using b split rest lt by simp
  qed
qed

lemma turn_live:
  assumes ok: "pool_ok status_of payload_of qinv rt s" and live: "pool_live status_of re s" and i: "i \<in> set (workers re)"
    and ns: "\<not> stopped (po_phase s i)" and run: "\<not> re_stop re (po_proc s)"
  shows "pool_live status_of re (worker_turn ops re rt i s)
    \<and> turns_left status_of attempts_of q_max re (worker_turn ops re rt i s) < turns_left status_of attempts_of q_max re s
    \<and> dom (status_of (po_queue (worker_turn ops re rt i s))) = dom (status_of (po_queue s))
    \<and> payload_of (po_queue (worker_turn ops re rt i s)) = payload_of (po_queue s)"
proof (cases "po_phase s i")
  case Idle
  have inv: "qinv (po_queue s)" using ok by (simp add: pool_ok_def)
  obtain x q' where deq: "qo_dequeue ops (re_env re (po_proc s)) (po_queue s) = (Inr x, q')"
    using deq_returns [OF inv] by blast
  show ?thesis
  proof (cases x)
    case None
    note q' = deq_None [OF inv deq [unfolded None]]
    then have t: "worker_turn ops re rt i s = s\<lparr>po_phase := (po_phase s)(i := Stopped None)\<rparr>"
      using Idle None deq run by (simp add: worker_turn_def Let_def)
    show ?thesis using live q' sum_phase_upd [OF i, of "po_phase s" "Stopped None"] Idle
      by (auto simp: t pool_live_def turns_left_def phase_left_def split: if_splits) (metis holds_simps(1) option.distinct(1))
  next
    case (Some job)
    note d = deq_Some [OF inv deq [unfolded Some]] and pl = deq_payload [OF inv deq [unfolded Some]]
    have t: "worker_turn ops re rt i s = s\<lparr>po_queue := q', po_phase := (po_phase s)(i := Holding job)\<rparr>"
      using Idle Some deq run by (simp add: worker_turn_def Let_def)
    have "live_left status_of attempts_of q_max q' = live_left status_of attempts_of q_max (po_queue s)"
      using d by (intro live_left_claim) auto
    moreover have "\<exists>w\<in>set (workers re). \<exists>j. holds (((po_phase s)(i := Holding job)) w) = Some j \<and> job_item_id j = k"
      if k: "status_of q' k = Some Claimed" for k
    proof (cases "k = job_item_id job")
      case False
      with k d have "status_of (po_queue s) k = Some Claimed" by auto
      with live obtain w j where "w \<in> set (workers re)" "holds (po_phase s w) = Some j" "job_item_id j = k"
        by (auto simp: pool_live_def)
      with Idle show ?thesis by (intro bexI [of _ w]) auto
    qed (use i in auto)
    ultimately show ?thesis using live i d pl sum_phase_upd [OF i, of "po_phase s" "Holding job"] Idle
      unfolding t pool_live_def turns_left_def phase_left_def by (auto split: if_splits)
  qed
next
  case (Holding job)
  obtain r p' where r: "run_and_record rt job (po_proc s) = (r, p')" by fastforce
  then have t: "worker_turn ops re rt i s = s\<lparr>po_proc := p', po_phase := (po_phase s)(i := Ran job (settle_outcome r))\<rparr>"
    using Holding by (simp add: worker_turn_def Let_def)
  have "\<exists>w\<in>set (workers re). \<exists>j. holds (((po_phase s)(i := Ran job (settle_outcome r))) w) = Some j \<and> job_item_id j = k"
    if k: "status_of (po_queue s) k = Some Claimed" for k
  proof -
    obtain w j where "w \<in> set (workers re)" "holds (po_phase s w) = Some j" "job_item_id j = k"
      using live k by (auto simp: pool_live_def)
    with Holding show ?thesis by (intro bexI [of _ w]) auto
  qed
  then show ?thesis using live i sum_phase_upd [OF i, of "po_phase s" "Ran job (settle_outcome r)"] Holding
    unfolding t pool_live_def turns_left_def phase_left_def by (auto split: if_splits)
next
  case (Ran job out)
  let ?q = "po_queue s" and ?j = "job_item_id job" and ?e = "re_env re (po_proc s)"
  define q' where "q' = (case out of Ack \<Rightarrow> qo_ack ops ?e ?j ?q | Nack reason \<Rightarrow> qo_nack ops ?e ?j reason ?q)"
  have t: "worker_turn ops re rt i s = s\<lparr>po_queue := q', po_phase := (po_phase s)(i := Idle)\<rparr>"
    using Ran by (simp add: worker_turn_def Let_def q'_def)
  have inv: "qinv ?q" and h: "holds (po_phase s i) = Some job" using ok Ran by (simp_all add: pool_ok_def)
  have cl: "status_of ?q ?j = Some Claimed" using ok by (auto simp: pool_ok_def elim: held_okD [OF _ h])
  have upd: "status_of q' = (status_of ?q)(?j \<mapsto> Done) \<and> attempts_of q' = attempts_of ?q
      \<or> status_of q' = (status_of ?q)(?j \<mapsto> (if q_max \<le> Suc (attempts_of ?q ?j) then Dead else Pending))
        \<and> attempts_of q' = (attempts_of ?q)(?j := Suc (attempts_of ?q ?j))"
    "payload_of q' = payload_of ?q"
    using ack_law [OF inv cl, of ?e] nack_law [OF inv cl, of ?e] ack_payload [OF inv cl, of ?e] nack_payload [OF inv cl, of ?e]
    unfolding q'_def by (cases out; simp)+
  have "\<exists>w\<in>set (workers re). \<exists>j. holds (((po_phase s)(i := Idle)) w) = Some j \<and> job_item_id j = k"
    if k: "status_of q' k = Some Claimed" for k
  proof -
    have "k \<noteq> ?j" "status_of ?q k = Some Claimed" using k upd(1) by (auto split: if_splits)
    then obtain w j where "w \<in> set (workers re)" "holds (po_phase s w) = Some j" "job_item_id j = k"
      using live by (auto simp: pool_live_def)
    with Ran \<open>k \<noteq> ?j\<close> show ?thesis by (intro bexI [of _ w]) auto
  qed
  then show ?thesis
    using live i upd(2) cl live_left_settle [OF inv cl upd(1)] sum_phase_upd [OF i, of "po_phase s" Idle] Ran upd(1)
    unfolding t pool_live_def turns_left_def phase_left_def by (auto split: if_splits)
qed (use ns in simp)

end

text \<open>The record and a schedule of turns.\<close>

lemma turns_stopped: "stopped (po_phase s w) \<Longrightarrow> stopped (po_phase (run_turns ops re rt schedule s) w)"
proof (induction schedule arbitrary: s)
  case (Cons i schedule)
  have "stopped (po_phase (worker_turn ops re rt i s) w)"
  proof (cases "i = w")
    case True
    with Cons.prems show ?thesis by (simp add: turn_stopped)
  next
    case False
    then have "po_phase (worker_turn ops re rt i s) w = po_phase s w"
      by (auto simp: worker_turn_def Let_def split: phase.splits sum.splits option.splits prod.splits)
    with Cons.prems show ?thesis by simp
  qed
  with Cons.IH show ?case by (simp add: run_turns_def)
qed (simp add: run_turns_def)

context run_queue
begin

lemma turns_live:
  assumes "pool_ok status_of payload_of qinv rt s" "pool_live status_of re s" "set schedule \<subseteq> set (workers re)" "wf_runtime rt"
    "\<And>p. \<not> re_stop re p"
  shows "pool_ok status_of payload_of qinv rt (run_turns ops re rt schedule s)
    \<and> pool_live status_of re (run_turns ops re rt schedule s)
    \<and> dom (status_of (po_queue (run_turns ops re rt schedule s))) = dom (status_of (po_queue s))
    \<and> payload_of (po_queue (run_turns ops re rt schedule s)) = payload_of (po_queue s)
    \<and> (\<forall>w. stopped (po_phase (run_turns ops re rt schedule s) w)
        \<or> count_list schedule w + turns_left status_of attempts_of q_max re (run_turns ops re rt schedule s)
            \<le> turns_left status_of attempts_of q_max re s)"
  using assms(1-3)
proof (induction schedule arbitrary: s)
  case (Cons i schedule)
  let ?s = "worker_turn ops re rt i s"
  have i: "i \<in> set (workers re)" using Cons.prems by simp
  have ok: "pool_ok status_of payload_of qinv rt ?s" using worker_turn_ok Cons.prems(1) assms(4) by blast
  have run: "run_turns ops re rt (i # schedule) s = run_turns ops re rt schedule ?s" by (simp add: run_turns_def)
  show ?case
  proof (cases "stopped (po_phase s i)")
    case True
    then have same: "?s = s" by (rule turn_stopped)
    have "stopped (po_phase (run_turns ops re rt schedule s) i)" using True by (rule turns_stopped)
    with Cons.IH [OF Cons.prems(1,2)] Cons.prems(3) same show ?thesis unfolding run by auto
  next
    case False
    note step = turn_live [OF Cons.prems(1,2) i False assms(5)]
    have "set schedule \<subseteq> set (workers re)" using Cons.prems(3) by simp
    note ih = Cons.IH [OF ok conjunct1 [OF step] this]
    have less: "turns_left status_of attempts_of q_max re ?s < turns_left status_of attempts_of q_max re s" using step by blast
    have "stopped (po_phase (run_turns ops re rt schedule ?s) w)
        \<or> count_list (i # schedule) w + turns_left status_of attempts_of q_max re (run_turns ops re rt schedule ?s)
            \<le> turns_left status_of attempts_of q_max re s" for w
      using ih less by (cases "stopped (po_phase (run_turns ops re rt schedule ?s) w)") (auto, (metis add_Suc_right add_leD1 le_trans less_imp_le_nat not_less_eq_eq order.strict_trans1)?)
    with ih step show ?thesis unfolding run by auto
  qed
qed (simp add: run_turns_def)

text \<open>A round in which every worker gets that many turns is the last one, and leaves every item done or dead.\<close>

lemma round_drains:
  assumes "pool_ok status_of payload_of qinv rt s" "pool_live status_of re (s\<lparr>po_phase := (\<lambda>_. Idle)\<rparr>)" "wf_runtime rt"
    "\<And>p. \<not> re_stop re p"
    and fair: "\<forall>w\<in>set (workers re). turns_left status_of attempts_of q_max re (s\<lparr>po_phase := (\<lambda>_. Idle)\<rparr>) < count_list schedule w"
  obtains s' where "run_rounds ops re rt (schedule # rest) s = Some (Inr (), s')" "pool_ok status_of payload_of qinv rt s'"
    "dom (status_of (po_queue s')) = dom (status_of (po_queue s))" "payload_of (po_queue s') = payload_of (po_queue s)"
    "\<forall>i. status_of (po_queue s') i \<in> {None, Some Done, Some Dead}"
    "s' = run_turns ops re rt (filter (\<lambda>i. i \<in> set (workers re)) schedule) (s\<lparr>po_phase := (\<lambda>_. Idle)\<rparr>)"
proof -
  let ?s0 = "s\<lparr>po_phase := (\<lambda>_. Idle)\<rparr>" and ?sched = "filter (\<lambda>i. i \<in> set (workers re)) schedule"
  define s' where "s' = run_turns ops re rt ?sched ?s0"
  have ok: "pool_ok status_of payload_of qinv rt ?s0"
    using assms(1) by (auto simp: pool_ok_def held_ok_def settled_ok_def)
  have "set ?sched \<subseteq> set (workers re)" by auto
  note t = turns_live [OF ok assms(2) this assms(3,4), folded s'_def]
  have count: "count_list ?sched w = count_list schedule w" if "w \<in> set (workers re)" for w
    using that by (induction schedule) auto
  have st: "stopped (po_phase s' w)" if "w \<in> set (workers re)" for w
    using t fair that count [OF that] by (metis add_leD1 leD)
  have live: "pool_live status_of re s'" using t by blast
  have errors: "stop_error (po_phase s' w) = None" if "w \<in> set (workers re)" for w using live that by (simp add: pool_live_def)
  have settled: "status_of (po_queue s') i \<in> {None, Some Done, Some Dead}" for i
  proof (cases "status_of (po_queue s') i")
    case (Some x)
    with live st show ?thesis by (cases x) (auto simp: pool_live_def holds_stopped dest: holds_stopped)
  qed simp
  then have "status_of (po_queue s') i \<noteq> Some Pending" for i using item_status.distinct by (metis empty_iff insert_iff option.distinct(1) option.inject)
  moreover have "qinv (po_queue s')" using t by (auto simp: pool_ok_def)
  ultimately have pend: "qo_pending ops (po_queue s') = 0" using pending_law by blast
  have no_err: "List.map_filter (\<lambda>i. stop_error (po_phase s' i)) (workers re) = []"
    using errors by (simp add: List.map_filter_def filter_empty_conv)
  have "run_rounds ops re rt (schedule # rest) s = Some (Inr (), s')"
    using st pend no_err by (simp add: Let_def s'_def [symmetric] list_all_iff)
  with that [of s'] t settled show thesis by (simp add: s'_def)
qed

end

subsection \<open>A whole run\<close>

text \<open>A process that has just started a run: nothing in its record, every worker idle.\<close>

definition new_pool :: "'w proc \<Rightarrow> 'q \<Rightarrow> ('w, 'q) pool" where
  "new_pool p q = \<lparr> po_proc = p\<lparr>px_record := (progress_empty, None)\<rparr>, po_queue = q, po_phase = (\<lambda>_. Idle) \<rparr>"

lemma new_pool_simps [simp]:
  "po_queue (new_pool p q) = q" "po_phase (new_pool p q) = (\<lambda>_. Idle)" "px_record (po_proc (new_pool p q)) = (progress_empty, None)"
  "proc_ok rt (po_proc (new_pool p q)) = proc_ok rt p"
  by (simp_all add: new_pool_def proc_ok_def log_verifies_def)

text \<open>Every worker gets a turn often enough in the first round.\<close>

definition fair_round :: "nat \<Rightarrow> 'w run_env \<Rightarrow> nat \<Rightarrow> nat list \<Rightarrow> bool" where
  "fair_round m re rows schedule \<longleftrightarrow>
     (\<forall>w\<in>set (workers re). 3 * (m * rows) + 2 * length (workers re) < count_list schedule w)"

lemma finalize_ok:
  assumes "finalize re rt p = (r, p')" "recorded ds (px_record p)"
  shows "px_record p' = px_record p \<and> (\<forall>rr. r = Inr rr \<longrightarrow> rr_total rr = length ds
    \<and> rr_passed rr = length (filter passed ds) \<and> rr_failed rr = length (filter (\<lambda>d. \<not> passed d) ds))"
proof -
  obtain pr tx where p: "px_record p = (pr, tx)" by fastforce
  have load: "load_completed tx progress_empty = Inr pr" using load_recorded [of ds pr tx] assms(2) p by simp
  have summ: "samples_summary tx = Inr (sort_key (\<lambda>s. the (row_key s)) (map summary_entry ds))" (is "_ = Inr ?ss")
    using summary_recorded [of ds pr tx] assms(2) p by simp
  have pr: "pr_total pr = length ds" "pr_passed pr = length (filter passed ds)" "pr_failed pr = length (filter (\<lambda>d. \<not> passed d) ds)"
    using assms(2) p by (auto simp: recorded_def)
  show ?thesis
  proof (cases "rebuild_csv ?ss")
    case (Inl e)
    with assms(1) p load summ show ?thesis by (auto simp: finalize_def Let_def)
  next
    case (Inr csv)
    let ?p = "on_world (write_file (re_disk re) ''output.csv'' csv) (set_progress pr (set_progress progress_empty p))"
    obtain r1 p1 where log: "log_run_event rt ''run.completed'' [(''passed'', PInt (int (pr_passed pr))),
        (''failed'', PInt (int (pr_failed pr))), (''total'', PInt (int (pr_total pr)))] ?p = (r1, p1)" by fastforce
    then have "px_record p1 = px_record p"
      using p by (auto simp: log_run_event_def Let_def split: sum.splits)
    with assms(1) p load summ Inr log pr show ?thesis
      by (cases r1) (auto simp: finalize_def Let_def bindA_def)
  qed
qed

context run_queue
begin

lemma live_left_bound:
  assumes "dom (status_of q) \<subseteq> f ` {0..<n}"
  shows "live_left status_of attempts_of q_max q \<le> q_max * n"
proof -
  let ?L = "{i. status_of q i \<in> {Some Pending, Some Claimed}}"
  have L: "?L \<subseteq> f ` {0..<n}" using assms by auto
  then have "finite ?L" by (rule finite_subset) simp
  then have "live_left status_of attempts_of q_max q \<le> card ?L * q_max"
    unfolding live_left_def using sum_bounded_above [of ?L "\<lambda>i. q_max - attempts_of q i" q_max] by simp
  also have "card ?L \<le> n" using card_mono [OF _ L] card_image_le [of "{0..<n}" f] by simp
  finally show ?thesis by (simp add: mult.commute)
qed

lemma new_run_drains:
  assumes started: "begin_run ops env re rt False rows (new_pool p q) = (Inr (), s)"
    and "qinv q" "\<forall>i. status_of q i = None \<and> payload_of q i = None" "proc_ok rt p" "0 < q_max" "wf_runtime rt"
      "wf_pyval (PDict (rt_task rt))" "\<forall>row\<in>set rows. wf_pyval row" "inj_on (\<lambda>k. e_uuid (env k)) {0..<length rows}"
    and run: "\<And>p. \<not> re_stop re p" and fair: "fair_round q_max re (length rows) schedule"
  obtains s' where "run_rounds ops re rt (schedule # rest) s = Some (Inr (), s')" "pool_ok status_of payload_of qinv rt s'"
    "\<forall>i. status_of (po_queue s') i \<in> {None, Some Done, Some Dead}"
    "\<forall>k<length rows. \<exists>i d. status_of (po_queue s') i \<in> {Some Done, Some Dead} \<and> payload_of (po_queue s') i = Some d
       \<and> sample_of d = PStr (sample_id_of (rt_run_id rt) k)"
    "s' = run_turns ops re rt (filter (\<lambda>i. i \<in> set (workers re)) schedule) s"
    "px_record (po_proc s) = (progress_empty, None)"
proof -
  have start: "pool_ok status_of payload_of qinv rt s \<and> px_record (po_proc s) = (progress_empty, None) \<and> po_phase s = (\<lambda>_. Idle)
    \<and> dom (status_of (po_queue s)) \<subseteq> (\<lambda>k. e_uuid (env k)) ` {0..<length rows} \<and> (\<forall>i. status_of (po_queue s) i \<in> {None, Some Pending})
    \<and> (\<forall>k<length rows. \<exists>i d. status_of (po_queue s) i = Some Pending \<and> payload_of (po_queue s) i = Some d
         \<and> sample_of d = PStr (sample_id_of (rt_run_id rt) k))"
    using start_ok [OF started] assms(2-5,7-9) by (simp del: wf_pyval.simps)
  have idle: "s\<lparr>po_phase := (\<lambda>_. Idle)\<rparr> = s" using start by simp
  have unclaimed: "status_of (po_queue s) i \<noteq> Some Claimed" for i using start by (metis empty_iff insert_iff item_status.distinct(1) option.distinct(1) option.inject)
  have "\<exists>w\<in>set (workers re). \<not> stopped (po_phase s w)" using start by (intro bexI [OF _ distinct_workers(3)]) simp
  then have live: "pool_live status_of re s" unfolding pool_live_def using start unclaimed by auto
  have "turns_left status_of attempts_of q_max re s \<le> 3 * (q_max * length rows) + 2 * length (workers re)"
    using live_left_bound [of "po_queue s" "\<lambda>k. e_uuid (env k)" "length rows"] start
    by (simp add: turns_left_def phase_left_def sum_list_triv mult.commute)
  then have turns: "\<forall>w\<in>set (workers re). turns_left status_of attempts_of q_max re (s\<lparr>po_phase := (\<lambda>_. Idle)\<rparr>) < count_list schedule w"
    using fair unfolding idle fair_round_def by fastforce
  have live': "pool_live status_of re (s\<lparr>po_phase := (\<lambda>_. Idle)\<rparr>)" using live idle by simp
  have ok: "pool_ok status_of payload_of qinv rt s" using start by blast
  obtain s' where s': "run_rounds ops re rt (schedule # rest) s = Some (Inr (), s')" "pool_ok status_of payload_of qinv rt s'"
    "dom (status_of (po_queue s')) = dom (status_of (po_queue s))" "payload_of (po_queue s') = payload_of (po_queue s)"
    "\<forall>i. status_of (po_queue s') i \<in> {None, Some Done, Some Dead}"
    "s' = run_turns ops re rt (filter (\<lambda>i. i \<in> set (workers re)) schedule) (s\<lparr>po_phase := (\<lambda>_. Idle)\<rparr>)"
    by (rule round_drains [OF ok live' assms(6) run turns])
  have "\<exists>i d. status_of (po_queue s') i \<in> {Some Done, Some Dead} \<and> payload_of (po_queue s') i = Some d
       \<and> sample_of d = PStr (sample_id_of (rt_run_id rt) k)" if k: "k < length rows" for k
  proof -
    obtain i d where i: "status_of (po_queue s) i = Some Pending" "payload_of (po_queue s) i = Some d"
      "sample_of d = PStr (sample_id_of (rt_run_id rt) k)" using start k by blast
    then have "status_of (po_queue s') i \<noteq> None" using s'(3) by blast
    with s'(5) [rule_format, of i] have "status_of (po_queue s') i \<in> {Some Done, Some Dead}" by blast
    with i s'(4) show ?thesis by auto
  qed
  with that [OF s'(1,2,5)] s'(6) start idle show thesis by auto
qed

end

text \<open>A run in which no attempt gets as far as a session.\<close>

definition no_session :: "'w runtime \<Rightarrow> bool" where
  "no_session rt \<longleftrightarrow> (\<forall>sample storage w. \<exists>e w'. rt_acquire rt sample storage w = (Inl e, w'))"

lemma run_one_raises:
  assumes "no_session rt"
  shows "\<exists>e. fst (run_one rt job p) = Inl e"
proof (cases "job_sample job")
  case (Inr sample)
  let ?pay = "[(''row_index'', dget job ''row_index''), (''host'', opt_pv (host_of (rt_v6 rt) (dget job ''start_url''))),
          (''preauthed'', PBool (merged_session rt p \<noteq> None))]"
  obtain r1 p1 where l: "log_event rt ''sample.started'' sample ?pay p = (r1, p1)" by fastforce
  obtain e w' where "rt_acquire rt sample (merged_session rt p) (sy_world (px_sys p1)) = (Inl e, w')"
    using assms unfolding no_session_def by blast
  with Inr l show ?thesis by (cases r1) (auto simp: run_one_def Let_def bindA_def with_session_def onp_def)
qed (simp add: run_one_def)

lemma turn_raises:
  "no_session rt \<Longrightarrow> px_record (po_proc (worker_turn ops re rt i s)) = px_record (po_proc s)"
proof (cases "po_phase s i")
  case (Holding job)
  assume "no_session rt"
  then obtain e where "fst (run_one rt job (po_proc s)) = Inl e" using run_one_raises by blast
  with run_one_record [of rt job "po_proc s"] Holding show ?thesis
    by (cases "run_one rt job (po_proc s)") (simp add: worker_turn_def Let_def run_and_record_def)
qed (auto simp: worker_turn_def Let_def split: sum.splits option.splits prod.splits)

lemma turns_raise:
  "no_session rt \<Longrightarrow> px_record (po_proc (run_turns ops re rt schedule s)) = px_record (po_proc s)"
  by (induction schedule arbitrary: s) (simp_all add: run_turns_def turn_raises)

lemma recorded_empty_iff: "recorded ds (progress_empty, None) \<Longrightarrow> ds = []"
  by (simp add: recorded_def progress_empty_def)

text \<open>A concrete run: two rows, one worker.\<close>

definition demo_re :: "unit run_env" where
  "demo_re = \<lparr> re_stop = (\<lambda>_. False), re_env = (\<lambda>_. \<lparr>e_now = 5, e_uuid = ''tok''\<rparr>),
     re_disk = \<lparr>dk_files = (\<lambda>_. \<lparr>fs_names = [], fs_data = (\<lambda>_. []), fs_next = 0\<rparr>), dk_store = (\<lambda>_ w. w)\<rparr>,
     re_excerpt = [], re_workers = 1, re_distributed = False \<rparr>"

definition demo_qenv :: "nat \<Rightarrow> qenv" where
  "demo_qenv k = \<lparr>e_now = 1, e_uuid = show_nat k\<rparr>"

definition demo_rows :: "pyval list" where
  "demo_rows = [PDict [(''url'', PStr ''http://a'')], PDict [(''url'', PStr ''http://b'')]]"

lemma demo_begins: "\<exists>s. begin_run (sql_ops m) demo_qenv demo_re (demo_rt\<lparr>rt_acquire := acq\<rparr>) False demo_rows (new_pool demo_proc []) = (Inr (), s)"
  by (simp add: begin_run_def Let_def log_run_event_def on_world_def new_pool_def demo_proc_def demo_rows_def audit_append_def
      sample_job_def attr_get_def progress_empty_def)

lemma count_replicate: "count_list (replicate n x) x = n"
  by (induction n) simp_all

lemma demo_run_pre:
  "proc_ok (demo_rt\<lparr>rt_acquire := acq\<rparr>) demo_proc" "wf_pyval (PDict (rt_task (demo_rt\<lparr>rt_acquire := acq\<rparr>)))"
  "\<forall>row\<in>set demo_rows. wf_pyval row" "inj_on (\<lambda>k. e_uuid (demo_qenv k)) {0..<length demo_rows}"
  "\<not> re_stop demo_re p" "\<not> re_distributed demo_re" "fair_round 2 demo_re (length demo_rows) (replicate 15 0)"
  using demo_proc_ok
  by (auto simp: proc_ok_def log_verifies_def demo_proc_def demo_rt_def demo_rows_def demo_qenv_def demo_re_def inj_on_def
      fair_round_def workers_def numeral_2_eq_2 less_Suc_eq show_nat_inj count_replicate)

lemma demo_no_session: "no_session (demo_rt\<lparr>rt_acquire := \<lambda>_ _. raiseA (Exn ''Error'' ''no browser'')\<rparr>)"
  "wf_runtime (demo_rt\<lparr>rt_acquire := \<lambda>_ _. raiseA (Exn ''Error'' ''no browser'')\<rparr>)"
  using demo_rt_wf by (auto simp: no_session_def raiseA_def wf_runtime_def build_deps_def)

section \<open>Properties\<close>

text \<open>
  C2: an acknowledged sample is never lost. Start a run over an empty SQLite queue and let workers take
  turns in any order, the process dying between any two turns and being resumed from its files, its queue
  and its audit log as often as it likes. Then in every state the audit chain verifies, \<open>samples.jsonl\<close> holds
  one row per recorded sample and the counters count exactly them, every item the queue calls done has its
  sample among them, and no two workers hold the same item.
\<close>

theorem acked_samples_are_recorded:
  assumes "begin_run (sql_ops m) env re rt False rows (new_pool p []) = (r, s)" "(run_step (sql_ops m) re rt)\<^sup>*\<^sup>* s t"
    and "proc_ok rt p" "wf_runtime rt" "0 < m" "wf_pyval (PDict (rt_task rt))" "\<forall>row\<in>set rows. wf_pyval row"
      "inj_on (\<lambda>k. e_uuid (env k)) {0..<length rows}"
  shows "verify_chain (rt_sha rt) (px_audit (po_proc t)) = Inr True
    \<and> (\<exists>ds. recorded ds (px_record (po_proc t))
        \<and> (\<forall>i. sql_status (po_queue t) i = Some Done \<longrightarrow>
             (\<exists>d. sql_payload (po_queue t) i = Some d \<and> sample_of d \<in> set (map sample_of ds))))
    \<and> (\<forall>w w' job job'. holds (po_phase t w) = Some job \<longrightarrow> holds (po_phase t w') = Some job'
        \<longrightarrow> job_item_id job = job_item_id job' \<longrightarrow> w = w')"
proof -
  have empty: "table_inv m []" "\<forall>i. sql_status [] i = None \<and> sql_payload [] i = None"
    by (simp_all add: table_inv_def sql_status_def sql_payload_def find_item_def)
  have "pool_ok sql_status sql_payload (table_inv m) rt s"
    using sql_run.start_ok [OF assms(1)] empty assms(3,5-8) by (simp del: wf_pyval.simps)
  with assms(2,4) have ok: "pool_ok sql_status sql_payload (table_inv m) rt t" by (simp add: sql_run.run_steps_ok)
  then obtain ds where ds: "settled_ok sql_status sql_payload ds t" by (auto simp: pool_ok_def)
  then have "recorded ds (px_record (po_proc t))
        \<and> (\<forall>i. sql_status (po_queue t) i = Some Done \<longrightarrow>
             (\<exists>d. sql_payload (po_queue t) i = Some d \<and> sample_of d \<in> set (map sample_of ds)))"
    unfolding settled_ok_def by blast
  moreover have "proc_ok rt (po_proc t)" "held_ok sql_status sql_payload t" using ok by (simp_all add: pool_ok_def)
  ultimately show ?thesis unfolding held_ok_def by (auto simp: proc_ok_def log_verifies_def simp del: set_map)
qed

theorem acked_samples_are_recorded_witness:
  "verify_chain demo_sha (px_audit (po_proc (worker_turn (sql_ops 2) demo_re demo_rt 1 (worker_turn (sql_ops 2) demo_re demo_rt 0
     (snd (begin_run (sql_ops 2) demo_qenv demo_re demo_rt False demo_rows (new_pool demo_proc []))))))) = Inr True"
proof -
  let ?b = "begin_run (sql_ops 2) demo_qenv demo_re demo_rt False demo_rows (new_pool demo_proc [])"
  let ?t = "worker_turn (sql_ops 2) demo_re demo_rt 1 (worker_turn (sql_ops 2) demo_re demo_rt 0 (snd ?b))"
  have "(run_step (sql_ops 2) demo_re demo_rt)\<^sup>*\<^sup>* (snd ?b) ?t"
    by (rule rtranclp_trans [OF r_into_rtranclp r_into_rtranclp]) (rule step_turn)+
  moreover have "demo_rt\<lparr>rt_acquire := rt_acquire demo_rt\<rparr> = demo_rt" by simp
  note pre = demo_run_pre(1,2) [of "rt_acquire demo_rt", unfolded this] demo_run_pre(3-7)
  ultimately show ?thesis
    using acked_samples_are_recorded [of 2 demo_qenv demo_re demo_rt demo_rows demo_proc "fst ?b" "snd ?b" ?t] pre demo_rt_wf
    by (simp add: demo_rt_def del: wf_pyval.simps)
qed

text \<open>
  C6: a run comes to an end. Once the rows of a new run are enqueued, a first round in which every worker gets
  enough turns is also the last: \<open>execute\<close> returns, every row has an item which is done or dead, nothing is
  left pending or claimed, and the result's totals count the samples recorded in \<open>samples.jsonl\<close>.
\<close>

theorem run_reaches_its_end:
  assumes "begin_run (sql_ops m) env re rt False rows (new_pool p []) = (Inr (), s)"
    and "proc_ok rt p" "wf_runtime rt" "0 < m" "wf_pyval (PDict (rt_task rt))" "\<forall>row\<in>set rows. wf_pyval row"
      "inj_on (\<lambda>k. e_uuid (env k)) {0..<length rows}"
    and "\<And>p. \<not> re_stop re p" "\<not> re_distributed re" "fair_round m re (length rows) schedule"
  shows "\<exists>res t ds. execute (sql_ops m) env re rt False rows (schedule # rest) (new_pool p []) = Some (res, t)
    \<and> queue_drained (sql_ops m) (po_queue t) \<and> recorded ds (px_record (po_proc t))
    \<and> (\<forall>k<length rows. \<exists>i d. sql_payload (po_queue t) i = Some d \<and> sample_of d = PStr (sample_id_of (rt_run_id rt) k)
         \<and> (sql_status (po_queue t) i = Some Dead
            \<or> sql_status (po_queue t) i = Some Done \<and> sample_of d \<in> set (map sample_of ds)))
    \<and> (\<forall>rr. res = Inr rr \<longrightarrow> rr_total rr = length ds \<and> rr_passed rr = length (filter passed ds)
         \<and> rr_failed rr = length (filter (\<lambda>d. \<not> passed d) ds))"
proof -
  have empty: "table_inv m []" "\<forall>i. sql_status [] i = None \<and> sql_payload [] i = None"
    by (simp_all add: table_inv_def sql_status_def sql_payload_def find_item_def)
  obtain s' where s': "run_rounds (sql_ops m) re rt (schedule # rest) s = Some (Inr (), s')"
    "pool_ok sql_status sql_payload (table_inv m) rt s'" "\<forall>i. sql_status (po_queue s') i \<in> {None, Some Done, Some Dead}"
    "\<forall>k<length rows. \<exists>i d. sql_status (po_queue s') i \<in> {Some Done, Some Dead} \<and> sql_payload (po_queue s') i = Some d
       \<and> sample_of d = PStr (sample_id_of (rt_run_id rt) k)"
    by (rule sql_run.new_run_drains [OF assms(1) empty assms(2,4,3,5-8,10)])
  obtain ds where ds: "settled_ok sql_status sql_payload ds s'" using s'(2) by (auto simp: pool_ok_def)
  obtain res p' where fin: "finalize re rt (po_proc s') = (res, p')" by fastforce
  have rec: "recorded ds (px_record (po_proc s'))" using ds by (simp add: settled_ok_def)
  note f = finalize_ok [OF fin rec]
  let ?t = "s'\<lparr>po_proc := p'\<rparr>"
  have "execute (sql_ops m) env re rt False rows (schedule # rest) (new_pool p []) = Some (res, ?t)"
    using assms(1,9) s'(1) fin by (simp add: execute_def)
  moreover have "sql_status (po_queue s') i \<noteq> Some Pending \<and> sql_status (po_queue s') i \<noteq> Some Claimed" for i
    using s'(3) [rule_format, of i] by auto
  then have "queue_drained (sql_ops m) (po_queue ?t)"
    using s'(2) sql_run.pending_law [of m "po_queue s'"] sql_run.claimed_law [of m "po_queue s'"]
    by (simp add: queue_drained_def pool_ok_def)
  moreover have "\<exists>i d. sql_payload (po_queue ?t) i = Some d \<and> sample_of d = PStr (sample_id_of (rt_run_id rt) k)
         \<and> (sql_status (po_queue ?t) i = Some Dead \<or> sql_status (po_queue ?t) i = Some Done \<and> sample_of d \<in> set (map sample_of ds))"
    if k: "k < length rows" for k
  proof -
    obtain i d where i: "sql_status (po_queue s') i \<in> {Some Done, Some Dead}" "sql_payload (po_queue s') i = Some d"
       "sample_of d = PStr (sample_id_of (rt_run_id rt) k)" using s'(4) k by blast
    moreover have "sample_of d \<in> set (map sample_of ds)" if "sql_status (po_queue s') i = Some Done"
      using ds that i(2) unfolding settled_ok_def by (metis option.inject)
    ultimately show ?thesis by (intro exI [of _ i] exI [of _ d]) (auto simp del: set_map)
  qed
  ultimately show ?thesis using f rec by (intro exI [of _ res] exI [of _ ?t] exI [of _ ds]) simp
qed

theorem run_reaches_its_end_witness:
  "\<exists>res t. execute (sql_ops 2) demo_qenv demo_re demo_rt False demo_rows [replicate 15 0] (new_pool demo_proc []) = Some (res, t)
     \<and> queue_drained (sql_ops 2) (po_queue t)"
proof -
  have same: "demo_rt\<lparr>rt_acquire := rt_acquire demo_rt\<rparr> = demo_rt" by simp
  obtain s where s: "begin_run (sql_ops 2) demo_qenv demo_re demo_rt False demo_rows (new_pool demo_proc []) = (Inr (), s)"
    using demo_begins [of 2 "rt_acquire demo_rt"] same by metis
  note pre = demo_run_pre(1,2) [of "rt_acquire demo_rt", unfolded same] demo_run_pre(3-7)
  show ?thesis using run_reaches_its_end [OF s pre(1) demo_rt_wf _ pre(2-7), of "[]"] by auto
qed

text \<open>
  Samples whose every attempt raises vanish from the result. If no browser session can be had at all,
  the run of any number of rows comes to its end with every item dead, and a result, when the last event can be
  logged, of no sample at all: nothing passed, nothing failed, and \<open>andera run\<close> exits with success.
\<close>

theorem broken_run_reports_success:
  assumes "begin_run (sql_ops m) env re rt False rows (new_pool p []) = (Inr (), s)"
    and "proc_ok rt p" "wf_runtime rt" "0 < m" "wf_pyval (PDict (rt_task rt))" "\<forall>row\<in>set rows. wf_pyval row"
      "inj_on (\<lambda>k. e_uuid (env k)) {0..<length rows}"
    and "\<And>p. \<not> re_stop re p" "\<not> re_distributed re" "fair_round m re (length rows) schedule" "no_session rt"
  shows "\<exists>res t. execute (sql_ops m) env re rt False rows (schedule # rest) (new_pool p []) = Some (res, t)
    \<and> (\<forall>k<length rows. \<exists>i d. sql_payload (po_queue t) i = Some d \<and> sample_of d = PStr (sample_id_of (rt_run_id rt) k)
         \<and> sql_status (po_queue t) i = Some Dead)
    \<and> (\<forall>rr. res = Inr rr \<longrightarrow> rr_total rr = 0 \<and> rr_passed rr = 0 \<and> rr_failed rr = 0 \<and> exit_code rr = 0)"
proof -
  have empty: "table_inv m []" "\<forall>i. sql_status [] i = None \<and> sql_payload [] i = None"
    by (simp_all add: table_inv_def sql_status_def sql_payload_def find_item_def)
  obtain s' where s': "run_rounds (sql_ops m) re rt (schedule # rest) s = Some (Inr (), s')"
    "pool_ok sql_status sql_payload (table_inv m) rt s'"
    "\<forall>k<length rows. \<exists>i d. sql_status (po_queue s') i \<in> {Some Done, Some Dead} \<and> sql_payload (po_queue s') i = Some d
       \<and> sample_of d = PStr (sample_id_of (rt_run_id rt) k)"
    "s' = run_turns (sql_ops m) re rt (filter (\<lambda>i. i \<in> set (workers re)) schedule) s" "px_record (po_proc s) = (progress_empty, None)"
    by (rule sql_run.new_run_drains [OF assms(1) empty assms(2,4,3,5-8,10)])
  have unrecorded: "px_record (po_proc s') = (progress_empty, None)" using s'(4,5) by (simp add: turns_raise [OF assms(11)])
  obtain ds where ds: "settled_ok sql_status sql_payload ds s'" using s'(2) by (auto simp: pool_ok_def)
  then have "recorded ds (px_record (po_proc s'))" unfolding settled_ok_def by blast
  then have "recorded ds (progress_empty, None)" by (simp only: unrecorded)
  then have [simp]: "ds = []" by (rule recorded_empty_iff)
  obtain res p' where fin: "finalize re rt (po_proc s') = (res, p')" by fastforce
  have rec: "recorded [] (px_record (po_proc s'))" using ds by (simp add: settled_ok_def)
  have "execute (sql_ops m) env re rt False rows (schedule # rest) (new_pool p []) = Some (res, s'\<lparr>po_proc := p'\<rparr>)"
    using assms(1,9) s'(1) fin by (simp add: execute_def)
  moreover have "sql_status (po_queue s') i \<noteq> Some Done" for i using ds by (simp add: settled_ok_def)
  then have "\<exists>i d. sql_payload (po_queue s') i = Some d \<and> sample_of d = PStr (sample_id_of (rt_run_id rt) k)
      \<and> sql_status (po_queue s') i = Some Dead" if "k < length rows" for k
    using s'(3) that by blast
  ultimately show ?thesis using finalize_ok [OF fin rec]
    by (intro exI [of _ res] exI [of _ "s'\<lparr>po_proc := p'\<rparr>"]) (simp add: exit_code_def)
qed

theorem broken_run_reports_success_witness:
  "\<exists>res t i. execute (sql_ops 2) demo_qenv demo_re (demo_rt\<lparr>rt_acquire := \<lambda>_ _. raiseA (Exn ''Error'' ''no browser'')\<rparr>) False
       demo_rows [replicate 15 0] (new_pool demo_proc []) = Some (res, t)
     \<and> sql_status (po_queue t) i = Some Dead \<and> (\<forall>rr. res = Inr rr \<longrightarrow> exit_code rr = 0)"
proof -
  let ?rt = "demo_rt\<lparr>rt_acquire := \<lambda>_ _. raiseA (Exn ''Error'' ''no browser'')\<rparr>"
  obtain s where s: "begin_run (sql_ops 2) demo_qenv demo_re ?rt False demo_rows (new_pool demo_proc []) = (Inr (), s)"
    using demo_begins by blast
  note p = demo_run_pre
  have "0 < length demo_rows" by (simp add: demo_rows_def)
  then show ?thesis
    using broken_run_reports_success [OF s p(1) demo_no_session(2) _ p(2-7) demo_no_session(1), of "[]"] by fastforce
qed

text \<open>
  A resumed run releases the claims of workers that are still alive too: whatever was claimed before the clock of the
  resume is pending again, so it can be claimed, and run, a second time.
\<close>

lemma resume_releases_live_claims:
  assumes "begin_run (sql_ops m) env re rt True [] s = (Inr (), s1)"
    and "find_item i (po_queue s) = Some row" "q_status row = Claimed" "q_claimed_at row = Some c" "\<forall>p. c < e_now (re_env re p)"
  shows "\<exists>row'. find_item i (po_queue s1) = Some row' \<and> q_status row' = Pending \<and> q_claim_token row' = None"
proof -
  have f: "find_item i (snd (sql_reclaim_stale (re_env re p) 0 (po_queue s))) =
      Some (row\<lparr>q_status := Pending, q_claim_token := None, q_claimed_at := None, q_updated_at := e_now (re_env re p)\<rparr>)" for p
    unfolding sql_reclaim_stale_def Let_def snd_conv
    by (subst find_item_map) (use assms(2-5) in \<open>auto simp: is_stale_def\<close>)
  have "\<exists>p. po_queue s1 = snd (sql_reclaim_stale (re_env re p) 0 (po_queue s))"
    using assms(1) by (auto simp: begin_run_def Let_def sql_ops_def split_beta split: sum.splits prod.splits)
  with f show ?thesis by fastforce
qed

end
