(* ===== verification/EvidenceApi.thy ===== *)
theory EvidenceApi
  imports ArtifactStore PyText
begin

text \<open>
  \<open>GET /api/evidence/{sha}\<close> (\<open>api/routes/evidence.py\<close>): the raw bytes of an artifact, looked up by digest
  across the directories of all runs. The directory \<open>runs\<close> is the list of its entries, in the order
  \<open>iterdir\<close> gives them, each with the files below it; \<open>None\<close> when it does not exist.
\<close>

datatype 'a http = Reply 'a | HttpError nat string

type_synonym run_dirs = "(string \<times> fs) list option"

text \<open>A shard directory exists when something is in it; \<open>p.name.startswith(sha)\<close> is \<open>in_shard\<close>.\<close>

fun find_in_runs :: "string \<Rightarrow> (string \<times> fs) list \<Rightarrow> (fpath \<times> string) option" where
  "find_in_runs sh [] = None"
| "find_in_runs sh ((run, f) # rest) = (case find (\<lambda>x. in_shard sh (fst x)) (fs_names f) of
     Some (p, i) \<Rightarrow> Some (run # p, fs_data f i)
   | None \<Rightarrow> find_in_runs sh rest)"

definition find_blob :: "string \<Rightarrow> run_dirs \<Rightarrow> (fpath \<times> string) option" where
  "find_blob sh runs = (case runs of None \<Rightarrow> None | Some ds \<Rightarrow> find_in_runs sh ds)"

definition MIME_TYPES :: "(string \<times> string) list" where
  "MIME_TYPES = [(''.png'', ''image/png''), (''.jpg'', ''image/jpeg''), (''.jpeg'', ''image/jpeg''),
     (''.json'', ''application/json''), (''.txt'', ''text/plain''), (''.html'', ''text/html''), (''.pdf'', ''application/pdf'')]"

definition mime_from_ext :: "string \<Rightarrow> string" where
  "mime_from_ext ext = (case map_of MIME_TYPES (py_lower ext) of None \<Rightarrow> ''application/octet-stream'' | Some t \<Rightarrow> t)"

definition hex_digits :: "char set" where
  "hex_digits = set ''0123456789abcdef''"

definition valid_sha :: "string \<Rightarrow> bool" where
  "valid_sha sh \<longleftrightarrow> length sh = 64 \<and> list_all (\<lambda>c. c \<in> hex_digits) (py_lower sh)"

text \<open>The answer: content and media type.\<close>

definition get_evidence :: "string \<Rightarrow> run_dirs \<Rightarrow> (string \<times> string) http" where
  "get_evidence sh runs =
     (if \<not> valid_sha sh then HttpError 400 ''invalid sha''
      else (case find_blob sh runs of
          None \<Rightarrow> HttpError 404 (''evidence not found: '' @ sh)
        | Some (p, content) \<Rightarrow> Reply (content, mime_from_ext (py_path_suffix (last p)))))"

section \<open>Lemmas\<close>

lemma store_get_find: "find (\<lambda>x. in_shard sh (fst x)) (fs_names f) = Some (p, i) \<Longrightarrow> store_get sh f = Inr (fs_data f i)"
  "find (\<lambda>x. in_shard sh (fst x)) (fs_names f) = None \<Longrightarrow> \<exists>e. store_get sh f = Inl e"
  by (simp_all add: store_get_def)

lemma find_in_runs_Some:
  "find_in_runs sh ds = Some (p, c) \<Longrightarrow> \<exists>run f. (run, f) \<in> set ds \<and> store_get sh f = Inr c"
proof (induction sh ds rule: find_in_runs.induct)
  case (2 sh run f rest)
  show ?case
  proof (cases "find (\<lambda>x. in_shard sh (fst x)) (fs_names f)")
    case None
    with 2 show ?thesis by auto
  next
    case (Some x)
    then obtain q i where f: "find (\<lambda>x. in_shard sh (fst x)) (fs_names f) = Some (q, i)" by (cases x) simp
    with 2 have "c = fs_data f i" by simp
    with store_get_find(1) [OF f] show ?thesis by auto
  qed
qed simp

lemma find_in_runs_None:
  "find_in_runs sh ds = None \<Longrightarrow> (run, f) \<in> set ds \<Longrightarrow> \<exists>e. store_get sh f = Inl e"
  by (induction sh ds rule: find_in_runs.induct) (auto simp: store_get_find(2) split: option.split_asm)

text \<open>Digests are written in lower case, so an upper-case one is well-formed but names nothing.\<close>

definition hex_digest :: "(string \<Rightarrow> string) \<Rightarrow> bool" where
  "hex_digest sha \<longleftrightarrow> (\<forall>c. length (sha c) = 64 \<and> set (sha c) \<subseteq> hex_digits)"

lemma hex_lower: "c \<in> hex_digits \<Longrightarrow> lower_char c = c"
  by (auto simp: hex_digits_def lower_char_def Let_def)

lemma hex_digest_valid: "hex_digest sha \<Longrightarrow> valid_sha (sha c)"
  unfolding hex_digest_def valid_sha_def py_lower_def list_all_iff by (auto simp: hex_lower subset_iff)

text \<open>
  The directory \<open>runs\<close> seen by the server when the files below it are \<open>f\<close>. An agent for all runs keeps its store at
  \<open>runs\<close> itself, so its blobs lie one directory higher than the endpoint looks.
\<close>

definition below :: "string \<Rightarrow> fs \<Rightarrow> fs" where
  "below d f = f\<lparr>fs_names := map (\<lambda>(p, i). (tl p, i)) (filter (\<lambda>x. fst x \<noteq> [] \<and> hd (fst x) = d) (fs_names f))\<rparr>"

definition runs_view :: "fs \<Rightarrow> (string \<times> fs) list" where
  "runs_view f = map (\<lambda>d. (d, below d f)) (remdups (map hd (filter (\<lambda>p. p \<noteq> []) (map fst (fs_names f)))))"

definition shallow :: "fs \<Rightarrow> bool" where
  "shallow f \<longleftrightarrow> (\<forall>p\<in>set (map fst (fs_names f)). length p \<le> 3)"

lemma shallow_write: "shallow f \<Longrightarrow> length p \<le> 3 \<Longrightarrow> shallow (fs_write p c f)"
  by (auto simp: shallow_def fs_write_def split: option.split)

lemma shallow_link: "shallow f \<Longrightarrow> length q \<le> 3 \<Longrightarrow> shallow (fs_link p q f)"
  by (auto simp: shallow_def fs_link_def split: option.split)

lemma shallow_rename: "shallow f \<Longrightarrow> length q \<le> 3 \<Longrightarrow> shallow (fs_rename p q f)"
  by (auto simp: shallow_def fs_rename_def split: option.split)

lemma shallow_put:
  assumes "shallow f"
  shows "shallow (snd (store_put sha guess can_link base content name mime subfolder sample_id run_id f))"
proof -
  have blob: "shallow (put_blob sh ext content f)" for sh ext
    using assms by (simp add: put_blob_def shallow_rename shallow_write shard_path_def tmp_path_def)
  have "length (human_path sh ext sub name g) \<le> 3" for sh ext sub g
    by (simp add: human_path_def Let_def)
  with blob have "shallow (put_human can_link sh ext sub name content (put_blob sh ext content f))" for sh ext sub
    by (simp add: put_human_def Let_def shallow_link shallow_write)
  with blob show ?thesis by (simp add: store_put_def Let_def split: option.split)
qed

lemma in_shard_length: "in_shard sh p \<Longrightarrow> length p = 3"
  by (auto simp: in_shard_def split: list.splits)

lemma shallow_below: "shallow f \<Longrightarrow> x \<in> set (fs_names (below d f)) \<Longrightarrow> \<not> in_shard sh (fst x)"
  by (fastforce simp: shallow_def below_def dest!: in_shard_length)

lemma find_in_runs_nothing:
  "\<forall>(run, f)\<in>set ds. \<forall>x\<in>set (fs_names f). \<not> in_shard sh (fst x) \<Longrightarrow> find_in_runs sh ds = None"
proof (induction sh ds rule: find_in_runs.induct)
  case (2 sh run f rest)
  then have "find (\<lambda>x. in_shard sh (fst x)) (fs_names f) = None" by (auto simp: find_None_iff)
  with 2 show ?case by auto
qed simp

lemma agent_evidence_not_found:
  assumes "shallow f" "valid_sha sh"
  shows "get_evidence sh (Some (runs_view (snd (store_put sha guess can_link base content name mime subfolder sample_id run_id f))))
    = HttpError 404 (''evidence not found: '' @ sh)"
proof -
  let ?f = "snd (store_put sha guess can_link base content name mime subfolder sample_id run_id f)"
  have "find_in_runs sh (runs_view ?f) = None"
    using shallow_below [OF shallow_put [OF assms(1)]] by (intro find_in_runs_nothing) (force simp: runs_view_def)
  with assms(2) show ?thesis by (simp add: get_evidence_def find_blob_def)
qed

section \<open>Properties\<close>

text \<open>
  C28: evidence is what was hashed. If the blobs of every run are stored under their digests, the bytes answered
  for a digest have that digest; an artifact that was put into the store of any run can be fetched by the digest
  \<open>put\<close> returned; and a digest that is not in lower case finds nothing.
\<close>

theorem evidence_matches_digest:
  assumes "hex_digest sha" "\<forall>(run, f)\<in>set ds. fs_wf f \<and> blobs_ok sha f"
  shows "(\<forall>sh content mime. get_evidence sh (Some ds) = Reply (content, mime) \<longrightarrow> sha content = sh)
    \<and> (\<forall>run f n content. (run, f) \<in> set ds \<longrightarrow> fs_read f [''blobs'', take 2 (sha content), n] = Some content
        \<longrightarrow> (\<exists>c mime. get_evidence (sha content) (Some ds) = Reply (c, mime) \<and> sha c = sha content))
    \<and> (\<forall>sh. py_lower sh \<noteq> sh \<longrightarrow> (\<exists>code msg. get_evidence sh (Some ds) = HttpError code msg))"
proof -
  have fixed: "fixed_digest sha" using assms(1) by (simp add: fixed_digest_def hex_digest_def)
  have store: "case store_get sh f of Inr c \<Rightarrow> sha c = sh
      | Inl e \<Rightarrow> \<forall>n c. fs_read f [''blobs'', take 2 sh, n] = Some c \<longrightarrow> sha c \<noteq> sh"
    if "(run, f) \<in> set ds" "length sh = 64" for run f sh
    using store_get_ok [OF _ _ fixed that(2), of f] assms(2) that(1) by blast
  have sound: "sha content = sh" if "get_evidence sh (Some ds) = Reply (content, mime)" for sh content mime
  proof -
    have "valid_sha sh" using that by (simp add: get_evidence_def split: if_split_asm)
    moreover from this that obtain p where "find_in_runs sh ds = Some (p, content)"
      by (auto simp: get_evidence_def find_blob_def split: option.split_asm)
    ultimately have v: "valid_sha sh" "find_in_runs sh ds = Some (p, content)" by simp_all
    obtain run f where "(run, f) \<in> set ds" "store_get sh f = Inr content" using find_in_runs_Some [OF v(2)] by blast
    with store [of run f sh] v(1) show ?thesis by (simp add: valid_sha_def)
  qed
  have "\<exists>c mime. get_evidence (sha content) (Some ds) = Reply (c, mime) \<and> sha c = sha content"
    if "(run, f) \<in> set ds" "fs_read f [''blobs'', take 2 (sha content), n] = Some content" for run f n content
  proof (cases "find_in_runs (sha content) ds")
    case None
    from find_in_runs_None [OF this that(1)] obtain e where "store_get (sha content) f = Inl e" by blast
    with store [OF that(1), of "sha content"] assms(1) that(2) show ?thesis by (auto simp: hex_digest_def)
  next
    case (Some r)
    then have "get_evidence (sha content) (Some ds) = Reply (snd r, mime_from_ext (py_path_suffix (last (fst r))))"
      using hex_digest_valid [OF assms(1)] by (simp add: get_evidence_def find_blob_def split_beta)
    with sound show ?thesis by blast
  qed
  moreover have "\<exists>code msg. get_evidence sh (Some ds) = HttpError code msg" if "py_lower sh \<noteq> sh" for sh
  proof (cases "get_evidence sh (Some ds)")
    case (Reply r)
    then have "sha (fst r) = sh" using sound by (cases r) simp
    moreover have "py_lower (sha (fst r)) = sha (fst r)"
      using assms(1) by (auto simp: py_lower_def hex_digest_def hex_lower subset_iff intro!: map_idI)
    ultimately show ?thesis using that by simp
  qed simp
  ultimately show ?thesis using sound by blast
qed

definition demo_hex :: "string \<Rightarrow> string" where
  "demo_hex c = replicate 64 (if c = ''png'' then CHR ''a'' else CHR ''b'')"

theorem evidence_matches_digest_witness:
  "\<exists>c mime. get_evidence (demo_hex ''png'') (Some [(''r'', snd (store_put demo_hex (\<lambda>_. None) True ''runs/r'' ''png'' ''a.png'' None
      None None None fs_empty))]) = Reply (c, mime) \<and> demo_hex c = demo_hex ''png''"
proof -
  have h: "hex_digest demo_hex" by (auto simp: hex_digest_def demo_hex_def hex_digits_def)
  then have fixed: "fixed_digest demo_hex" by (simp add: fixed_digest_def hex_digest_def)
  let ?f = "snd (store_put demo_hex (\<lambda>_. None) True ''runs/r'' ''png'' ''a.png'' None None None None fs_empty)"
  have "?f = put_blob (demo_hex ''png'') (py_path_suffix ''a.png'') ''png'' fs_empty" by (simp add: store_put_def Let_def)
  then have "fs_wf ?f" "blobs_ok demo_hex ?f"
    using put_blob_effect [OF fs_empty_ok(1) fs_empty_ok(3) refl] put_blob_ok [OF fs_empty_ok(1,2) fs_empty_ok(3)] by simp_all
  then have "\<forall>(run, f)\<in>set [(''r'', ?f)]. fs_wf f \<and> blobs_ok demo_hex f" by simp
  note shown = evidence_matches_digest [OF h this, THEN conjunct2, THEN conjunct1]
  have "fs_read ?f [''blobs'', take 2 (demo_hex ''png''), demo_hex ''png'' @ ''.png''] = Some ''png''" by code_simp
  with shown show ?thesis by (metis list.set_intros(1))
qed

end
