(* ===== verification/TaskSpecs.thy ===== *)
theory TaskSpecs
  imports PlanCache EvidenceApi
begin

text \<open>
  Where task specifications come from: the planner that turns a natural-language description into one
  (\<open>planner/planner.py\<close>, \<open>api/routes/plan.py\<close>) and the extract schema made from the field list of the
  run form (\<open>_schema_from_fields\<close> of \<open>api/routes/runs.py\<close>). The system prompt is an argument.
\<close>

subsection \<open>Extract schemas from a field list\<close>

definition field_tokens :: "string \<Rightarrow> string list" where
  "field_tokens form = filter (\<lambda>t. t \<noteq> []) (concat (map (\<lambda>line. map py_strip (split_char (CHR '','') line))
     (split_char (CHR 0x0A) (filter (\<lambda>c. c \<noteq> CHR 0x0D) form))))"

text \<open>\<open>name: description\<close>, and the name as a column of the output table.\<close>

definition token_parts :: "string \<Rightarrow> string \<times> string" where
  "token_parts tok = (case split_once '':'' tok of
     None \<Rightarrow> (tok, [])
   | Some (a, b) \<Rightarrow> (py_strip a, py_strip b))"

definition field_name :: "string \<Rightarrow> string" where
  "field_name name = py_strip_chars ''_'' (map (\<lambda>c. if is_alnum c \<or> c = CHR ''_'' \<or> c = CHR ''-'' then c else CHR ''_'') name)"

definition field_prop :: "string \<Rightarrow> pyval" where
  "field_prop description = PDict ((''type'', PList [PStr ''string'', PStr ''null'']) #
     (if description = [] then [] else [(''description'', PStr description)]))"

text \<open>The loop over the tokens; \<open>names\<close> and \<open>seen\<close> hold the keys of \<open>props\<close>.\<close>

definition add_field :: "string \<Rightarrow> string list \<times> pydict \<Rightarrow> string list \<times> pydict" where
  "add_field tok s = (case s of (names, props) \<Rightarrow>
     let name = field_name (fst (token_parts tok)) in
     if name = [] \<or> name \<in> set names then s
     else (names @ [name], dset props name (field_prop (snd (token_parts tok)))))"

definition item_schema :: "string list \<Rightarrow> pydict \<Rightarrow> pydict" where
  "item_schema names props =
     [(''type'', PStr ''object''), (''properties'', PDict props), (''required'', PList (map PStr names))]"

definition schema_from_fields :: "string option \<Rightarrow> bool \<Rightarrow> pydict" where
  "schema_from_fields form multi_item =
     (case form of
        None \<Rightarrow> []
      | Some s \<Rightarrow>
          if py_strip s = [] then []
          else (case fold add_field (field_tokens s) ([], []) of (names, props) \<Rightarrow>
            if names = [] then []
            else if multi_item then [(''type'', PStr ''array''), (''items'', PDict (item_schema names props))]
            else item_schema names props))"

subsection \<open>The planner\<close>

text \<open>\<open>json.dumps(v)\<close> with \<open>ensure_ascii\<close>, its default: what is not printable ASCII becomes a \<open>\u00XX\<close> escape.\<close>

definition ascii_only :: "string \<Rightarrow> string" where
  "ascii_only s = concat (map (\<lambda>c. if 127 \<le> (of_char c :: nat)
     then [CHR 0x5C, CHR ''u'', CHR ''0'', CHR ''0'', hex_digit (of_char c div 16), hex_digit (of_char c mod 16)] else [c]) s)"

definition dumps_ascii :: "pyval \<Rightarrow> string" where
  "dumps_ascii v = ascii_only (dumps_default v)"

definition plan_user_prompt :: "string \<Rightarrow> pydict option \<Rightarrow> string" where
  "plan_user_prompt nl input_schema =
     (let cols = py_or (dget (case input_schema of None \<Rightarrow> [] | Some d \<Rightarrow> d) ''columns'') (PList []) in
      ''Natural-language task:'' @ [CHR 0x0A] @ py_strip nl @ [CHR 0x0A, CHR 0x0A] @ ''Input columns: '' @ dumps_ascii cols)"

definition REQUIRED_FIELDS :: "string list" where
  "REQUIRED_FIELDS = [''extract_schema'', ''prompt'', ''task_id'', ''task_name'', ''task_type'']"

text \<open>\<open>_validate\<close>; a task type that is a list or an object cannot be looked up in a set.\<close>

definition sorted_texts :: "string list \<Rightarrow> string" where
  "sorted_texts xs = py_repr (PList (map PStr xs))"

definition validate_spec :: "pydict \<Rightarrow> exn + unit" where
  "validate_spec spec =
     (let missing = filter (\<lambda>k. \<not> dhas spec k) REQUIRED_FIELDS; task_type = dget spec ''task_type'' in
      if missing \<noteq> [] then Inl (Exn ''ValueError'' (''planner output missing fields: '' @ sorted_texts missing))
      else if is_list task_type \<or> is_dict task_type then Inl (Exn ''TypeError'' (''unhashable type: '' @ repr_str (type_name task_type)))
      else if task_type \<notin> set (map PStr VALID_TASK_TYPES)
      then Inl (Exn ''ValueError'' (''task_type must be one of '' @ sorted_texts VALID_TASK_TYPES @ '', got '' @ py_repr task_type))
      else (let schema = py_or (dget spec ''extract_schema'') (PDict []) in
        bindE (attr_get schema ''type'') (\<lambda>ty.
          if ty \<noteq> PStr ''object'' then Inl (Exn ''ValueError'' (''extract_schema.type must be '' @ repr_str ''object''))
          else bindE (attr_get schema ''required'') (\<lambda>req.
            if \<not> truthy req then Inl (Exn ''ValueError'' ''extract_schema must declare at least one required field'')
            else Inr ()))))"

definition check_spec :: "pyval \<Rightarrow> exn + pydict" where
  "check_spec v = (case v of
     PDict spec \<Rightarrow> bindE (validate_spec spec) (\<lambda>_. Inr spec)
   | _ \<Rightarrow> Inl (Exn ''ValueError'' ''planner did not return a JSON object''))"

definition plan_task_from_nl :: "string \<Rightarrow> 'w chat \<Rightarrow> string \<Rightarrow> pydict option \<Rightarrow> ('w, pydict) act" where
  "plan_task_from_nl system planner nl input_schema =
     bindA (planner (PList [chat_msg ''system'' (PStr system), chat_msg ''user'' (PStr (plan_user_prompt nl input_schema))]) PNone)
       (\<lambda>out. liftE (bindE (parse_json (py_or (dget out ''content'') (PStr []))) check_spec))"

text \<open>\<open>POST /api/plan\<close>; \<open>JSONDecodeError\<close> is a \<open>ValueError\<close>, and what is neither ends as an internal error.\<close>

definition value_error :: "exn \<Rightarrow> bool" where
  "value_error e \<longleftrightarrow> exn_class e \<in> {''ValueError'', ''JSONDecodeError'', ''UnicodeDecodeError'', ''UnicodeEncodeError''}"

definition create_plan :: "string \<Rightarrow> 'w chat \<Rightarrow> string \<Rightarrow> pydict option \<Rightarrow> ('w, pydict http) act" where
  "create_plan system planner nl input_schema w =
     (if py_strip nl = [] then (Inr (HttpError 400 ''nl must be non-empty''), w)
      else (case plan_task_from_nl system planner nl input_schema w of
          (Inr spec, w') \<Rightarrow> (Inr (Reply [(''task'', PDict spec)]), w')
        | (Inl e, w') \<Rightarrow> if value_error e then (Inr (HttpError 422 (exn_msg e)), w') else (Inl e, w')))"

section \<open>Lemmas\<close>

text \<open>A column name: not empty, of the allowed characters, with no underscore at either end.\<close>

definition column_name :: "string \<Rightarrow> bool" where
  "column_name n \<longleftrightarrow> n \<noteq> [] \<and> hd n \<noteq> CHR ''_'' \<and> last n \<noteq> CHR ''_''
     \<and> list_all (\<lambda>c. is_alnum c \<or> c = CHR ''_'' \<or> c = CHR ''-'') n"

lemma set_strip_chars: "set (py_strip_chars cs s) \<subseteq> set s"
  unfolding py_strip_chars_def rstrip_by_def lstrip_by_def by (auto dest!: set_dropWhileD)

lemma strip_chars_ends:
  assumes "py_strip_chars cs s \<noteq> []"
  shows "hd (py_strip_chars cs s) \<notin> set cs" "last (py_strip_chars cs s) \<notin> set cs"
proof -
  let ?p = "\<lambda>c. c \<in> set cs" and ?l = "dropWhile (\<lambda>c. c \<in> set cs) s"
  have r: "py_strip_chars cs s = rev (dropWhile ?p (rev ?l))" by (simp add: py_strip_chars_def rstrip_by_def lstrip_by_def)
  with assms have ne: "dropWhile ?p (rev ?l) \<noteq> []" by simp
  show "last (py_strip_chars cs s) \<notin> set cs" using hd_dropWhile [OF ne] ne by (simp add: r last_rev)
  have "rev ?l = takeWhile ?p (rev ?l) @ dropWhile ?p (rev ?l)" by simp
  then have "?l = rev (dropWhile ?p (rev ?l)) @ rev (takeWhile ?p (rev ?l))" by (metis rev_append rev_rev_ident)
  with ne have "hd (rev (dropWhile ?p (rev ?l))) = hd ?l" by (metis hd_append rev_is_Nil_conv)
  moreover have "?l \<noteq> []" using ne by (auto dest: set_dropWhileD)
  ultimately show "hd (py_strip_chars cs s) \<notin> set cs" using hd_dropWhile [OF \<open>?l \<noteq> []\<close>] by (simp add: r)
qed

lemma field_name_column: "field_name n \<noteq> [] \<Longrightarrow> column_name (field_name n)"
  using strip_chars_ends [of "''_''"] set_strip_chars [of "''_''"]
  unfolding field_name_def column_name_def list_all_iff by fastforce

definition fields_ok :: "string list \<times> pydict \<Rightarrow> bool" where
  "fields_ok s \<longleftrightarrow> map fst (snd s) = fst s \<and> distinct (fst s) \<and> (\<forall>n\<in>set (fst s). column_name n) \<and> wf_items (snd s)"

lemma add_field_ok: "fields_ok s \<Longrightarrow> fields_ok (add_field tok s)"
  by (cases s) (auto simp: fields_ok_def add_field_def Let_def field_name_column dset_def field_prop_def wf_items_set
      update_new split: prod.splits)

lemma add_fields_ok: "fields_ok s \<Longrightarrow> fields_ok (fold add_field toks s)"
  by (induction toks arbitrary: s) (simp_all add: add_field_ok)

text \<open>A list of column names, joined the way a user writes it, has exactly these names as its tokens.\<close>

lemma column_char:
  assumes "column_name n" "c \<in> set n"
  shows "\<not> is_space c" "c \<noteq> CHR '',''" "c \<noteq> CHR '':''" "c \<noteq> CHR 0x0A" "c \<noteq> CHR 0x0D"
proof -
  have c: "is_alnum c \<or> c = CHR ''_'' \<or> c = CHR ''-''" using assms by (auto simp: column_name_def list_all_iff)
  then show "\<not> is_space c" by (auto simp: is_alnum_def is_space_def Let_def)
  show "c \<noteq> CHR '',''" "c \<noteq> CHR '':''" "c \<noteq> CHR 0x0A" "c \<noteq> CHR 0x0D" using c by (auto simp: is_alnum_def Let_def)
qed

lemma strip_no_space: "\<forall>c\<in>set s. \<not> is_space c \<Longrightarrow> py_strip s = s"
proof -
  assume a: "\<forall>c\<in>set s. \<not> is_space c"
  have "dropWhile is_space t = t" if "set t \<subseteq> set s" for t using a that by (cases t) auto
  from this [of s] this [of "rev s"] show ?thesis by (simp add: py_strip_def lstrip_by_def rstrip_by_def)
qed

lemma strip_space: "py_strip (CHR '' '' # s) = py_strip s"
  by (simp add: py_strip_def lstrip_by_def is_space_def)

lemma strip_chars_id:
  assumes "s \<noteq> []" "hd s \<notin> set cs" "last s \<notin> set cs" shows "py_strip_chars cs s = s"
proof -
  have "dropWhile (\<lambda>c. c \<in> set cs) s = s" using assms by (cases s) auto
  moreover have "dropWhile (\<lambda>c. c \<in> set cs) (rev s) = rev s" using assms by (cases s rule: rev_cases) auto
  ultimately show ?thesis by (simp add: py_strip_chars_def lstrip_by_def rstrip_by_def)
qed

lemma field_name_id: "column_name n \<Longrightarrow> field_name n = n"
proof -
  assume n: "column_name n"
  then have "map (\<lambda>c. if is_alnum c \<or> c = CHR ''_'' \<or> c = CHR ''-'' then c else CHR ''_'') n = n"
    by (intro map_idI) (auto simp: column_name_def list_all_iff)
  with n show ?thesis unfolding field_name_def by (simp add: column_name_def strip_chars_id)
qed

lemma split_once_no: "c \<notin> set s \<Longrightarrow> split_once [c] s = None"
  by (induction s) auto

lemma token_column: "column_name n \<Longrightarrow> token_parts n = (n, [])"
proof -
  assume "column_name n"
  then have "CHR '':'' \<notin> set n" using column_char(3) by blast
  then show ?thesis by (simp add: token_parts_def split_once_no)
qed

lemma split_char_join_space:
  "\<forall>n\<in>set ns. CHR '','' \<notin> set n \<Longrightarrow> ns \<noteq> [] \<Longrightarrow> split_char (CHR '','') (py_join '', '' ns) = hd ns # map ((#) (CHR '' '')) (tl ns)"
proof (induction "'', ''" ns rule: py_join.induct)
  case (2 x)
  then show ?case by (simp add: split_char_no)
next
  case (3 x y xs)
  have "split_char (CHR '','') (x @ CHR '','' # r) = x # split_char (CHR '','') r" if "CHR '','' \<notin> set x" for r x
    using that by (induction x) auto
  moreover have "split_char (CHR '','') (CHR '' '' # r) = (CHR '' '' # hd (split_char (CHR '','') r)) # tl (split_char (CHR '','') r)" for r
    using split_char_ne [of "CHR '',''" r] by (simp split: list.split)
  ultimately show ?case using 3 by simp
qed simp

lemma field_tokens_columns:
  assumes "\<forall>n\<in>set ns. column_name n" "ns \<noteq> []"
  shows "field_tokens (py_join '', '' ns) = ns"
proof -
  have chars: "set (py_join '', '' ms) \<subseteq> (\<Union>n\<in>set ms. set n) \<union> {CHR '','', CHR '' ''}" for ms
    by (induction "'', ''" ms rule: py_join.induct) auto
  have no: "CHR 0x0A \<notin> set n" "CHR 0x0D \<notin> set n" "CHR '','' \<notin> set n" "py_strip n = n" "n \<noteq> []" if "n \<in> set ns" for n
  proof -
    have n: "column_name n" using assms(1) that by blast
    show "CHR 0x0A \<notin> set n" "CHR 0x0D \<notin> set n" "CHR '','' \<notin> set n" using column_char(2,4,5) [OF n] by blast+
    show "py_strip n = n" using column_char(1) [OF n] strip_no_space by blast
    show "n \<noteq> []" using n by (simp add: column_name_def)
  qed
  have j: "CHR 0x0A \<notin> set (py_join '', '' ns)" "CHR 0x0D \<notin> set (py_join '', '' ns)" using chars [of ns] no by auto
  have "filter (\<lambda>c. c \<noteq> CHR 0x0D) (py_join '', '' ns) = py_join '', '' ns" using j(2) by (intro filter_True) auto
  moreover have "map py_strip (split_char (CHR '','') (py_join '', '' ns)) = ns"
  proof -
    have "map py_strip (hd ns # map ((#) (CHR '' '')) (tl ns)) = map py_strip (hd ns # tl ns)"
      by (simp add: strip_space)
    also have "\<dots> = ns" using assms(2) no by (auto simp: map_idI)
    finally show ?thesis using split_char_join_space [of ns] no(3) assms(2) by simp
  qed
  moreover have "filter (\<lambda>t. t \<noteq> []) ns = ns" using no(5) by simp
  ultimately show ?thesis unfolding field_tokens_def using j(1) by (simp add: split_char_no)
qed

lemma add_column: "column_name n \<Longrightarrow> n \<notin> set names \<Longrightarrow>
    add_field n (names, props) = (names @ [n], dset props n (field_prop []))"
  using field_name_id [of n] by (auto simp: add_field_def token_column column_name_def)

lemma add_columns:
  "\<forall>n\<in>set ns. column_name n \<Longrightarrow> distinct (names @ ns) \<Longrightarrow> fst (fold add_field ns (names, props)) = names @ ns"
proof (induction ns arbitrary: names props)
  case (Cons n ns)
  then show ?case using Cons.IH [of "names @ [n]" "dset props n (field_prop [])"] by (simp add: add_column)
qed simp

section \<open>Properties\<close>

definition schema_columns :: "pydict \<Rightarrow> bool \<Rightarrow> string list \<Rightarrow> bool" where
  "schema_columns schema multi names \<longleftrightarrow> (\<exists>props. map fst props = names \<and>
     schema = (if multi then [(''type'', PStr ''array''), (''items'', PDict (item_schema names props))] else item_schema names props))"

text \<open>A form whose tokens give at least one column.\<close>

lemma schema_of_columns:
  assumes "py_strip s \<noteq> []" "fst (fold add_field (field_tokens s) ([], [])) = names" "names \<noteq> []"
  shows "distinct names" "\<forall>n\<in>set names. column_name n" "wf_pyval (PDict (schema_from_fields (Some s) multi))"
    "schema_columns (schema_from_fields (Some s) multi) multi names"
proof -
  obtain props where f: "fold add_field (field_tokens s) ([], []) = (names, props)" using assms(2) by (metis prod.collapse)
  have "fields_ok (names, props)" using add_fields_ok [of "([], [])" "field_tokens s"] f by (simp add: fields_ok_def)
  then have cols: "distinct names" "\<forall>n\<in>set names. column_name n" "map fst props = names" "wf_items props"
    by (simp_all add: fields_ok_def)
  have schema: "schema_from_fields (Some s) multi =
      (if multi then [(''type'', PStr ''array''), (''items'', PDict (item_schema names props))] else item_schema names props)"
    using assms(1,3) f by (simp add: schema_from_fields_def)
  have "wf_pyval (PDict (item_schema names props))" using cols by (simp add: item_schema_def wf_elems_set)
  then show "wf_pyval (PDict (schema_from_fields (Some s) multi))" unfolding schema by simp
  show "distinct names" "\<forall>n\<in>set names. column_name n" by (fact cols)+
  show "schema_columns (schema_from_fields (Some s) multi) multi names" unfolding schema_columns_def schema using cols(3) by blast
qed

lemma strip_column: "column_name n \<Longrightarrow> py_strip (n @ s) \<noteq> []"
proof
  assume n: "column_name n" and e: "py_strip (n @ s) = []"
  obtain c r where c: "n = c # r" using n by (cases n) (auto simp: column_name_def)
  then have "\<not> is_space c" using column_char(1) [OF n] by simp
  with e c show False by (auto simp: py_strip_def lstrip_by_def rstrip_by_def dropWhile_eq_Nil_conv)
qed

text \<open>The columns a form names: the name of every token, unless nothing usable is left of it.\<close>

definition form_columns :: "string option \<Rightarrow> string list" where
  "form_columns form = (case form of None \<Rightarrow> [] | Some s \<Rightarrow> filter (\<lambda>n. n \<noteq> []) (map (field_name \<circ> fst \<circ> token_parts) (field_tokens s)))"

lemma add_fields_set:
  "set (fst (fold add_field ts s)) = set (fst s) \<union> {n \<in> set (map (field_name \<circ> fst \<circ> token_parts) ts). n \<noteq> []}"
  by (induction ts arbitrary: s) (auto simp: add_field_def Let_def split: prod.splits)

lemma strip_empty: "py_strip s = [] \<longleftrightarrow> (\<forall>c\<in>set s. is_space c)"
proof
  assume e: "py_strip s = []"
  let ?r = "dropWhile is_space s"
  have all: "\<forall>c\<in>set ?r. is_space c" using e by (simp add: py_strip_def lstrip_by_def rstrip_by_def)
  have "?r = []"
  proof (rule ccontr)
    assume "?r \<noteq> []"
    with all hd_dropWhile [of is_space s] show False by (cases ?r) auto
  qed
  then show "\<forall>c\<in>set s. is_space c" by simp
next
  assume "\<forall>c\<in>set s. is_space c"
  then show "py_strip s = []"
    by (simp add: py_strip_def lstrip_by_def rstrip_by_def) (meson set_dropWhileD)
qed

lemma split_char_set: "\<forall>p\<in>set (split_char x s). set p \<subseteq> set s"
proof (induction s)
  case (Cons c s)
  then show ?case by (cases "split_char x s") (auto simp: subset_iff)
qed simp

lemma blank_form: "py_strip s = [] \<Longrightarrow> field_tokens s = []"
proof -
  assume s: "py_strip s = []"
  have "py_strip piece = []" if "line \<in> set (split_char (CHR 0x0A) (filter (\<lambda>c. c \<noteq> CHR 0x0D) s))" "piece \<in> set (split_char (CHR '','') line)" for line piece
    using bspec [OF split_char_set that(1)] bspec [OF split_char_set that(2)] s unfolding strip_empty by auto
  then show ?thesis by (auto simp: field_tokens_def filter_empty_conv)
qed

lemma form_columns_empty: "schema_from_fields form multi = [] \<longleftrightarrow> form_columns form = []"
proof (cases form)
  case (Some s)
  have "fst (fold add_field (field_tokens s) ([], [])) = [] \<longleftrightarrow> form_columns form = []"
    using add_fields_set [of "field_tokens s" "([], [])"] Some by (auto simp: form_columns_def filter_empty_conv simp flip: set_empty)
  then show ?thesis
    using Some blank_form [of s] by (auto simp: schema_from_fields_def item_schema_def form_columns_def split: prod.split)
qed (simp add: schema_from_fields_def form_columns_def)


definition demo_chat :: "pydict \<Rightarrow> unit chat" where
  "demo_chat out messages schema w = (Inr out, w)"

text \<open>
  Only runnable specifications leave the planner. If \<open>POST /api/plan\<close> answers 200 the answer is a task with all
  five fields, one of the five task types and an object schema that requires something; a well-formed answer of the
  model is handed on unchanged; a malformed one is refused with status 422, unless it breaks the validation itself,
  which then raises a \<open>TypeError\<close> or \<open>AttributeError\<close>.
\<close>

theorem planned_spec_is_runnable:
  assumes "\<And>messages schema. planner messages schema w = (Inr out, w')" "py_strip nl \<noteq> []"
  shows "case create_plan system planner nl input_schema w of
      (Inr (Reply a), v) \<Rightarrow> v = w' \<and> (\<exists>spec. a = [(''task'', PDict spec)] \<and> (\<forall>k\<in>set REQUIRED_FIELDS. dhas spec k)
        \<and> dget spec ''task_type'' \<in> set (map PStr VALID_TASK_TYPES)
        \<and> (\<exists>schema. dget spec ''extract_schema'' = PDict schema \<and> dget schema ''type'' = PStr ''object'' \<and> truthy (dget schema ''required''))
        \<and> parse_json (py_or (dget out ''content'') (PStr [])) = Inr (PDict spec))
    | (Inr (HttpError code msg), v) \<Rightarrow> v = w' \<and> code = 422
    | (Inl e, v) \<Rightarrow> v = w' \<and> exn_class e \<in> {''TypeError'', ''AttributeError''}"
proof -
  let ?v = "parse_json (py_or (dget out ''content'') (PStr []))"
  have p: "plan_task_from_nl system planner nl input_schema w = (bindE ?v check_spec, w')"
    using assms(1) by (simp add: plan_task_from_nl_def bindA_def)
  have pj: "exn_class e \<in> {''JSONDecodeError'', ''AttributeError''}" if "?v = Inl e" for e
    using that by (auto simp: parse_json_def json_decode_error_def split: pyval.splits option.splits)
  have bad: "exn_class e \<in> {''ValueError'', ''TypeError'', ''AttributeError''}" if "check_spec u = Inl e" for u e
    using that by (auto simp: check_spec_def validate_spec_def Let_def attr_get_def bindE_def split: pyval.splits if_splits sum.splits)
  show ?thesis
  proof (cases "bindE ?v check_spec")
    case (Inl e)
    then have "exn_class e \<in> {''JSONDecodeError'', ''ValueError'', ''TypeError'', ''AttributeError''}"
      using pj bad by (cases ?v) auto
    with Inl p assms(2) show ?thesis by (auto simp: create_plan_def value_error_def)
  next
    case (Inr spec)
    then obtain u where u: "?v = Inr u" "check_spec u = Inr spec" by (auto simp: bindE_Inr)
    then have us: "u = PDict spec" "validate_spec spec = Inr ()" by (auto simp: check_spec_def bindE_Inr split: pyval.splits)
    have req: "\<forall>k\<in>set REQUIRED_FIELDS. dhas spec k" "dget spec ''task_type'' \<in> set (map PStr VALID_TASK_TYPES)"
      using us(2) by (auto simp: validate_spec_def Let_def filter_empty_conv split: if_splits)
    obtain schema where "py_or (dget spec ''extract_schema'') (PDict []) = PDict schema" "dget schema ''type'' = PStr ''object''"
      "truthy (dget schema ''required'')"
      using us(2) by (auto simp: validate_spec_def Let_def attr_get_def bindE_def split: if_splits pyval.splits sum.splits)
    moreover from this(1,2) have "dget spec ''extract_schema'' = PDict schema"
      by (auto simp: py_or_def dget_def split: if_splits)
    ultimately show ?thesis using p Inr assms(2) req u us by (auto simp: create_plan_def)
  qed
qed

definition demo_spec :: pydict where
  "demo_spec = [(''task_id'', PStr ''t''), (''task_name'', PStr ''n''), (''task_type'', PStr ''navigate''),
     (''prompt'', PStr ''p''), (''extract_schema'', PDict [(''type'', PStr ''object''), (''required'', PList [PStr ''a''])])]"

definition demo_answer :: string where
  "demo_answer = dumps_compact (PDict demo_spec)"

lemma demo_answer_planned:
  "create_plan ''plan'' (demo_chat [(''content'', PStr demo_answer)]) ''go'' None () = (Inr (Reply [(''task'', PDict demo_spec)]), ())"
  by code_simp

theorem planned_spec_is_runnable_witness:
  "create_plan ''plan'' (demo_chat [(''content'', PStr demo_answer)]) ''go'' None () = (Inr (Reply [(''task'', PDict demo_spec)]), ())
     \<and> list_all (dhas demo_spec) REQUIRED_FIELDS \<and> dget demo_spec ''task_type'' \<in> set (map PStr VALID_TASK_TYPES)"
proof -
  have "py_strip ''go'' \<noteq> []" by code_simp
  from planned_spec_is_runnable [OF _ this, of "demo_chat [(''content'', PStr demo_answer)]" "()"
      "[(''content'', PStr demo_answer)]" "()" "''plan''" None] demo_answer_planned show ?thesis by (simp add: demo_chat_def list_all_iff)
qed

end
