(* ===== verification/RunsApi.thy ===== *)
theory RunsApi
  imports RunWorkflow TaskSpecs
begin

text \<open>
  The runs of the API (\<open>api/registry.py\<close>, \<open>api/routes/runs.py\<close>, \<open>api/routes/samples.py\<close> and the finalizer
  loop of \<open>api/app.py\<close>): a request becomes a workflow and a record, a background task drives the workflow, and
  the finalizer wraps up the runs whose samples other processes execute. Records are objects that the driver
  keeps a reference to, so they live under a number each; the registry maps run ids to them.
\<close>

subsection \<open>Records and the registry\<close>

text \<open>How far the background task \<open>_drive\<close> of a run has come.\<close>

datatype drive_pos = NotStarted | Driving | Driven

record run_rec =
  rc_run_id :: pyval
  rc_task_id :: pyval
  rc_status :: string
  rc_total :: pyval
  rc_passed :: pyval
  rc_failed :: pyval
  rc_run_root :: "string option"
  rc_task :: pyval
  rc_error :: "string option"
  rc_samples :: pyval
  rc_awaits :: bool
  rc_future :: drive_pos

definition public_dict :: "run_rec \<Rightarrow> pydict" where
  "public_dict r = [(''run_id'', rc_run_id r), (''task_id'', rc_task_id r), (''status'', PStr (rc_status r)),
     (''total'', rc_total r), (''passed'', rc_passed r), (''failed'', rc_failed r),
     (''run_root'', opt_text (rc_run_root r)), (''error'', opt_text (rc_error r))]"

text \<open>A workflow: what it runs with, its rows, its queue and files.\<close>

record ('w, 'q) flow =
  fl_env :: "'w run_env"
  fl_rt :: "'w runtime"
  fl_rows :: "pyval list"
  fl_pool :: "('w, 'q) pool"

record ('w, 'q) api =
  ap_recs :: "nat \<Rightarrow> run_rec"
  ap_next :: nat
  ap_registry :: "(string \<times> nat) list"
  ap_flow :: "nat \<Rightarrow> ('w, 'q) flow"

definition register_run :: "string \<Rightarrow> run_rec \<Rightarrow> ('w, 'q) flow \<Rightarrow> ('w, 'q) api \<Rightarrow> ('w, 'q) api" where
  "register_run r rec fl a = (let n = ap_next a in
     a\<lparr> ap_recs := (ap_recs a)(n := rec), ap_flow := (ap_flow a)(n := fl), ap_next := Suc n,
        ap_registry := AList.update r n (ap_registry a) \<rparr>)"

definition pending_finalization :: "('w, 'q) api \<Rightarrow> nat list" where
  "pending_finalization a = filter (\<lambda>n. rc_awaits (ap_recs a n)) (map snd (ap_registry a))"

definition set_rec :: "nat \<Rightarrow> run_rec \<Rightarrow> ('w, 'q) api \<Rightarrow> ('w, 'q) api" where
  "set_rec n rec a = a\<lparr> ap_recs := (ap_recs a)(n := rec) \<rparr>"

definition mark_finalized :: "pyval \<Rightarrow> ('w, 'q) api \<Rightarrow> ('w, 'q) api" where
  "mark_finalized run a = (case run of
     PStr r \<Rightarrow> (case map_of (ap_registry a) r of
         None \<Rightarrow> a
       | Some n \<Rightarrow> set_rec n ((ap_recs a n)\<lparr> rc_awaits := False \<rparr>) a)
   | _ \<Rightarrow> a)"

text \<open>
  \<open>_hydrate\<close>: the record of a run that is only on disk, from the text of its manifest and the name of its
  directory. \<open>runs\<close> is the directory as the sorted list of its entries with their manifests.
\<close>

definition or_empty :: "pyval \<Rightarrow> pyval" where
  "or_empty v = py_or v (PDict [])"

definition attr_get_or :: "pyval \<Rightarrow> string \<Rightarrow> pyval \<Rightarrow> exn + pyval" where
  "attr_get_or v k x = (case v of PDict d \<Rightarrow> Inr (dget_or d k x)
     | _ \<Rightarrow> Inl (Exn ''AttributeError'' (CHR 0x27 # type_name v @ CHR 0x27 # '' object has no attribute '' @ repr_str ''get'')))"

definition hydrate :: "string \<Rightarrow> string \<Rightarrow> exn + run_rec" where
  "hydrate name manifest = (case json_loads manifest of
     None \<Rightarrow> Inl json_decode_error
   | Some data \<Rightarrow>
       bindE (attr_get data ''totals'') (\<lambda>t. let totals = or_empty t in
       bindE (attr_get_or data ''run_id'' (PStr name)) (\<lambda>run_id.
       bindE (attr_get data ''task'') (\<lambda>task.
       bindE (attr_get (or_empty task) ''task_id'') (\<lambda>task_id.
       bindE (attr_get_or totals ''samples'' (PInt 0)) (\<lambda>total.
       bindE (attr_get_or totals ''passed'' (PInt 0)) (\<lambda>n_passed.
       bindE (attr_get_or totals ''failed'' (PInt 0)) (\<lambda>n_failed.
       bindE (attr_get_or data ''samples'' (PList [])) (\<lambda>samples.
         Inr \<lparr> rc_run_id = run_id, rc_task_id = task_id, rc_status = ''completed'', rc_total = total, rc_passed = n_passed,
               rc_failed = n_failed, rc_run_root = Some (''runs/'' @ name), rc_task = task, rc_error = None,
               rc_samples = samples, rc_awaits = False, rc_future = NotStarted \<rparr>)))))))))"

definition get_rec :: "(string \<times> string) list \<Rightarrow> string \<Rightarrow> ('w, 'q) api \<Rightarrow> exn + run_rec option" where
  "get_rec runs r a = (case map_of (ap_registry a) r of
     Some n \<Rightarrow> Inr (Some (ap_recs a n))
   | None \<Rightarrow> (case map_of runs r of
       None \<Rightarrow> Inr None
     | Some manifest \<Rightarrow> bindE (hydrate r manifest) (\<lambda>rec. Inr (Some rec))))"

definition list_recs :: "(string \<times> string) list \<Rightarrow> ('w, 'q) api \<Rightarrow> pydict list" where
  "list_recs runs a =
     (let live = map (\<lambda>x. public_dict (ap_recs a (snd x))) (ap_registry a);
          seen = map (\<lambda>d. dget d ''run_id'') live
      in live @ List.map_filter (\<lambda>x. if PStr (fst x) \<in> set seen then None
           else (case hydrate (fst x) (snd x) of Inl e \<Rightarrow> None | Inr rec \<Rightarrow> Some (public_dict rec))) runs)"

text \<open>\<open>GET /api/runs\<close>.\<close>

definition list_runs :: "(string \<times> string) list \<Rightarrow> ('w, 'q) api \<Rightarrow> pydict http" where
  "list_runs runs a = Reply [(''runs'', PList (map PDict (list_recs runs a)))]"

text \<open>\<open>GET /api/runs/{id}\<close> and \<open>GET /api/runs/{id}/samples\<close>.\<close>

definition not_found_run :: "string \<Rightarrow> 'a http" where
  "not_found_run r = HttpError 404 (''run not found: '' @ r)"

definition py_len :: "pyval \<Rightarrow> exn + nat" where
  "py_len v = (case v of PList xs \<Rightarrow> Inr (length xs) | PStr s \<Rightarrow> Inr (length s) | PDict d \<Rightarrow> Inr (length d)
     | _ \<Rightarrow> Inl (Exn ''TypeError'' (''object of type '' @ repr_str (type_name v) @ '' has no len()'')))"

definition get_run :: "(string \<times> string) list \<Rightarrow> string \<Rightarrow> ('w, 'q) api \<Rightarrow> exn + pydict http" where
  "get_run runs r a = bindE (get_rec runs r a) (\<lambda>x. case x of
     None \<Rightarrow> Inr (not_found_run r)
   | Some rec \<Rightarrow> bindE (py_len (rc_samples rec)) (\<lambda>n. Inr (Reply (dset (public_dict rec) ''samples_count'' (PInt (int n))))))"

definition list_samples :: "(string \<times> string) list \<Rightarrow> string \<Rightarrow> ('w, 'q) api \<Rightarrow> exn + pydict http" where
  "list_samples runs r a = bindE (get_rec runs r a) (\<lambda>x. case x of
     None \<Rightarrow> Inr (not_found_run r)
   | Some rec \<Rightarrow> Inr (Reply [(''run_id'', PStr r), (''samples'', rc_samples rec)]))"

text \<open>\<open>str(Path(s))\<close>\<close>

definition path_str :: "string \<Rightarrow> string" where
  "path_str s =
     (let body = py_join ''/'' (filter (\<lambda>c. c \<noteq> [] \<and> c \<noteq> ''.'') (split_char (CHR ''/'') s));
          root = (if py_startswith s ''//'' \<and> \<not> py_startswith s ''///'' then ''//'' else if py_startswith s ''/'' then ''/'' else [])
      in if root @ body = [] then ''.'' else root @ body)"

definition given :: "string option \<Rightarrow> string option" where
  "given x = (case x of Some s \<Rightarrow> if s = [] then None else Some s | None \<Rightarrow> None)"

text \<open>
  \<open>GET /api/runs/{id}/samples/{sample_id}\<close>: the first entry of the record with that id, with what the manifest on
  disk says of it on top; \<open>disk\<close> is the text of a file. Every failure to read the manifest is dropped.
\<close>

fun first_sample :: "string \<Rightarrow> pyval list \<Rightarrow> exn + pydict option" where
  "first_sample sid [] = Inr None"
| "first_sample sid (s # ss) = bindE (attr_get s ''sample_id'') (\<lambda>v.
     if v = PStr sid then (case s of PDict d \<Rightarrow> Inr (Some d) | _ \<Rightarrow> Inr None) else first_sample sid ss)"

definition sample_on_disk :: "string \<Rightarrow> string \<Rightarrow> exn + pydict option" where
  "sample_on_disk sid txt = (case json_loads txt of
     None \<Rightarrow> Inl json_decode_error
   | Some m \<Rightarrow> bindE (attr_get_or m ''samples'' (PList [])) (\<lambda>v. bindE (py_iter v) (first_sample sid)))"

definition get_sample :: "(string \<Rightarrow> string option) \<Rightarrow> (string \<times> string) list \<Rightarrow> string \<Rightarrow> string \<Rightarrow> ('w, 'q) api \<Rightarrow> exn + pydict http" where
  "get_sample disk runs r sid a = bindE (get_rec runs r a) (\<lambda>x. case x of
     None \<Rightarrow> Inr (not_found_run r)
   | Some rec \<Rightarrow> bindE (bindE (py_iter (rc_samples rec)) (first_sample sid)) (\<lambda>y. case y of
       None \<Rightarrow> Inr (HttpError 404 (''sample not found: '' @ sid))
     | Some s \<Rightarrow> Inr (Reply (case disk (path_str (case given (rc_run_root rec) of Some root \<Rightarrow> root | None \<Rightarrow> ''runs/'' @ r) @ ''/RUN_MANIFEST.json'') of
           None \<Rightarrow> s
         | Some txt \<Rightarrow> (case sample_on_disk sid txt of Inr (Some d) \<Rightarrow> dmerge s d | _ \<Rightarrow> s)))))"

subsection \<open>Creating a run\<close>

record run_request =
  rq_task_path :: "string option"
  rq_prompt :: "string option"
  rq_input_path :: "string option"
  rq_repeat :: bool
  rq_max_samples :: "int option"
  rq_run_id :: "string option"
  rq_extract_fields :: "string option"
  rq_multi_item :: bool

text \<open>
  What a request finds: which paths exist and the text behind them, the YAML and workbook readers, the profile,
  two fresh identifiers, and the queue and files a workflow opens for a run id.
\<close>

record ('w, 'q) api_env =
  ae_file :: "string \<Rightarrow> string option"
  ae_yaml :: "string \<Rightarrow> exn + pyval"
  ae_openpyxl :: "(string \<Rightarrow> exn + pyval list list) option"
  ae_profile :: "exn + 'w run_env"
  ae_task_uuid :: string
  ae_run_uuid :: string
  ae_open :: "string \<Rightarrow> 'w runtime \<times> ('w, 'q) pool"

definition bindH :: "exn + 'a http \<Rightarrow> ('a \<Rightarrow> exn + 'b http) \<Rightarrow> exn + 'b http" where
  "bindH x f = bindE x (\<lambda>h. case h of HttpError c m \<Rightarrow> Inr (HttpError c m) | Reply a \<Rightarrow> f a)"

definition request_task :: "('w, 'q) api_env \<Rightarrow> run_request \<Rightarrow> exn + pyval http" where
  "request_task e q = (case given (rq_task_path q) of
     Some p \<Rightarrow> (case ae_file e (path_str p) of
         None \<Rightarrow> Inr (HttpError 400 (''task not found: '' @ path_str p))
       | Some txt \<Rightarrow> bindE (ae_yaml e txt) (\<lambda>v. Inr (Reply (or_empty v))))
   | None \<Rightarrow> (case given (rq_prompt q) of
         Some prompt \<Rightarrow> Inr (Reply (PDict [(''task_id'', PStr (''adhoc-'' @ take 6 (ae_task_uuid e))), (''task_name'', PStr ''Ad-hoc task''),
             (''prompt'', PStr prompt), (''extract_schema'', PDict (schema_from_fields (rq_extract_fields q) (rq_multi_item q)))]))
       | None \<Rightarrow> Inr (HttpError 400 (''either '' @ [CHR 0x60] @ ''task_path'' @ [CHR 0x60] @ '' or '' @ [CHR 0x60] @ ''prompt''
           @ [CHR 0x60] @ '' is required''))))"

definition request_rows :: "('w, 'q) api_env \<Rightarrow> run_request \<Rightarrow> pyval list http" where
  "request_rows e q = (case given (rq_input_path q) of
     Some p \<Rightarrow> (case ae_file e (path_str p) of
         None \<Rightarrow> HttpError 400 (''input not found: '' @ path_str p)
       | Some txt \<Rightarrow> (case load_inputs (ae_openpyxl e) (path_str p) (py_path_suffix (path_str p)) (Some txt) of
           Inl x \<Rightarrow> HttpError 400 (''input load failed: '' @ exn_msg x)
         | Inr rows \<Rightarrow> Reply rows))
   | None \<Rightarrow> if rq_repeat q then HttpError 400 ''repeat=true requires an input file'' else Reply [PDict []])"

definition new_rec :: "string \<Rightarrow> pydict \<Rightarrow> nat \<Rightarrow> run_rec" where
  "new_rec run_id task n = \<lparr> rc_run_id = PStr run_id, rc_task_id = dget task ''task_id'', rc_status = ''queued'',
     rc_total = PInt (int n), rc_passed = PInt 0, rc_failed = PInt 0, rc_run_root = None, rc_task = PDict task,
     rc_error = None, rc_samples = PList [], rc_awaits = False, rc_future = NotStarted \<rparr>"

text \<open>\<open>POST /api/runs\<close>; a task file that holds something else than a mapping raises.\<close>

definition create_run :: "('w, 'q) api_env \<Rightarrow> run_request \<Rightarrow> ('w, 'q) api \<Rightarrow> (exn + pydict http) \<times> ('w, 'q) api" where
  "create_run e q a =
     (case bindH (request_task e q) (\<lambda>task. bindH (Inr (request_rows e q)) (\<lambda>rows. bindE (ae_profile e) (\<lambda>re.
             bindE (attr_get task ''task_id'') (\<lambda>_. Inr (Reply (task, rows, re)))))) of
        Inl x \<Rightarrow> (Inl x, a)
      | Inr (HttpError c m) \<Rightarrow> (Inr (HttpError c m), a)
      | Inr (Reply (task, rows, re)) \<Rightarrow>
          (let run_id = (case given (rq_run_id q) of Some r \<Rightarrow> r | None \<Rightarrow> ''run-'' @ take 8 (ae_run_uuid e));
               d = (case task of PDict d \<Rightarrow> d | _ \<Rightarrow> []);
               rows = run_rows (rq_max_samples q) rows;
               (rt, pool) = ae_open e run_id;
               fl = \<lparr> fl_env = re, fl_rt = rt\<lparr> rt_run_id := run_id, rt_task := d \<rparr>, fl_rows = rows, fl_pool = pool \<rparr>
           in (Inr (Reply [(''run_id'', PStr run_id), (''status'', PStr ''queued'')]),
               register_run run_id (new_rec run_id d (length rows)) fl a)))"

subsection \<open>The driver and the finalizer\<close>

text \<open>\<open>_drive\<close>: it starts, and it ends with what \<open>execute\<close> returned or raised.\<close>

definition drive_begin :: "nat \<Rightarrow> ('w, 'q) api \<Rightarrow> ('w, 'q) api" where
  "drive_begin n a = set_rec n ((ap_recs a n)\<lparr> rc_status := ''running'', rc_future := Driving \<rparr>) a"

definition set_totals :: "run_result \<Rightarrow> string \<Rightarrow> run_rec \<Rightarrow> run_rec" where
  "set_totals res root rec = rec\<lparr> rc_status := ''completed'', rc_total := PInt (int (rr_total res)),
     rc_passed := PInt (int (rr_passed res)), rc_failed := PInt (int (rr_failed res)), rc_run_root := Some root \<rparr>"

definition run_root :: "('w, 'q) flow \<Rightarrow> string" where
  "run_root fl = path_str (''runs/'' @ rt_run_id (fl_rt fl))"

definition drive_end :: "nat \<Rightarrow> exn + run_result \<Rightarrow> ('w, 'q) pool \<Rightarrow> ('w, 'q) api \<Rightarrow> ('w, 'q) api" where
  "drive_end n r pool a =
     (let fl = (ap_flow a n)\<lparr> fl_pool := pool \<rparr>; rec = (ap_recs a n)\<lparr> rc_future := Driven \<rparr>; a = a\<lparr> ap_flow := (ap_flow a)(n := fl) \<rparr> in
      set_rec n (case r of
          Inl x \<Rightarrow> rec\<lparr> rc_status := ''failed'', rc_error := Some (exn_text x) \<rparr>
        | Inr res \<Rightarrow> if re_distributed (fl_env fl) then rec\<lparr> rc_awaits := True, rc_run_root := Some (run_root fl) \<rparr>
                     else set_totals res (run_root fl) rec) a)"

definition drive :: "'q queue_ops \<Rightarrow> (nat \<Rightarrow> qenv) \<Rightarrow> nat list list \<Rightarrow> nat \<Rightarrow> ('w, 'q) api \<Rightarrow> ('w, 'q) api option" where
  "drive ops env schedules n a =
     (let a = drive_begin n a; fl = ap_flow a n in
      case execute ops env (fl_env fl) (fl_rt fl) False (fl_rows fl) schedules (fl_pool fl) of
        None \<Rightarrow> None
      | Some (r, pool) \<Rightarrow> Some (drive_end n r pool a))"

text \<open>One run of a tick of the finalizer; an exception is logged and the run stays for the next tick.\<close>

definition finalizer_visit :: "'q queue_ops \<Rightarrow> nat \<Rightarrow> ('w, 'q) api \<Rightarrow> ('w, 'q) api" where
  "finalizer_visit ops n a =
     (let fl = ap_flow a n; pool = fl_pool fl in
      if \<not> queue_drained ops (po_queue pool) then a
      else (case finalize (fl_env fl) (fl_rt fl) (po_proc pool) of
          (r, p) \<Rightarrow> (let a = a\<lparr> ap_flow := (ap_flow a)(n := fl\<lparr> fl_pool := pool\<lparr> po_proc := p \<rparr> \<rparr>) \<rparr> in
            case r of
              Inl x \<Rightarrow> a
            | Inr res \<Rightarrow> mark_finalized (rc_run_id (ap_recs a n)) (set_rec n (set_totals res (run_root fl) (ap_recs a n)) a))))"

definition finalizer_tick :: "'q queue_ops \<Rightarrow> ('w, 'q) api \<Rightarrow> ('w, 'q) api" where
  "finalizer_tick ops a = fold (finalizer_visit ops) (pending_finalization a) a"

text \<open>
  The life of the server: requests, drivers and ticks in any order, while agents change queues and files of the
  runs (\<open>step_agents\<close>). A tick is one step, so no request for the same run id comes in the middle of one.
\<close>

inductive api_step :: "'q queue_ops \<Rightarrow> ('w, 'q) api \<Rightarrow> ('w, 'q) api \<Rightarrow> bool" for ops where
  step_create: "create_run e q a = (r, a') \<Longrightarrow> api_step ops a a'"
| step_begin: "n < ap_next a \<Longrightarrow> rc_future (ap_recs a n) = NotStarted \<Longrightarrow> api_step ops a (drive_begin n a)"
| step_end: "n < ap_next a \<Longrightarrow> rc_future (ap_recs a n) = Driving \<Longrightarrow> api_step ops a (drive_end n r pool a)"
| step_tick: "api_step ops a (finalizer_tick ops a)"
| step_agents: "api_step ops a (a\<lparr> ap_flow := (ap_flow a)(n := (ap_flow a n)\<lparr> fl_pool := pool \<rparr>) \<rparr>)"

inductive_cases api_stepE: "api_step ops a a'"

section \<open>Lemmas\<close>

subsection \<open>Finalizing logs once\<close>

lemma log_run_event_audit:
  assumes "log_run_event rt kind payload p = (r, p')"
  shows "case r of Inl e \<Rightarrow> p' = p | Inr _ \<Rightarrow> \<exists>row. p' = p\<lparr> px_audit := px_audit p @ [row] \<rparr> \<and> a_kind row = kind"
  using assms by (auto simp: log_run_event_def Let_def audit_append_def make_row_def split: sum.splits if_splits option.splits)

lemma set_progress_audit [simp]: "px_audit (set_progress pr p) = px_audit p"
  by (simp add: set_progress_def)

lemma finalize_audit:
  assumes "finalize re rt p = (r, p')"
  shows "case r of Inl e \<Rightarrow> px_audit p' = px_audit p
    | Inr res \<Rightarrow> \<exists>row. px_audit p' = px_audit p @ [row] \<and> a_kind row = ''run.completed''"
proof (cases "load_completed (snd (px_record p)) progress_empty")
  case (Inl e)
  with assms show ?thesis by (auto simp: finalize_def Let_def)
next
  case (Inr pr)
  show ?thesis
  proof (cases "samples_summary (snd (px_record p))")
    case (Inl e)
    with assms Inr show ?thesis by (auto simp: finalize_def Let_def)
  next
    case ss: (Inr summaries)
    show ?thesis
    proof (cases "rebuild_csv summaries")
      case (Inl e)
      with assms Inr ss show ?thesis by (auto simp: finalize_def Let_def)
    next
      case csv: (Inr csv)
      let ?p = "on_world (write_file (re_disk re) ''output.csv'' csv) (set_progress pr (set_progress progress_empty p))"
      let ?pl = "[(''passed'', PInt (int (pr_passed pr))), (''failed'', PInt (int (pr_failed pr))), (''total'', PInt (int (pr_total pr)))]"
      obtain lr p1 where l: "log_run_event rt ''run.completed'' ?pl ?p = (lr, p1)" by fastforce
      have a: "px_audit ?p = px_audit p" by simp
      show ?thesis
      proof (cases lr)
        case (Inl e)
        with log_run_event_audit [OF l] assms Inr ss csv l show ?thesis by (auto simp: finalize_def Let_def bindA_def)
      next
        case ok: (Inr u)
        with log_run_event_audit [OF l] obtain row where "p1 = ?p\<lparr> px_audit := px_audit ?p @ [row] \<rparr>" "a_kind row = ''run.completed''" by auto
        then have "px_audit p1 = px_audit p @ [row]" "a_kind row = ''run.completed''" by (simp_all add: a)
        with assms Inr ss csv l ok show ?thesis by (auto simp: finalize_def Let_def bindA_def)
      qed
    qed
  qed
qed

subsection \<open>The registry\<close>

definition rec_ok :: "run_rec \<Rightarrow> bool" where
  "rec_ok r \<longleftrightarrow> rc_samples r = PList [] \<and> (case rc_future r of
     NotStarted \<Rightarrow> rc_status r = ''queued'' \<and> \<not> rc_awaits r
   | Driving \<Rightarrow> rc_status r = ''running'' \<and> \<not> rc_awaits r
   | Driven \<Rightarrow> if rc_awaits r then rc_status r = ''running'' else rc_status r \<in> {''completed'', ''failed''})"

definition api_ok :: "('w, 'q) api \<Rightarrow> bool" where
  "api_ok a \<longleftrightarrow> distinct (map fst (ap_registry a))
     \<and> (\<forall>(r, n)\<in>set (ap_registry a). n < ap_next a \<and> rc_run_id (ap_recs a n) = PStr r)
     \<and> (\<forall>n<ap_next a. rec_ok (ap_recs a n))"

definition registered :: "nat \<Rightarrow> ('w, 'q) api \<Rightarrow> bool" where
  "registered n a \<longleftrightarrow> n \<in> set (map snd (ap_registry a))"

lemma registered_unique:
  assumes "api_ok a" shows "distinct (map snd (ap_registry a))"
proof -
  have "inj_on snd (set (ap_registry a))"
  proof (rule inj_onI)
    fix x y
    assume m: "x \<in> set (ap_registry a)" "y \<in> set (ap_registry a)" "snd x = snd y"
    then have "rc_run_id (ap_recs a (snd x)) = PStr (fst x)" "rc_run_id (ap_recs a (snd y)) = PStr (fst y)"
      using assms by (auto simp: api_ok_def)
    with m(3) show "x = y" by (simp add: prod_eq_iff)
  qed
  moreover have "distinct (ap_registry a)" using assms by (simp add: api_ok_def distinct_map)
  ultimately show ?thesis by (simp add: distinct_map)
qed

lemma registered_lookup:
  assumes "api_ok a" "registered n a"
  shows "\<exists>r. rc_run_id (ap_recs a n) = PStr r \<and> map_of (ap_registry a) r = Some n"
  using assms by (fastforce simp: registered_def api_ok_def)

text \<open>What a visit makes of the record and the workflow of its run.\<close>

definition visited :: "'q queue_ops \<Rightarrow> run_rec \<times> ('w, 'q) flow \<Rightarrow> run_rec \<times> ('w, 'q) flow" where
  "visited ops x = (case x of (rec, fl) \<Rightarrow>
     if \<not> queue_drained ops (po_queue (fl_pool fl)) then x
     else (case finalize (fl_env fl) (fl_rt fl) (po_proc (fl_pool fl)) of
         (r, p) \<Rightarrow> ((case r of Inl e \<Rightarrow> rec | Inr res \<Rightarrow> (set_totals res (run_root fl) rec)\<lparr> rc_awaits := False \<rparr>),
                    fl\<lparr> fl_pool := (fl_pool fl)\<lparr> po_proc := p \<rparr> \<rparr>)))"

lemma set_totals_simps [simp]: "rc_run_id (set_totals res root rec) = rc_run_id rec" "rc_samples (set_totals res root rec) = rc_samples rec"
  "rc_future (set_totals res root rec) = rc_future rec" "rc_status (set_totals res root rec) = ''completed''"
  by (simp_all add: set_totals_def)

lemma visit_effect:
  assumes "api_ok a" "registered n a"
  shows "ap_registry (finalizer_visit ops n a) = ap_registry a" "ap_next (finalizer_visit ops n a) = ap_next a"
    and "m \<noteq> n \<Longrightarrow> ap_recs (finalizer_visit ops n a) m = ap_recs a m" "m \<noteq> n \<Longrightarrow> ap_flow (finalizer_visit ops n a) m = ap_flow a m"
    and "(ap_recs (finalizer_visit ops n a) n, ap_flow (finalizer_visit ops n a) n) = visited ops (ap_recs a n, ap_flow a n)"
  using registered_lookup [OF assms]
  by (auto simp: finalizer_visit_def visited_def Let_def mark_finalized_def set_rec_def split: prod.splits sum.splits)

lemma visited_ok: "rec_ok rec \<Longrightarrow> rc_awaits rec \<Longrightarrow> visited ops (rec, fl) = (rec', fl') \<Longrightarrow> rec_ok rec' \<and> rc_run_id rec' = rc_run_id rec"
  by (auto simp: visited_def rec_ok_def split: prod.splits sum.splits if_splits drive_pos.splits)

lemma visit_ok:
  assumes "api_ok a" "registered n a" "rc_awaits (ap_recs a n)"
  shows "api_ok (finalizer_visit ops n a)"
proof -
  note v = visit_effect [OF assms(1,2), where ops = ops]
  obtain rec' fl' where x: "visited ops (ap_recs a n, ap_flow a n) = (rec', fl')" by fastforce
  have "n < ap_next a" using assms(1,2) by (auto simp: api_ok_def registered_def)
  then have "rec_ok rec' \<and> rc_run_id rec' = rc_run_id (ap_recs a n)"
    using visited_ok [OF _ assms(3) x] assms(1) by (simp add: api_ok_def)
  moreover have "ap_recs (finalizer_visit ops n a) n = rec'" using v(5) x by simp
  ultimately have "rec_ok (ap_recs (finalizer_visit ops n a) m) \<and> rc_run_id (ap_recs (finalizer_visit ops n a) m) = rc_run_id (ap_recs a m)"
    if "m < ap_next a" for m using that v(3) [of m] assms(1) by (cases "m = n") (auto simp: api_ok_def)
  then show ?thesis using assms(1) v(1,2) by (auto simp: api_ok_def)
qed

lemma visits_effect:
  "api_ok a \<Longrightarrow> distinct ns \<Longrightarrow> \<forall>n\<in>set ns. registered n a \<and> rc_awaits (ap_recs a n) \<Longrightarrow>
   (let b = fold (finalizer_visit ops) ns a in api_ok b \<and> ap_registry b = ap_registry a \<and> ap_next b = ap_next a
     \<and> (\<forall>m. (ap_recs b m, ap_flow b m) = (if m \<in> set ns then visited ops (ap_recs a m, ap_flow a m) else (ap_recs a m, ap_flow a m))))"
proof (induction ns arbitrary: a)
  case (Cons n ns)
  let ?b = "finalizer_visit ops n a"
  have n: "registered n a" "rc_awaits (ap_recs a n)" "n \<notin> set ns" using Cons.prems by auto
  note v = visit_effect [OF Cons.prems(1) n(1), where ops = ops]
  have "\<forall>k\<in>set ns. registered k ?b \<and> rc_awaits (ap_recs ?b k)"
    using Cons.prems(3) n(3) v(1,3) by (metis list.set_intros(2) registered_def)
  from Cons.IH [OF visit_ok [OF Cons.prems(1) n(1,2)] _ this] Cons.prems(2)
  have ih: "api_ok (fold (finalizer_visit ops) ns ?b)" "ap_registry (fold (finalizer_visit ops) ns ?b) = ap_registry ?b"
    "ap_next (fold (finalizer_visit ops) ns ?b) = ap_next ?b"
    "\<And>m. (ap_recs (fold (finalizer_visit ops) ns ?b) m, ap_flow (fold (finalizer_visit ops) ns ?b) m) =
       (if m \<in> set ns then visited ops (ap_recs ?b m, ap_flow ?b m) else (ap_recs ?b m, ap_flow ?b m))"
    by (simp_all add: Let_def)
  have "(ap_recs (fold (finalizer_visit ops) ns ?b) m, ap_flow (fold (finalizer_visit ops) ns ?b) m) =
       (if m \<in> set (n # ns) then visited ops (ap_recs a m, ap_flow a m) else (ap_recs a m, ap_flow a m))" for m
    using ih(4) [of m] v(3,4) [of m] v(5) n(3) by (cases "m = n") simp_all
  with ih(1-3) v(1,2) show ?case by (simp add: Let_def)
qed simp

lemma tick_effect:
  assumes "api_ok a"
  shows "api_ok (finalizer_tick ops a)" "ap_next (finalizer_tick ops a) = ap_next a" "ap_registry (finalizer_tick ops a) = ap_registry a"
    and "(ap_recs (finalizer_tick ops a) m, ap_flow (finalizer_tick ops a) m) =
      (if registered m a \<and> rc_awaits (ap_recs a m) then visited ops (ap_recs a m, ap_flow a m) else (ap_recs a m, ap_flow a m))"
proof -
  have "distinct (pending_finalization a)" using registered_unique [OF assms] by (simp add: pending_finalization_def)
  moreover have p: "set (pending_finalization a) = {n. registered n a \<and> rc_awaits (ap_recs a n)}"
    by (auto simp: pending_finalization_def registered_def)
  ultimately show "api_ok (finalizer_tick ops a)" "ap_next (finalizer_tick ops a) = ap_next a" "ap_registry (finalizer_tick ops a) = ap_registry a"
    "(ap_recs (finalizer_tick ops a) m, ap_flow (finalizer_tick ops a) m) =
      (if registered m a \<and> rc_awaits (ap_recs a m) then visited ops (ap_recs a m, ap_flow a m) else (ap_recs a m, ap_flow a m))"
    using visits_effect [OF assms, of "pending_finalization a" ops] by (simp_all add: Let_def finalizer_tick_def)
qed

subsection \<open>Every step keeps the records in order\<close>

definition status_rank :: "string \<Rightarrow> nat" where
  "status_rank s = (if s = ''queued'' then 0 else if s = ''running'' then 1 else 2)"

text \<open>From a record to a later one: the status never goes back, and a finished record stays as it is.\<close>

definition moves_forward :: "run_rec \<Rightarrow> run_rec \<Rightarrow> bool" where
  "moves_forward r r' \<longleftrightarrow> status_rank (rc_status r) \<le> status_rank (rc_status r')
     \<and> (status_rank (rc_status r) = 2 \<longrightarrow> r' = r) \<and> rc_run_id r' = rc_run_id r"

lemma moves_forward_trans: "moves_forward r r' \<Longrightarrow> moves_forward r' r'' \<Longrightarrow> moves_forward r r''"
  by (auto simp: moves_forward_def intro: le_trans)

lemma moves_forward_refl [simp]: "moves_forward r r"
  by (simp add: moves_forward_def)

lemma visited_forward: "rec_ok rec \<Longrightarrow> rc_awaits rec \<Longrightarrow> visited ops (rec, fl) = (rec', fl') \<Longrightarrow> moves_forward rec rec'"
  by (auto simp: visited_def rec_ok_def moves_forward_def status_rank_def split: prod.splits sum.splits if_splits drive_pos.splits)

lemma register_ok:
  assumes "api_ok a" "rec_ok rec" "rc_run_id rec = PStr r"
  shows "api_ok (register_run r rec fl a)"
proof -
  have k: "(r' = r \<and> n = ap_next a) \<or> (r', n) \<in> set (ap_registry a)"
    if m: "(r', n) \<in> set (AList.update r (ap_next a) (ap_registry a))" for r' n
  proof -
    have "distinct (map fst (AList.update r (ap_next a) (ap_registry a)))" using assms(1) by (simp add: api_ok_def distinct_update)
    then have "map_of (AList.update r (ap_next a) (ap_registry a)) r' = Some n" using m by (rule map_of_is_SomeI)
    then show ?thesis by (auto simp: update_conv split: if_split_asm dest: map_of_SomeD)
  qed
  have "distinct (map fst (AList.update r (ap_next a) (ap_registry a)))" using assms(1) by (simp add: api_ok_def distinct_update)
  moreover have "n < Suc (ap_next a) \<and> rc_run_id (((ap_recs a)(ap_next a := rec)) n) = PStr r'"
    if "(r', n) \<in> set (AList.update r (ap_next a) (ap_registry a))" for r' n
    using k [OF that] assms(1,3) by (auto simp: api_ok_def)
  moreover have "rec_ok (((ap_recs a)(ap_next a := rec)) n)" if "n < Suc (ap_next a)" for n
    using that assms(1,2) by (auto simp: api_ok_def less_Suc_eq)
  ultimately show ?thesis unfolding api_ok_def register_run_def Let_def by (auto simp del: fun_upd_apply)
qed

lemma set_rec_ok:
  assumes "api_ok a" "n < ap_next a" "rec_ok rec" "rc_run_id rec = rc_run_id (ap_recs a n)"
  shows "api_ok (set_rec n rec a)"
  using assms by (auto simp: api_ok_def set_rec_def)

lemma create_effect:
  assumes "create_run e q a = (r, a')"
  shows "a' = a \<or> (\<exists>run d k fl. a' = register_run run (new_rec run d k) fl a)"
  using assms by (auto simp: create_run_def Let_def split: sum.splits http.splits prod.splits)

lemma api_step_ok:
  assumes "api_step ops a a'" "api_ok a"
  shows "api_ok a' \<and> ap_next a \<le> ap_next a' \<and> (\<forall>n<ap_next a. moves_forward (ap_recs a n) (ap_recs a' n))"
  using assms(1)
proof (cases rule: api_step.cases)
  case (step_create e q r)
  from create_effect [OF this] show ?thesis
  proof
    assume "a' = a"
    with assms(2) show ?thesis by simp
  next
    assume "\<exists>run d k fl. a' = register_run run (new_rec run d k) fl a"
    then obtain run d k fl where a': "a' = register_run run (new_rec run d k) fl a" by blast
    have "rec_ok (new_rec run d k)" "rc_run_id (new_rec run d k) = PStr run" by (simp_all add: rec_ok_def new_rec_def)
    from register_ok [OF assms(2) this] show ?thesis unfolding a' by (simp add: register_run_def Let_def)
  qed
next
  case (step_begin n)
  then have "rc_status (ap_recs a n) = ''queued''" "rec_ok ((ap_recs a n)\<lparr> rc_status := ''running'', rc_future := Driving \<rparr>)"
    using assms(2) by (auto simp: api_ok_def rec_ok_def)
  with set_rec_ok [OF assms(2) step_begin(2)] step_begin show ?thesis
    by (auto simp: drive_begin_def set_rec_def moves_forward_def status_rank_def)
next
  case (step_end n r pool)
  then have st: "rc_status (ap_recs a n) = ''running''" "rc_samples (ap_recs a n) = PList []" "\<not> rc_awaits (ap_recs a n)"
    using assms(2) by (auto simp: api_ok_def rec_ok_def)
  let ?a = "a\<lparr> ap_flow := (ap_flow a)(n := (ap_flow a n)\<lparr> fl_pool := pool \<rparr>) \<rparr>"
  let ?root = "run_root ((ap_flow a n)\<lparr> fl_pool := pool \<rparr>)" and ?d = "(ap_recs a n)\<lparr> rc_future := Driven \<rparr>"
  define rec where "rec = (case r of
      Inl x \<Rightarrow> ?d\<lparr> rc_status := ''failed'', rc_error := Some (exn_text x) \<rparr>
    | Inr res \<Rightarrow> if re_distributed (fl_env (ap_flow a n)) then ?d\<lparr> rc_awaits := True, rc_run_root := Some ?root \<rparr>
        else set_totals res ?root ?d)"
  have a': "a' = set_rec n rec ?a" using step_end(1) by (simp add: drive_end_def Let_def rec_def split: sum.split)
  have rec: "rec_ok rec" "rc_run_id rec = rc_run_id (ap_recs a n)" "status_rank (rc_status rec) \<ge> 1"
    using st by (auto simp: rec_def rec_ok_def status_rank_def set_totals_def split: sum.split)
  have "api_ok ?a" using assms(2) by (simp add: api_ok_def)
  from set_rec_ok [OF this] rec step_end(2) a' st(1) show ?thesis
    by (auto simp: set_rec_def moves_forward_def status_rank_def)
next
  case step_tick
  have "moves_forward (ap_recs a n) (ap_recs a' n)" if "n < ap_next a" for n
  proof (cases "registered n a \<and> rc_awaits (ap_recs a n)")
    case True
    obtain rec fl where v: "visited ops (ap_recs a n, ap_flow a n) = (rec, fl)" by fastforce
    have "rec_ok (ap_recs a n)" using assms(2) that by (simp add: api_ok_def)
    from visited_forward [OF this _ v] True tick_effect(4) [OF assms(2), of ops n] v step_tick show ?thesis by simp
  next
    case False
    with tick_effect(4) [OF assms(2), of ops n] step_tick have "ap_recs a' n = ap_recs a n" by simp
    then show ?thesis by simp
  qed
  with tick_effect [OF assms(2), of ops] step_tick show ?thesis by simp
next
  case (step_agents n pool)
  with assms(2) show ?thesis by (simp add: api_ok_def)
qed

lemma api_steps_ok:
  assumes "(api_step ops)\<^sup>*\<^sup>* a a'" "api_ok a"
  shows "api_ok a' \<and> ap_next a \<le> ap_next a' \<and> (\<forall>n<ap_next a. moves_forward (ap_recs a n) (ap_recs a' n))"
  using assms(1)
proof (induction rule: rtranclp_induct)
  case base
  with assms(2) show ?case by simp
next
  case (step b c)
  from api_step_ok [OF step.hyps(2)] step.IH show ?case by (meson le_trans less_le_trans moves_forward_trans)
qed

lemma api_start_ok: "ap_next a = 0 \<Longrightarrow> ap_registry a = [] \<Longrightarrow> api_ok a"
  by (simp add: api_ok_def)

subsection \<open>Reading a finished run back\<close>

lemma fs_read_written: "fs_read (fs_write p c f) p = Some c"
  by (simp add: fs_read_def fs_write_def fs_inode_def map_add_def split: option.split)

lemma hydrate_manifest:
  assumes "wf_manifest_args task samples pe"
  shows "\<exists>rec. hydrate name (dumps_indent (PDict (dset (manifest_body sha now run task samples root pe f) ''manifest_hash'' (PStr h)))) = Inr rec
    \<and> rc_run_id rec = PStr run \<and> rc_status rec = ''completed'' \<and> rc_task_id rec = dget task ''task_id''
    \<and> rc_total rec = PInt (int (length samples)) \<and> rc_passed rec = PInt (int (length (filter passed samples)))
    \<and> rc_failed rec = PInt (int (length (filter (\<lambda>s. \<not> passed s) samples))) \<and> rc_samples rec = PList (map PDict samples)
    \<and> rc_run_root rec = Some (''runs/'' @ name)"
proof -
  let ?m = "manifest_body sha now run task samples root pe f"
  let ?d = "?m @ [(''manifest_hash'', PStr h)]"
  have g: "dget ?d ''totals'' = PDict [(''samples'', PInt (int (length samples))),
        (''passed'', PInt (int (length (filter passed samples)))), (''failed'', PInt (int (length (filter (\<lambda>s. \<not> passed s) samples)))),
        (''artifacts'', PInt (int (length (map (artifact_entry sha f) (blob_paths f)))))]"
    "dget_or ?d ''run_id'' (PStr name) = PStr run"
    "dget ?d ''task'' = PDict [(''task_id'', dget task ''task_id''), (''task_name'', dget task ''task_name''),
        (''prompt'', dget task ''prompt''), (''extract_schema'', dget task ''extract_schema'')]"
    "dget_or ?d ''samples'' (PList []) = PList (map PDict samples)"
    by (simp_all add: manifest_body_def Let_def dget_def dget_or_def)
  show ?thesis
    by (simp add: hydrate_def manifest_reread(1) [OF assms refl] attr_get_def attr_get_or_def g or_empty_def)
      (simp add: dget_def dget_or_def)
qed

lemma update_same: "map_of d k = Some v \<Longrightarrow> AList.update k v d = d"
  by (induction d) (auto split: if_split_asm)

lemma dmerge_same: "(\<And>k v. (k, v) \<in> set e \<Longrightarrow> map_of d k = Some v) \<Longrightarrow> dmerge d e = d"
  unfolding dmerge_def by (induction e) (auto simp: dset_def update_same)

lemma dmerge_self: "wf_pyval (PDict d) \<Longrightarrow> dmerge d d = d"
  by (rule dmerge_same) simp

lemma first_sample_find: "first_sample sid (map PDict ss) = Inr (find (\<lambda>s. dget s ''sample_id'' = PStr sid) ss)"
  by (induction ss) (simp_all add: attr_get_def)

lemma sample_on_disk_manifest:
  assumes "wf_manifest_args task samples pe"
  shows "sample_on_disk sid (dumps_indent (PDict (dset (manifest_body sha now run task samples root pe f) ''manifest_hash'' (PStr h))))
    = Inr (find (\<lambda>s. dget s ''sample_id'' = PStr sid) samples)"
proof -
  have "dget_or (manifest_body sha now run task samples root pe f @ [(''manifest_hash'', PStr h)]) ''samples'' (PList []) = PList (map PDict samples)"
    by (simp add: manifest_body_def Let_def dget_or_def)
  then show ?thesis
    by (simp add: sample_on_disk_def manifest_reread(1) [OF assms refl] attr_get_or_def first_sample_find py_iter_def)
qed

section \<open>Properties\<close>

text \<open>
  C24: the status of a run only moves forward. Whatever requests, drivers, finalizer ticks and agents do, in any
  order, a run the API has created is queued, running, completed or failed, never goes back to an earlier of
  these, and once completed or failed its record never changes again. It also never lists a sample: the samples
  of a run are shown only once the record is read back from disk.
\<close>

theorem run_status_moves_forward:
  assumes "ap_next a0 = 0" "ap_registry a0 = []" "(api_step ops)\<^sup>*\<^sup>* a0 a" "(api_step ops)\<^sup>*\<^sup>* a a'" "n < ap_next a"
  shows "rc_status (ap_recs a n) \<in> {''queued'', ''running'', ''completed'', ''failed''}
    \<and> status_rank (rc_status (ap_recs a n)) \<le> status_rank (rc_status (ap_recs a' n))
    \<and> (rc_status (ap_recs a n) \<in> {''completed'', ''failed''} \<longrightarrow> ap_recs a' n = ap_recs a n)
    \<and> (\<forall>runs r. map_of (ap_registry a) r = Some n \<longrightarrow>
        (\<exists>d. get_run runs r a = Inr (Reply d) \<and> dget d ''samples_count'' = PInt 0))"
proof -
  have ok: "api_ok a" using api_steps_ok [OF assms(3) api_start_ok [OF assms(1,2)]] by blast
  then have r: "rec_ok (ap_recs a n)" using assms(5) by (simp add: api_ok_def)
  have "moves_forward (ap_recs a n) (ap_recs a' n)" using api_steps_ok [OF assms(4) ok] assms(5) by blast
  moreover have "rc_status (ap_recs a n) \<in> {''queued'', ''running'', ''completed'', ''failed''}"
    using r by (auto simp: rec_ok_def split: drive_pos.splits if_splits)
  moreover have "get_run runs x a = Inr (Reply (dset (public_dict (ap_recs a n)) ''samples_count'' (PInt 0)))"
    if "map_of (ap_registry a) x = Some n" for runs x
    using that r by (simp add: get_run_def get_rec_def rec_ok_def py_len_def)
  ultimately show ?thesis by (auto simp: moves_forward_def status_rank_def)
qed

definition demo_api_env :: "(unit, queue_table) api_env" where
  "demo_api_env = \<lparr> ae_file = (\<lambda>_. None), ae_yaml = (\<lambda>_. Inr PNone), ae_openpyxl = None,
     ae_profile = Inr (demo_re\<lparr> re_distributed := True \<rparr>), ae_task_uuid = ''0a1b2c3d'', ae_run_uuid = ''4e5f6a7b'',
     ae_open = (\<lambda>_. (demo_rt, new_pool demo_proc [])) \<rparr>"

definition demo_request :: run_request where
  "demo_request = \<lparr> rq_task_path = None, rq_prompt = Some ''look'', rq_input_path = None, rq_repeat = False,
     rq_max_samples = None, rq_run_id = Some ''r1'', rq_extract_fields = None, rq_multi_item = False \<rparr>"

lemma demo_create:
  assumes "a = snd (create_run demo_api_env demo_request a0)"
  shows "ap_next a = Suc (ap_next a0)" "ap_registry a = AList.update ''r1'' (ap_next a0) (ap_registry a0)"
    and "rc_future (ap_recs a (ap_next a0)) = NotStarted" "fl_env (ap_flow a (ap_next a0)) = demo_re\<lparr> re_distributed := True \<rparr>"
    and "api_step ops a0 a"
proof -
  show "ap_next a = Suc (ap_next a0)" "ap_registry a = AList.update ''r1'' (ap_next a0) (ap_registry a0)"
    "rc_future (ap_recs a (ap_next a0)) = NotStarted" "fl_env (ap_flow a (ap_next a0)) = demo_re\<lparr> re_distributed := True \<rparr>"
    unfolding assms by (simp_all add: create_run_def demo_request_def demo_api_env_def request_task_def request_rows_def given_def
      bindH_def attr_get_def register_run_def new_rec_def Let_def)
  show "api_step ops a0 a" using assms by (intro step_create [of demo_api_env demo_request a0 "fst (create_run demo_api_env demo_request a0)"]) simp
qed

definition demo_api :: "(unit, queue_table) api" where
  "demo_api = \<lparr> ap_recs = (\<lambda>_. new_rec ''x'' [] 0), ap_next = 0, ap_registry = [],
     ap_flow = (\<lambda>_. \<lparr> fl_env = demo_re, fl_rt = demo_rt, fl_rows = [], fl_pool = new_pool demo_proc [] \<rparr>) \<rparr>"

theorem run_status_moves_forward_witness:
  "rc_status (ap_recs (snd (create_run demo_api_env demo_request demo_api)) 0) \<in> {''queued'', ''running'', ''completed'', ''failed''}"
proof -
  let ?a = "snd (create_run demo_api_env demo_request demo_api)"
  have z: "ap_next demo_api = 0" "ap_registry demo_api = []" by (simp_all add: demo_api_def)
  have "(api_step (sql_ops 3))\<^sup>*\<^sup>* demo_api ?a" "0 < ap_next ?a" using demo_create [OF refl, where ?a0.0 = demo_api] by auto
  from run_status_moves_forward [OF z this(1) rtranclp.rtrancl_refl this(2)] show ?thesis by blast
qed


text \<open>A distributed run whose rows were all handed over: the finalizer is waiting for it.\<close>

definition demo_awaiting :: "(unit, queue_table) api" where
  "demo_awaiting = drive_end 0 (Inr \<lparr>rr_total = 0, rr_passed = 0, rr_failed = 0, rr_extracted = [], rr_csv = None, rr_manifest = None\<rparr>)
     (new_pool demo_proc []) (drive_begin 0 (snd (create_run demo_api_env demo_request demo_api)))"

lemma demo_awaiting_steps: "(api_step (sql_ops 3))\<^sup>*\<^sup>* demo_api demo_awaiting"
  and demo_awaiting_run: "registered 0 demo_awaiting" "rc_awaits (ap_recs demo_awaiting 0)"
    "fl_pool (ap_flow demo_awaiting 0) = new_pool demo_proc []"
proof -
  let ?a = "snd (create_run demo_api_env demo_request demo_api)"
  have z: "ap_next demo_api = 0" "ap_registry demo_api = []" by (simp_all add: demo_api_def)
  note c = demo_create [OF refl, where ?a0.0 = demo_api, unfolded z]
  have "api_step (sql_ops 3) ?a (drive_begin 0 ?a)" using c(1,3) by (intro step_begin) simp_all
  moreover have "api_step (sql_ops 3) (drive_begin 0 ?a) demo_awaiting" unfolding demo_awaiting_def
    using c(1) by (intro step_end) (simp_all add: drive_begin_def set_rec_def)
  ultimately show "(api_step (sql_ops 3))\<^sup>*\<^sup>* demo_api demo_awaiting" using c(5) [where ops = "sql_ops 3"] by (meson converse_rtranclp_into_rtranclp r_into_rtranclp)
  show "registered 0 demo_awaiting" "rc_awaits (ap_recs demo_awaiting 0)" "fl_pool (ap_flow demo_awaiting 0) = new_pool demo_proc []"
    using c(2,4) by (simp_all add: demo_awaiting_def drive_end_def drive_begin_def set_rec_def registered_def Let_def)
qed


text \<open>
  C27: a finished run survives the server. The manifest a run leaves behind is read back, by a server that does not
  know the run, as a completed run with the same id, task, samples and totals, those of the manifest; asked for one
  sample, it answers the first with that id, or 404.
\<close>

theorem finished_run_reads_back:
  assumes "wf_manifest_args task samples pe" "g = write_manifest sha now run task samples root pe f"
    and "fs_read g manifest_path = Some txt" "map_of runs name = Some txt" "map_of (ap_registry a) name = None"
  shows "\<exists>d. get_run runs name a = Inr (Reply d) \<and> dget d ''run_id'' = PStr run \<and> dget d ''status'' = PStr ''completed''
    \<and> dget d ''task_id'' = dget task ''task_id'' \<and> dget d ''samples_count'' = PInt (int (length samples))
    \<and> dget d ''total'' = PInt (int (length samples)) \<and> dget d ''passed'' = PInt (int (length (filter passed samples)))
    \<and> dget d ''failed'' = PInt (int (length (filter (\<lambda>s. \<not> passed s) samples)))
    \<and> list_samples runs name a = Inr (Reply [(''run_id'', PStr name), (''samples'', PList (map PDict samples))])
    \<and> (disk (path_str (''runs/'' @ name) @ ''/RUN_MANIFEST.json'') = Some txt \<longrightarrow> (\<forall>sid. get_sample disk runs name sid a =
        Inr (case find (\<lambda>s. dget s ''sample_id'' = PStr sid) samples of
            Some s \<Rightarrow> Reply s | None \<Rightarrow> HttpError 404 (''sample not found: '' @ sid))))"
proof -
  have text_eq: "txt = dumps_indent (PDict (dset (manifest_body sha now run task samples root pe f) ''manifest_hash''
      (PStr (manifest_digest sha (manifest_body sha now run task samples root pe f)))))"
    using assms(2,3) by (simp add: write_manifest_def Let_def fs_read_written)
  obtain rec where h: "hydrate name txt = Inr rec"
    "rc_run_id rec = PStr run" "rc_status rec = ''completed''" "rc_task_id rec = dget task ''task_id''"
    "rc_total rec = PInt (int (length samples))" "rc_passed rec = PInt (int (length (filter passed samples)))"
    "rc_failed rec = PInt (int (length (filter (\<lambda>s. \<not> passed s) samples)))" "rc_samples rec = PList (map PDict samples)" "rc_run_root rec = Some (''runs/'' @ name)"
    using hydrate_manifest [OF assms(1), where name = name and sha = sha and now = now and run = run and root = root and f = f]
    unfolding text_eq by blast
  have g: "get_rec runs name a = Inr (Some rec)" using assms(4,5) h(1) by (simp add: get_rec_def)
  have "get_run runs name a = Inr (Reply (dset (public_dict rec) ''samples_count'' (PInt (int (length samples)))))"
    by (simp add: get_run_def g h(8) py_len_def)
  moreover have "list_samples runs name a = Inr (Reply [(''run_id'', PStr name), (''samples'', PList (map PDict samples))])"
    by (simp add: list_samples_def g h(8))
  moreover have "get_sample disk runs name sid a = Inr (case find (\<lambda>s. dget s ''sample_id'' = PStr sid) samples of
      Some s \<Rightarrow> Reply s | None \<Rightarrow> HttpError 404 (''sample not found: '' @ sid))"
    if "disk (path_str (''runs/'' @ name) @ ''/RUN_MANIFEST.json'') = Some txt" for sid
  proof (cases "find (\<lambda>s. dget s ''sample_id'' = PStr sid) samples")
    case None
    then show ?thesis by (simp add: get_sample_def g h(8) py_iter_def first_sample_find)
  next
    case (Some s)
    then have "s \<in> set samples" by (metis find_Some_iff nth_mem)
    then have "dmerge s s = s" using assms(1) by (intro dmerge_self) (simp add: wf_manifest_args_def)
    moreover have "sample_on_disk sid txt = Inr (Some s)"
      unfolding text_eq using sample_on_disk_manifest [OF assms(1)] Some by simp
    ultimately show ?thesis
      using that Some by (simp add: get_sample_def g h(8,9) py_iter_def first_sample_find given_def)
  qed
  moreover have "dget (public_dict rec) ''run_id'' = PStr run" "dget (public_dict rec) ''status'' = PStr ''completed''"
    "dget (public_dict rec) ''task_id'' = dget task ''task_id''" "dget (public_dict rec) ''total'' = rc_total rec"
    "dget (public_dict rec) ''passed'' = rc_passed rec" "dget (public_dict rec) ''failed'' = rc_failed rec"
    using h by (simp_all add: public_dict_def dget_def)
  ultimately show ?thesis using h by (intro exI [of _ "dset (public_dict rec) ''samples_count'' (PInt (int (length samples)))"]) simp
qed

theorem finished_run_reads_back_witness:
  "\<exists>d t. fs_read (write_manifest demo_digest ''t'' ''r1'' [] [[(''verdict'', PStr ''pass'')]] None None fs_empty) manifest_path = Some t
     \<and> get_run [(''r1'', t)] ''r1'' demo_api = Inr (Reply d) \<and> dget d ''status'' = PStr ''completed'' \<and> dget d ''passed'' = PInt 1"
proof -
  let ?g = "write_manifest demo_digest ''t'' ''r1'' [] [[(''verdict'', PStr ''pass'')]] None None fs_empty"
  obtain t where t: "fs_read ?g manifest_path = Some t" by (simp add: write_manifest_def Let_def fs_read_written)
  have "wf_manifest_args [] [[(''verdict'', PStr ''pass'')]] None" by code_simp
  from finished_run_reads_back [OF this refl t, of "[(''r1'', t)]" "''r1''" demo_api] t
  show ?thesis by (auto simp: demo_api_def passed_def dget_def)
qed

end
