(* ===== verification/RateLimiter.thy ===== *)
theory RateLimiter
  imports Complex_Main Credentials
begin

text \<open>
  \<open>browser/rate_limiter.py\<close>: a token bucket per host, shared by the workers of a process. Times are seconds of
  the monotonic clock and, like the tokens, rational numbers, so the rounding of the floats is not modelled.
  Everything between two points where other coroutines may run happens under the lock, so the callers of
  \<open>acquire\<close> are a sequence of attempts: an attempt either takes a token or tells how long to sleep.
\<close>

subsection \<open>A bucket\<close>

record bucket =
  b_rps :: rat
  b_capacity :: int
  b_tokens :: rat
  b_updated :: rat

definition new_bucket :: "rat \<Rightarrow> int \<Rightarrow> rat \<Rightarrow> bucket" where
  "new_bucket rps burst now = (let cap = max 1 burst in
     \<lparr> b_rps = max (1 / 10) rps, b_capacity = cap, b_tokens = of_int cap, b_updated = now \<rparr>)"

definition refill :: "rat \<Rightarrow> bucket \<Rightarrow> bucket" where
  "refill now b = (let dt = now - b_updated b in
     if 0 < dt then b\<lparr>b_tokens := min (of_int (b_capacity b)) (b_tokens b + dt * b_rps b), b_updated := now\<rparr> else b)"

definition time_until_token :: "rat \<Rightarrow> bucket \<Rightarrow> rat \<times> bucket" where
  "time_until_token now b0 = (let b = refill now b0 in
     if 1 \<le> b_tokens b then (0, b) else ((1 - b_tokens b) / b_rps b, b))"

subsection \<open>The limiter\<close>

record limiter =
  rl_rps :: rat
  rl_burst :: int
  rl_buckets :: "(string \<times> bucket) list"

definition new_limiter :: "rat \<Rightarrow> int \<Rightarrow> exn + limiter" where
  "new_limiter rps burst =
     (if rps \<le> 0 then Inl (Exn ''ValueError'' ''rps must be > 0'')
      else if burst < 1 then Inl (Exn ''ValueError'' ''burst must be >= 1'')
      else Inr \<lparr> rl_rps = rps, rl_burst = burst, rl_buckets = [] \<rparr>)"

text \<open>The host a call is counted for; an empty one is not limited. \<open>urlparse\<close> may raise.\<close>

definition bucket_host :: "(string \<Rightarrow> bool) \<Rightarrow> string \<Rightarrow> exn + string" where
  "bucket_host v6 s =
     (if py_contains s ''://''
      then (case url_parse v6 s of
          None \<Rightarrow> Inl (Exn ''ValueError'' ''Invalid IPv6 URL'')
        | Some (netloc, path) \<Rightarrow> Inr (case url_hostname netloc of None \<Rightarrow> [] | Some h \<Rightarrow> py_lower h))
      else Inr (py_lower s))"

text \<open>One round of the loop of \<open>acquire\<close>: \<open>None\<close> when it returns, otherwise the time to sleep before the next.\<close>

definition min_sleep :: rat where "min_sleep = 5 / 1000"

definition attempt :: "rat \<Rightarrow> string \<Rightarrow> limiter \<Rightarrow> rat option \<times> limiter" where
  "attempt now host l =
     (let b0 = (case map_of (rl_buckets l) host of Some b \<Rightarrow> b | None \<Rightarrow> new_bucket (rl_rps l) (rl_burst l) now) in
      case time_until_token now b0 of
        (wait, b) \<Rightarrow>
          if wait \<le> 0 then (None, l\<lparr>rl_buckets := AList.update host (b\<lparr>b_tokens := b_tokens b - 1\<rparr>) (rl_buckets l)\<rparr>)
          else (Some (max wait min_sleep), l\<lparr>rl_buckets := AList.update host b (rl_buckets l)\<rparr>))"

text \<open>\<open>acquire\<close> of one caller; \<open>delay\<close> is how late each of its sleeps ends. The result is when it returned.\<close>

fun acquire_from :: "nat \<Rightarrow> (nat \<Rightarrow> rat) \<Rightarrow> rat \<Rightarrow> string \<Rightarrow> limiter \<Rightarrow> (rat \<times> limiter) option" where
  "acquire_from 0 delay now host l = None"
| "acquire_from (Suc fuel) delay now host l =
     (case attempt now host l of
        (None, l') \<Rightarrow> Some (now, l')
      | (Some wait, l') \<Rightarrow> acquire_from fuel (\<lambda>k. delay (Suc k)) (now + wait + delay 0) host l')"

definition acquire :: "(string \<Rightarrow> bool) \<Rightarrow> nat \<Rightarrow> (nat \<Rightarrow> rat) \<Rightarrow> rat \<Rightarrow> string \<Rightarrow> limiter \<Rightarrow> (exn + rat \<times> limiter) option" where
  "acquire v6 fuel delay now s l =
     (case bucket_host v6 s of
        Inl e \<Rightarrow> Some (Inl e)
      | Inr host \<Rightarrow> if host = [] then Some (Inr (now, l)) else map_option Inr (acquire_from fuel delay now host l))"

definition limiter_stats :: "limiter \<Rightarrow> (string \<times> rat \<times> int \<times> rat) list" where
  "limiter_stats l = map (\<lambda>(h, b). (h, b_tokens b, b_capacity b, b_rps b)) (rl_buckets l)"

text \<open>The attempts of any number of callers, in order: what each got, and the limiter after them.\<close>

fun attempts :: "(rat \<times> string) list \<Rightarrow> limiter \<Rightarrow> (rat \<times> string \<times> bool) list \<times> limiter" where
  "attempts [] l = ([], l)"
| "attempts ((t, h) # xs) l =
     (case attempt t h l of (w, l') \<Rightarrow>
        (case attempts xs l' of (got, l2) \<Rightarrow> ((t, h, w = None) # got, l2)))"

section \<open>The bucket as a level\<close>

text \<open>What a bucket holds at a time, after the refill it would get then.\<close>

definition bucket_level :: "rat \<Rightarrow> bucket \<Rightarrow> rat" where
  "bucket_level t b = min (of_int (b_capacity b)) (b_tokens b + max 0 (t - b_updated b) * b_rps b)"

definition bucket_ok :: "limiter \<Rightarrow> bucket \<Rightarrow> bool" where
  "bucket_ok l b \<longleftrightarrow> b_rps b = max (1 / 10) (rl_rps l) \<and> b_capacity b = rl_burst l
     \<and> 0 \<le> b_tokens b \<and> b_tokens b \<le> of_int (b_capacity b)"

definition limiter_ok :: "rat \<Rightarrow> limiter \<Rightarrow> bool" where
  "limiter_ok t l \<longleftrightarrow> 0 < rl_rps l \<and> 1 \<le> rl_burst l \<and> distinct (map fst (rl_buckets l))
     \<and> (\<forall>h b. map_of (rl_buckets l) h = Some b \<longrightarrow> bucket_ok l b \<and> b_updated b \<le> t)"

definition host_level :: "rat \<Rightarrow> string \<Rightarrow> limiter \<Rightarrow> rat" where
  "host_level t h l = (case map_of (rl_buckets l) h of None \<Rightarrow> of_int (rl_burst l) | Some b \<Rightarrow> bucket_level t b)"

definition limit_rate :: "limiter \<Rightarrow> rat" where
  "limit_rate l = max (1 / 10) (rl_rps l)"

lemma limit_rate_pos: "0 < limit_rate l" "0 \<le> limit_rate l"
  by (simp_all add: limit_rate_def max_def)

lemma refill_level:
  assumes "b_updated b \<le> t" "b_tokens b \<le> of_int (b_capacity b)"
  shows "refill t b = b\<lparr>b_tokens := bucket_level t b, b_updated := t\<rparr>"
  using assms by (cases "b_updated b = t") (auto simp: refill_def bucket_level_def Let_def min_def max_def)

lemma bucket_level_bounds:
  "bucket_ok l b \<Longrightarrow> 0 \<le> bucket_level t b \<and> bucket_level t b \<le> of_int (rl_burst l)"
  by (auto simp: bucket_ok_def bucket_level_def)

lemma bucket_level_later:
  assumes "bucket_ok l b" "t \<le> t'"
  shows "bucket_level t b \<le> bucket_level t' b" "bucket_level t' b \<le> bucket_level t b + (t' - t) * limit_rate l"
proof -
  have r: "b_rps b = limit_rate l" using assms(1) by (simp add: bucket_ok_def limit_rate_def)
  have a: "max 0 (t - b_updated b) * limit_rate l \<le> max 0 (t' - b_updated b) * limit_rate l"
    using assms(2) limit_rate_pos by (intro mult_right_mono) auto
  have b: "max 0 (t' - b_updated b) * limit_rate l \<le> (max 0 (t - b_updated b) + (t' - t)) * limit_rate l"
    using assms(2) limit_rate_pos by (intro mult_right_mono) auto
  show "bucket_level t b \<le> bucket_level t' b" using a by (auto simp: bucket_level_def r)
  have "0 \<le> (t' - t) * limit_rate l" using assms(2) limit_rate_pos by simp
  then show "bucket_level t' b \<le> bucket_level t b + (t' - t) * limit_rate l"
    using b by (auto simp: bucket_level_def r distrib_right min_def)
qed

lemma new_bucket_ok: "0 < rl_rps l \<Longrightarrow> 1 \<le> rl_burst l \<Longrightarrow> bucket_ok l (new_bucket (rl_rps l) (rl_burst l) t)
    \<and> bucket_level t (new_bucket (rl_rps l) (rl_burst l) t) = of_int (rl_burst l)
    \<and> b_updated (new_bucket (rl_rps l) (rl_burst l) t) = t"
  by (simp add: new_bucket_def bucket_ok_def bucket_level_def Let_def)

lemma limiter_okD:
  assumes "limiter_ok t l" "map_of (rl_buckets l) h = Some b"
  shows "bucket_ok l b" "b_updated b \<le> t"
  using assms by (auto simp: limiter_ok_def)

lemma host_level_bounds:
  assumes "limiter_ok t l" shows "0 \<le> host_level t' h l \<and> host_level t' h l \<le> of_int (rl_burst l)"
proof (cases "map_of (rl_buckets l) h")
  case None
  with assms show ?thesis by (simp add: host_level_def limiter_ok_def)
next
  case (Some b)
  with bucket_level_bounds [OF limiter_okD(1) [OF assms Some], of t'] show ?thesis by (simp add: host_level_def)
qed

lemma host_level_later:
  assumes "limiter_ok t0 l" "t \<le> t'"
  shows "host_level t' h l \<le> host_level t h l + (t' - t) * limit_rate l" "host_level t h l \<le> host_level t' h l"
proof -
  have "0 \<le> (t' - t) * limit_rate l" using assms(2) limit_rate_pos by simp
  then show "host_level t' h l \<le> host_level t h l + (t' - t) * limit_rate l" "host_level t h l \<le> host_level t' h l"
    using bucket_level_later [OF limiter_okD(1) [OF assms(1)] assms(2)] by (auto simp: host_level_def split: option.splits)
qed

text \<open>An attempt takes a token of its host if there is one, and touches no other host.\<close>

lemma attempt_spec:
  assumes ok: "limiter_ok t l" and att: "attempt t h l = (w, l')"
  shows "limiter_ok t l' \<and> rl_rps l' = rl_rps l \<and> rl_burst l' = rl_burst l
    \<and> (w = None \<longleftrightarrow> 1 \<le> host_level t h l)
    \<and> host_level t h l' = host_level t h l - (if w = None then 1 else 0)
    \<and> (\<forall>h' t'. h' \<noteq> h \<longrightarrow> host_level t' h' l' = host_level t' h' l)
    \<and> (\<forall>d. w = Some d \<longrightarrow> min_sleep \<le> d \<and> (1 - host_level t h l) / limit_rate l \<le> d)"
proof -
  define b0 where "b0 = (case map_of (rl_buckets l) h of Some b \<Rightarrow> b | None \<Rightarrow> new_bucket (rl_rps l) (rl_burst l) t)"
  have b0: "bucket_ok l b0" "b_updated b0 \<le> t" "bucket_level t b0 = host_level t h l"
    using ok new_bucket_ok [of l t] limiter_okD [OF ok]
    by (auto simp: b0_def host_level_def limiter_ok_def split: option.splits)
  let ?b = "b0\<lparr>b_tokens := host_level t h l, b_updated := t\<rparr>"
  have refill: "refill t b0 = ?b" using refill_level [of b0 t] b0 by (simp add: bucket_ok_def)
  have lv: "0 \<le> host_level t h l" "host_level t h l \<le> of_int (rl_burst l)" using host_level_bounds [OF ok] by auto
  have rate: "b_rps b0 = limit_rate l" "b_capacity b0 = rl_burst l" using b0(1) by (simp_all add: bucket_ok_def limit_rate_def)
  define b where "b = (if 1 \<le> host_level t h l then ?b\<lparr>b_tokens := host_level t h l - 1\<rparr> else ?b)"
  have w: "w = (if 1 \<le> host_level t h l then None else Some (max ((1 - host_level t h l) / limit_rate l) min_sleep))"
    and l': "l' = l\<lparr>rl_buckets := AList.update h b (rl_buckets l)\<rparr>"
    using att limit_rate_pos [of l]
    by (auto simp: attempt_def time_until_token_def Let_def refill rate b_def divide_le_0_iff split: if_splits simp flip: b0_def)
  have bok: "bucket_ok l b" "b_updated b = t" "bucket_level t b = host_level t h l - (if w = None then 1 else 0)"
    using b0(1) lv rate by (auto simp: b_def bucket_ok_def bucket_level_def w)
  have other: "map_of (rl_buckets l') k = (if k = h then Some b else map_of (rl_buckets l) k)" for k
    by (simp add: l' update_conv')
  have same: "bucket_ok l' x = bucket_ok l x" for x by (simp add: bucket_ok_def l')
  have "bucket_ok l' x \<and> b_updated x \<le> t" if "map_of (rl_buckets l') k = Some x" for k x
    using that bok(1,2) limiter_okD [OF ok] unfolding other same by (auto split: if_splits)
  moreover have "0 < rl_rps l' \<and> 1 \<le> rl_burst l' \<and> distinct (map fst (rl_buckets l'))"
    using ok by (simp add: limiter_ok_def l' distinct_update)
  ultimately have lim: "limiter_ok t l'" unfolding limiter_ok_def by blast
  have params: "rl_rps l' = rl_rps l" "rl_burst l' = rl_burst l" by (simp_all add: l')
  have here: "host_level t h l' = host_level t h l - (if w = None then 1 else 0)" using bok(3) by (simp add: host_level_def other)
  have there: "host_level t' h' l' = host_level t' h' l" if "h' \<noteq> h" for h' t'
    using that by (simp add: host_level_def other params cong: option.case_cong)
  show ?thesis using lim params here there by (auto simp: w)
qed

lemma limiter_ok_later: "limiter_ok t l \<Longrightarrow> t \<le> t' \<Longrightarrow> limiter_ok t' l"
  by (force simp: limiter_ok_def simp del: map_of_eq_Some_iff)

lemma new_limiter_ok: "new_limiter rps burst = Inr l \<Longrightarrow> limiter_ok t l \<and> rl_rps l = rps \<and> rl_burst l = burst"
  by (auto simp: new_limiter_def limiter_ok_def split: if_splits)

subsection \<open>Many attempts\<close>

text \<open>How many attempts of a host were admitted.\<close>

definition admitted :: "string \<Rightarrow> (rat \<times> string \<times> bool) list \<Rightarrow> nat" where
  "admitted h got = length (filter (\<lambda>(t, h', ok). h' = h \<and> ok) got)"

lemma attempts_append:
  "attempts (xs @ ys) l = (case attempts xs l of (g1, l1) \<Rightarrow> (case attempts ys l1 of (g2, l2) \<Rightarrow> (g1 @ g2, l2)))"
  by (induction xs arbitrary: l) (auto split: prod.splits)

text \<open>Admissions are paid for by the level at the start and the refill since.\<close>

lemma attempts_budget:
  assumes "limiter_ok t0 l" "sorted (t0 # map fst xs @ [t1])" "attempts xs l = (got, l')"
  shows "limiter_ok t1 l' \<and> rl_rps l' = rl_rps l \<and> rl_burst l' = rl_burst l
    \<and> of_nat (admitted h got) + host_level t1 h l' \<le> host_level t0 h l + (t1 - t0) * limit_rate l"
  using assms
proof (induction xs arbitrary: t0 l got)
  case Nil
  then show ?case using host_level_later(1) [of t0 l t0 t1 h] by (simp add: admitted_def limiter_ok_later)
next
  case (Cons x xs)
  obtain t k where x: "x = (t, k)" by (cases x)
  obtain w l1 where att: "attempt t k l = (w, l1)" by fastforce
  obtain g where rest: "attempts xs l1 = (g, l')" "got = (t, k, w = None) # g"
    using Cons.prems(3) x att by (auto split: prod.splits)
  have le: "t0 \<le> t" and srt: "sorted (t # map fst xs @ [t1])" using Cons.prems(2) x by auto
  note a = attempt_spec [OF limiter_ok_later [OF Cons.prems(1) le] att]
  note ih = Cons.IH [OF conjunct1 [OF a] srt rest(1)]
  have rate: "limit_rate l1 = limit_rate l" using a by (simp add: limit_rate_def)
  have adm: "admitted h got = admitted h g + (if k = h \<and> w = None then 1 else 0)" by (simp add: admitted_def rest(2))
  have lv: "host_level t h l1 = host_level t h l - (if k = h \<and> w = None then 1 else 0)" using a by (cases "k = h") auto
  have start: "host_level t h l \<le> host_level t0 h l + (t - t0) * limit_rate l" using host_level_later(1) [OF Cons.prems(1) le] .
  have "of_nat (admitted h got) + host_level t1 h l' \<le> host_level t h l + (t1 - t) * limit_rate l"
    using ih lv unfolding adm rate by auto
  also have "\<dots> \<le> host_level t0 h l + (t1 - t0) * limit_rate l" using start by (simp add: algebra_simps)
  finally show ?case using ih a by simp
qed

text \<open>Sleeping as long as told is enough when nobody else asks for the host meanwhile.\<close>

lemma attempt_again:
  assumes "limiter_ok t l" "attempt t h l = (Some d, l1)" "t + d \<le> t'"
  shows "fst (attempt t' h l1) = None"
proof -
  note a = attempt_spec [OF assms(1,2)]
  have "1 - host_level t h l \<le> d * limit_rate l" using a limit_rate_pos [of l] by (simp add: pos_divide_le_eq)
  moreover have "d * limit_rate l \<le> (t' - t) * limit_rate l" using assms(3) limit_rate_pos by (intro mult_right_mono) auto
  moreover have "host_level t h l1 = host_level t h l" using a by simp
  moreover have tt: "t \<le> t'" using a assms(3) by (auto simp: min_sleep_def)
  moreover have "1 \<le> host_level t' h l1"
  proof (cases "map_of (rl_buckets l1) h")
    case None
    then show ?thesis using a by (simp add: host_level_def limiter_ok_def)
  next
    case (Some b)
    have ok: "bucket_ok l1 b" "b_updated b \<le> t" using a limiter_okD Some by blast+
    have r: "b_rps b = limit_rate l" "1 \<le> b_capacity b" "b_capacity b = rl_burst l1" using ok(1) a by (auto simp: bucket_ok_def limit_rate_def limiter_ok_def)
    have "b_tokens b + (t - b_updated b) * limit_rate l = host_level t h l \<or> of_int (b_capacity b) = host_level t h l"
      using calculation(3) Some ok(2) r by (auto simp: host_level_def bucket_level_def min_def split: if_splits)
    then show ?thesis
    proof
      assume e: "of_int (b_capacity b) = host_level t h l"
      then have "1 \<le> host_level t h l" using r(2) by (metis of_int_1_le_iff)
      with a show ?thesis by simp
    next
      assume e: "b_tokens b + (t - b_updated b) * limit_rate l = host_level t h l"
      have "b_tokens b + (t' - b_updated b) * limit_rate l = host_level t h l + (t' - t) * limit_rate l"
        unfolding e [symmetric] by (simp add: algebra_simps)
      with calculation(1,2) have "1 \<le> b_tokens b + (t' - b_updated b) * limit_rate l" by simp
      with Some ok(2) tt r show ?thesis by (simp add: host_level_def bucket_level_def)
    qed
  qed
  ultimately show ?thesis
    using attempt_spec [OF limiter_ok_later [OF conjunct1 [OF a] tt], of h "fst (attempt t' h l1)" "snd (attempt t' h l1)"] by simp
qed

section \<open>Properties\<close>

text \<open>
  C14: no host is hit faster than configured. Whatever calls came before, in any stretch of attempts by any
  number of workers between two readings of the monotonic clock, a host admits at most \<open>burst\<close> requests plus
  \<open>rps\<close> for every second of the stretch (a rate below a tenth counting as a tenth), and its bucket, seen at
  any time, holds between zero and \<open>burst\<close> tokens.
\<close>

theorem rate_limit_bounds_requests:
  assumes "new_limiter rps burst = Inr l0" "attempts before_xs l0 = (got0, l1)" "attempts xs l1 = (got, l2)"
    and "sorted (map fst before_xs @ t0 # map fst xs @ [t1])"
  shows "of_nat (admitted h got) \<le> of_int burst + max (1 / 10) rps * (t1 - t0)
    \<and> 0 \<le> host_level t h l2 \<and> host_level t h l2 \<le> of_int burst"
proof -
  define s where "s = (case before_xs of [] \<Rightarrow> t0 | x # _ \<Rightarrow> fst x)"
  have srt: "sorted (s # map fst before_xs @ [t0])" "sorted (t0 # map fst xs @ [t1])"
    using assms(4) by (cases before_xs; fastforce simp: s_def sorted_append)+
  note l0 = new_limiter_ok [OF assms(1), of s]
  note b1 = attempts_budget [OF conjunct1 [OF l0] srt(1) assms(2), of h]
  note b2 = attempts_budget [OF conjunct1 [OF b1] srt(2) assms(3), of h]
  have p: "rl_burst l1 = burst" "limit_rate l1 = max (1 / 10) rps" "rl_burst l2 = burst" using b1 b2 l0 by (auto simp: limit_rate_def)
  have lv: "host_level t0 h l1 \<le> of_int burst" "0 \<le> host_level t1 h l2" "0 \<le> host_level t h l2" "host_level t h l2 \<le> of_int burst"
    using host_level_bounds [OF conjunct1 [OF b1], of t0 h] host_level_bounds [OF conjunct1 [OF b2], of t1 h]
      host_level_bounds [OF conjunct1 [OF b2], of t h] p by auto
  with b2 p show ?thesis by (simp add: mult.commute)
qed

theorem rate_limit_bounds_requests_witness:
  "of_nat (admitted ''h'' (fst (attempts [(1, ''h''), (1, ''h''), (2, ''h'')]
      \<lparr>rl_rps = 1, rl_burst = 2, rl_buckets = []\<rparr>))) \<le> (2 + max (1 / 10) 1 * (2 - 1) :: rat)"
  using rate_limit_bounds_requests [of 1 2 "\<lparr>rl_rps = 1, rl_burst = 2, rl_buckets = []\<rparr>" "[]" "[]"
      "\<lparr>rl_rps = 1, rl_burst = 2, rl_buckets = []\<rparr>" "[(1, ''h''), (1, ''h''), (2, ''h'')]"
      "fst (attempts [(1, ''h''), (1, ''h''), (2, ''h'')] \<lparr>rl_rps = 1, rl_burst = 2, rl_buckets = []\<rparr>)"
      "snd (attempts [(1, ''h''), (1, ''h''), (2, ''h'')] \<lparr>rl_rps = 1, rl_burst = 2, rl_buckets = []\<rparr>)" 1 2 "''h''" 0]
  by (simp add: new_limiter_def)

text \<open>
  A caller is admitted after one sleep at most when nobody else asks for the host: \<open>acquire\<close> returns in its
  first or second round, not before the time it was called, and an address without a host is let through as it is.
\<close>

theorem acquire_returns:
  assumes "limiter_ok now l" "\<And>k. 0 \<le> delay k" "bucket_host v6 s = Inr host"
  shows "\<exists>t l'. acquire v6 2 delay now s l = Some (Inr (t, l')) \<and> now \<le> t \<and> limiter_ok t l' \<and> (host = [] \<longrightarrow> t = now \<and> l' = l)"
proof (cases "host = []")
  case True
  with assms show ?thesis by (simp add: acquire_def)
next
  case False
  obtain w l1 where a: "attempt now host l = (w, l1)" by fastforce
  note sp = attempt_spec [OF assms(1) a]
  show ?thesis
  proof (cases w)
    case None
    with a sp False assms(3) show ?thesis by (simp add: acquire_def numeral_2_eq_2)
  next
    case (Some d)
    let ?t = "now + d + delay 0"
    have d: "0 \<le> d" using sp Some by (auto simp: min_sleep_def)
    obtain w2 l2 where a2: "attempt ?t host l1 = (w2, l2)" by fastforce
    have "w2 = None" using attempt_again [OF assms(1) a [unfolded Some], of ?t] a2 assms(2) by simp
    moreover have t: "now \<le> ?t" using d assms(2) [of 0] by simp
    moreover have "limiter_ok ?t l2" using attempt_spec [OF limiter_ok_later [OF _ t] a2] sp by blast
    ultimately show ?thesis using a a2 Some False assms(3) by (simp add: acquire_def numeral_2_eq_2)
  qed
qed

theorem acquire_returns_witness:
  "\<exists>t l'. acquire (\<lambda>_. False) 2 (\<lambda>_. 0) 7 ''Example.com''
     \<lparr>rl_rps = 1, rl_burst = 1, rl_buckets = [(''example.com'', \<lparr>b_rps = 1, b_capacity = 1, b_tokens = 0, b_updated = 7\<rparr>)]\<rparr>
     = Some (Inr (t, l')) \<and> 7 \<le> t"
proof -
  let ?l = "\<lparr>rl_rps = 1, rl_burst = 1,
      rl_buckets = [(''example.com'', \<lparr>b_rps = 1, b_capacity = 1, b_tokens = 0, b_updated = 7\<rparr>)]\<rparr>"
  have ok: "limiter_ok 7 ?l" by (auto simp: limiter_ok_def bucket_ok_def split: if_splits)
  have "bucket_host (\<lambda>_. False) ''Example.com'' = Inr ''example.com''" by code_simp
  from acquire_returns [OF ok _ this, of "\<lambda>_. 0"] show ?thesis by auto
qed

end
