(* ===== verification/LocalSession.thy ===== *)
theory LocalSession
  imports Tools ArtifactStore
begin

text \<open>
  \<open>browser/local.py\<close> with the Python parts of \<open>browser/grounding.py\<close> and \<open>browser/set_of_mark.py\<close>: the browser
  session behind the agent's tools. The page of Playwright and the scripts that run in it come from outside: \<open>page\<close>
  has one field per call. Measurements of the page are integers. A session stores its screenshots in the
  artifact store.
\<close>

subsection \<open>The page\<close>

record 'w page =
  pg_url :: "'w \<Rightarrow> string"
  pg_title :: "('w, string) act"
  pg_goto :: "string \<Rightarrow> ('w, unit) act"
  pg_click :: "string \<Rightarrow> ('w, unit) act"
  pg_role_count :: "string \<Rightarrow> string \<Rightarrow> ('w, nat) act"
  pg_role_click :: "string \<Rightarrow> string \<Rightarrow> ('w, unit) act"
  pg_text_count :: "string \<Rightarrow> ('w, nat) act"
  pg_text_click :: "string \<Rightarrow> ('w, unit) act"
  pg_fill :: "string \<Rightarrow> string \<Rightarrow> ('w, unit) act"
  pg_screenshot :: "bool \<Rightarrow> ('w, string) act"
  pg_wait :: "nat \<Rightarrow> ('w, unit) act"
  pg_run :: "string \<Rightarrow> ('w, unit) act"
  pg_scroll_info :: "('w, int \<times> int \<times> int) act"
  pg_scroll_y :: "('w, int) act"
  pg_size :: "('w, int \<times> int) act"
  pg_selector_into_view :: "string \<Rightarrow> ('w, unit) act"
  pg_text_into_view :: "string \<Rightarrow> ('w, unit) act"
  pg_links :: "string \<Rightarrow> int \<Rightarrow> ('w, (pyval \<times> pyval) list) act"
  pg_body_text :: "('w, string) act"
  pg_outline :: "('w, pyval) act"
  pg_interactive :: "('w, pyval) act"
  pg_times :: "('w, pyval) act"
  pg_state :: "('w, pyval) act"
  pg_overlay :: "('w, pydict list) act"
  pg_clear_overlay :: "('w, unit) act"
  pg_mouse_click :: "int \<Rightarrow> int \<Rightarrow> ('w, unit) act"
  pg_press :: "string \<Rightarrow> ('w, unit) act"
  pg_keys :: "string \<Rightarrow> ('w, unit) act"
  pg_has_browser :: "'w \<Rightarrow> bool"

subsection \<open>Snapshots\<close>

definition INNER_TEXT_LIMIT :: nat where "INNER_TEXT_LIMIT = 6000"

definition build_snapshot :: "'w page \<Rightarrow> ('w, pydict) act" where
  "build_snapshot pg =
     bindA (pg_title pg) (\<lambda>title.
     (\<lambda>w. bindA (tryA (pg_body_text pg) (\<lambda>_. returnA [])) (\<lambda>text0.
       let url = pg_url pg w; inner_text = take INNER_TEXT_LIMIT text0 in
       bindA (tryA (pg_outline pg) (\<lambda>_. returnA (PList []))) (\<lambda>outline.
       bindA (tryA (pg_interactive pg) (\<lambda>_. returnA (PList []))) (\<lambda>interactive.
       bindA (tryA (pg_times pg) (\<lambda>_. returnA (PList []))) (\<lambda>times.
       bindA (tryA (pg_state pg) (\<lambda>_. returnA (PDict []))) (\<lambda>page_state.
       returnA [(''url'', PStr url), (''title'', PStr title), (''inner_text'', PStr inner_text),
         (''inner_text_truncated'', PBool (INNER_TEXT_LIMIT \<le> length inner_text)), (''outline'', outline),
         (''interactive'', interactive), (''times'', times), (''page_state'', page_state)]))))) w))"

subsection \<open>Marks\<close>

record mark =
  mk_id :: pyval
  mk_role :: pyval
  mk_name :: pyval
  mk_x :: int
  mk_y :: int
  mk_w :: int
  mk_h :: int
  mk_href :: pyval
  mk_placeholder :: pyval
  mk_tag :: pyval
  mk_region :: pyval
  mk_in_shadow :: bool
  mk_in_iframe :: bool

text \<open>\<open>mark_page\<close>: the records of the overlay script, a later one with the same id taking the place of the first.\<close>

definition int_field :: "pydict \<Rightarrow> string \<Rightarrow> exn + int" where
  "int_field r k = bindE (getitem r k) py_int"

definition mark_of :: "pydict \<Rightarrow> exn + mark" where
  "mark_of r =
     bindE (getitem r ''mark_id'') (\<lambda>i. bindE (int_field r ''x'') (\<lambda>x. bindE (int_field r ''y'') (\<lambda>y.
     bindE (int_field r ''w'') (\<lambda>wd. bindE (int_field r ''h'') (\<lambda>ht.
     Inr \<lparr> mk_id = i, mk_role = dget_or r ''role'' (PStr []), mk_name = dget_or r ''name'' (PStr []), mk_x = x, mk_y = y, mk_w = wd, mk_h = ht,
       mk_href = py_or (dget_or r ''href'' (PStr [])) (PStr []), mk_placeholder = py_or (dget_or r ''placeholder'' (PStr [])) (PStr []),
       mk_tag = py_or (dget_or r ''tag'' (PStr [])) (PStr []), mk_region = py_or (dget_or r ''viewport_region'' (PStr [])) (PStr []),
       mk_in_shadow = truthy (dget r ''in_shadow''), mk_in_iframe = truthy (dget r ''in_iframe'') \<rparr>)))))"

type_synonym mark_map = "(pyval \<times> mark) list"

definition mark_page :: "'w page \<Rightarrow> ('w, mark_map) act" where
  "mark_page pg = bindA (pg_overlay pg) (\<lambda>raw. bindA (liftE (mapE mark_of raw)) (\<lambda>ms.
     returnA (foldl (\<lambda>marks m. AList.update (mk_id m) m marks) [] ms)))"

definition mark_dict :: "mark \<Rightarrow> pydict" where
  "mark_dict m = [(''mark_id'', mk_id m), (''role'', mk_role m), (''name'', mk_name m), (''x'', PInt (mk_x m)), (''y'', PInt (mk_y m)),
     (''w'', PInt (mk_w m)), (''h'', PInt (mk_h m)), (''href'', mk_href m), (''placeholder'', mk_placeholder m), (''tag'', mk_tag m),
     (''viewport_region'', mk_region m), (''in_shadow'', PBool (mk_in_shadow m)), (''in_iframe'', PBool (mk_in_iframe m))]"

text \<open>The ids are the numbers the script counts; ids of another type cannot be sorted.\<close>

definition mark_number :: "mark \<Rightarrow> int" where
  "mark_number m = (case mk_id m of PInt i \<Rightarrow> i | _ \<Rightarrow> 0)"

definition marks_to_list :: "mark_map \<Rightarrow> exn + pydict list" where
  "marks_to_list marks =
     (if list_all (\<lambda>m. case mk_id m of PInt i \<Rightarrow> True | _ \<Rightarrow> False) (map snd marks) \<or> length marks \<le> 1
      then Inr (map mark_dict (sort_key mark_number (map snd marks)))
      else Inl (Exn ''TypeError'' ''not supported between these mark ids''))"

subsection \<open>The session\<close>

text \<open>
  What a session is built with: the store's directory, its sample and run, the rate limiter if any; and
  where it keeps the marks of its last overlay.
\<close>

record 'w local =
  ls_page :: "'w page"
  ls_files :: "'w \<Rightarrow> fs"
  ls_store :: "fs \<Rightarrow> 'w \<Rightarrow> 'w"
  ls_sha :: "string \<Rightarrow> string"
  ls_guess :: "string \<Rightarrow> string option"
  ls_can_link :: bool
  ls_root :: string
  ls_clock :: "'w \<Rightarrow> string"
  ls_sample :: "string option"
  ls_run :: "string option"
  ls_limiter :: "(string \<Rightarrow> ('w, unit) act) option"
  ls_marks :: "'w \<Rightarrow> mark_map option"
  ls_set_marks :: "mark_map \<Rightarrow> 'w \<Rightarrow> 'w"

definition artifact_dict :: "string \<Rightarrow> artifact \<Rightarrow> pydict" where
  "artifact_dict now a = [(''sha256'', PStr (ar_sha256 a)), (''name'', PStr (ar_name a)), (''mime'', PStr (ar_mime a)),
     (''size'', PInt (int (ar_size a))), (''path'', PStr (ar_path a)), (''sample_id'', opt_pv (ar_sample_id a)),
     (''run_id'', opt_pv (ar_run_id a)), (''created_at'', PStr now)]"

definition put_png :: "'w local \<Rightarrow> string \<Rightarrow> string \<Rightarrow> string option \<Rightarrow> ('w, pydict) act" where
  "put_png s data name folder w =
     (case store_put (ls_sha s) (ls_guess s) (ls_can_link s) (ls_root s) data name (Some ''image/png'') folder
             (ls_sample s) (ls_run s) (ls_files s w) of
        (a, f) \<Rightarrow> (Inr (artifact_dict (ls_clock s w) a), ls_store s f w))"

definition png_name :: "string \<Rightarrow> string" where
  "png_name name = (if py_endswith name ''.png'' then name else name @ ''.png'')"

definition local_goto :: "'w local \<Rightarrow> string \<Rightarrow> ('w, unit) act" where
  "local_goto s url = bindA (case ls_limiter s of None \<Rightarrow> returnA () | Some acquire \<Rightarrow> acquire url) (\<lambda>_. pg_goto (ls_page s) url)"

definition starts_as_selector :: "string \<Rightarrow> bool" where
  "starts_as_selector s \<longleftrightarrow> list_ex (py_startswith s) [''#'', ''.'', ''/'', ''['', '':'']"

definition click_selector :: "string \<Rightarrow> bool" where
  "click_selector s \<longleftrightarrow> starts_as_selector s \<or> CHR ''>'' \<in> set s \<or> CHR ''['' \<in> set s \<or> py_contains s ''//''"

fun click_role :: "'w page \<Rightarrow> string list \<Rightarrow> string \<Rightarrow> ('w, unit) act \<Rightarrow> ('w, unit) act" where
  "click_role pg [] s otherwise = otherwise"
| "click_role pg (r # roles) s otherwise = bindA (pg_role_count pg r s) (\<lambda>n.
     if n = 1 then pg_role_click pg r s else click_role pg roles s otherwise)"

definition CLICK_ROLES :: "string list" where
  "CLICK_ROLES = [''button'', ''link'', ''menuitem'', ''tab'']"

definition not_found :: "string \<Rightarrow> exn" where
  "not_found s = Exn ''ValueError'' (''click target not found: '' @ repr_str s)"

definition ambiguous :: "nat \<Rightarrow> string \<Rightarrow> exn" where
  "ambiguous n s = Exn ''ValueError'' (''click target ambiguous: '' @ show_nat n @ '' elements match '' @ repr_str s @ '' exactly; ''
     @ ''planner must emit a more specific target'')"

definition local_click :: "'w local \<Rightarrow> string \<Rightarrow> ('w, unit) act" where
  "local_click l t = (let s = py_strip t; pg = ls_page l in
     if click_selector s then pg_click pg s
     else click_role pg CLICK_ROLES s (bindA (pg_text_count pg s) (\<lambda>n.
       if n = 1 then pg_text_click pg s else raiseA (if n = 0 then not_found s else ambiguous n s))))"

definition local_type :: "'w local \<Rightarrow> string \<Rightarrow> string \<Rightarrow> ('w, unit) act" where
  "local_type s sel v = pg_fill (ls_page s) sel v"

definition local_screenshot :: "'w local \<Rightarrow> string \<Rightarrow> bool \<Rightarrow> string option \<Rightarrow> ('w, pydict) act" where
  "local_screenshot s name full folder = bindA (pg_screenshot (ls_page s) full) (\<lambda>data. put_png s data (png_name name) folder)"

definition scroll_script :: "string \<Rightarrow> exn + string" where
  "scroll_script amount =
     (if amount = ''top'' then Inr ''window.scrollTo(0, 0);''
      else if amount = ''bottom'' then Inr ''window.scrollTo(0, document.documentElement.scrollHeight);''
      else if amount = ''up'' then Inr ''window.scrollBy(0, -window.innerHeight * 0.9);''
      else if amount = ''down'' then Inr ''window.scrollBy(0, window.innerHeight * 0.9);''
      else (case int_of_text amount of
          None \<Rightarrow> Inl (Exn ''ValueError'' ((''scroll amount must be '' @ CHR 0x27 # ''up|down|top|bottom'' @ CHR 0x27 # '' or int px, got '')
             @ repr_str amount))
        | Some px \<Rightarrow> Inr (''window.scrollBy(0, '' @ show_int px @ '');'')))"

definition local_scroll :: "'w local \<Rightarrow> string \<Rightarrow> ('w, pydict) act" where
  "local_scroll s amount = (let pg = ls_page s in
     bindA (liftE (scroll_script amount)) (\<lambda>js. bindA (pg_run pg js) (\<lambda>_. bindA (pg_wait pg 250) (\<lambda>_.
     bindA (pg_scroll_info pg) (\<lambda>(y, ph, vh).
       returnA [(''y'', PInt y), (''page_height'', PInt ph), (''viewport_height'', PInt vh), (''at_bottom'', PBool (ph - 4 \<le> y + vh))])))))"

definition scroll_selector :: "string \<Rightarrow> bool" where
  "scroll_selector s \<longleftrightarrow> starts_as_selector s \<or> CHR ''>'' \<in> set s \<or> py_contains s ''//''"

definition local_scroll_to :: "'w local \<Rightarrow> string \<Rightarrow> ('w, pydict) act" where
  "local_scroll_to s target = (let t = py_strip target; pg = ls_page s in
     tryA (bindA (if scroll_selector t then pg_selector_into_view pg t else pg_text_into_view pg t) (\<lambda>_.
        bindA (pg_scroll_y pg) (\<lambda>y. returnA [(''found'', PBool True), (''y'', PInt y), (''target'', PStr target)])))
       (\<lambda>e. returnA [(''found'', PBool False), (''y'', PInt 0), (''target'', PStr target), (''error'', PStr (exn_msg e))]))"

text \<open>
  \<open>name_template.format(i=i)\<close> for templates whose fields are \<open>i\<close> with an optional width, as the docstring
  offers; any other field raises.
\<close>

definition format_field :: "nat \<Rightarrow> string \<Rightarrow> exn + string" where
  "format_field i field =
     (let (name, spec) = (case split_once '':'' field of Some (n, s) \<Rightarrow> (n, s) | None \<Rightarrow> (field, []));
          width = (if spec \<noteq> [] \<and> last spec = CHR ''d'' then butlast spec else spec) in
      if name \<noteq> ''i'' then (if name = [] \<or> list_all is_digit name
          then Inl (Exn ''IndexError'' ''Replacement index 0 out of range for positional args tuple'')
          else Inl (Exn ''KeyError'' (repr_str name)))
      else if \<not> list_all is_digit width then Inl (Exn ''ValueError'' ''Invalid format specifier'')
      else if width \<noteq> [] \<and> hd width = CHR ''0'' then Inr (pad_nat (read_nat width) i)
      else Inr (replicate (read_nat width - length (show_nat i)) (CHR 0x20) @ show_nat i))"

fun format_index :: "nat \<Rightarrow> nat \<Rightarrow> string \<Rightarrow> exn + string" where
  "format_index i 0 s = Inr []"
| "format_index i (Suc fuel) [] = Inr []"
| "format_index i (Suc fuel) (c # s) =
     (if c = CHR ''{'' then
        (if py_startswith s ''{'' then bindE (format_index i fuel (tl s)) (\<lambda>r. Inr (c # r))
         else if s = [] then Inl (Exn ''ValueError'' (''Single '' @ CHR 0x27 # ''{'' @ CHR 0x27 # '' encountered in format string''))
         else (case split_once ''}'' s of
             None \<Rightarrow> Inl (Exn ''ValueError'' (''expected '' @ CHR 0x27 # ''}'' @ CHR 0x27 # '' before end of string''))
           | Some (field, rest) \<Rightarrow> bindE (format_field i field) (\<lambda>x. bindE (format_index i fuel rest) (\<lambda>r. Inr (x @ r)))))
      else if c = CHR ''}'' then
        (if py_startswith s ''}'' then bindE (format_index i fuel (tl s)) (\<lambda>r. Inr (c # r))
         else Inl (Exn ''ValueError'' (''Single '' @ CHR 0x27 # ''}'' @ CHR 0x27 # '' encountered in format string'')))
      else bindE (format_index i fuel s) (\<lambda>r. Inr (c # r)))"

definition format_name :: "nat \<Rightarrow> string \<Rightarrow> exn + string" where
  "format_name i template = format_index i (length template) template"

text \<open>A visit of one link; the artifacts stored so far are kept when a later call raises.\<close>

definition visit_link ::
  "'w local \<Rightarrow> string \<Rightarrow> string option \<Rightarrow> bool \<Rightarrow> nat \<Rightarrow> pyval \<times> pyval \<Rightarrow> 'w \<Rightarrow> (pydict \<times> pydict list) \<times> 'w" where
  "visit_link s template folder full i link w0 =
     (let pg = ls_page s; (url, title) = link; failed = (\<lambda>e. [(''url'', url), (''error'', PStr (exn_msg e))]) in
      case bindA (liftE (field_str url)) (\<lambda>u. bindA (pg_goto pg u) (\<lambda>_. bindA (pg_wait pg 300) (\<lambda>_. bindA (liftE (format_name i template)) (\<lambda>name.
             local_screenshot s name full folder)))) w0 of
        (Inl e, w) \<Rightarrow> ((failed e, []), w)
      | (Inr art, w) \<Rightarrow> (case build_snapshot pg w of
            (Inl e, w') \<Rightarrow> ((failed e, [art]), w')
          | (Inr snap, w') \<Rightarrow>
              (([(''url'', url), (''title'', title), (''page_url'', dget snap ''url''), (''page_title'', dget snap ''title''),
                 (''inner_text'', case dget snap ''inner_text'' of PStr t \<Rightarrow> PStr (take 3000 t) | v \<Rightarrow> PStr []),
                 (''artifact_sha'', dget art ''sha256'')], [art]), w')))"

fun visit_links ::
  "'w local \<Rightarrow> string \<Rightarrow> string option \<Rightarrow> bool \<Rightarrow> nat \<Rightarrow> (pyval \<times> pyval) list \<Rightarrow> 'w \<Rightarrow> (pydict list \<times> pydict list) \<times> 'w" where
  "visit_links s template folder full i [] w = (([], []), w)"
| "visit_links s template folder full i (link # links) w =
     (case visit_link s template folder full i link w of ((entry, arts), w') \<Rightarrow>
        (case visit_links s template folder full (Suc i) links w' of ((entries, arts'), w'') \<Rightarrow>
           ((entry # entries, arts @ arts'), w'')))"

definition local_visit_each_link :: "'w local \<Rightarrow> string \<Rightarrow> int \<Rightarrow> string \<Rightarrow> string option \<Rightarrow> bool \<Rightarrow> ('w, pydict) act" where
  "local_visit_each_link s url_pattern limit template folder full =
     bindA (pg_links (ls_page s) url_pattern limit) (\<lambda>candidates w.
       (case visit_links s template folder full 0 candidates w of
          ((visited, artifacts), w1) \<Rightarrow>
            bindA (tryA (pg_goto (ls_page s) (pg_url (ls_page s) w)) (\<lambda>_. returnA ())) (\<lambda>_.
              returnA [(''visited'', PList (map PDict visited)), (''count'', PInt (int (length visited))),
                (''artifacts'', PList (map PDict artifacts))]) w1))"

definition MAX_CHUNKS :: int where "MAX_CHUNKS = 12"

definition chunk_count :: "int \<Rightarrow> int \<Rightarrow> int" where
  "chunk_count ph vh = min MAX_CHUNKS (max 1 ((ph + vh - 1) div vh))"

fun take_chunks :: "'w local \<Rightarrow> string \<Rightarrow> string option \<Rightarrow> int \<Rightarrow> nat \<Rightarrow> nat \<Rightarrow> ('w, pydict list) act" where
  "take_chunks s base folder vh i 0 = returnA []"
| "take_chunks s base folder vh i (Suc n) = (let pg = ls_page s in
     bindA (pg_run pg (''window.scrollTo(0, '' @ show_int (int i * vh) @ '');'')) (\<lambda>_. bindA (pg_wait pg 200) (\<lambda>_.
     bindA (pg_screenshot pg False) (\<lambda>png. bindA (put_png s png (base @ ''_chunk'' @ pad_nat 2 i @ ''.png'') folder) (\<lambda>art.
     bindA (take_chunks s base folder vh (Suc i) n) (\<lambda>arts. returnA (art # arts)))))))"

definition local_screenshot_chunks :: "'w local \<Rightarrow> string \<Rightarrow> string option \<Rightarrow> ('w, pydict list) act" where
  "local_screenshot_chunks s name folder = (let pg = ls_page s in
     bindA (pg_run pg ''window.scrollTo(0, 0);'') (\<lambda>_. bindA (pg_wait pg 200) (\<lambda>_. bindA (pg_size pg) (\<lambda>(ph, vh).
       if vh = 0 then raiseA (Exn ''ZeroDivisionError'' ''integer division or modulo by zero'')
       else take_chunks s (if py_endswith name ''.png'' then take (length name - 4) name else name) folder vh 0 (nat (chunk_count ph vh))))))"

definition local_extract :: "'w local \<Rightarrow> pydict \<Rightarrow> ('w, pydict) act" where
  "local_extract s schema w = bindA (pg_title (ls_page s)) (\<lambda>title. liftE (case dget_or schema ''properties'' (PDict []) of
       PDict props \<Rightarrow> Inr [(''url'', PStr (pg_url (ls_page s) w)), (''title'', PStr title), (''_schema_keys'', PList (map (PStr \<circ> fst) props))]
     | v \<Rightarrow> Inl (Exn ''AttributeError'' (CHR 0x27 # type_name v @ CHR 0x27 # '' object has no attribute '' @ repr_str ''keys'')))) w"

definition local_snapshot :: "'w local \<Rightarrow> ('w, pydict) act" where
  "local_snapshot s = build_snapshot (ls_page s)"

text \<open>\<open>mark_and_screenshot\<close>: the marks are kept even if they cannot be listed.\<close>

definition local_mark_and_screenshot :: "'w local \<Rightarrow> string \<Rightarrow> ('w, pydict \<times> pydict list) act" where
  "local_mark_and_screenshot s name =
     bindA (mark_page (ls_page s)) (\<lambda>marks. bindA (pg_screenshot (ls_page s) False) (\<lambda>png.
     bindA (put_png s png (png_name name) None) (\<lambda>art w.
       bindA (liftE (marks_to_list marks)) (\<lambda>ms. returnA (art, ms)) (ls_set_marks s marks w))))"

definition no_such_mark :: "int \<Rightarrow> exn" where
  "no_such_mark i = Exn ''ValueError'' (''no such mark: '' @ show_int i @ '' (did you call mark_and_screenshot first?)'')"

definition last_mark :: "'w local \<Rightarrow> int \<Rightarrow> 'w \<Rightarrow> mark option" where
  "last_mark s i w = (case ls_marks s w of None \<Rightarrow> None | Some marks \<Rightarrow> map_of marks (PInt i))"

definition local_click_mark :: "'w local \<Rightarrow> int \<Rightarrow> ('w, unit) act" where
  "local_click_mark s i w = (case last_mark s i w of
       None \<Rightarrow> raiseA (no_such_mark i) w
     | Some m \<Rightarrow> bindA (pg_mouse_click (ls_page s) (mk_x m + mk_w m div 2) (mk_y m + mk_h m div 2)) (\<lambda>_.
         tryA (pg_clear_overlay (ls_page s)) (\<lambda>_. returnA ())) w)"

definition local_type_mark :: "'w local \<Rightarrow> int \<Rightarrow> string \<Rightarrow> ('w, unit) act" where
  "local_type_mark s i v =
     bindA (local_click_mark s i) (\<lambda>_. bindA (\<lambda>w. tryA (pg_press (ls_page s) (if pg_has_browser (ls_page s) w then ''Meta+A'' else ''Control+A''))
       (\<lambda>_. returnA ()) w) (\<lambda>_. pg_keys (ls_page s) v))"

text \<open>
  The session as the tools see it. Call metadata and the search service are the tools' own; the tool
  leaves \<open>full_page\<close> of \<open>visit_each_link\<close> at its default.
\<close>

definition local_session :: "('w \<Rightarrow> call_meta) \<Rightarrow> ('w \<Rightarrow> string option) \<Rightarrow> (string \<Rightarrow> int \<Rightarrow> ('w, pydict) act) \<Rightarrow> 'w local \<Rightarrow> 'w session" where
  "local_session meta key serper s =
     \<lparr> s_meta = meta, s_goto = local_goto s, s_click = local_click s, s_type = local_type s, s_screenshot = local_screenshot s,
       s_scroll = local_scroll s, s_scroll_to = local_scroll_to s, s_screenshot_chunks = local_screenshot_chunks s,
       s_visit_each_link = (\<lambda>pat limit tpl folder. local_visit_each_link s pat limit tpl folder False),
       s_extract = local_extract s, s_snapshot = local_snapshot s, s_mark_and_screenshot = local_mark_and_screenshot s,
       s_click_mark = local_click_mark s, s_type_mark = local_type_mark s, s_serper_key = key, s_serper = serper \<rparr>"

section \<open>Lemmas\<close>

lemma chunk_count_bounds: "1 \<le> chunk_count ph vh" "chunk_count ph vh \<le> 12"
  by (simp_all add: chunk_count_def MAX_CHUNKS_def)

text \<open>The chunks are as many as it takes, up to the cap.\<close>

lemma chunk_count_fits:
  assumes "0 < vh"
  shows "(chunk_count ph vh - 1) * vh < max 1 ph" "ph \<le> MAX_CHUNKS * vh \<Longrightarrow> ph \<le> chunk_count ph vh * vh"
proof -
  let ?q = "(ph + vh - 1) div vh"
  have e: "?q * vh + (ph + vh - 1) mod vh = ph + vh - 1" by simp
  have d: "(?q + 1) * vh = ?q * vh + vh" by (simp add: distrib_right)
  have q: "?q * vh \<le> ph + vh - 1" "ph + vh - 1 < (?q + 1) * vh"
    using e pos_mod_bound [OF assms, of "ph + vh - 1"] pos_mod_sign [OF assms, of "ph + vh - 1"] unfolding d by linarith+
  have "chunk_count ph vh \<le> max 1 ?q" by (simp add: chunk_count_def)
  then have "(chunk_count ph vh - 1) * vh \<le> (max 1 ?q - 1) * vh" using assms by (intro mult_right_mono) auto
  also have "\<dots> < max 1 ph" using q(1) by (auto simp: max_def algebra_simps)
  finally show "(chunk_count ph vh - 1) * vh < max 1 ph" .
  assume small: "ph \<le> MAX_CHUNKS * vh"
  have "ph \<le> ?q * vh" using q(2) by (simp add: algebra_simps)
  also have "?q * vh \<le> max 1 ?q * vh" using assms by (intro mult_right_mono) auto
  finally show "ph \<le> chunk_count ph vh * vh" using small by (auto simp: chunk_count_def min_def)
qed

lemma put_png_name: "put_png s data name folder w = (Inr a, w') \<Longrightarrow> dget a ''name'' = PStr name"
  by (auto simp: put_png_def store_put_def Let_def artifact_dict_def)

lemma take_chunks_names:
  "take_chunks s base folder vh i n w = (Inr arts, w')
    \<Longrightarrow> map (\<lambda>a. dget a ''name'') arts = map (\<lambda>k. PStr (base @ ''_chunk'' @ pad_nat 2 k @ ''.png'')) [i..<i + n]"
proof (induction n arbitrary: i w arts)
  case 0
  then show ?case by simp
next
  case (Suc n)
  from Suc.prems obtain w1 art w2 rest where a: "put_png s (fst w1) (base @ ''_chunk'' @ pad_nat 2 i @ ''.png'') folder (snd w1) = (Inr art, w2)"
    "take_chunks s base folder vh (Suc i) n w2 = (Inr rest, w')" "arts = art # rest"
    by (auto simp: Let_def bindA_eq_Inr)
  have "[i..<i + Suc n] = i # [Suc i..<Suc i + n]" by (simp add: upt_conv_Cons)
  with Suc.IH [OF a(2)] put_png_name [OF a(1)] a(3) show ?case by simp
qed

lemma update_marks:
  "distinct (map fst acc) \<Longrightarrow> \<forall>(k, m)\<in>set acc. mk_id m = k
    \<Longrightarrow> distinct (map fst (foldl (\<lambda>marks m. AList.update (mk_id m) m marks) acc ms))
      \<and> (\<forall>(k, m)\<in>set (foldl (\<lambda>marks m. AList.update (mk_id m) m marks) acc ms). mk_id m = k)"
proof (induction ms arbitrary: acc)
  case (Cons m ms)
  have "set (AList.update (mk_id m) m acc) \<subseteq> insert (mk_id m, m) (set acc)" by (induction acc) auto
  with Cons.prems(2) have "\<forall>(k, x)\<in>set (AList.update (mk_id m) m acc). mk_id x = k" by auto
  moreover have "distinct (map fst (AList.update (mk_id m) m acc))" using Cons.prems(1) by (simp add: distinct_update)
  ultimately show ?case using Cons.IH by simp
qed simp

lemma mark_page_map:
  "mark_page pg w = (Inr marks, w') \<Longrightarrow> distinct (map fst marks) \<and> (\<forall>(k, m)\<in>set marks. mk_id m = k)"
  using update_marks [of "[]"] by (auto simp: mark_page_def bindA_eq_Inr)

lemma marks_listed:
  assumes "marks_to_list marks = Inr ms" shows "set ms = mark_dict ` set (map snd marks)" "length ms = length marks"
  using assms by (force simp: marks_to_list_def split: if_splits)+

lemma click_role_eq:
  assumes "\<And>r s w. pg_role_count pg r s w = (Inr (nr r s w), w)"
  shows "click_role pg roles s otherwise w =
    (case find (\<lambda>r. nr r s w = 1) roles of Some r \<Rightarrow> pg_role_click pg r s w | None \<Rightarrow> otherwise w)"
  by (induction roles) (simp_all add: bindA_def assms)

text \<open>A page that is three windows long, with two buttons and a link called Go, and two marks.\<close>

type_synonym demo_world = "fs \<times> mark_map option"

definition demo_page :: "demo_world page" where
  "demo_page = \<lparr> pg_url = (\<lambda>_. ''http://a''), pg_title = returnA ''T'', pg_goto = (\<lambda>_. returnA ()), pg_click = (\<lambda>_. returnA ()),
     pg_role_count = (\<lambda>r s. returnA (if r = ''button'' then 2 else if r = ''link'' then 1 else 0)),
     pg_role_click = (\<lambda>r s. raiseA (Exn ''clicked'' r)), pg_text_count = (\<lambda>_. returnA 3), pg_text_click = (\<lambda>_. returnA ()),
     pg_fill = (\<lambda>_ _. returnA ()), pg_screenshot = (\<lambda>_. returnA ''png''), pg_wait = (\<lambda>_. returnA ()), pg_run = (\<lambda>_. returnA ()),
     pg_scroll_info = returnA (0, 250, 100), pg_scroll_y = returnA 0, pg_size = returnA (250, 100),
     pg_selector_into_view = (\<lambda>_. returnA ()), pg_text_into_view = (\<lambda>_. returnA ()), pg_links = (\<lambda>_ _. returnA []),
     pg_body_text = returnA ''text'', pg_outline = returnA (PList []), pg_interactive = returnA (PList []), pg_times = returnA (PList []),
     pg_state = returnA (PDict []),
     pg_overlay = returnA [[(''mark_id'', PInt 1), (''x'', PInt 10), (''y'', PInt 20), (''w'', PInt 5), (''h'', PInt 4)],
       [(''mark_id'', PInt 0), (''x'', PInt 0), (''y'', PInt 0), (''w'', PInt 2), (''h'', PInt 2)]],
     pg_clear_overlay = returnA (), pg_mouse_click = (\<lambda>x y. raiseA (Exn (show_int x) (show_int y))), pg_press = (\<lambda>_. returnA ()),
     pg_keys = (\<lambda>_. returnA ()), pg_has_browser = (\<lambda>_. True) \<rparr>"

definition demo_local :: "demo_world local" where
  "demo_local = \<lparr> ls_page = demo_page, ls_files = fst, ls_store = (\<lambda>f w. (f, snd w)), ls_sha = demo_digest, ls_guess = (\<lambda>_. None),
     ls_can_link = True, ls_root = ''runs/r'', ls_clock = (\<lambda>_. ''t''), ls_sample = Some ''s'', ls_run = Some ''r'', ls_limiter = None,
     ls_marks = snd, ls_set_marks = (\<lambda>m w. (fst w, Some m)) \<rparr>"

lemma demo_simps: "ls_page demo_local = demo_page" "pg_screenshot demo_page full w = (Inr ''png'', w)"
  by (simp_all add: demo_local_def demo_page_def)

lemma put_png_returns: "\<exists>a w'. put_png s data name folder w = (Inr a, w')"
  by (simp add: put_png_def split: prod.splits)

section \<open>Properties\<close>

text \<open>
  A text is clicked only where it names one element. When counting matches does not change the page, a target
  that is no selector clicks the first role of button, link, menu item and tab with exactly one match, else the only
  element with that text, and otherwise raises without touching the page. Only one role needs to be unambiguous:
  two buttons and one link of the same name still end in a click on the link.
\<close>

theorem click_needs_unique_match:
  assumes "\<not> click_selector (py_strip t)"
    and "\<And>r s w. pg_role_count (ls_page l) r s w = (Inr (nr r s w), w)" "\<And>s w. pg_text_count (ls_page l) s w = (Inr (nt s w), w)"
  shows "local_click l t w =
    (let s = py_strip t; pg = ls_page l in
     case find (\<lambda>r. nr r s w = 1) [''button'', ''link'', ''menuitem'', ''tab''] of
       Some r \<Rightarrow> pg_role_click pg r s w
     | None \<Rightarrow> if nt s w = 1 then pg_text_click pg s w
         else (Inl (if nt s w = 0 then not_found s else ambiguous (nt s w) s), w))"
proof -
  have "local_click l t w = click_role (ls_page l) CLICK_ROLES (py_strip t) (bindA (pg_text_count (ls_page l) (py_strip t)) (\<lambda>n.
       if n = 1 then pg_text_click (ls_page l) (py_strip t)
       else raiseA (if n = 0 then not_found (py_strip t) else ambiguous n (py_strip t)))) w"
    using assms(1) by (simp add: local_click_def Let_def)
  then show ?thesis
    using click_role_eq [of "ls_page l" nr CLICK_ROLES "py_strip t", OF assms(2)] assms(3)
    by (simp add: CLICK_ROLES_def bindA_def Let_def del: click_role.simps find.simps cong: option.case_cong)
qed

theorem click_needs_unique_match_witness:
  "local_click demo_local '' Go '' (fs_empty, None) = (Inl (Exn ''clicked'' ''link''), (fs_empty, None))"
proof -
  have "\<not> click_selector (py_strip '' Go '')" by code_simp
  moreover have "py_strip '' Go '' = ''Go''" by code_simp
  ultimately show ?thesis
    using click_needs_unique_match [of "'' Go ''" demo_local "\<lambda>r _ _. if r = ''button'' then 2 else if r = ''link'' then 1 else 0" "\<lambda>_ _. 3"]
    by (simp add: demo_local_def demo_page_def Let_def)
qed

text \<open>
  A walk down a page takes between one and twelve screenshots, named in order, none of them below the page's
  end; if the page is not longer than twelve windows, every row of it is in one of them.
\<close>

theorem page_walk_bounds:
  assumes "local_screenshot_chunks s name folder w = (Inr arts, w')" "\<And>w. \<exists>w'. pg_size (ls_page s) w = (Inr (ph, vh), w')" "0 < vh"
  shows "1 \<le> length arts \<and> length arts \<le> 12 \<and> (int (length arts) - 1) * vh < max 1 ph
    \<and> (ph \<le> 12 * vh \<longrightarrow> (\<forall>y\<in>{0..<ph}. \<exists>i<length arts. int i * vh \<le> y \<and> y < (int i + 1) * vh))
    \<and> (\<exists>base. map (\<lambda>a. dget a ''name'') arts = map (\<lambda>i. PStr (base @ ''_chunk'' @ pad_nat 2 i @ ''.png'')) [0..<length arts])"
proof -
  obtain base w0 where c: "take_chunks s base folder vh 0 (nat (chunk_count ph vh)) w0 = (Inr arts, w')"
  proof -
    from assms(1) obtain w1 p v w2 where "pg_size (ls_page s) w1 = (Inr (p, v), w2)"
      "(if v = 0 then raiseA (Exn ''ZeroDivisionError'' ''integer division or modulo by zero'')
        else take_chunks s (if py_endswith name ''.png'' then take (length name - 4) name else name) folder v 0 (nat (chunk_count p v))) w2 = (Inr arts, w')"
      by (auto simp: local_screenshot_chunks_def Let_def bindA_eq_Inr)
    moreover have "p = ph \<and> v = vh" using assms(2) [of w1] calculation(1) by auto
    ultimately show thesis using that assms(3) by (auto split: if_splits)
  qed
  note names = take_chunks_names [OF c]
  have len: "int (length arts) = chunk_count ph vh"
    using arg_cong [OF names, of length] chunk_count_bounds(1) [of ph vh] by simp
  have "\<exists>i<length arts. int i * vh \<le> y \<and> y < (int i + 1) * vh" if "ph \<le> 12 * vh" "0 \<le> y" "y < ph" for y
  proof (intro exI [of _ "nat (y div vh)"] conjI)
    have q: "int (nat (y div vh)) = y div vh" using that(2) assms(3) by (simp add: pos_imp_zdiv_nonneg_iff)
    have "y < chunk_count ph vh * vh" using chunk_count_fits(2) [OF assms(3), of ph] that by (simp add: MAX_CHUNKS_def)
    moreover have "y div vh * vh \<le> y" using div_mult_mod_eq [of y vh] pos_mod_sign [OF assms(3), of y] by linarith
    ultimately have "y div vh < chunk_count ph vh" using assms(3) by (metis linorder_not_less mult_right_mono order_le_less_trans order_less_imp_le order_less_irrefl)
    then show "nat (y div vh) < length arts" using len q by linarith
    have d: "(y div vh + 1) * vh = y div vh * vh + vh" by (simp add: distrib_right)
    show "int (nat (y div vh)) * vh \<le> y" "y < (int (nat (y div vh)) + 1) * vh"
      using div_mult_mod_eq [of y vh] pos_mod_bound [OF assms(3), of y] pos_mod_sign [OF assms(3), of y]
      unfolding q d by linarith+
  qed
  moreover have "map (\<lambda>a. dget a ''name'') arts = map (\<lambda>i. PStr (base @ ''_chunk'' @ pad_nat 2 i @ ''.png'')) [0..<length arts]"
    using names len by (metis add_0 nat_int)
  ultimately show ?thesis
    using len chunk_count_bounds [of ph vh] chunk_count_fits(1) [OF assms(3), of ph] by auto
qed

theorem page_walk_bounds_witness:
  "\<exists>arts w'. local_screenshot_chunks demo_local ''p.png'' None (fs_empty, None) = (Inr arts, w')
     \<and> length arts \<le> 12 \<and> (\<forall>y\<in>{0..<250}. \<exists>i<length arts. int i * 100 \<le> y \<and> y < (int i + 1) * 100)"
proof -
  obtain r w' where r: "local_screenshot_chunks demo_local ''p.png'' None (fs_empty, None) = (r, w')"
    by (cases "local_screenshot_chunks demo_local ''p.png'' None (fs_empty, None)")
  moreover have "\<exists>arts. r = Inr arts"
  proof -
    have "\<exists>arts w'. take_chunks demo_local base folder vh i n w = (Inr arts, w')" for base folder vh i n w
    proof (induction n arbitrary: i w)
      case (Suc n)
      obtain a w1 where p: "put_png demo_local ''png'' (base @ ''_chunk'' @ pad_nat 2 i @ ''.png'') folder w = (Inr a, w1)"
        using put_png_returns [of demo_local] by blast
      obtain arts w2 where "take_chunks demo_local base folder vh (Suc i) n w1 = (Inr arts, w2)" using Suc by blast
      with p show ?case by (simp add: Let_def bindA_def demo_page_def demo_simps)
    qed simp
    then obtain arts w2 where "take_chunks demo_local ''p'' None 100 0 (nat (chunk_count 250 100)) (fs_empty, None) = (Inr arts, w2)" by blast
    moreover have "py_endswith ''p.png'' ''.png''" by code_simp
    ultimately show ?thesis using r by (auto simp: local_screenshot_chunks_def Let_def bindA_def demo_page_def demo_simps)
  qed
  ultimately obtain arts where a: "local_screenshot_chunks demo_local ''p.png'' None (fs_empty, None) = (Inr arts, w')" by blast
  have "pg_size (ls_page demo_local) w = (Inr (250, 100), w)" for w by (simp add: demo_local_def demo_page_def)
  then have "\<exists>w'. pg_size (ls_page demo_local) w = (Inr (250, 100), w')" for w by blast
  from page_walk_bounds [OF a this] a show ?thesis by auto
qed

text \<open>
  A click on a mark lands on the marked element. After an overlay that returned a list of marks, the ids of the
  list differ, clicking a listed id presses the mouse in the middle of that mark's box, inside it unless the box is
  empty, and an id that is not listed raises and leaves the page alone.
\<close>

theorem click_mark_hits_its_box:
  assumes "local_mark_and_screenshot s name w = (Inr (art, ms), w1)" "\<And>marks w. ls_marks s (ls_set_marks s marks w) = Some marks"
  shows "distinct (map (\<lambda>d. dget d ''mark_id'') ms)
    \<and> (\<forall>m\<in>set ms. \<forall>i. dget m ''mark_id'' = PInt i \<longrightarrow>
        (\<exists>x y wd ht. dget m ''x'' = PInt x \<and> dget m ''y'' = PInt y \<and> dget m ''w'' = PInt wd \<and> dget m ''h'' = PInt ht
          \<and> local_click_mark s i w1 = bindA (pg_mouse_click (ls_page s) (x + wd div 2) (y + ht div 2))
              (\<lambda>_. tryA (pg_clear_overlay (ls_page s)) (\<lambda>_. returnA ())) w1
          \<and> (0 < wd \<and> 0 < ht \<longrightarrow> x + wd div 2 \<in> {x..<x + wd} \<and> y + ht div 2 \<in> {y..<y + ht})))
    \<and> (\<forall>i. PInt i \<notin> set (map (\<lambda>d. dget d ''mark_id'') ms) \<longrightarrow> local_click_mark s i w1 = (Inl (no_such_mark i), w1))"
proof -
  from assms(1) obtain marks w0 w2 where m: "mark_page (ls_page s) w = (Inr marks, w0)" "w1 = ls_set_marks s marks w2" "marks_to_list marks = Inr ms"
    by (auto simp: local_mark_and_screenshot_def bindA_eq_Inr)
  note map = mark_page_map [OF m(1)] and listed = marks_listed [OF m(3)]
  have last: "last_mark s i w1 = map_of marks (PInt i)" for i by (simp add: last_mark_def m(2) assms(2))
  have ids: "dget (mark_dict x) ''mark_id'' = mk_id x" for x by (simp add: mark_dict_def)
  have set_ids: "set (map (\<lambda>d. dget d ''mark_id'') ms) = fst ` set marks"
    using map listed(1) by (force simp: ids image_image)
  have "distinct (map (\<lambda>d. dget d ''mark_id'') ms)"
  proof (rule card_distinct)
    have "card (fst ` set marks) = length marks" using map distinct_card [of "map fst marks"] by simp
    then show "card (set (map (\<lambda>d. dget d ''mark_id'') ms)) = length (map (\<lambda>d. dget d ''mark_id'') ms)"
      unfolding set_ids using listed(2) by simp
  qed
  moreover have "\<exists>x y wd ht. dget d ''x'' = PInt x \<and> dget d ''y'' = PInt y \<and> dget d ''w'' = PInt wd \<and> dget d ''h'' = PInt ht
          \<and> local_click_mark s i w1 = bindA (pg_mouse_click (ls_page s) (x + wd div 2) (y + ht div 2))
              (\<lambda>_. tryA (pg_clear_overlay (ls_page s)) (\<lambda>_. returnA ())) w1
          \<and> (0 < wd \<and> 0 < ht \<longrightarrow> x + wd div 2 \<in> {x..<x + wd} \<and> y + ht div 2 \<in> {y..<y + ht})"
    if d: "d \<in> set ms" "dget d ''mark_id'' = PInt i" for d i
  proof -
    obtain k x where x: "(k, x) \<in> set marks" "d = mark_dict x" using d(1) listed(1) by auto
    then have "k = PInt i" using map d(2) ids by auto
    then have "last_mark s i w1 = Some x" using x(1) map by (simp add: last)
    then show ?thesis
      by (intro exI [of _ "mk_x x"] exI [of _ "mk_y x"] exI [of _ "mk_w x"] exI [of _ "mk_h x"])
        (auto simp: x(2) mark_dict_def local_click_mark_def)
  qed
  moreover have "local_click_mark s i w1 = (Inl (no_such_mark i), w1)" if "PInt i \<notin> set (map (\<lambda>d. dget d ''mark_id'') ms)" for i
  proof -
    have "map_of marks (PInt i) = None" using that unfolding set_ids by (simp add: map_of_eq_None_iff)
    then show ?thesis by (simp add: local_click_mark_def last)
  qed
  ultimately show ?thesis by blast
qed

theorem click_mark_hits_its_box_witness:
  "\<exists>art ms w1. local_mark_and_screenshot demo_local ''m'' (fs_empty, None) = (Inr (art, ms), w1)
     \<and> distinct (map (\<lambda>d. dget d ''mark_id'') ms)"
proof -
  obtain marks ms where m: "mark_page demo_page (fs_empty, None) = (Inr marks, (fs_empty, None))" "marks_to_list marks = Inr ms"
    by (simp add: demo_page_def mark_page_def mark_of_def int_field_def getitem_def bindA_def marks_to_list_def py_int_def)
  obtain art w1 where p: "put_png demo_local ''png'' (png_name ''m'') None (fs_empty, None) = (Inr art, w1)"
    using put_png_returns [of demo_local] by blast
  have a: "local_mark_and_screenshot demo_local ''m'' (fs_empty, None) = (Inr (art, ms), ls_set_marks demo_local marks w1)"
    using m p by (simp add: local_mark_and_screenshot_def bindA_def demo_simps)
  have "ls_marks demo_local (ls_set_marks demo_local marks w) = Some marks" for marks w by (simp add: demo_local_def)
  from click_mark_hits_its_box [OF a this] a show ?thesis by blast
qed

end
