(* ===== verification/BrowserPool.thy ===== *)
theory BrowserPool
  imports LocalSession SampleRun
begin

text \<open>
  \<open>browser/pool.py\<close>, with \<open>from_browser\<close> and \<open>close\<close> of \<open>browser/local.py\<close>: one browser for all samples, a
  context and page for each, and a semaphore that bounds how many there are at a time. What Playwright answers
  to each call comes from outside. The coroutines that use the pool take turns at its awaits, so a history of the
  pool is a sequence of steps.
\<close>

text \<open>The answers of Playwright: the exception of a call, or \<open>None\<close> when it succeeds.\<close>

record answers =
  an_start :: "exn option"
  an_launch :: "exn option"
  an_context :: "exn option"
  an_stealth :: "exn option"
  an_page :: "exn option"
  an_close :: "exn option"
  an_browser_close :: "exn option"

text \<open>
  The pool: free permits of the semaphore, holders of one that have no session yet, open sessions, whether
  Playwright and the browser run, and the contexts open in the browser.
\<close>

record bpool =
  bp_concurrency :: nat
  bp_stealth :: bool
  bp_permits :: nat
  bp_opening :: nat
  bp_sessions :: nat
  bp_pw :: bool
  bp_browser :: bool
  bp_contexts :: nat

definition make_pool :: "int \<Rightarrow> bool \<Rightarrow> exn + bpool" where
  "make_pool concurrency stealth =
     (if concurrency < 1 then Inl (Exn ''ValueError'' ''concurrency must be >= 1'')
      else Inr \<lparr> bp_concurrency = nat concurrency, bp_stealth = stealth, bp_permits = nat concurrency, bp_opening = 0, bp_sessions = 0,
        bp_pw = False, bp_browser = False, bp_contexts = 0 \<rparr>)"

definition pool_setup :: "answers \<Rightarrow> bpool \<Rightarrow> (exn + unit) \<times> bpool" where
  "pool_setup a p =
     (if bp_browser p then (Inr (), p)
      else (case an_start a of
          Some e \<Rightarrow> (Inl e, p)
        | None \<Rightarrow> (case an_launch a of
              Some e \<Rightarrow> (Inl e, p\<lparr>bp_pw := True\<rparr>)
            | None \<Rightarrow> (Inr (), p\<lparr>bp_pw := True, bp_browser := True\<rparr>))))"

text \<open>A browser that is closed takes its contexts along.\<close>

definition pool_teardown :: "answers \<Rightarrow> bpool \<Rightarrow> bpool" where
  "pool_teardown a p =
     (let p = (if bp_browser p then p\<lparr>bp_browser := False, bp_contexts := (if an_browser_close a = None then 0 else bp_contexts p)\<rparr> else p)
      in p\<lparr>bp_pw := False\<rparr>)"

text \<open>\<open>from_browser\<close>: a context, the stealth script in it, a page of it.\<close>

definition from_browser :: "answers \<Rightarrow> bpool \<Rightarrow> (exn + unit) \<times> bpool" where
  "from_browser a p =
     (case an_context a of
        Some e \<Rightarrow> (Inl e, p)
      | None \<Rightarrow> (let p = p\<lparr>bp_contexts := Suc (bp_contexts p)\<rparr> in
          case (if bp_stealth p then an_stealth a else None) of
            Some e \<Rightarrow> (Inl e, p)
          | None \<Rightarrow> (case an_page a of Some e \<Rightarrow> (Inl e, p) | None \<Rightarrow> (Inr (), p))))"

text \<open>
  \<open>acquire\<close>: first the permit, \<open>None\<close> while there is none; then the session, and whatever raises on the way
  gives the permit back; at the end the session is closed, and the permit is given back even if that raises.
\<close>

definition take_permit :: "bpool \<Rightarrow> bpool option" where
  "take_permit p = (if bp_permits p = 0 then None else Some (p\<lparr>bp_permits := bp_permits p - 1, bp_opening := Suc (bp_opening p)\<rparr>))"

definition open_session :: "answers \<Rightarrow> bpool \<Rightarrow> (exn + unit) \<times> bpool" where
  "open_session a p0 =
     (case bindA (pool_setup a) (\<lambda>_. from_browser a) p0 of
        (r, p) \<Rightarrow> (let p = p\<lparr>bp_opening := bp_opening p - 1\<rparr> in
          case r of Inl e \<Rightarrow> (Inl e, p\<lparr>bp_permits := Suc (bp_permits p)\<rparr>) | Inr _ \<Rightarrow> (Inr (), p\<lparr>bp_sessions := Suc (bp_sessions p)\<rparr>)))"

definition leave_session :: "answers \<Rightarrow> bpool \<Rightarrow> bpool" where
  "leave_session a p = p\<lparr>bp_contexts := (if an_close a = None then bp_contexts p - 1 else bp_contexts p),
     bp_sessions := bp_sessions p - 1, bp_permits := Suc (bp_permits p)\<rparr>"

inductive pool_moves :: "bpool \<Rightarrow> bpool \<Rightarrow> bool" where
  move_permit: "take_permit p = Some p' \<Longrightarrow> pool_moves p p'"
| move_open: "0 < bp_opening p \<Longrightarrow> pool_moves p (snd (open_session a p))"
| move_leave: "0 < bp_sessions p \<Longrightarrow> pool_moves p (leave_session a p)"
| move_setup: "pool_moves p (snd (pool_setup a p))"
| move_teardown: "pool_moves p (pool_teardown a p)"

inductive_cases pool_movesE: "pool_moves p p'"

section \<open>Lemmas\<close>

definition permits_ok :: "bpool \<Rightarrow> bool" where
  "permits_ok p \<longleftrightarrow> bp_permits p + bp_opening p + bp_sessions p = bp_concurrency p"

lemma pool_setup_keeps:
  "permits_ok (snd (pool_setup a p)) = permits_ok p" "bp_concurrency (snd (pool_setup a p)) = bp_concurrency p"
  "bp_opening (snd (pool_setup a p)) = bp_opening p" "bp_sessions (snd (pool_setup a p)) = bp_sessions p"
  "bp_permits (snd (pool_setup a p)) = bp_permits p"
  by (simp_all add: pool_setup_def permits_ok_def split: option.splits)

lemma from_browser_keeps:
  "bp_concurrency (snd (from_browser a p)) = bp_concurrency p" "bp_opening (snd (from_browser a p)) = bp_opening p"
  "bp_sessions (snd (from_browser a p)) = bp_sessions p" "bp_permits (snd (from_browser a p)) = bp_permits p"
  by (simp_all add: from_browser_def Let_def split: option.splits)

lemma open_session_permits:
  assumes "0 < bp_opening p" "permits_ok p"
  shows "permits_ok (snd (open_session a p)) \<and> bp_concurrency (snd (open_session a p)) = bp_concurrency p"
proof -
  obtain r q where q: "bindA (pool_setup a) (\<lambda>_. from_browser a) p = (r, q)" by fastforce
  have "bp_concurrency q = bp_concurrency p \<and> bp_opening q = bp_opening p \<and> bp_sessions q = bp_sessions p \<and> bp_permits q = bp_permits p"
    using q pool_setup_keeps [of a p] from_browser_keeps [of a "snd (pool_setup a p)"]
    by (auto simp: bindA_def split: prod.splits sum.splits)
  with q assms show ?thesis by (auto simp: open_session_def permits_ok_def Let_def split: sum.splits)
qed

lemma pool_move_permits:
  assumes "pool_moves p p'" "permits_ok p" shows "permits_ok p' \<and> bp_concurrency p' = bp_concurrency p"
  using assms(1)
proof cases
  case (move_open a)
  with open_session_permits assms(2) show ?thesis by blast
next
  case (move_setup a)
  with assms(2) show ?thesis by (simp add: pool_setup_keeps)
qed (use assms(2) in \<open>auto simp: take_permit_def leave_session_def pool_teardown_def Let_def permits_ok_def split: if_splits\<close>)

lemma pool_moves_permits: "pool_moves\<^sup>*\<^sup>* p p' \<Longrightarrow> permits_ok p \<Longrightarrow> permits_ok p' \<and> bp_concurrency p' = bp_concurrency p"
  by (induction rule: rtranclp_induct) (auto dest: pool_move_permits)

text \<open>What the page gives, the session passes on as JSON values.\<close>

definition wf_page :: "'w page \<Rightarrow> bool" where
  "wf_page pg \<longleftrightarrow>
     (\<forall>w v w'. pg_outline pg w = (Inr v, w') \<longrightarrow> wf_pyval v) \<and> (\<forall>w v w'. pg_interactive pg w = (Inr v, w') \<longrightarrow> wf_pyval v)
   \<and> (\<forall>w v w'. pg_times pg w = (Inr v, w') \<longrightarrow> wf_pyval v) \<and> (\<forall>w v w'. pg_state pg w = (Inr v, w') \<longrightarrow> wf_pyval v)
   \<and> (\<forall>p l w vs w'. pg_links pg p l w = (Inr vs, w') \<longrightarrow> (\<forall>(u, t)\<in>set vs. wf_pyval u \<and> wf_pyval t))"

lemma wf_pageD:
  assumes "wf_page pg"
  shows "pg_outline pg w = (Inr v, w') \<Longrightarrow> wf_pyval v" "pg_interactive pg w = (Inr v, w') \<Longrightarrow> wf_pyval v"
    "pg_times pg w = (Inr v, w') \<Longrightarrow> wf_pyval v" "pg_state pg w = (Inr v, w') \<Longrightarrow> wf_pyval v"
    "pg_links pg p l w = (Inr vs, w') \<Longrightarrow> \<forall>(u, t)\<in>set vs. wf_pyval u \<and> wf_pyval t"
  by (insert assms, unfold wf_page_def) metis+

lemma wf_put_png: "put_png s data name folder w = (Inr a, w') \<Longrightarrow> wf_pyval (PDict a)"
  by (auto simp: put_png_def artifact_dict_def opt_pv_def split: prod.splits option.splits)

lemma wf_screenshot: "local_screenshot s name full folder w = (Inr a, w') \<Longrightarrow> wf_pyval (PDict a)"
  by (auto simp del: wf_pyval.simps simp: local_screenshot_def bindA_eq_Inr dest: wf_put_png)

lemma wf_chunks: "take_chunks s base folder vh i n w = (Inr as, w') \<Longrightarrow> \<forall>a\<in>set as. wf_pyval (PDict a)"
proof (induction n arbitrary: i w as)
  case (Suc n)
  then show ?case by (auto simp del: wf_pyval.simps simp: Let_def bindA_eq_Inr dest: wf_put_png)
qed simp

lemma tryA_eq_Inr: "tryA m h w = (Inr x, w') \<Longrightarrow> m w = (Inr x, w') \<or> (\<exists>e w1. m w = (Inl e, w1) \<and> h e w1 = (Inr x, w'))"
  by (auto simp: tryA_def split: prod.splits sum.splits)

lemma wf_tryA:
  "tryA m (\<lambda>_. returnA d) w = (Inr v, w') \<Longrightarrow> (\<And>w v w'. m w = (Inr v, w') \<Longrightarrow> wf_pyval v) \<Longrightarrow> wf_pyval d \<Longrightarrow> wf_pyval v"
  by (auto dest!: tryA_eq_Inr)

lemma wf_snapshot:
  assumes "wf_page pg" "build_snapshot pg w = (Inr a, w')"
  shows "wf_pyval (PDict a)"
proof -
  from assms(2) obtain title w1 tx outline w2 w3 interactive w4 times w5 state w6 where
    o: "tryA (pg_outline pg) (\<lambda>_. returnA (PList [])) w2 = (Inr outline, w3)"
    and i: "tryA (pg_interactive pg) (\<lambda>_. returnA (PList [])) w3 = (Inr interactive, w4)"
    and t: "tryA (pg_times pg) (\<lambda>_. returnA (PList [])) w4 = (Inr times, w5)"
    and s: "tryA (pg_state pg) (\<lambda>_. returnA (PDict [])) w5 = (Inr state, w6)"
    and a: "a = [(''url'', PStr (pg_url pg w1)), (''title'', PStr title), (''inner_text'', PStr (take INNER_TEXT_LIMIT tx)),
         (''inner_text_truncated'', PBool (INNER_TEXT_LIMIT \<le> length (take INNER_TEXT_LIMIT tx))), (''outline'', outline),
         (''interactive'', interactive), (''times'', times), (''page_state'', state)]"
    by (auto simp: build_snapshot_def Let_def bindA_eq_Inr)
  have "wf_pyval outline" by (rule wf_tryA [OF o]) (use wf_pageD [OF assms(1)] in simp_all)
  moreover have "wf_pyval interactive" by (rule wf_tryA [OF i]) (use wf_pageD [OF assms(1)] in simp_all)
  moreover have "wf_pyval times" by (rule wf_tryA [OF t]) (use wf_pageD [OF assms(1)] in simp_all)
  moreover have "wf_pyval state" by (rule wf_tryA [OF s]) (use wf_pageD [OF assms(1)] in simp_all)
  ultimately show ?thesis by (simp add: a)
qed

lemma dget_wf: "wf_pyval (PDict d) \<Longrightarrow> wf_pyval (dget d k)"
  by (rule wf_get)

lemma wf_visit_link:
  assumes "wf_page (ls_page s)" "wf_pyval (fst link)" "wf_pyval (snd link)"
    and "visit_link s template folder full i link w = ((entry, arts), w')"
  shows "wf_pyval (PDict entry) \<and> (\<forall>a\<in>set arts. wf_pyval (PDict a))"
proof -
  obtain url title where link: "link = (url, title)" by fastforce
  let ?m = "bindA (liftE (field_str url)) (\<lambda>u. bindA (pg_goto (ls_page s) u) (\<lambda>_. bindA (pg_wait (ls_page s) 300)
      (\<lambda>_. bindA (liftE (format_name i template)) (\<lambda>name. local_screenshot s name full folder)))) w"
  obtain r w1 where m: "?m = (r, w1)" by fastforce
  have art: "wf_pyval (PDict a)" if "r = Inr a" for a
    using m that by (auto simp del: wf_pyval.simps simp: bindA_eq_Inr dest: wf_screenshot)
  show ?thesis
  proof (cases r)
    case (Inl e)
    with assms(2,4) m link show ?thesis by (auto simp: visit_link_def Let_def)
  next
    case (Inr art')
    obtain q w2 where q: "build_snapshot (ls_page s) w1 = (q, w2)" by fastforce
    have cut: "wf_pyval (case v of PStr t \<Rightarrow> PStr (take 3000 t) | _ \<Rightarrow> PStr [])" for v by (cases v) simp_all
    show ?thesis
    proof (cases q)
      case (Inl e)
      with assms(2,4) m link Inr q art [OF Inr] show ?thesis by (auto simp: visit_link_def Let_def)
    next
      case snap: (Inr snap)
      with q wf_snapshot [OF assms(1)] have wf: "wf_pyval (PDict snap)" by blast
      have e: "entry = [(''url'', url), (''title'', title), (''page_url'', dget snap ''url''), (''page_title'', dget snap ''title''),
                 (''inner_text'', case dget snap ''inner_text'' of PStr t \<Rightarrow> PStr (take 3000 t) | v \<Rightarrow> PStr []),
                 (''artifact_sha'', dget art' ''sha256'')]" "arts = [art']"
        using assms(4) m link Inr q snap by (auto simp: visit_link_def Let_def)
      show ?thesis using assms(2,3) link dget_wf [OF wf] dget_wf [OF art [OF Inr]] art [OF Inr] cut by (simp add: e)
    qed
  qed
qed

lemma wf_visit_links:
  assumes "wf_page (ls_page s)"
  shows "\<forall>(u, t)\<in>set links. wf_pyval u \<and> wf_pyval t \<Longrightarrow> visit_links s template folder full i links w = ((entries, arts), w')
    \<Longrightarrow> (\<forall>e\<in>set entries. wf_pyval (PDict e)) \<and> (\<forall>a\<in>set arts. wf_pyval (PDict a))"
proof (induction links arbitrary: i w entries arts w')
  case (Cons link links)
  obtain e as w1 where v: "visit_link s template folder full i link w = ((e, as), w1)" by (metis prod.exhaust)
  obtain es as2 w2 where vs: "visit_links s template folder full (Suc i) links w1 = ((es, as2), w2)" by (metis prod.exhaust)
  have "wf_pyval (fst link)" "wf_pyval (snd link)" using Cons.prems(1) by (auto split: prod.splits)
  from wf_visit_link [OF assms this v] Cons.IH [OF _ vs] Cons.prems v vs show ?case by auto
qed simp

lemma wf_elems_dicts: "wf_elems (map PDict ds) \<longleftrightarrow> (\<forall>d\<in>set ds. wf_pyval (PDict d))"
  by (auto simp: wf_elems_set)

lemma local_session_wf: "wf_page (ls_page s) \<Longrightarrow> wf_session (local_session meta key serper s)"
proof -
  assume pg: "wf_page (ls_page s)"
  have visit: "wf_pyval (PDict a)" if v0: "local_visit_each_link s p l t g False w = (Inr a, w')" for p l t g w a w'
  proof -
    obtain links w1 where links: "pg_links (ls_page s) p l w = (Inr links, w1)" using v0 unfolding local_visit_each_link_def bindA_eq_Inr by blast
    obtain es as w2 where v: "visit_links s t g False 0 links w1 = ((es, as), w2)" by (metis prod.exhaust)
    have a: "a = [(''visited'', PList (map PDict es)), (''count'', PInt (int (length es))), (''artifacts'', PList (map PDict as))]"
      using v0 links v by (auto simp: local_visit_each_link_def bindA_eq_Inr)
    from wf_visit_links [OF pg wf_pageD(5) [OF pg links] v] show ?thesis by (simp add: a wf_elems_dicts)
  qed
  have chunks: "\<forall>a\<in>set as. wf_pyval (PDict a)" if "local_screenshot_chunks s n g w = (Inr as, w')" for n g w as w'
    using that by (auto simp del: wf_pyval.simps simp: local_screenshot_chunks_def Let_def bindA_eq_Inr split: if_splits dest: wf_chunks)
  show ?thesis
    by (auto simp del: wf_pyval.simps simp: wf_session_def local_session_def local_snapshot_def
        dest: wf_screenshot chunks visit wf_snapshot [OF pg])
qed

text \<open>Navigation by \<open>visit_each_link\<close> goes past the rate limiter.\<close>

lemma visit_link_unlimited: "visit_link (s\<lparr>ls_limiter := x\<rparr>) t f full i link = visit_link s t f full i link"
  by (rule ext) (simp add: visit_link_def local_screenshot_def put_png_def [abs_def])

lemma visit_links_unlimited: "visit_links (s\<lparr>ls_limiter := x\<rparr>) t f full i links w = visit_links s t f full i links w"
  by (induction links arbitrary: i w) (simp_all add: visit_link_unlimited split: prod.splits)

section \<open>Properties\<close>

text \<open>
  C20: the pool never runs more samples than its concurrency, and never loses a slot. In every history of the pool,
  whatever Playwright answers to any call, the free permits, the samples waiting for a session and the open sessions
  add up to the concurrency; an attempt to open a session that fails, like the end of a session, gives one permit back.
\<close>

theorem pool_bounds_sessions:
  assumes "make_pool n stealth = Inr p0" "pool_moves\<^sup>*\<^sup>* p0 p"
  shows "bp_permits p + bp_opening p + bp_sessions p = nat n
    \<and> bp_sessions p \<le> nat n
    \<and> (0 < bp_opening p \<longrightarrow> (case open_session a p of
         (Inl e, p') \<Rightarrow> bp_permits p' = Suc (bp_permits p) \<and> bp_sessions p' = bp_sessions p
       | (Inr _, p') \<Rightarrow> bp_permits p' = bp_permits p \<and> bp_sessions p' = Suc (bp_sessions p) \<and> bp_browser p'))
    \<and> bp_permits (leave_session a p) = Suc (bp_permits p)"
proof -
  have p0: "permits_ok p0" "bp_concurrency p0 = nat n" using assms(1) by (auto simp: make_pool_def permits_ok_def split: if_splits)
  with pool_moves_permits [OF assms(2)] have p: "bp_permits p + bp_opening p + bp_sessions p = nat n" by (simp add: permits_ok_def)
  obtain r q where q: "bindA (pool_setup a) (\<lambda>_. from_browser a) p = (r, q)" by fastforce
  have keeps: "bp_sessions q = bp_sessions p \<and> bp_permits q = bp_permits p"
    using q pool_setup_keeps [of a p] from_browser_keeps [of a "snd (pool_setup a p)"] by (auto simp: bindA_def split: prod.splits sum.splits)
  have running: "bp_browser q" if "r = Inr ()"
    using q that by (auto simp: bindA_def pool_setup_def from_browser_def Let_def split: if_splits option.splits)
  have "case open_session a p of
         (Inl e, p') \<Rightarrow> bp_permits p' = Suc (bp_permits p) \<and> bp_sessions p' = bp_sessions p
       | (Inr _, p') \<Rightarrow> bp_permits p' = bp_permits p \<and> bp_sessions p' = Suc (bp_sessions p) \<and> bp_browser p'"
    using q keeps running by (simp add: open_session_def Let_def split: sum.splits)
  with p show ?thesis by (simp add: leave_session_def)
qed

definition all_well :: answers where
  "all_well = \<lparr> an_start = None, an_launch = None, an_context = None, an_stealth = None, an_page = None, an_close = None, an_browser_close = None \<rparr>"

theorem pool_bounds_sessions_witness:
  "bp_sessions (snd (open_session all_well (the (take_permit (projr (make_pool 1 False)))))) \<le> 1"
proof -
  let ?p0 = "projr (make_pool 1 False)" and ?p1 = "the (take_permit (projr (make_pool 1 False)))"
  have p0: "make_pool 1 False = Inr ?p0" by (simp add: make_pool_def)
  have "pool_moves ?p0 ?p1" by (rule move_permit) (simp add: make_pool_def take_permit_def)
  moreover have "pool_moves ?p1 (snd (open_session all_well ?p1))" by (rule move_open) (simp add: make_pool_def take_permit_def)
  ultimately have "pool_moves\<^sup>*\<^sup>* ?p0 (snd (open_session all_well ?p1))" by auto
  from pool_bounds_sessions [OF p0 this] show ?thesis by simp
qed

text \<open>
  A sample whose page cannot be opened leaves its context behind. With the browser running, a session attempt
  that gets a context but no page gives its permit back and keeps the context open, so with one permit any
  number of contexts can pile up.
\<close>

theorem failed_page_leaks_context:
  assumes "bp_browser p" "an_context a = None" "an_page a = Some e" "0 < bp_permits p"
    and "step = (\<lambda>p. snd (open_session a (the (take_permit p))))"
  shows "bp_contexts ((step ^^ k) p) = bp_contexts p + k \<and> bp_permits ((step ^^ k) p) = bp_permits p
    \<and> bp_sessions ((step ^^ k) p) = bp_sessions p"
proof -
  have one: "bp_contexts (step q) = Suc (bp_contexts q) \<and> bp_permits (step q) = bp_permits q \<and> bp_sessions (step q) = bp_sessions q
      \<and> bp_browser (step q)" if "bp_browser q" "0 < bp_permits q" for q
    using that assms(2,3) by (auto simp: assms(5) take_permit_def open_session_def pool_setup_def from_browser_def bindA_def Let_def
        split: option.splits)
  have "bp_browser ((step ^^ k) p) \<and> bp_contexts ((step ^^ k) p) = bp_contexts p + k \<and> bp_permits ((step ^^ k) p) = bp_permits p
    \<and> bp_sessions ((step ^^ k) p) = bp_sessions p"
    by (induction k) (use assms(1,4) one in auto)
  then show ?thesis by blast
qed

theorem failed_page_leaks_context_witness:
  "bp_contexts (((\<lambda>p. snd (open_session (all_well\<lparr>an_page := Some (Exn ''Error'' ''crashed'')\<rparr>) (the (take_permit p)))) ^^ 5)
     ((projr (make_pool 1 False))\<lparr>bp_pw := True, bp_browser := True\<rparr>)) = 5"
  using failed_page_leaks_context [of "(projr (make_pool 1 False))\<lparr>bp_pw := True, bp_browser := True\<rparr>"
      "all_well\<lparr>an_page := Some (Exn ''Error'' ''crashed'')\<rparr>" "Exn ''Error'' ''crashed''" _ 5, OF _ _ _ _ refl]
  by (simp add: make_pool_def all_well_def)

text \<open>
  The sessions of the pool satisfy what a sample run relies on. If the scripts in the page return JSON values, every
  result that the local session hands to the tools is one, so a runtime whose pool opens such sessions meets the
  precondition under which each attempt is logged; and the links of a page are visited without asking the rate limiter.
\<close>

theorem local_sessions_are_json:
  assumes "wf_page (ls_page s)" "wf_replies (mo_extractor (rt_models rt))"
    and "rt_acquire rt = (\<lambda>sample storage w. (Inr (local_session meta key serper (s\<lparr>ls_sample := Some sample\<rparr>)), opened sample storage w))"
  shows "wf_runtime rt
    \<and> local_visit_each_link (s\<lparr>ls_limiter := lim\<rparr>) pat n tpl folder full = local_visit_each_link s pat n tpl folder full"
proof -
  have "wf_session (local_session meta key serper (s\<lparr>ls_sample := x\<rparr>))" for x by (rule local_session_wf) (simp add: assms(1))
  then have "wf_runtime rt" using assms(2) by (auto simp: wf_runtime_def assms(3))
  then show ?thesis by (simp add: local_visit_each_link_def visit_links_unlimited)
qed

theorem local_sessions_are_json_witness:
  "wf_runtime \<lparr> rt_run_id = ''r'', rt_task = [], rt_models = \<lparr> mo_planner = \<lambda>_ _. returnA [], mo_navigator = \<lambda>_ _. returnA [],
       mo_extractor = \<lambda>_ _. returnA [], mo_judge = \<lambda>_ _. returnA [], mo_vision = None \<rparr>,
     rt_deps = undefined, rt_sha = demo_sha, rt_v6 = (\<lambda>_. False), rt_crypto = xor_crypto, rt_master_key = None,
     rt_acquire = (\<lambda>sample _ w. (Inr (local_session (\<lambda>_. \<lparr>cm_call_id = ''c'', cm_elapsed_ms = 0, cm_timestamp = ''t''\<rparr>) (\<lambda>_. None)
        (\<lambda>_ _. returnA []) (demo_local\<lparr>ls_sample := Some sample\<rparr>)), w)),
     rt_release = id, rt_clock = (\<lambda>_. ''t''), rt_uuid = (\<lambda>_ n. show_nat n) \<rparr>"
  by (rule local_sessions_are_json [where s = demo_local and opened = "\<lambda>_ _ w. w", THEN conjunct1])
    (auto simp: wf_page_def wf_replies_def demo_local_def demo_page_def)

end
