(* ===== verification/Connections.thy ===== *)
theory Connections
  imports Complex_Main Credentials EvidenceApi
begin

text \<open>
  Signing in to a site by hand (\<open>api/routes/connections.py\<close>): the server opens a browser window, the user signs in
  there, and the session is sealed for later runs. The sessions in progress are kept in memory. A driver of
  Playwright and the window it opened are named by a number. Handlers run one at a time here: two that overlap on one
  session only close it twice, which changes nothing the second time.
\<close>

subsection \<open>Sessions in progress\<close>

definition SESSION_TTL_SECONDS :: rat where
  "SESSION_TTL_SECONDS = 15 * 60"

record login =
  lg_host :: string
  lg_url :: string
  lg_driver :: nat
  lg_created :: rat

record conns =
  cn_sessions :: "(string \<times> login) list"
  cn_drivers :: "nat set"
  cn_windows :: "nat set"
  cn_next :: nat
  cn_dir :: sealed_dir

text \<open>Whether closing the browser and stopping the driver succeed; a driver that stops takes its browser along.\<close>

record closing =
  cl_browser :: bool
  cl_stop :: bool

definition stop_driver :: "bool \<Rightarrow> nat \<Rightarrow> conns \<Rightarrow> conns" where
  "stop_driver stops d s = (if stops then s\<lparr> cn_drivers := cn_drivers s - {d}, cn_windows := cn_windows s - {d} \<rparr> else s)"

definition close_session :: "closing \<Rightarrow> string \<Rightarrow> login \<Rightarrow> conns \<Rightarrow> conns" where
  "close_session c sid l s =
     (let s = (if cl_browser c then s\<lparr> cn_windows := cn_windows s - {lg_driver l} \<rparr> else s);
          s = stop_driver (cl_stop c) (lg_driver l) s
      in s\<lparr> cn_sessions := AList.delete sid (cn_sessions s) \<rparr>)"

definition stale :: "rat \<Rightarrow> login \<Rightarrow> bool" where
  "stale now l \<longleftrightarrow> SESSION_TTL_SECONDS < now - lg_created l"

definition reap_stale :: "(string \<Rightarrow> closing) \<Rightarrow> rat \<Rightarrow> conns \<Rightarrow> conns" where
  "reap_stale c now s = fold (\<lambda>(sid, l). close_session (c sid) sid l) (filter (\<lambda>x. stale now (snd x)) (cn_sessions s)) s"

subsection \<open>Handlers\<close>

text \<open>The pages: the form with its context and status, the page of a session, a redirection.\<close>

datatype conn_page = Form_page pydict nat | Session_page pydict | Redirect string

text \<open>What Playwright answers while a window is opened.\<close>

record launch =
  la_start :: "exn option"
  la_launch :: "exn option"
  la_context :: "exn option"
  la_page :: "exn option"
  la_goto :: "exn option"
  la_stop :: bool

definition or_else :: "'a option \<Rightarrow> 'a option \<Rightarrow> 'a option" where
  "or_else x y = (case x of None \<Rightarrow> y | Some _ \<Rightarrow> x)"

definition launch_failure :: "launch \<Rightarrow> exn option" where
  "launch_failure a = or_else (la_launch a) (or_else (la_context a) (or_else (la_page a) (la_goto a)))"

definition conn_host :: "(string \<Rightarrow> bool) \<Rightarrow> string \<Rightarrow> string" where
  "conn_host v6 host = (case host_of v6 (PStr host) of
     Some h \<Rightarrow> if h = [] then py_lower (py_strip host) else h
   | None \<Rightarrow> py_lower (py_strip host))"

definition conn_error :: "string \<Rightarrow> nat \<Rightarrow> conn_page" where
  "conn_error msg code = Form_page [(''error'', PStr msg)] code"

definition conn_new_page :: conn_page where
  "conn_new_page = Form_page [] 200"

definition open_window :: "string \<Rightarrow> string \<Rightarrow> string \<Rightarrow> string \<Rightarrow> launch \<Rightarrow> rat \<Rightarrow> string \<Rightarrow> conns \<Rightarrow> conn_page \<times> conns" where
  "open_window host login_url resolved url a created uuid s =
     (let d = cn_next s; s = s\<lparr> cn_next := Suc d, cn_drivers := insert d (cn_drivers s) \<rparr>;
          s = (if la_launch a = None then s\<lparr> cn_windows := insert d (cn_windows s) \<rparr> else s); sid = take 12 uuid in
      case launch_failure a of
        Some e \<Rightarrow> (Form_page [(''error'', PStr (''failed to launch browser: '' @ exn_msg e)), (''host'', PStr host), (''login_url'', PStr login_url)] 500,
            stop_driver (la_stop a) d s)
      | None \<Rightarrow> (Redirect (''/ui/connections/session/'' @ sid),
            s\<lparr> cn_sessions := AList.update sid \<lparr> lg_host = resolved, lg_url = url, lg_driver = d, lg_created = created \<rparr> (cn_sessions s) \<rparr>))"

definition conn_new :: "(string \<Rightarrow> bool) \<Rightarrow> string \<Rightarrow> string \<Rightarrow> (string \<Rightarrow> closing) \<Rightarrow> launch \<Rightarrow> rat \<Rightarrow> rat \<Rightarrow> string \<Rightarrow> conns
    \<Rightarrow> (exn + conn_page) \<times> conns" where
  "conn_new v6 host login_url c a now created uuid s =
     (let resolved = conn_host v6 host; url = py_strip login_url in
      if resolved = [] then (Inr (conn_error ''host is required (e.g. linkedin.com)'' 400), s)
      else if url = [] then (Inr (conn_error ''login URL is required'' 400), s)
      else (let s = reap_stale c now s in
        case la_start a of
          Some e \<Rightarrow> (Inl e, s)
        | None \<Rightarrow> apfst Inr (open_window host login_url resolved url a created uuid s)))"

text \<open>The pages of a session; \<open>page.url\<close> may raise.\<close>

definition url_or_empty :: "exn + string \<Rightarrow> string" where
  "url_or_empty u = (case u of Inr s \<Rightarrow> s | Inl _ \<Rightarrow> [])"

definition conn_session_page :: "string \<Rightarrow> exn + string \<Rightarrow> conns \<Rightarrow> conn_page" where
  "conn_session_page sid u s = (case map_of (cn_sessions s) sid of
     None \<Rightarrow> conn_error ''login session not found (may have timed out)'' 404
   | Some l \<Rightarrow> Session_page [(''session_id'', PStr sid), (''host'', PStr (lg_host l)), (''login_url'', PStr (lg_url l)),
       (''current_url'', PStr (url_or_empty u))])"

definition conn_session_url :: "string \<Rightarrow> exn + string \<Rightarrow> conns \<Rightarrow> pydict http" where
  "conn_session_url sid u s = (case map_of (cn_sessions s) sid of
     None \<Rightarrow> HttpError 404 ''session not found''
   | Some l \<Rightarrow> Reply [(''url'', PStr (url_or_empty u)), (''host'', PStr (lg_host l))])"

text \<open>\<open>state\<close> is what \<open>context.storage_state()\<close> answers.\<close>

definition conn_save :: "crypto \<Rightarrow> string option \<Rightarrow> string \<Rightarrow> (string \<Rightarrow> closing) \<Rightarrow> exn + pydict \<Rightarrow> string \<Rightarrow> conns \<Rightarrow> conn_page \<times> conns" where
  "conn_save cr env nonce c state sid s = (case map_of (cn_sessions s) sid of
     None \<Rightarrow> (Redirect ''/ui/connections'', s)
   | Some l \<Rightarrow> (case state of
       Inl e \<Rightarrow> (conn_error (''failed to capture storage_state: '' @ exn_msg e) 500, close_session (c sid) sid l s)
     | Inr st \<Rightarrow> (case sealed_save cr env nonce (lg_host l) st (cn_dir s) of
         Inl e \<Rightarrow> (conn_error (''failed to seal state: '' @ exn_msg e @ '' - is ANDERA_MASTER_KEY set in .env?'') 500, close_session (c sid) sid l s)
       | Inr dir \<Rightarrow> (Redirect ''/ui/connections'', close_session (c sid) sid l (s\<lparr> cn_dir := dir \<rparr>)))))"

definition conn_cancel :: "(string \<Rightarrow> closing) \<Rightarrow> string \<Rightarrow> conns \<Rightarrow> conn_page \<times> conns" where
  "conn_cancel c sid s = (Redirect ''/ui/connections'', case map_of (cn_sessions s) sid of
     None \<Rightarrow> s
   | Some l \<Rightarrow> close_session (c sid) sid l s)"

definition list_connections :: "conns \<Rightarrow> pydict" where
  "list_connections s = [(''hosts'', PList (map PStr (list_hosts (cn_dir s))))]"

definition delete_connection :: "string \<Rightarrow> conns \<Rightarrow> pydict \<times> conns" where
  "delete_connection host s = (case sealed_delete host (cn_dir s) of (removed, dir) \<Rightarrow>
     ([(''host'', PStr host), (''removed'', PBool removed)], s\<lparr> cn_dir := dir \<rparr>))"

definition conn_delete_form :: "string \<Rightarrow> conns \<Rightarrow> conn_page \<times> conns" where
  "conn_delete_form host s = (Redirect ''/ui/connections'', snd (delete_connection host s))"

text \<open>
  Any sequence of requests. \<open>clean\<close> says that stopping a driver never fails and that new session ids are new.
\<close>

inductive conn_step :: "(string \<Rightarrow> bool) \<Rightarrow> crypto \<Rightarrow> bool \<Rightarrow> conns \<Rightarrow> conns \<Rightarrow> bool" for v6 cr clean where
  step_new: "(clean \<longrightarrow> (\<forall>i. cl_stop (c i)) \<and> la_stop a \<and> take 12 uuid \<notin> fst ` set (cn_sessions s))
    \<Longrightarrow> conn_new v6 host login_url c a now created uuid s = (r, s') \<Longrightarrow> conn_step v6 cr clean s s'"
| step_save: "(clean \<longrightarrow> (\<forall>i. cl_stop (c i))) \<Longrightarrow> conn_save cr env nonce c state sid s = (p, s') \<Longrightarrow> conn_step v6 cr clean s s'"
| step_cancel: "(clean \<longrightarrow> (\<forall>i. cl_stop (c i))) \<Longrightarrow> conn_cancel c sid s = (p, s') \<Longrightarrow> conn_step v6 cr clean s s'"
| step_delete: "delete_connection host s = (d, s') \<Longrightarrow> conn_step v6 cr clean s s'"
| step_delete_form: "conn_delete_form host s = (p, s') \<Longrightarrow> conn_step v6 cr clean s s'"

definition no_conns :: "sealed_dir \<Rightarrow> conns" where
  "no_conns dir = \<lparr> cn_sessions = [], cn_drivers = {}, cn_windows = {}, cn_next = 0, cn_dir = dir \<rparr>"

section \<open>Lemmas\<close>

text \<open>Every driver and window belongs to exactly one session.\<close>

definition conn_ok :: "conns \<Rightarrow> bool" where
  "conn_ok s \<longleftrightarrow> distinct (map fst (cn_sessions s)) \<and> distinct (map (lg_driver \<circ> snd) (cn_sessions s))
     \<and> cn_drivers s = (lg_driver \<circ> snd) ` set (cn_sessions s) \<and> cn_windows s = cn_drivers s
     \<and> (\<forall>d\<in>cn_drivers s. d < cn_next s)"

lemma distinct_map_inj: "distinct (map f xs) \<Longrightarrow> x \<in> set xs \<Longrightarrow> y \<in> set xs \<Longrightarrow> f x = f y \<Longrightarrow> x = y"
  by (metis distinct_map inj_onD)

lemma delete_filter: "AList.delete k xs = filter (\<lambda>x. fst x \<noteq> k) xs"
  by (auto simp: AList.delete_eq intro: filter_cong)

lemma close_session_ok:
  assumes "conn_ok s" "(sid, l) \<in> set (cn_sessions s)" "cl_stop c"
  shows "conn_ok (close_session c sid l s)"
proof -
  let ?xs = "cn_sessions s" and ?ys = "AList.delete sid (cn_sessions s)"
  have d: "distinct (map fst ?xs)" "distinct (map (lg_driver \<circ> snd) ?xs)" using assms(1) by (simp_all add: conn_ok_def)
  have ys: "?ys = filter (\<lambda>x. fst x \<noteq> sid) ?xs" by (rule delete_filter)
  have "(lg_driver \<circ> snd) ` set ?ys = (lg_driver \<circ> snd) ` set ?xs - {lg_driver l}"
  proof -
    have "fst x = sid \<longleftrightarrow> (lg_driver \<circ> snd) x = lg_driver l" if "x \<in> set ?xs" for x
      using distinct_map_inj [OF d(1) that assms(2)] distinct_map_inj [OF d(2) that assms(2)] by fastforce
    then show ?thesis by (auto simp: ys)
  qed
  moreover have "distinct (map (lg_driver \<circ> snd) ?ys)" "distinct (map fst ?ys)" using d by (simp_all add: ys distinct_map_filter)
  ultimately show ?thesis
    using assms(1,3) unfolding conn_ok_def close_session_def stop_driver_def by auto
qed

lemma close_session_sessions [simp]: "cn_sessions (close_session c sid l s) = AList.delete sid (cn_sessions s)"
  by (simp add: close_session_def stop_driver_def Let_def)

lemma close_session_next [simp]: "cn_next (close_session c sid l s) = cn_next s" "cn_dir (close_session c sid l s) = cn_dir s"
  by (simp_all add: close_session_def stop_driver_def Let_def)

lemma reap_fold:
  "distinct (map fst xs) \<Longrightarrow> set xs \<subseteq> set (cn_sessions s) \<Longrightarrow>
   (let s' = fold (\<lambda>(sid, l). close_session (c sid) sid l) xs s in
    cn_sessions s' = filter (\<lambda>x. fst x \<notin> fst ` set xs) (cn_sessions s)
    \<and> cn_next s' = cn_next s \<and> cn_dir s' = cn_dir s \<and> (conn_ok s \<longrightarrow> (\<forall>i. cl_stop (c i)) \<longrightarrow> conn_ok s'))"
proof (induction xs arbitrary: s)
  case (Cons x xs)
  obtain sid l where x: "x = (sid, l)" by (cases x)
  let ?s = "close_session (c sid) sid l s"
  have "set xs \<subseteq> set (cn_sessions ?s)" using Cons.prems x by (force simp: delete_filter)
  note ih = Cons.IH [OF _ this, unfolded Let_def]
  have "cn_sessions (fold (\<lambda>(sid, l). close_session (c sid) sid l) xs ?s) = filter (\<lambda>y. fst y \<notin> fst ` set xs) (cn_sessions ?s)"
    using ih Cons.prems(1) by simp
  also have "\<dots> = filter (\<lambda>y. fst y \<notin> fst ` set (x # xs)) (cn_sessions s)"
    by (auto simp: delete_filter x intro: filter_cong)
  finally have "cn_sessions (fold (\<lambda>(sid, l). close_session (c sid) sid l) xs ?s) = filter (\<lambda>y. fst y \<notin> fst ` set (x # xs)) (cn_sessions s)" .
  moreover have "conn_ok ?s" if "conn_ok s" "\<forall>i. cl_stop (c i)"
    using close_session_ok that Cons.prems(2) x by simp
  ultimately show ?case using ih Cons.prems(1) x by (simp add: Let_def)
qed simp

lemma reap_effect:
  assumes "distinct (map fst (cn_sessions s))"
  shows "cn_sessions (reap_stale c now s) = filter (\<lambda>x. \<not> stale now (snd x)) (cn_sessions s)"
    "cn_next (reap_stale c now s) = cn_next s" "cn_dir (reap_stale c now s) = cn_dir s"
    "conn_ok s \<Longrightarrow> \<forall>i. cl_stop (c i) \<Longrightarrow> conn_ok (reap_stale c now s)"
proof -
  let ?xs = "filter (\<lambda>x. stale now (snd x)) (cn_sessions s)"
  have d: "distinct (map fst ?xs)" using assms by (simp add: distinct_map_filter)
  note r = reap_fold [OF d filter_is_subset, of c, folded reap_stale_def, unfolded Let_def]
  have "fst x \<in> fst ` set ?xs \<longleftrightarrow> stale now (snd x)" if "x \<in> set (cn_sessions s)" for x
    using distinct_map_inj [OF assms that] that by auto
  then have "filter (\<lambda>x. fst x \<notin> fst ` set ?xs) (cn_sessions s) = filter (\<lambda>x. \<not> stale now (snd x)) (cn_sessions s)"
    by (intro filter_cong) auto
  with r show "cn_sessions (reap_stale c now s) = filter (\<lambda>x. \<not> stale now (snd x)) (cn_sessions s)" by simp
  show "cn_next (reap_stale c now s) = cn_next s" "cn_dir (reap_stale c now s) = cn_dir s"
    "conn_ok s \<Longrightarrow> \<forall>i. cl_stop (c i) \<Longrightarrow> conn_ok (reap_stale c now s)" using r by auto
qed

lemma open_window_ok:
  assumes "conn_ok s" "la_stop a" "take 12 uuid \<notin> fst ` set (cn_sessions s)"
  shows "conn_ok (snd (open_window host login_url resolved url a created uuid s))"
proof -
  have "cn_next s \<notin> cn_drivers s" using assms(1) by (auto simp: conn_ok_def)
  then have new: "cn_next s \<notin> (lg_driver \<circ> snd) ` set (cn_sessions s)" using assms(1) by (simp add: conn_ok_def)
  have l: "la_launch a = None" if "launch_failure a = None"
    using that by (auto simp: launch_failure_def or_else_def split: option.split_asm)
  show ?thesis
    using assms new l update_new [OF assms(3)]
    by (auto simp: open_window_def stop_driver_def conn_ok_def Let_def less_Suc_eq split: option.split)
qed

lemma conn_new_ok:
  assumes "conn_ok s" "\<forall>i. cl_stop (c i)" "la_stop a" "take 12 uuid \<notin> fst ` set (cn_sessions s)"
  shows "conn_ok (snd (conn_new v6 host login_url c a now created uuid s))"
proof -
  have d: "distinct (map fst (cn_sessions s))" using assms(1) by (simp add: conn_ok_def)
  note r = reap_effect [OF d]
  have "take 12 uuid \<notin> fst ` set (cn_sessions (reap_stale c now s))" using assms(4) r(1) [of c now] by auto
  note w = open_window_ok [OF r(4) [OF assms(1,2)] assms(3) this, of host login_url "conn_host v6 host" "py_strip login_url" created]
  then show ?thesis
    using assms(1) r(4) [OF assms(1,2)] by (cases "la_start a") (simp_all add: conn_new_def Let_def)
qed

lemma conn_step_ok:
  assumes "conn_step v6 cr True s s'" "conn_ok s" shows "conn_ok s'"
  using assms
proof (induction rule: conn_step.induct)
  case (step_new c a uuid s host login_url now created r s')
  then show ?case using conn_new_ok [of s c a uuid v6 host login_url now created] by simp
next
  case (step_save c env nonce state sid s p s')
  have "conn_ok (s\<lparr> cn_dir := dir \<rparr>)" for dir using step_save.prems by (simp add: conn_ok_def)
  with step_save show ?case
    by (auto simp: conn_save_def intro!: close_session_ok dest!: map_of_SomeD split: option.split_asm sum.split_asm)
next
  case (step_cancel c sid s p s')
  then show ?case by (auto simp: conn_cancel_def intro!: close_session_ok dest!: map_of_SomeD split: option.split_asm)
qed (auto simp: conn_ok_def delete_connection_def conn_delete_form_def split_beta)

lemma conn_steps_ok: "(conn_step v6 cr True)\<^sup>*\<^sup>* s s' \<Longrightarrow> conn_ok s \<Longrightarrow> conn_ok s'"
  by (induction rule: rtranclp_induct) (auto intro: conn_step_ok)

lemma no_conns_ok: "conn_ok (no_conns dir)"
  by (simp add: conn_ok_def no_conns_def)

lemma conn_new_sessions:
  assumes "distinct (map fst (cn_sessions s))"
  shows "if conn_host v6 host = [] \<or> py_strip login_url = [] then snd (conn_new v6 host login_url c a now created uuid s) = s
    else cn_sessions (snd (conn_new v6 host login_url c a now created uuid s)) =
      (if la_start a = None \<and> launch_failure a = None
       then AList.update (take 12 uuid) \<lparr> lg_host = conn_host v6 host, lg_url = py_strip login_url,
           lg_driver = cn_next s, lg_created = created \<rparr> (filter (\<lambda>x. \<not> stale now (snd x)) (cn_sessions s))
       else filter (\<lambda>x. \<not> stale now (snd x)) (cn_sessions s))"
proof (cases "la_start a")
  case None
  then show ?thesis
    using reap_effect(1,2) [OF assms, of c now]
    by (cases "launch_failure a") (simp_all add: conn_new_def open_window_def stop_driver_def Let_def)
qed (use reap_effect(1) [OF assms, of c now] in \<open>simp add: conn_new_def Let_def\<close>)

lemma conn_step_distinct:
  assumes "conn_step v6 cr clean s s'" "distinct (map fst (cn_sessions s))" shows "distinct (map fst (cn_sessions s'))"
  using assms
proof (induction rule: conn_step.induct)
  case (step_new c a uuid s host login_url now created r s')
  then show ?case using conn_new_sessions [OF step_new.prems, of v6 host login_url c a now created uuid]
    by (auto simp: distinct_update distinct_map_filter split: if_split_asm)
next
  case (step_save c env nonce state sid s p s')
  then show ?case by (auto simp: conn_save_def distinct_delete split: option.split_asm sum.split_asm)
next
  case (step_cancel c sid s p s')
  then show ?case by (auto simp: conn_cancel_def distinct_delete split: option.split_asm)
qed (auto simp: delete_connection_def conn_delete_form_def split_beta)

lemma conn_steps_distinct: "(conn_step v6 cr clean)\<^sup>*\<^sup>* s s' \<Longrightarrow> distinct (map fst (cn_sessions s)) \<Longrightarrow> distinct (map fst (cn_sessions s'))"
  by (induction rule: rtranclp_induct) (auto intro: conn_step_distinct)

section \<open>Properties\<close>

text \<open>
  C33: no sign-in leaves a browser behind. Whatever is requested, and in whatever order windows fail to open, are
  saved, cancelled or time out: as long as drivers can be stopped, the windows and drivers that run are those of the
  sessions in progress, one each, and cancelling a session closes its window.
\<close>

theorem login_windows_are_accounted:
  assumes "(conn_step v6 cr True)\<^sup>*\<^sup>* (no_conns dir) s"
  shows "cn_windows s = cn_drivers s \<and> cn_drivers s = (lg_driver \<circ> snd) ` set (cn_sessions s)
    \<and> card (cn_windows s) = length (cn_sessions s)
    \<and> (\<forall>sid l c. map_of (cn_sessions s) sid = Some l \<and> (\<forall>i. cl_stop (c i))
        \<longrightarrow> lg_driver l \<notin> cn_windows (snd (conn_cancel c sid s)) \<and> map_of (cn_sessions (snd (conn_cancel c sid s))) sid = None)"
proof -
  have ok: "conn_ok s" using conn_steps_ok [OF assms no_conns_ok] .
  then have "card ((lg_driver \<circ> snd) ` set (cn_sessions s)) = length (cn_sessions s)"
    by (metis conn_ok_def distinct_card length_map list.set_map)
  moreover have "lg_driver l \<notin> cn_windows (snd (conn_cancel c sid s)) \<and> map_of (cn_sessions (snd (conn_cancel c sid s))) sid = None"
    if "map_of (cn_sessions s) sid = Some l" "\<forall>i. cl_stop (c i)" for sid l c
    using that by (simp add: conn_cancel_def close_session_def stop_driver_def Let_def delete_conv)
  ultimately show ?thesis using ok by (auto simp: conn_ok_def)
qed

definition demo_launch :: launch where
  "demo_launch = \<lparr> la_start = None, la_launch = None, la_context = None, la_page = None, la_goto = None, la_stop = True \<rparr>"

definition demo_closing :: "string \<Rightarrow> closing" where
  "demo_closing sid = \<lparr> cl_browser = True, cl_stop = True \<rparr>"

definition demo_conns :: conns where
  "demo_conns = snd (conn_new (\<lambda>_. False) ''https://A.example/x'' ''https://a.example/login'' demo_closing demo_launch 10 11 ''0123456789abcdef'' (no_conns []))"

lemma demo_conns_reached: "(conn_step (\<lambda>_. False) cr True)\<^sup>*\<^sup>* (no_conns []) demo_conns"
proof -
  have "conn_step (\<lambda>_. False) cr True (no_conns []) demo_conns"
    unfolding demo_conns_def
    by (rule step_new [where c = demo_closing and a = demo_launch, OF _ prod.collapse [symmetric]])
      (simp add: demo_closing_def demo_launch_def no_conns_def)
  then show ?thesis ..
qed

lemma demo_conns_sessions:
  "cn_sessions demo_conns = [(''0123456789ab'', \<lparr> lg_host = ''a.example'', lg_url = ''https://a.example/login'', lg_driver = 0, lg_created = 11 \<rparr>)]"
  by code_simp

theorem login_windows_are_accounted_witness: "card (cn_windows demo_conns) = 1"
  using login_windows_are_accounted [OF demo_conns_reached [of xor_crypto]] by (simp add: demo_conns_sessions)

text \<open>
  A forgotten sign-in waits for the next one. Sessions are only ever timed out when the form for a new one is
  sent with a host and an address: then every session older than fifteen minutes is closed and every younger one is
  kept, whether or not the new window opens. Saving or cancelling one session leaves all others, however old.
\<close>

theorem stale_logins_wait_for_next_form:
  assumes "(conn_step v6 cr clean)\<^sup>*\<^sup>* (no_conns dir) s" and "snd (conn_new v6 host login_url c a now created uuid s) = s'"
  shows "(if conn_host v6 host = [] \<or> py_strip login_url = [] then s' = s
      else (\<forall>sid l. sid \<noteq> take 12 uuid \<longrightarrow> (map_of (cn_sessions s') sid = Some l \<longleftrightarrow>
            map_of (cn_sessions s) sid = Some l \<and> now - lg_created l \<le> 900))
        \<and> (la_start a = None \<and> launch_failure a = None \<longrightarrow> map_of (cn_sessions s') (take 12 uuid) =
            Some \<lparr> lg_host = conn_host v6 host, lg_url = py_strip login_url, lg_driver = cn_next s, lg_created = created \<rparr>))
    \<and> (\<forall>sid old l env nonce state. map_of (cn_sessions s) old = Some l \<and> old \<noteq> sid
        \<longrightarrow> map_of (cn_sessions (snd (conn_save cr env nonce c state sid s))) old = Some l
          \<and> map_of (cn_sessions (snd (conn_cancel c sid s))) old = Some l)"
proof -
  have d: "distinct (map fst (cn_sessions s))" using conn_steps_distinct [OF assms(1)] by (simp add: no_conns_def)
  have f: "map_of (filter (\<lambda>x. \<not> stale now (snd x)) (cn_sessions s)) sid = Some l
      \<longleftrightarrow> map_of (cn_sessions s) sid = Some l \<and> now - lg_created l \<le> 900" for sid l
    using d by (auto simp: map_of_eq_Some_iff distinct_map_filter stale_def SESSION_TTL_SECONDS_def)
  note n = conn_new_sessions [OF d, of v6 host login_url c a now created uuid, unfolded assms(2)]
  have new: "if conn_host v6 host = [] \<or> py_strip login_url = [] then s' = s
      else (\<forall>sid l. sid \<noteq> take 12 uuid \<longrightarrow> (map_of (cn_sessions s') sid = Some l \<longleftrightarrow>
            map_of (cn_sessions s) sid = Some l \<and> now - lg_created l \<le> 900))
        \<and> (la_start a = None \<and> launch_failure a = None \<longrightarrow> map_of (cn_sessions s') (take 12 uuid) =
            Some \<lparr> lg_host = conn_host v6 host, lg_url = py_strip login_url, lg_driver = cn_next s, lg_created = created \<rparr>)"
  proof (cases "conn_host v6 host = [] \<or> py_strip login_url = []")
    case False
    then show ?thesis using n by (cases "la_start a = None \<and> launch_failure a = None") (auto simp: update_conv f)
  qed (use n in simp)
  have "map_of (cn_sessions (snd (conn_save cr env nonce c state sid s))) old = Some l
      \<and> map_of (cn_sessions (snd (conn_cancel c sid s))) old = Some l"
    if o: "map_of (cn_sessions s) old = Some l" "old \<noteq> sid" for sid old l env nonce state
    using o by (auto simp: conn_save_def conn_cancel_def delete_conv split: option.split sum.split)
  with new show ?thesis by blast
qed

theorem stale_logins_wait_for_next_form_witness:
  "map_of (cn_sessions (snd (conn_new (\<lambda>_. False) ''b.example'' ''https://b.example'' demo_closing demo_launch 912 913 ''fedcba9876543210'' demo_conns)))
     ''0123456789ab'' = None
   \<and> map_of (cn_sessions (snd (conn_cancel demo_closing ''other'' demo_conns))) ''0123456789ab'' \<noteq> None"
proof -
  note p = stale_logins_wait_for_next_form [OF demo_conns_reached [of xor_crypto] refl]
  have n: "\<not> (conn_host (\<lambda>_. False) ''b.example'' = [] \<or> py_strip ''https://b.example'' = [])"
    "take 12 ''fedcba9876543210'' = ''fedcba987654''" by code_simp+
  note q = p [of "''b.example''" "''https://b.example''" demo_closing demo_launch 912 913 "''fedcba9876543210''", unfolded if_not_P [OF n(1)] n(2)]
  have m: "map_of (cn_sessions demo_conns) ''0123456789ab'' = Some \<lparr> lg_host = ''a.example'', lg_url = ''https://a.example/login'', lg_driver = 0, lg_created = 11 \<rparr>"
    by (simp add: demo_conns_sessions)
  have "map_of (cn_sessions (snd (conn_cancel demo_closing ''other'' demo_conns))) ''0123456789ab'' \<noteq> None"
    using q [THEN conjunct2, rule_format, of "''0123456789ab''" _ "''other''"] m by simp
  moreover have "map_of (cn_sessions (snd (conn_new (\<lambda>_. False) ''b.example'' ''https://b.example'' demo_closing demo_launch 912 913 ''fedcba9876543210'' demo_conns)))
     ''0123456789ab'' \<noteq> Some l" for l
    using q [THEN conjunct1, THEN conjunct1, rule_format, of "''0123456789ab''" l] m by auto
  ultimately show ?thesis by (metis option.exhaust)
qed

text \<open>
  A saved sign-in is sealed. Saving an open session with a master key set stores the browser's state so that it
  loads back for the host the form named, leaves the other hosts alone and ends the session; if the state cannot be
  captured or sealed the answer is an error page, the store is as before and the session ends all the same.
\<close>

theorem saved_login_is_sealed:
  assumes "good_crypto cr" "env = Some raw" "raw \<noteq> []" "length nonce = NONCE_BYTES" "wf_pyval (PDict st)"
    and "map_of (cn_sessions s) sid = Some l"
  shows "(let (p, s') = conn_save cr env nonce c (Inr st) sid s in
        p = Redirect ''/ui/connections'' \<and> map_of (cn_sessions s') sid = None
      \<and> sealed_load cr env (lg_host l) (cn_dir s') = Inr (PDict st)
      \<and> (\<forall>h. sealed_name h \<noteq> sealed_name (lg_host l) \<longrightarrow> sealed_load cr env h (cn_dir s') = sealed_load cr env h (cn_dir s)))
    \<and> (\<forall>e. let (p, s') = conn_save cr env nonce c (Inl e) sid s in
        (\<exists>msg. p = conn_error msg 500) \<and> map_of (cn_sessions s') sid = None \<and> cn_dir s' = cn_dir s)
    \<and> (let (p, s') = conn_save cr None nonce c (Inr st) sid s in
        (\<exists>msg. p = conn_error msg 500) \<and> map_of (cn_sessions s') sid = None \<and> cn_dir s' = cn_dir s)"
proof -
  obtain dir where dir: "sealed_save cr env nonce (lg_host l) st (cn_dir s) = Inr dir"
      "sealed_load cr env (lg_host l) dir = Inr (PDict st)"
      "\<forall>h. sealed_name h \<noteq> sealed_name (lg_host l) \<longrightarrow> sealed_load cr env h dir = sealed_load cr env h (cn_dir s)"
    using sealed_save_load [OF assms(1-5)] by blast
  have "sealed_save cr None nonce (lg_host l) st (cn_dir s) = Inl (Exn ''RuntimeError'' ''ANDERA_MASTER_KEY is not set.'')"
    by (simp add: sealed_save_def derive_key_def)
  then show ?thesis using dir assms(6) by (auto simp: conn_save_def delete_conv)
qed

theorem saved_login_is_sealed_witness:
  "sealed_load xor_crypto (Some ''key'') ''a.example''
     (cn_dir (snd (conn_save xor_crypto (Some ''key'') (replicate 12 (CHR ''n'')) demo_closing (Inr demo_cookies) ''0123456789ab'' demo_conns)))
   = Inr (PDict demo_cookies)"
proof -
  have m: "map_of (cn_sessions demo_conns) ''0123456789ab'' = Some \<lparr> lg_host = ''a.example'', lg_url = ''https://a.example/login'', lg_driver = 0, lg_created = 11 \<rparr>"
    by (simp add: demo_conns_sessions)
  have c: "''key'' \<noteq> []" "length (replicate 12 (CHR ''n'')) = NONCE_BYTES" "wf_pyval (PDict demo_cookies)"
    by (simp_all add: NONCE_BYTES_def demo_cookies_def)
  show ?thesis using saved_login_is_sealed [OF xor_crypto_good refl c m, of demo_closing] by (simp add: split_beta Let_def)
qed

end
