(* ===== verification/UiPages.thy ===== *)
theory UiPages
  imports RunsApi ProfileConfig Connections
begin

text \<open>
  The pages of the web interface (\<open>api/routes/ui.py\<close>): the form that creates a run, with its upload, and the pages
  that show runs and samples. A page is the name of its template with the values handed to it; the templates
  themselves are not modelled. The content of an upload is its text.
\<close>

subsection \<open>The form for a run\<close>

datatype ui_page = Template string pydict nat | Ui_redirect string nat

record run_form =
  rf_prompt :: string
  rf_repeat :: string
  rf_max_samples :: string
  rf_extract_fields :: string
  rf_multi_item :: string
  rf_file :: "(string \<times> string) option"

definition checkbox :: "string \<Rightarrow> bool" where
  "checkbox s \<longleftrightarrow> py_lower (py_strip s) \<in> {''true'', ''on'', ''1'', ''yes''}"

definition form_error :: "string \<Rightarrow> nat \<Rightarrow> ui_page" where
  "form_error msg code = Template ''new_run.html'' [(''error'', PStr msg)] code"

text \<open>Where an upload is kept: \<open>runs/<run_id>/input<ext>\<close>.\<close>

definition upload_path :: "string \<Rightarrow> string \<Rightarrow> string" where
  "upload_path run_id filename = ''runs/'' @ run_id @ ''/input'' @
     (let ext = py_path_suffix filename in if ext = [] then ''.csv'' else ext)"

text \<open>The upload, if one is asked for: \<open>None\<close> without, else its path and text.\<close>

definition form_upload :: "string \<Rightarrow> run_form \<Rightarrow> ui_page + (string \<times> string) option" where
  "form_upload run_id f = (if \<not> checkbox (rf_repeat f) then Inr None
     else (case rf_file f of
         None \<Rightarrow> Inl (form_error ''repeat mode requires an input file'' 400)
       | Some (filename, data) \<Rightarrow>
           if filename = [] then Inl (form_error ''repeat mode requires an input file'' 400)
           else if data = [] then Inl (form_error ''uploaded input file is empty'' 400)
           else Inr (Some (upload_path run_id filename, data))))"

definition form_request :: "string \<Rightarrow> run_form \<Rightarrow> int option \<Rightarrow> string option \<Rightarrow> run_request" where
  "form_request run_id f max_n path = \<lparr> rq_task_path = None, rq_prompt = Some (rf_prompt f), rq_input_path = path,
     rq_repeat = checkbox (rf_repeat f), rq_max_samples = max_n, rq_run_id = Some run_id,
     rq_extract_fields = (let s = py_strip (rf_extract_fields f) in if s = [] then None else Some s),
     rq_multi_item = checkbox (rf_multi_item f) \<rparr>"

definition with_upload :: "(string \<times> string) option \<Rightarrow> ('w, 'q) api_env \<Rightarrow> ('w, 'q) api_env" where
  "with_upload up e = (case up of None \<Rightarrow> e
     | Some (path, data) \<Rightarrow> e\<lparr> ae_file := (ae_file e)(path_str path := Some data) \<rparr>)"

definition create_run_from_form :: "('w, 'q) api_env \<Rightarrow> run_form \<Rightarrow> string \<Rightarrow> ('w, 'q) api \<Rightarrow> (exn + ui_page) \<times> ('w, 'q) api" where
  "create_run_from_form e f uuid a =
     (case (if py_strip (rf_max_samples f) = [] then Inr None else map_sum id Some (py_int (PStr (rf_max_samples f)))) of
        Inl x \<Rightarrow> (Inl x, a)
      | Inr max_n \<Rightarrow>
          (let run_id = ''run-'' @ take 8 uuid in
           case form_upload run_id f of
             Inl p \<Rightarrow> (Inr p, a)
           | Inr up \<Rightarrow> (case create_run (with_upload up e) (form_request run_id f max_n (map_option fst up)) a of
               (Inl x, a') \<Rightarrow> (Inl x, a')
             | (Inr (HttpError code msg), a') \<Rightarrow> (Inr (form_error msg code), a')
             | (Inr (Reply d), a') \<Rightarrow> (Inr (Ui_redirect (''/ui/runs/'' @ py_str (dget d ''run_id'')) 303), a'))))"

subsection \<open>Pages of runs\<close>

definition root_page :: ui_page where
  "root_page = Ui_redirect ''/ui/runs'' 302"

definition runs_page :: "string \<Rightarrow> (string \<times> string) list \<Rightarrow> ('w, 'q) api \<Rightarrow> ui_page" where
  "runs_page template runs a = Template template [(''runs'', PList (map PDict (list_recs runs a)))] 200"

definition run_detail_page :: "(string \<times> string) list \<Rightarrow> string \<Rightarrow> ('w, 'q) api \<Rightarrow> exn + ui_page http" where
  "run_detail_page runs r a = bindE (get_rec runs r a) (\<lambda>x. case x of
     None \<Rightarrow> Inr (HttpError 404 ''run not found'')
   | Some rec \<Rightarrow> Inr (Reply (Template ''run_detail.html'' [(''run'', PDict (public_dict rec))] 200)))"

definition samples_fragment :: "(string \<times> string) list \<Rightarrow> string \<Rightarrow> ('w, 'q) api \<Rightarrow> exn + ui_page http" where
  "samples_fragment runs r a = bindE (get_rec runs r a) (\<lambda>x. case x of
     None \<Rightarrow> Inr (HttpError 404 ''run not found'')
   | Some rec \<Rightarrow> Inr (Reply (Template ''samples_fragment.html'' [(''run'', PDict (public_dict rec)), (''samples'', rc_samples rec)] 200)))"

subsection \<open>The page of a sample\<close>

text \<open>What the manifest says: the data extracted for the sample, and the files of the whole run with their names.\<close>

fun sample_extracted :: "string \<Rightarrow> pyval list \<Rightarrow> exn + pyval" where
  "sample_extracted sid [] = Inr (PDict [])"
| "sample_extracted sid (s # ss) = bindE (attr_get s ''sample_id'') (\<lambda>v.
     if v = PStr sid then bindE (attr_get s ''extracted'') (\<lambda>x. Inr (or_empty x)) else sample_extracted sid ss)"

definition named_artifact :: "pyval \<Rightarrow> exn + pydict" where
  "named_artifact v = bindE (as_dict v) (\<lambda>a.
     if \<not> dhas a ''name'' \<and> truthy (dget a ''path'') then
       (case dget a ''path'' of
          PStr p \<Rightarrow> Inr (dset a ''name'' (PStr (last (split_char (CHR ''/'') p))))
        | w \<Rightarrow> Inl (Exn ''AttributeError'' (CHR 0x27 # type_name w @ CHR 0x27 # '' object has no attribute '' @ repr_str ''rsplit'')))
     else Inr a)"

text \<open>The loop appends until an entry raises.\<close>

fun named_artifacts :: "pyval list \<Rightarrow> pydict list" where
  "named_artifacts [] = []"
| "named_artifacts (v # vs) = (case named_artifact v of Inl _ \<Rightarrow> [] | Inr a \<Rightarrow> a # named_artifacts vs)"

definition manifest_view :: "string \<Rightarrow> string \<Rightarrow> pyval \<times> pydict list" where
  "manifest_view sid txt = (case json_loads txt of
     None \<Rightarrow> (PDict [], [])
   | Some m \<Rightarrow> (case bindE (attr_get_or m ''samples'' (PList [])) (\<lambda>v. bindE (py_iter v) (sample_extracted sid)) of
       Inl _ \<Rightarrow> (PDict [], [])
     | Inr x \<Rightarrow> (x, case bindE (attr_get m ''artifacts'') (\<lambda>v. py_iter (py_or v (PList []))) of
           Inl _ \<Rightarrow> []
         | Inr vs \<Rightarrow> named_artifacts vs)))"

definition sample_detail_page :: "(string \<Rightarrow> string option) \<Rightarrow> (string \<times> string) list \<Rightarrow> string \<Rightarrow> string \<Rightarrow> ('w, 'q) api \<Rightarrow> exn + ui_page http" where
  "sample_detail_page disk runs r sid a = bindE (get_rec runs r a) (\<lambda>x. case x of
     None \<Rightarrow> Inr (HttpError 404 ''run not found'')
   | Some rec \<Rightarrow> bindE (bindE (py_iter (rc_samples rec)) (first_sample sid)) (\<lambda>y. case y of
       None \<Rightarrow> Inr (HttpError 404 ''sample not found'')
     | Some s \<Rightarrow>
         (let (extracted, artifacts) = (case given (rc_run_root rec) of
               None \<Rightarrow> (PDict [], [])
             | Some dir \<Rightarrow> (case disk (path_str dir @ ''/RUN_MANIFEST.json'') of
                 None \<Rightarrow> (PDict [], [])
               | Some txt \<Rightarrow> manifest_view sid txt))
          in Inr (Reply (Template ''sample_detail.html'' [(''run_id'', PStr r), (''sample'', PDict s),
               (''extracted_json'', PStr (ascii_only (dumps_indent extracted))), (''artifacts'', PList (map PDict artifacts))] 200)))))"

definition connections_page :: "sealed_dir \<Rightarrow> ui_page" where
  "connections_page dir = Template ''connections.html'' [(''hosts'', PList (map PStr (list_hosts dir)))] 200"

section \<open>Lemmas\<close>

lemma lower_char_cases: "lower_char c = d \<Longrightarrow> c = d \<or> 97 \<le> (of_char d :: nat)"
  by (auto simp: lower_char_def Let_def split: if_split_asm)

lemma lower_csv:
  assumes "py_lower ext = ''.csv''"
  shows "\<exists>t. ext = CHR ''.'' # t \<and> t \<noteq> [] \<and> CHR ''.'' \<notin> set t \<and> CHR ''/'' \<notin> set t"
proof -
  obtain a b c d where e: "ext = [a, b, c, d]" "lower_char a = CHR ''.''" "lower_char b = CHR ''c''" "lower_char c = CHR ''s''" "lower_char d = CHR ''v''"
    using assms by (auto simp: py_lower_def map_eq_Cons_conv)
  have "a = CHR ''.''" using lower_char_cases [OF e(2)] by simp
  moreover have n: "x \<noteq> CHR ''.'' \<and> x \<noteq> CHR ''/''" if "lower_char x \<in> {CHR ''c'', CHR ''s'', CHR ''v''}" for x
    using that by (auto simp: lower_char_def)
  moreover note n [of b] n [of c] n [of d]
  ultimately show ?thesis using e by (intro exI [of _ "[b, c, d]"]) auto
qed

lemma rfind_last: "c \<notin> set t \<Longrightarrow> rfind_char c (a @ c # t) = Some (length a)"
proof (induction a)
  case Nil
  have "rfind_char c t = None" using Nil by (induction t) auto
  then show ?case by simp
qed simp

lemma upload_path_parts:
  assumes "py_lower ext = ''.csv''" "CHR ''/'' \<notin> set run" "run \<noteq> []" "run \<noteq> ''.''" "path = ''runs/'' @ run @ ''/input'' @ ext"
  shows "path_str path = path" "py_path_suffix path = ext"
proof -
  obtain t where t: "ext = CHR ''.'' # t" "t \<noteq> []" "CHR ''.'' \<notin> set t" "CHR ''/'' \<notin> set t" using lower_csv [OF assms(1)] by blast
  have "path = py_join ''/'' [''runs'', run, ''input'' @ ext]" by (simp add: assms(5))
  then have split: "split_char (CHR ''/'') path = [''runs'', run, ''input'' @ ext]"
    using split_char_join [of "[''runs'', run, ''input'' @ ext]" "CHR ''/''"] assms(2) t by simp
  show "path_str path = path"
    using assms(3,4) unfolding path_str_def split by (simp add: assms(5))
  have "py_path_name path = ''input'' @ ext" using assms(3,4) unfolding py_path_name_def split by simp
  then show "py_path_suffix path = ext"
    using rfind_last [OF t(3), of "''input''"] t by (simp add: py_path_suffix_def)
qed

lemma named_artifact_entry:
  assumes "good_path p"
  shows "named_artifact (artifact_entry sha f p) = Inr (dset (case artifact_entry sha f p of PDict d \<Rightarrow> d | _ \<Rightarrow> []) ''name'' (PStr (last p)))"
proof -
  have "py_join ''/'' p \<noteq> []" using assms by (cases p rule: remdups_adj.cases) (auto simp: good_path_def)
  moreover have "split_char (CHR ''/'') (py_join ''/'' p) = p" using assms by (intro split_char_join) (auto simp: good_path_def)
  ultimately show ?thesis by (simp add: named_artifact_def artifact_entry_def as_dict_def dhas_def dget_def)
qed

text \<open>An entry of the manifest with the name that the page shows.\<close>

definition shown_artifact :: "(string \<Rightarrow> string) \<Rightarrow> fs \<Rightarrow> fpath \<Rightarrow> pydict" where
  "shown_artifact sha f p = [(''sha256'', PStr (sha_file sha f p)), (''path'', PStr (py_join ''/'' p)),
     (''size'', PInt (int (case fs_read f p of None \<Rightarrow> 0 | Some c \<Rightarrow> length c))), (''name'', PStr (last p))]"

lemma named_artifacts_entries:
  "\<forall>p\<in>set ps. good_path p \<Longrightarrow> named_artifacts (map (artifact_entry sha f) ps) = map (shown_artifact sha f) ps"
  by (induction ps) (simp_all add: named_artifact_entry, simp add: artifact_entry_def shown_artifact_def dset_def)

lemma sample_extracted_find:
  "sample_extracted sid (map PDict ss) = Inr (case find (\<lambda>s. dget s ''sample_id'' = PStr sid) ss of
     None \<Rightarrow> PDict [] | Some s \<Rightarrow> or_empty (dget s ''extracted''))"
  by (induction ss) (simp_all add: attr_get_def)

section \<open>Properties\<close>

text \<open>
  An uploaded table becomes the samples of the run. Sending the form with a description, the box for repetition
  ticked and a CSV table (any name with that suffix, or none) creates a queued run whose samples are the rows of the
  table, column by column, cut to the number of samples that was typed in, and leads to the page of that run.
\<close>

theorem uploaded_table_becomes_samples:
  assumes "distinct names" "names \<noteq> []" "\<forall>r\<in>set rows. length r = length names"
    and "checkbox (rf_repeat f)" "rf_prompt f \<noteq> []" "rf_file f = Some (filename, concat (map csv_line (names # rows)))"
    and "filename \<noteq> []" "py_lower (py_path_suffix filename) \<in> {[], ''.csv''}" "CHR ''/'' \<notin> set uuid"
    and "max_n = (if py_strip (rf_max_samples f) = [] then None else int_of_text (rf_max_samples f))"
    and "py_strip (rf_max_samples f) = [] \<or> int_of_text (rf_max_samples f) \<noteq> None" "ae_profile e = Inr re"
    and "samples = run_rows max_n (map (\<lambda>r. PDict (zip names (map PStr r))) rows)"
  shows "\<exists>a' n. create_run_from_form e f uuid a = (Inr (Ui_redirect (''/ui/runs/run-'' @ take 8 uuid) 303), a')
    \<and> map_of (ap_registry a') (''run-'' @ take 8 uuid) = Some n \<and> fl_rows (ap_flow a' n) = samples
    \<and> rc_status (ap_recs a' n) = ''queued'' \<and> rc_total (ap_recs a' n) = PInt (int (length samples))"
proof -
  define run ext path data where "run = ''run-'' @ take 8 uuid"
    and "ext = (let x = py_path_suffix filename in if x = [] then ''.csv'' else x)"
    and "path = upload_path run filename" and "data = concat (map csv_line (names # rows))"
  have path: "path = ''runs/'' @ run @ ''/input'' @ ext" by (simp add: path_def upload_path_def ext_def)
  have ext: "py_lower ext = ''.csv''" using assms(8) by (auto simp: ext_def Let_def py_lower_def lower_char_def)
  have run: "CHR ''/'' \<notin> set run" "run \<noteq> []" "run \<noteq> ''.''" using assms(9) by (auto simp: run_def dest: in_set_takeD)
  note p = upload_path_parts [OF ext run path]
  have path_ne: "path \<noteq> []" by (simp add: path)
  have data: "data \<noteq> []" using assms(2) by (auto simp: data_def csv_line_def)
  have up: "form_upload run f = Inr (Some (path, data))"
    using assms(4,6,7) data by (simp add: form_upload_def path_def data_def)
  have rows: "request_rows (with_upload (Some (path, data)) e) (form_request run f max_n (Some path))
      = Reply (map (\<lambda>r. PDict (zip names (map PStr r))) rows)"
    using load_csv_written [OF assms(1-3), folded data_def] ext path_ne
    by (simp add: request_rows_def form_request_def given_def with_upload_def p load_inputs_def)
  have m: "(if py_strip (rf_max_samples f) = [] then Inr None else map_sum id Some (py_int (PStr (rf_max_samples f)))) = (Inr max_n :: exn + int option)"
    using assms(10,11) by (auto simp: py_int_def)
  obtain rt pool where o: "ae_open e run = (rt, pool)" by fastforce
  define d where "d = [(''task_id'', PStr (''adhoc-'' @ take 6 (ae_task_uuid e))), (''task_name'', PStr ''Ad-hoc task''), (''prompt'', PStr (rf_prompt f)),
    (''extract_schema'', PDict (schema_from_fields (rq_extract_fields (form_request run f max_n (Some path))) (checkbox (rf_multi_item f))))]"
  have task: "request_task (with_upload (Some (path, data)) e) (form_request run f max_n (Some path)) = Inr (Reply (PDict d))"
    using assms(5) by (simp add: request_task_def form_request_def given_def with_upload_def d_def)
  have env: "ae_profile (with_upload (Some (path, data)) e) = Inr re" "ae_open (with_upload (Some (path, data)) e) run = (rt, pool)"
    using assms(12) o by (simp_all add: with_upload_def)
  have q: "given (rq_run_id (form_request run f max_n (Some path))) = Some run" "rq_max_samples (form_request run f max_n (Some path)) = max_n"
    using run(2) by (simp_all add: form_request_def given_def)
  let ?fl = "\<lparr> fl_env = re, fl_rt = rt\<lparr> rt_run_id := run, rt_task := d \<rparr>, fl_rows = samples, fl_pool = pool \<rparr>"
  have c: "create_run (with_upload (Some (path, data)) e) (form_request run f max_n (Some path)) a
      = (Inr (Reply [(''run_id'', PStr run), (''status'', PStr ''queued'')]), register_run run (new_rec run d (length samples)) ?fl a)"
    unfolding create_run_def task rows env q by (simp add: bindH_def env q attr_get_def assms(13) Let_def)
  have "create_run_from_form e f uuid a = (Inr (Ui_redirect (''/ui/runs/'' @ run) 303), register_run run (new_rec run d (length samples)) ?fl a)"
    unfolding create_run_from_form_def m sum.case Let_def run_def [symmetric] up option.map fst_conv c by (simp add: dget_def)
  then show ?thesis
    by (intro exI [of _ "register_run run (new_rec run d (length samples)) ?fl a"] exI [of _ "ap_next a"])
      (simp add: run_def [symmetric] register_run_def new_rec_def update_conv Let_def, simp add: run_def)
qed

definition demo_form :: run_form where
  "demo_form = \<lparr> rf_prompt = ''look'', rf_repeat = ''on'', rf_max_samples = '' 1 '', rf_extract_fields = [], rf_multi_item = [],
     rf_file = Some (''table'', concat (map csv_line ([''url''] # [[''a''], [''b'']]))) \<rparr>"

theorem uploaded_table_becomes_samples_witness:
  "\<exists>a' n. create_run_from_form demo_api_env demo_form ''0123456789'' demo_api = (Inr (Ui_redirect ''/ui/runs/run-01234567'' 303), a')
     \<and> fl_rows (ap_flow a' n) = [PDict [(''url'', PStr ''a'')]]"
proof -
  have f: "rf_file demo_form = Some (''table'', concat (map csv_line ([''url''] # [[''a''], [''b'']])))" by (simp add: demo_form_def)
  have c: "checkbox (rf_repeat demo_form)" "rf_prompt demo_form \<noteq> []" "''table'' \<noteq> []"
    "py_lower (py_path_suffix ''table'') \<in> {[], ''.csv''}" "CHR ''/'' \<notin> set ''0123456789''" by code_simp+
  have m: "Some 1 = (if py_strip (rf_max_samples demo_form) = [] then None else int_of_text (rf_max_samples demo_form))"
    "py_strip (rf_max_samples demo_form) = [] \<or> int_of_text (rf_max_samples demo_form) \<noteq> None" by code_simp+
  have e: "ae_profile demo_api_env = Inr (demo_re\<lparr> re_distributed := True \<rparr>)" by (simp add: demo_api_env_def)
  have d: "distinct [''url'']" "[''url''] \<noteq> []" "\<forall>r\<in>set [[''a''], [''b'']]. length r = length [''url'']" by simp_all
  have r: "run_rows (Some 1) (map (\<lambda>r. PDict (zip [''url''] (map PStr r))) [[''a''], [''b'']]) = [PDict [(''url'', PStr ''a'')]]"
    by (simp add: run_rows_def py_take_def)
  from uploaded_table_becomes_samples [OF d c(1,2) f c(3-5) m e refl, of demo_api] show ?thesis unfolding r by auto
qed

text \<open>
  The page of a sample shows what the run recorded. For a finished run the page of a sample shows the sample, the
  data extracted for it and, for every sample alike, every file the run stored, each with its digest, its size and its
  name; a sample the run does not have is not found.
\<close>

theorem sample_page_shows_manifest:
  assumes "wf_manifest_args task samples pe" "g = write_manifest sha now run task samples audit_hash_opt pe f" "\<forall>p\<in>set (blob_paths f). good_path p"
    and "fs_read g manifest_path = Some txt" "map_of runs name = Some txt" "map_of (ap_registry a) name = None"
    and "disk (path_str (''runs/'' @ name) @ ''/RUN_MANIFEST.json'') = Some txt"
  shows "sample_detail_page disk runs name sid a = Inr (case find (\<lambda>s. dget s ''sample_id'' = PStr sid) samples of
      None \<Rightarrow> HttpError 404 ''sample not found''
    | Some s \<Rightarrow> Reply (Template ''sample_detail.html'' [(''run_id'', PStr name), (''sample'', PDict s),
        (''extracted_json'', PStr (ascii_only (dumps_indent (or_empty (dget s ''extracted''))))),
        (''artifacts'', PList (map (\<lambda>p. PDict (shown_artifact sha f p)) (blob_paths f)))] 200))"
proof -
  let ?m = "manifest_body sha now run task samples audit_hash_opt pe f"
  have text_eq: "txt = dumps_indent (PDict (dset ?m ''manifest_hash'' (PStr (manifest_digest sha ?m))))"
    using assms(2,4) by (simp add: write_manifest_def Let_def fs_read_written)
  obtain rec where h: "hydrate name txt = Inr rec" "rc_samples rec = PList (map PDict samples)" "rc_run_root rec = Some (''runs/'' @ name)"
    using hydrate_manifest [OF assms(1), where name = name and sha = sha and now = now and run = run and root = audit_hash_opt and f = f]
    unfolding text_eq by blast
  have g: "get_rec runs name a = Inr (Some rec)" using assms(5,6) h(1) by (simp add: get_rec_def)
  let ?d = "?m @ [(''manifest_hash'', PStr (manifest_digest sha ?m))]"
  have k: "dget_or ?d ''samples'' (PList []) = PList (map PDict samples)" "dget ?d ''artifacts'' = PList (map (artifact_entry sha f) (blob_paths f))"
    by (simp_all add: manifest_body_def Let_def dget_or_def dget_def)
  have "manifest_view sid txt = (case find (\<lambda>s. dget s ''sample_id'' = PStr sid) samples of None \<Rightarrow> PDict [] | Some s \<Rightarrow> or_empty (dget s ''extracted''),
      map (shown_artifact sha f) (blob_paths f))"
    unfolding manifest_view_def text_eq manifest_reread(1) [OF assms(1) refl]
    by (simp add: attr_get_or_def attr_get_def k py_iter_def sample_extracted_find named_artifacts_entries [OF assms(3)] py_or_def)
  then show ?thesis
    using assms(7) by (simp add: sample_detail_page_def g h py_iter_def first_sample_find given_def comp_def split: option.split)
qed

theorem sample_page_shows_manifest_witness:
  "\<exists>t. sample_detail_page (\<lambda>_. Some t) [(''r1'', t)] ''r1'' ''s1'' demo_api = Inr (Reply (Template ''sample_detail.html''
     [(''run_id'', PStr ''r1''), (''sample'', PDict [(''sample_id'', PStr ''s1''), (''extracted'', PDict [(''n'', PInt 1)])]),
      (''extracted_json'', PStr (ascii_only (dumps_indent (PDict [(''n'', PInt 1)])))), (''artifacts'', PList [])] 200))"
proof -
  let ?ss = "[[(''sample_id'', PStr ''s1''), (''extracted'', PDict [(''n'', PInt 1)])]]"
  let ?g = "write_manifest demo_digest ''t'' ''r1'' [] ?ss None None fs_empty"
  obtain t where t: "fs_read ?g manifest_path = Some t" by (simp add: write_manifest_def Let_def fs_read_written)
  have w: "wf_manifest_args [] ?ss None" "\<forall>p\<in>set (blob_paths fs_empty). good_path p" by code_simp+
  have b: "blob_paths fs_empty = []" by code_simp
  from sample_page_shows_manifest [OF w(1) refl w(2) t, of "[(''r1'', t)]" "''r1''" demo_api "\<lambda>_. Some t" "''s1''"]
  show ?thesis by (intro exI [of _ t]) (simp add: demo_api_def dget_def b or_empty_def py_or_def)
qed

end
