(* ===== verification/BrowserSessions.thy ===== *)
theory BrowserSessions
  imports BrowserPool
begin

text \<open>
  How a browser session is opened and closed outside the pool (\<open>create\<close> and \<open>close\<close> of \<open>browser/local.py\<close>) and what
  makes it look like a person's (\<open>browser/stealth.py\<close>). What Playwright answers to each call comes from outside, as in
  \<open>BrowserPool\<close>, and so does which element \<open>random.choice\<close> picks. The injected script is not modelled.
\<close>

subsection \<open>Stealth\<close>

definition USER_AGENTS :: "string list" where
  "USER_AGENTS = [''Mozilla/5.0 (Macintosh; Intel Mac OS X 10_15_7) AppleWebKit/537.36 (KHTML, like Gecko) Chrome/131.0.0.0 Safari/537.36'',
     ''Mozilla/5.0 (Windows NT 10.0; Win64; x64) AppleWebKit/537.36 (KHTML, like Gecko) Chrome/131.0.0.0 Safari/537.36'',
     ''Mozilla/5.0 (Macintosh; Intel Mac OS X 10_15_7) AppleWebKit/537.36 (KHTML, like Gecko) Chrome/130.0.0.0 Safari/537.36'']"

definition VIEWPORTS :: "(int \<times> int) list" where
  "VIEWPORTS = [(1440, 900), (1536, 960), (1366, 768), (1920, 1080)]"

definition choice :: "nat \<Rightarrow> 'a list \<Rightarrow> 'a" where
  "choice k xs = xs ! (k mod length xs)"

definition random_user_agent :: "nat \<Rightarrow> string" where
  "random_user_agent k = choice k USER_AGENTS"

definition random_viewport :: "nat \<Rightarrow> int \<times> int" where
  "random_viewport k = choice k VIEWPORTS"

text \<open>
  What is in place in a context: the pages that were patched, whether pages that open later will be, whether the own
  script is. \<open>apply_stealth\<close> prefers the library, if it is installed.
\<close>

record patched =
  px_pages :: "nat list"
  px_hook :: bool
  px_script :: bool

fun patch_pages :: "(nat \<Rightarrow> exn option) \<Rightarrow> nat list \<Rightarrow> patched \<Rightarrow> (exn + unit) \<times> patched" where
  "patch_pages fails [] c = (Inr (), c)"
| "patch_pages fails (p # ps) c = (case fails p of Some e \<Rightarrow> (Inl e, c) | None \<Rightarrow> patch_pages fails ps (c\<lparr> px_pages := px_pages c @ [p] \<rparr>))"

definition apply_stealth :: "bool \<Rightarrow> (nat \<Rightarrow> exn option) \<Rightarrow> nat list \<Rightarrow> exn option \<Rightarrow> patched \<Rightarrow> (exn + unit) \<times> patched" where
  "apply_stealth has_library fails pages script c =
     (if has_library then (case patch_pages fails pages c of (Inl e, c) \<Rightarrow> (Inl e, c) | (Inr _, c) \<Rightarrow> (Inr (), c\<lparr> px_hook := True \<rparr>))
      else (case script of Some e \<Rightarrow> (Inl e, c) | None \<Rightarrow> (Inr (), c\<lparr> px_script := True \<rparr>)))"

subsection \<open>Sessions that own their browser\<close>

text \<open>The arguments of \<open>new_context\<close>.\<close>

definition viewport_dict :: "int \<times> int \<Rightarrow> pyval" where
  "viewport_dict v = PDict [(''width'', PInt (fst v)), (''height'', PInt (snd v))]"

definition context_args :: "bool \<Rightarrow> (int \<times> int) option \<Rightarrow> pydict option \<Rightarrow> nat \<Rightarrow> nat \<Rightarrow> pydict" where
  "context_args stealth viewport storage k1 k2 =
     (if stealth then [(''user_agent'', PStr (random_user_agent k1)), (''viewport'', viewport_dict (random_viewport k2))]
      else (case viewport of Some v \<Rightarrow> [(''viewport'', viewport_dict v)] | None \<Rightarrow> []))
     @ (case storage of Some s \<Rightarrow> [(''storage_state'', PDict s)] | None \<Rightarrow> [])"

text \<open>What is running for a session.\<close>

record own_session =
  ow_driver :: bool
  ow_browser :: bool
  ow_context :: bool

definition nothing_open :: own_session where
  "nothing_open = \<lparr> ow_driver = False, ow_browser = False, ow_context = False \<rparr>"

definition create_session :: "bool \<Rightarrow> answers \<Rightarrow> own_session \<Rightarrow> (exn + unit) \<times> own_session" where
  "create_session stealth a s = (case an_start a of
     Some e \<Rightarrow> (Inl e, s)
   | None \<Rightarrow> (let s = s\<lparr> ow_driver := True \<rparr> in case an_launch a of
       Some e \<Rightarrow> (Inl e, s)
     | None \<Rightarrow> (let s = s\<lparr> ow_browser := True \<rparr> in case an_context a of
         Some e \<Rightarrow> (Inl e, s)
       | None \<Rightarrow> (let s = s\<lparr> ow_context := True \<rparr> in case (if stealth then an_stealth a else None) of
           Some e \<Rightarrow> (Inl e, s)
         | None \<Rightarrow> (case an_page a of Some e \<Rightarrow> (Inl e, s) | None \<Rightarrow> (Inr (), s))))))"

text \<open>\<open>close\<close>: every call is tried, whatever the others raise. A browser takes its contexts along, the driver its browser.\<close>

definition close_own :: "bool \<Rightarrow> exn option \<Rightarrow> exn option \<Rightarrow> exn option \<Rightarrow> own_session \<Rightarrow> own_session" where
  "close_own owns_browser context browser driver s =
     (let s = (if context = None then s\<lparr> ow_context := False \<rparr> else s) in
      if \<not> owns_browser then s
      else (let s = (if browser = None then s\<lparr> ow_browser := False, ow_context := False \<rparr> else s) in
            if driver = None then s\<lparr> ow_driver := False, ow_browser := False, ow_context := False \<rparr> else s))"

lemma choice_in: "xs \<noteq> [] \<Longrightarrow> choice k xs \<in> set xs"
  by (simp add: choice_def)

section \<open>Properties\<close>

text \<open>
  A session cleans up after itself only if it was built. Creating a session succeeds exactly if every call it makes
  does; a session that was built and is closed leaves nothing running as long as the driver stops, and one that
  shares its browser closes its context only. An attempt that fails after the driver was started leaves the driver running,
  and there is no session through which to stop it.
\<close>

theorem sessions_clean_up_only_once_built:
  assumes "create_session stealth a nothing_open = (r, s)"
  shows "(r = Inr () \<longleftrightarrow> an_start a = None \<and> an_launch a = None \<and> an_context a = None \<and> (stealth \<longrightarrow> an_stealth a = None) \<and> an_page a = None)
    \<and> (r = Inr () \<longrightarrow> ow_driver s \<and> ow_browser s \<and> ow_context s \<and> close_own True x y None s = nothing_open
        \<and> close_own False None y z s = s\<lparr> ow_context := False \<rparr>)
    \<and> (r \<noteq> Inr () \<and> an_start a = None \<longrightarrow> ow_driver s \<and> (an_launch a = None \<longrightarrow> ow_browser s))"
  using assms
  by (auto simp: create_session_def close_own_def nothing_open_def Let_def split: option.split_asm if_split_asm)

theorem sessions_clean_up_only_once_built_witness:
  "ow_driver (snd (create_session True (all_well\<lparr>an_context := Some (Exn ''Error'' ''crashed'')\<rparr>) nothing_open))"
proof -
  let ?a = "all_well\<lparr>an_context := Some (Exn ''Error'' ''crashed'')\<rparr>"
  obtain r s where s: "create_session True ?a nothing_open = (r, s)" by fastforce
  from sessions_clean_up_only_once_built [OF this] show ?thesis unfolding s by (auto simp: all_well_def)
qed

text \<open>
  With stealth on, which is the default, the viewport of the profile is never used. The arguments of the context do
  not depend on it; they name one of the three user agents and one of the four viewports, and the stored session is passed
  on in every case.
\<close>

theorem stealth_ignores_configured_viewport:
  "context_args True v storage k1 k2 = context_args True None storage k1 k2
    \<and> (\<exists>ua \<in> set USER_AGENTS. dget (context_args True v storage k1 k2) ''user_agent'' = PStr ua)
    \<and> (\<exists>vp \<in> set VIEWPORTS. dget (context_args True v storage k1 k2) ''viewport'' = viewport_dict vp)
    \<and> dget (context_args stealth v storage k1 k2) ''storage_state'' = (case storage of None \<Rightarrow> PNone | Some s \<Rightarrow> PDict s)"
proof -
  have "random_user_agent k1 \<in> set USER_AGENTS" "random_viewport k2 \<in> set VIEWPORTS"
    unfolding random_user_agent_def random_viewport_def by (rule choice_in, simp add: USER_AGENTS_def VIEWPORTS_def)+
  then show ?thesis by (auto simp: context_args_def split: option.split)
qed

end
