(* ===== verification/MockWorkday.thy ===== *)
theory MockWorkday
  imports UiPages BrowserSessions
begin

text \<open>
  The stand-in for a personnel system that the demonstrations browse (\<open>services/mock_workday/app.py\<close>) and the script
  that fills it (\<open>scripts/seed_mock_workday.py\<close>). The state is the file of employees and the directory of
  attachments, whose names have no slash. Routing, the templates and the server are not modelled.
\<close>

datatype mock_answer = Page ui_page | Html string nat | Plain string

record mock =
  mk_employees :: "string option"
  mk_attachments :: "(string \<times> string) list"

subsection \<open>Employees\<close>

definition BUILTIN_EMPLOYEES :: "pyval list" where
  "BUILTIN_EMPLOYEES =
     [PDict [(''employee_id'', PStr ''E-1001''), (''handle'', PStr ''octocat''), (''name'', PStr ''Octavius Cat''),
        (''title'', PStr ''Staff Engineer''), (''department'', PStr ''Platform''), (''email'', PStr ''octocat@example.com'')],
      PDict [(''employee_id'', PStr ''E-1002''), (''handle'', PStr ''defunkt''), (''name'', PStr ''Chris Wanstrath''),
        (''title'', PStr ''CEO''), (''department'', PStr ''Executive''), (''email'', PStr ''defunkt@example.com'')],
      PDict [(''employee_id'', PStr ''E-1003''), (''handle'', PStr ''mojombo''), (''name'', PStr ''Tom Preston-Werner''),
        (''title'', PStr ''Founder''), (''department'', PStr ''Engineering''), (''email'', PStr ''mojombo@example.com'')]]"

definition load_employees :: "mock \<Rightarrow> exn + pyval" where
  "load_employees m = (case mk_employees m of
     None \<Rightarrow> Inr (PList BUILTIN_EMPLOYEES)
   | Some s \<Rightarrow> (case json_loads (universal_newlines s) of None \<Rightarrow> Inl json_decode_error | Some v \<Rightarrow> Inr v))"

definition mock_root :: mock_answer where
  "mock_root = Page (Ui_redirect ''/directory'' 307)"

definition directory :: "mock \<Rightarrow> exn + mock_answer" where
  "directory m = bindE (load_employees m) (\<lambda>es. Inr (Page (Template ''directory.html'' [(''employees'', es)] 200)))"

text \<open>\<open>e[k]\<close> with a text key, and \<open>v.lower()\<close>.\<close>

definition subscript :: "pyval \<Rightarrow> string \<Rightarrow> exn + pyval" where
  "subscript e k = (case e of
     PDict d \<Rightarrow> getitem d k
   | PList xs \<Rightarrow> Inl (Exn ''TypeError'' ''list indices must be integers or slices, not str'')
   | PStr s \<Rightarrow> Inl (Exn ''TypeError'' (''string indices must be integers, not '' @ repr_str ''str''))
   | v \<Rightarrow> Inl (Exn ''TypeError'' (CHR 0x27 # type_name v @ CHR 0x27 # '' object is not subscriptable'')))"

definition lowered :: "pyval \<Rightarrow> exn + string" where
  "lowered v = (case v of PStr s \<Rightarrow> Inr (py_lower s)
     | _ \<Rightarrow> Inl (Exn ''AttributeError'' (CHR 0x27 # type_name v @ CHR 0x27 # '' object has no attribute '' @ repr_str ''lower'')))"

definition matches :: "string \<Rightarrow> pyval \<Rightarrow> exn + bool" where
  "matches qn e =
     bindE (bindE (subscript e ''name'') lowered) (\<lambda>name. if py_contains name qn then Inr True else
     bindE (bindE (attr_get_or e ''handle'' (PStr [])) lowered) (\<lambda>handle. if py_contains handle qn then Inr True else
     bindE (bindE (attr_get_or e ''employee_id'' (PStr [])) lowered) (\<lambda>eid. Inr (py_contains eid qn))))"

fun filterE :: "('a \<Rightarrow> exn + bool) \<Rightarrow> 'a list \<Rightarrow> exn + 'a list" where
  "filterE f [] = Inr []"
| "filterE f (x # xs) = bindE (f x) (\<lambda>b. bindE (filterE f xs) (\<lambda>ys. Inr (if b then x # ys else ys)))"

definition directory_search :: "string \<Rightarrow> mock \<Rightarrow> exn + mock_answer" where
  "directory_search q m = bindE (load_employees m) (\<lambda>all_emp.
     let qn = py_lower (py_strip q) in
     bindE (if qn \<noteq> [] then bindE (py_iter all_emp) (\<lambda>es. bindE (filterE (matches qn) es) (\<lambda>ms. Inr (PList ms))) else Inr all_emp)
       (\<lambda>ms. Inr (Page (Template ''search_results.html'' [(''query'', PStr q), (''matches'', ms)] 200))))"

fun find_person :: "string \<Rightarrow> pyval list \<Rightarrow> exn + mock_answer" where
  "find_person i [] = Inr (Html ''<h1>404 Not Found</h1>'' 404)"
| "find_person i (e # es) = bindE (subscript e ''employee_id'') (\<lambda>x.
     if x = PStr i then Inr (Page (Template ''person.html'' [(''employee'', e)] 200)) else find_person i es)"

definition person :: "string \<Rightarrow> mock \<Rightarrow> exn + mock_answer" where
  "person i m = bindE (load_employees m) (\<lambda>v. bindE (py_iter v) (find_person i))"

definition mock_health :: "mock \<Rightarrow> exn + pydict" where
  "mock_health m = bindE (load_employees m) (\<lambda>v. bindE (py_len v) (\<lambda>n. Inr [(''ok'', PBool True), (''employees'', PInt (int n))]))"

subsection \<open>Forms and attachments\<close>

definition form_new :: mock_answer where
  "form_new = Page (Template ''form_new.html'' [] 200)"

definition upper_char :: "char \<Rightarrow> char" where
  "upper_char c = (if c \<in> set ''abcdef'' then char_of (of_char c - 32 :: nat) else c)"

text \<open>\<open>token\<close> is \<open>secrets.token_hex(6)\<close>.\<close>

definition confirmation :: "string \<Rightarrow> string" where
  "confirmation token = ''CONF-'' @ map upper_char token"

definition attachment_text :: "string \<Rightarrow> string \<Rightarrow> string \<Rightarrow> string \<Rightarrow> string \<Rightarrow> string" where
  "attachment_text cid employee_id request_type start_date notes =
     ''Confirmation '' @ cid @ [LF] @ ''employee_id='' @ employee_id @ [LF] @ ''request_type='' @ request_type @ [LF]
     @ ''start_date='' @ start_date @ [LF] @ ''notes='' @ notes @ [LF]"

definition form_submit :: "string \<Rightarrow> string \<Rightarrow> string \<Rightarrow> string \<Rightarrow> string \<Rightarrow> mock \<Rightarrow> mock_answer \<times> mock" where
  "form_submit token employee_id request_type start_date notes m =
     (let cid = confirmation token; name = cid @ ''.txt'' in
      (Page (Template ''confirmation.html'' [(''confirmation_id'', PStr cid), (''employee_id'', PStr employee_id),
          (''request_type'', PStr request_type), (''attachment_url'', PStr (''/attachments/'' @ name))] 200),
       m\<lparr>mk_attachments := AList.update name (attachment_text cid employee_id request_type start_date notes) (mk_attachments m)\<rparr>))"

text \<open>The directory itself and its parent exist, but are no files; \<open>read_text\<close> reads all line ends as one.\<close>

definition attachment :: "string \<Rightarrow> mock \<Rightarrow> exn + mock_answer" where
  "attachment name m =
     (let safe = py_replace ''/'' [] (py_replace ''..'' [] name) in
      if safe \<in> set [[], ''.'', ''..''] then Inl (Exn ''IsADirectoryError'' safe)
      else (case map_of (mk_attachments m) safe of
          None \<Rightarrow> Inr (Html ''<h1>404</h1>'' 404)
        | Some s \<Rightarrow> Inr (Plain (universal_newlines s))))"

subsection \<open>The seed\<close>

definition FIRST :: "string list" where
  "FIRST = [''Alex'', ''Jordan'', ''Taylor'', ''Morgan'', ''Casey'', ''Riley'', ''Quinn'', ''Avery'', ''Jamie'', ''Parker'', ''Rowan'',
     ''Skyler'', ''Hayden'', ''Reese'', ''Emerson'', ''Finley'', ''Dakota'', ''Peyton'', ''Harper'', ''Kai'']"

definition LAST :: "string list" where
  "LAST = [''Nguyen'', ''Smith'', ''Patel'', ''Garcia'', ''Kim'', ''Brown'', ''Johnson'', ''Lopez'', ''Singh'', ''Martinez'', ''Chen'',
     ''Wilson'', ''Taylor'', ''Davis'', ''Lee'', ''Rodriguez'', ''Anderson'', ''Wright'', ''Walker'', ''Young'']"

definition TITLES :: "string list" where
  "TITLES = [''Software Engineer'', ''Staff Engineer'', ''Engineering Manager'', ''Product Manager'', ''Designer'', ''Data Scientist'',
     ''Security Engineer'', ''SRE'', ''Solutions Architect'', ''Director'', ''QA Engineer'']"

definition DEPTS :: "string list" where
  "DEPTS = [''Platform'', ''Infra'', ''Product'', ''Design'', ''Data'', ''Security'', ''Customer Success'', ''Sales'', ''Finance'', ''People'']"

text \<open>\<open>rng j\<close> is the number behind the \<open>j\<close>-th choice of the seeded generator; an employee takes four, in this order.\<close>

definition employee :: "(nat \<Rightarrow> nat) \<Rightarrow> nat \<Rightarrow> pydict" where
  "employee rng i =
     (let j = 4 * (i - 1); fn = choice (rng j) FIRST; ln = choice (rng (j + 1)) LAST in
      [(''employee_id'', PStr (''E-'' @ show_nat (1000 + i))), (''handle'', PStr (py_lower fn @ py_lower ln @ show_nat i)),
       (''name'', PStr (fn @ '' '' @ ln)), (''title'', PStr (choice (rng (j + 2)) TITLES)),
       (''department'', PStr (choice (rng (j + 3)) DEPTS)), (''email'', PStr (py_lower fn @ ''.'' @ py_lower ln @ ''@example.com''))])"

definition generate :: "(nat \<Rightarrow> nat) \<Rightarrow> nat \<Rightarrow> pyval list" where
  "generate rng n = map (\<lambda>i. PDict (employee rng i)) [1..<Suc n]"

definition seed_main :: "(nat \<Rightarrow> nat) \<Rightarrow> mock \<Rightarrow> mock" where
  "seed_main rng m = m\<lparr>mk_employees := Some (dumps_indent (PList (generate rng 100)))\<rparr>"

section \<open>Lemmas\<close>

lemma py_replace_not_contained: "old \<noteq> [] \<Longrightarrow> \<not> py_contains s old \<Longrightarrow> py_replace old new s = s"
proof (induction s)
  case (Cons c s)
  then show ?case by (subst py_replace.simps) simp
qed simp

lemma no_double_dot: "CHR ''.'' \<notin> set a \<Longrightarrow> \<not> py_contains (a @ ''.txt'') ''..''"
  by (induction a) auto

lemma upper_hex: "list_all (\<lambda>c. upper_char c \<noteq> CHR ''.'' \<and> upper_char c \<noteq> CHR ''/'') ''0123456789abcdef''"
  by code_simp

lemma load_seeded: "load_employees (seed_main rng m) = Inr (PList (generate rng 100))"
proof -
  have wf: "wf_elems (map (\<lambda>i. PDict (employee rng i)) is)" for "is"
    by (induction "is") (auto simp: employee_def Let_def)
  have "CR \<notin> set (dumps_indent v)" for v
    unfolding dumps_indent_def by (rule dumps_no_ctrl) (auto simp: is_ctrl_def indent_nl_def CR_def)
  then have "universal_newlines (dumps_indent v) = dumps_indent v" for v by (rule universal_newlines_id)
  then show ?thesis using wf by (simp add: load_employees_def seed_main_def generate_def)
qed

lemma find_generated:
  assumes "i \<in> set is"
  shows "find_person (''E-'' @ show_nat (1000 + i)) (map (\<lambda>i. PDict (employee rng i)) is) = Inr (Page (Template ''person.html'' [(''employee'', PDict (employee rng i))] 200))"
  using assms by (induction "is") (auto simp: subscript_def getitem_def employee_def Let_def show_nat_inj)

section \<open>Properties\<close>

text \<open>
  The seeded directory is complete. Whatever the generator chooses, after the seed the page of each of the hundred
  numbers shows the employee that was generated under it, and the health check counts a hundred.
\<close>

theorem seeded_directory_serves_every_employee:
  assumes "1 \<le> i" "i \<le> 100"
  shows "person (''E-'' @ show_nat (1000 + i)) (seed_main rng m) = Inr (Page (Template ''person.html'' [(''employee'', PDict (employee rng i))] 200))
    \<and> mock_health (seed_main rng m) = Inr [(''ok'', PBool True), (''employees'', PInt 100)]"
  using find_generated [of i "[1..<Suc 100]" rng] assms
  by (simp add: person_def mock_health_def load_seeded py_iter_def py_len_def generate_def del: upt_Suc)

theorem seeded_directory_serves_every_employee_witness:
  "mock_health (seed_main (\<lambda>_. 0) \<lparr>mk_employees = None, mk_attachments = []\<rparr>) = Inr [(''ok'', PBool True), (''employees'', PInt 100)]"
  using seeded_directory_serves_every_employee [of 7] by simp

text \<open>
  A form's receipt can be downloaded. After a submission the address on the confirmation page serves the text of
  the form, with one kind of line end, and every other attachment is served as before.
\<close>

theorem receipt_can_be_downloaded:
  assumes "set token \<subseteq> hex_digits" "form_submit token e r d n m = (page, m')"
  shows "attachment (confirmation token @ ''.txt'') m' = Inr (Plain (universal_newlines (attachment_text (confirmation token) e r d n)))
    \<and> (\<exists>ctx. page = Page (Template ''confirmation.html'' ctx 200) \<and> dget ctx ''attachment_url'' = PStr (''/attachments/'' @ confirmation token @ ''.txt''))
    \<and> (\<forall>name. py_replace ''/'' [] (py_replace ''..'' [] name) \<noteq> confirmation token @ ''.txt'' \<longrightarrow> attachment name m' = attachment name m)"
proof -
  have c: "CHR ''.'' \<notin> set (confirmation token)" "CHR ''/'' \<notin> set (confirmation token @ ''.txt'')"
    using assms(1) upper_hex by (auto simp: confirmation_def hex_digits_def list_all_iff)
  have "py_replace ''..'' [] (confirmation token @ ''.txt'') = confirmation token @ ''.txt''"
    by (rule py_replace_not_contained) (use no_double_dot [OF c(1)] in auto)
  moreover have "py_replace ''/'' [] (confirmation token @ ''.txt'') = confirmation token @ ''.txt''"
    using py_replace_absent [OF c(2)] by simp
  moreover have "confirmation token @ ''.txt'' \<notin> set [[], ''.'', ''..'']" by (simp add: confirmation_def)
  ultimately show ?thesis using assms(2) by (auto simp: attachment_def form_submit_def Let_def update_conv' dget_def)
qed

theorem receipt_can_be_downloaded_witness:
  "\<exists>m'. attachment (confirmation ''0a1b2c'' @ ''.txt'') m' = Inr (Plain (universal_newlines (attachment_text (confirmation ''0a1b2c'') ''E-1001'' ''leave'' [] [])))"
proof -
  have "set ''0a1b2c'' \<subseteq> hex_digits" by (simp add: hex_digits_def)
  from receipt_can_be_downloaded [OF this prod.collapse [symmetric]] show ?thesis by blast
qed

text \<open>
  The search finds exactly the matches. Over employees with texts for name, handle and number, a search shows those
  that contain the query in one of them, in any case and in order, and a blank query shows all.
\<close>

definition well_formed_employee :: "pyval \<Rightarrow> bool" where
  "well_formed_employee e \<longleftrightarrow> (case e of PDict d \<Rightarrow> list_all (\<lambda>k. \<exists>s. map_of d k = Some (PStr s)) [''name'', ''handle'', ''employee_id''] | _ \<Rightarrow> False)"

definition contains_query :: "string \<Rightarrow> pyval \<Rightarrow> bool" where
  "contains_query qn e \<longleftrightarrow> (\<exists>d. e = PDict d \<and> list_ex (\<lambda>k. \<exists>s. dget d k = PStr s \<and> py_contains (py_lower s) qn) [''name'', ''handle'', ''employee_id''])"

lemma matches_well_formed: "well_formed_employee e \<Longrightarrow> matches qn e = Inr (contains_query qn e)"
  by (auto simp: well_formed_employee_def contains_query_def matches_def subscript_def getitem_def lowered_def attr_get_or_def dget_or_def dget_def
      split: pyval.splits)

lemma filterE_total: "(\<And>x. x \<in> set xs \<Longrightarrow> f x = Inr (P x)) \<Longrightarrow> filterE f xs = Inr (filter P xs)"
  by (induction xs) auto

theorem search_finds_matches:
  assumes "load_employees m = Inr (PList es)" "\<forall>e\<in>set es. well_formed_employee e"
  shows "directory_search q m = Inr (Page (Template ''search_results.html'' [(''query'', PStr q),
      (''matches'', PList (filter (\<lambda>e. py_strip q = [] \<or> contains_query (py_lower (py_strip q)) e) es))] 200))"
proof -
  have "filterE (matches qn) es = Inr (filter (contains_query qn) es)" for qn
    using assms(2) by (intro filterE_total) (simp add: matches_well_formed)
  moreover have "py_lower s = [] \<longleftrightarrow> s = []" for s by (simp add: py_lower_def)
  ultimately show ?thesis by (simp add: directory_search_def assms(1) Let_def py_iter_def)
qed

theorem search_finds_matches_witness:
  "directory_search '' Cat '' \<lparr>mk_employees = None, mk_attachments = []\<rparr> = Inr (Page (Template ''search_results.html'' [(''query'', PStr '' Cat ''),
      (''matches'', PList (filter (\<lambda>e. py_strip '' Cat '' = [] \<or> contains_query (py_lower (py_strip '' Cat '')) e) BUILTIN_EMPLOYEES))] 200))"
  by (rule search_finds_matches) (auto simp: load_employees_def well_formed_employee_def BUILTIN_EMPLOYEES_def)

end
