(* ===== verification/ModelAdapters.thy ===== *)
theory ModelAdapters
  imports GraphTypes ProfileConfig
begin

text \<open>
  The adapters between the agent and the providers of language models (\<open>models/registry.py\<close>,
  \<open>models/adapters/anthropic_direct.py\<close>, \<open>models/adapters/litellm_adapter.py\<close>): how a role becomes a model, what is
  sent, and how an answer is turned into the message the agent reads. The libraries of the providers are arguments:
  they take the request and answer or raise. Of the keyword arguments only \<open>temperature\<close> is ever given.
\<close>

subsection \<open>Answers\<close>

text \<open>Token counts may be missing.\<close>

record usage =
  us_prompt :: "int option"
  us_completion :: "int option"
  us_total :: "int option"

definition opt_int :: "int option \<Rightarrow> pyval" where
  "opt_int x = (case x of None \<Rightarrow> PNone | Some n \<Rightarrow> PInt n)"

definition usage_dict :: "pyval \<Rightarrow> pyval \<Rightarrow> pyval \<Rightarrow> pyval" where
  "usage_dict a b c = PDict [(''prompt_tokens'', a), (''completion_tokens'', b), (''total_tokens'', c)]"

definition assistant :: "string \<Rightarrow> pyval option \<Rightarrow> pyval option \<Rightarrow> pydict" where
  "assistant content parsed usage = [(''role'', PStr ''assistant''), (''content'', PStr content)]
     @ (case parsed of None \<Rightarrow> [] | Some v \<Rightarrow> [(''parsed'', v)]) @ (case usage of None \<Rightarrow> [] | Some u \<Rightarrow> [(''usage'', u)])"

definition opt_schema :: "pyval \<Rightarrow> pydict option" where
  "opt_schema schema = (case schema of PDict d \<Rightarrow> Some d | _ \<Rightarrow> None)"

subsection \<open>LiteLLM\<close>

record lite =
  ll_model :: string
  ll_key :: "string option"
  ll_retries :: nat
  ll_timeout :: nat

definition lite_init :: "string \<Rightarrow> string \<Rightarrow> string option \<Rightarrow> lite" where
  "lite_init provider model key = \<lparr> ll_model = (if CHR ''/'' \<in> set model then model else provider @ ''/'' @ model),
     ll_key = key, ll_retries = 3, ll_timeout = 60 \<rparr>"

record lite_request =
  lq_model :: string
  lq_messages :: pyval
  lq_retries :: nat
  lq_timeout :: nat
  lq_temperature :: "rat option"
  lq_key :: "string option"
  lq_format :: "pyval option"

record lite_reply =
  lr_content :: "string option"
  lr_usage :: "usage option"

definition lite_params :: "lite \<Rightarrow> pyval \<Rightarrow> pydict option \<Rightarrow> rat option \<Rightarrow> lite_request" where
  "lite_params m messages schema temp = \<lparr> lq_model = ll_model m, lq_messages = messages, lq_retries = ll_retries m,
     lq_timeout = ll_timeout m, lq_temperature = temp, lq_key = ll_key m,
     lq_format = map_option (\<lambda>d. PDict [(''type'', PStr ''json_schema''), (''json_schema'', PDict [(''name'', dget_or d ''title'' (PStr ''response'')),
       (''strict'', PBool True), (''schema'', PDict d)])]) schema \<rparr>"

text \<open>\<open>complete\<close>; what it prints of a failure is left out.\<close>

definition lite_complete :: "(lite_request \<Rightarrow> ('w, lite_reply) act) \<Rightarrow> rat option \<Rightarrow> lite \<Rightarrow> 'w chat" where
  "lite_complete call temp m messages schema =
     bindA (call (lite_params m messages (opt_schema schema) temp)) (\<lambda>resp.
       let content = (case lr_content resp of Some s \<Rightarrow> s | None \<Rightarrow> []);
           used = map_option (\<lambda>u. usage_dict (opt_int (us_prompt u)) (opt_int (us_completion u)) (opt_int (us_total u))) (lr_usage resp)
       in case opt_schema schema of
            None \<Rightarrow> returnA (assistant content None used)
          | Some d \<Rightarrow> (case json_loads content of
              None \<Rightarrow> raiseA json_decode_error
            | Some v \<Rightarrow> returnA (assistant content (Some v) used)))"

subsection \<open>Anthropic\<close>

record direct =
  dm_model :: string
  dm_key :: string
  dm_max_tokens :: nat

definition direct_init :: "environ \<Rightarrow> string \<Rightarrow> string option \<Rightarrow> exn + direct" where
  "direct_init env model key =
     (case (case key of Some k \<Rightarrow> if k = [] then env ''ANTHROPIC_API_KEY'' else Some k | None \<Rightarrow> env ''ANTHROPIC_API_KEY'') of
        None \<Rightarrow> Inl (Exn ''RuntimeError'' ''AnthropicDirectModel needs ANTHROPIC_API_KEY in env or passed explicitly - it does not fall through LiteLLM.'')
      | Some k \<Rightarrow>
          if k = [] then Inl (Exn ''RuntimeError'' ''AnthropicDirectModel needs ANTHROPIC_API_KEY in env or passed explicitly - it does not fall through LiteLLM.'')
          else Inr \<lparr> dm_model = (if py_startswith model ''anthropic/'' then drop (length ''anthropic/'') model else model),
            dm_key = k, dm_max_tokens = 4096 \<rparr>)"

text \<open>\<open>_split_system\<close>: the texts of the system messages, and the other messages.\<close>

definition block_texts :: "pyval \<Rightarrow> pyval list" where
  "block_texts b = (case b of PDict d \<Rightarrow> if dget d ''type'' = PStr ''text'' then [dget_or d ''text'' (PStr [])] else [] | _ \<Rightarrow> [])"

definition system_texts :: "pyval \<Rightarrow> pyval list" where
  "system_texts c = (case c of PStr s \<Rightarrow> [PStr s] | PList bs \<Rightarrow> concat (map block_texts bs) | _ \<Rightarrow> [])"

fun split_messages :: "pyval list \<Rightarrow> exn + pyval list \<times> pyval list" where
  "split_messages [] = Inr ([], [])"
| "split_messages (m # ms) = bindE (attr_get m ''role'') (\<lambda>r.
     if r = PStr ''system'' then bindE (attr_get m ''content'') (\<lambda>c. bindE (split_messages ms) (\<lambda>(parts, rest). Inr (system_texts c @ parts, rest)))
     else bindE (split_messages ms) (\<lambda>(parts, rest). Inr (parts, m # rest)))"

definition join_text :: "pyval \<Rightarrow> exn + string" where
  "join_text v = (case v of PStr s \<Rightarrow> Inr s
     | _ \<Rightarrow> Inl (Exn ''TypeError'' (''sequence item: expected str instance, '' @ type_name v @ '' found'')))"

definition split_system :: "pyval \<Rightarrow> exn + string \<times> pyval list" where
  "split_system messages = bindE (py_iter messages) (\<lambda>ms. bindE (split_messages ms) (\<lambda>(parts, rest).
     bindE (mapE join_text (filter truthy parts)) (\<lambda>texts. Inr (py_join [CHR 0x0A, CHR 0x0A] texts, rest))))"

record direct_request =
  dq_model :: string
  dq_max_tokens :: nat
  dq_messages :: "pyval list"
  dq_system :: "string option"
  dq_tool :: "(pyval \<times> pydict) option"
  dq_temperature :: "rat option"

datatype block = Tool_use pyval | Text_block string | Other_block

record direct_reply =
  dr_content :: "block list"
  dr_usage :: "(int option \<times> int option) option"

text \<open>The one tool of a structured call, with its schema; the model must use it.\<close>

definition forced_tool :: "pydict option \<Rightarrow> (pyval \<times> pydict) option" where
  "forced_tool schema = map_option (\<lambda>d. (if d = [] then PStr [] else dget_or d ''title'' (PStr ''structured_output''), d)) schema"

definition direct_params :: "direct \<Rightarrow> string \<Rightarrow> pyval list \<Rightarrow> pydict option \<Rightarrow> rat option \<Rightarrow> direct_request" where
  "direct_params m system chat schema temp = \<lparr> dq_model = dm_model m, dq_max_tokens = dm_max_tokens m, dq_messages = chat,
     dq_system = (if system = [] then None else Some system), dq_tool = forced_tool schema, dq_temperature = temp \<rparr>"

definition read_block :: "block \<Rightarrow> pyval \<times> string \<Rightarrow> pyval \<times> string" where
  "read_block b s = (case b of Tool_use v \<Rightarrow> (v, snd s) | Text_block t \<Rightarrow> (fst s, snd s @ t) | Other_block \<Rightarrow> s)"

definition int_or_0 :: "int option \<Rightarrow> int" where
  "int_or_0 x = (case x of None \<Rightarrow> 0 | Some n \<Rightarrow> n)"

definition direct_complete :: "(direct_request \<Rightarrow> ('w, direct_reply) act) \<Rightarrow> rat option \<Rightarrow> direct \<Rightarrow> 'w chat" where
  "direct_complete call temp m messages schema =
     bindA (liftE (split_system messages)) (\<lambda>(system, chat).
     bindA (call (direct_params m system chat (opt_schema schema) temp)) (\<lambda>resp.
       let (parsed, content) = fold read_block (dr_content resp) (PNone, []) in
       returnA (assistant content (if parsed = PNone then None else Some parsed)
         (map_option (\<lambda>(i, out). usage_dict (opt_int i) (opt_int out) (PInt (int_or_0 i + int_or_0 out))) (dr_usage resp)))))"

subsection \<open>The registry\<close>

datatype model_role = PLANNER | NAVIGATOR | EXTRACTOR | JUDGE | VISION

definition role_value :: "model_role \<Rightarrow> string" where
  "role_value r = (case r of PLANNER \<Rightarrow> ''planner'' | NAVIGATOR \<Rightarrow> ''navigator'' | EXTRACTOR \<Rightarrow> ''extractor'' | JUDGE \<Rightarrow> ''judge'' | VISION \<Rightarrow> ''vision'')"

definition role_spec :: "roles \<Rightarrow> model_role \<Rightarrow> model_spec option" where
  "role_spec ro r = (case r of PLANNER \<Rightarrow> Some (ro_planner ro) | NAVIGATOR \<Rightarrow> Some (ro_navigator ro) | EXTRACTOR \<Rightarrow> Some (ro_extractor ro)
     | JUDGE \<Rightarrow> Some (ro_judge ro) | VISION \<Rightarrow> ro_vision ro)"

definition PROVIDER_KEY_ENV :: "(string \<times> string option) list" where
  "PROVIDER_KEY_ENV = [(''anthropic'', Some ''ANTHROPIC_API_KEY''), (''openai'', Some ''OPENAI_API_KEY''), (''google'', Some ''GEMINI_API_KEY''),
     (''ollama'', None)]"

definition resolve_key :: "environ \<Rightarrow> string \<Rightarrow> string option" where
  "resolve_key env provider = (case map_of PROVIDER_KEY_ENV provider of Some (Some var) \<Rightarrow> env var | _ \<Rightarrow> None)"

text \<open>\<open>lru_cache(maxsize=n)\<close>: the most recent first; a call that raises is not kept.\<close>

definition lru_call :: "nat \<Rightarrow> ('k \<Rightarrow> exn + 'v) \<Rightarrow> 'k \<Rightarrow> ('k \<times> 'v) list \<Rightarrow> (exn + 'v) \<times> ('k \<times> 'v) list" where
  "lru_call n f k c = (case map_of c k of
     Some v \<Rightarrow> (Inr v, (k, v) # AList.delete k c)
   | None \<Rightarrow> (case f k of
       Inl e \<Rightarrow> (Inl e, c)
     | Inr v \<Rightarrow> (Inr v, take n ((k, v) # c))))"

record model_caches =
  mc_lite :: "((string \<times> string \<times> string option) \<times> lite) list"
  mc_direct :: "((string \<times> string option) \<times> direct) list"

definition DIRECT_ROLES :: "model_role set" where
  "DIRECT_ROLES = {PLANNER, VISION}"

definition get_model :: "environ \<Rightarrow> roles \<Rightarrow> model_role \<Rightarrow> model_caches \<Rightarrow> (exn + direct + lite) \<times> model_caches" where
  "get_model env ro r c = (case role_spec ro r of
     None \<Rightarrow> (Inl (Exn ''AttributeError'' (CHR 0x27 # ''NoneType'' @ CHR 0x27 # '' object has no attribute '' @ repr_str ''provider'')), c)
   | Some spec \<Rightarrow>
       (let key = resolve_key env (ms_provider spec) in
        if r \<in> DIRECT_ROLES then
          if ms_provider spec \<noteq> ''anthropic''
          then (Inl (Exn ''NotImplementedError'' (''role='' @ role_value r @ '' currently only supports anthropic; got provider='' @ repr_str (ms_provider spec))), c)
          else (case lru_call 4 (\<lambda>(m, k). direct_init env m k) (ms_model spec, key) (mc_direct c) of
              (x, d) \<Rightarrow> (map_sum id Inl x, c\<lparr> mc_direct := d \<rparr>))
        else (case lru_call 16 (\<lambda>(p, m, k). Inr (lite_init p m k)) (ms_provider spec, ms_model spec, key) (mc_lite c) of
              (x, l) \<Rightarrow> (map_sum id Inr x, c\<lparr> mc_lite := l \<rparr>))))"

text \<open>Any history of calls, under any profile and environment.\<close>

definition no_models :: model_caches where
  "no_models = \<lparr> mc_lite = [], mc_direct = [] \<rparr>"

inductive model_call :: "model_caches \<Rightarrow> model_caches \<Rightarrow> bool" where
  "get_model env ro r c = (x, c') \<Longrightarrow> model_call c c'"

section \<open>Lemmas\<close>

subsection \<open>Caches\<close>

lemma delete_shorter: "map_of c k = Some v \<Longrightarrow> length (AList.delete k c) < length c"
proof (induction c)
  case (Cons x c)
  have "length (AList.delete k c) \<le> length c" by (rule length_delete_le)
  with Cons show ?case by (cases x) (auto split: if_split_asm)
qed simp

lemma lru_call_cases:
  assumes "lru_call n f k c = (x, c')" "length c \<le> n" "0 < n" "\<And>k v. (k, v) \<in> set c \<Longrightarrow> P k v" "\<And>v. f k = Inr v \<Longrightarrow> P k v"
  shows "length c' \<le> n" "(k', v') \<in> set c' \<Longrightarrow> P k' v'" "x = f k \<or> (\<exists>v. x = Inr v \<and> P k v)"
proof -
  consider (hit) v where "map_of c k = Some v" "x = Inr v" "c' = (k, v) # AList.delete k c"
    | (raise) e where "f k = Inl e" "x = Inl e" "c' = c"
    | (miss) v where "f k = Inr v" "x = Inr v" "c' = take n ((k, v) # c)"
    using assms(1) by (auto simp: lru_call_def split: option.split_asm sum.split_asm)
  then have all: "length c' \<le> n \<and> (\<forall>k' v'. (k', v') \<in> set c' \<longrightarrow> P k' v') \<and> (x = f k \<or> (\<exists>v. x = Inr v \<and> P k v))"
  proof cases
    case hit
    have "set (AList.delete k c) \<subseteq> set c" by (auto simp: AList.delete_eq)
    moreover have "length c' \<le> n" using delete_shorter [OF hit(1)] hit(3) assms(2) by simp
    moreover have "P k v" using assms(4) map_of_SomeD [OF hit(1)] by blast
    ultimately show ?thesis using hit(2,3) assms(4) by auto
  next
    case raise
    then show ?thesis using assms(2,4) by auto
  next
    case miss
    have "set c' \<subseteq> set ((k, v) # c)" unfolding miss(3) by (rule set_take_subset)
    then show ?thesis using miss assms(2,4,5) by auto
  qed
  then show "length c' \<le> n" "(k', v') \<in> set c' \<Longrightarrow> P k' v'" "x = f k \<or> (\<exists>v. x = Inr v \<and> P k v)" by blast+
qed

definition lite_entry :: "string \<times> string \<times> string option \<Rightarrow> lite \<Rightarrow> bool" where
  "lite_entry k v \<longleftrightarrow> v = (case k of (p, m, key) \<Rightarrow> lite_init p m key)"

text \<open>A direct model that was built had a key, so the environment does not matter to it.\<close>

definition direct_entry :: "string \<times> string option \<Rightarrow> direct \<Rightarrow> bool" where
  "direct_entry k v \<longleftrightarrow> (\<forall>env. direct_init env (fst k) (snd k) = Inr v)"

definition caches_ok :: "model_caches \<Rightarrow> bool" where
  "caches_ok c \<longleftrightarrow> length (mc_lite c) \<le> 16 \<and> length (mc_direct c) \<le> 4
     \<and> (\<forall>k v. (k, v) \<in> set (mc_lite c) \<longrightarrow> lite_entry k v) \<and> (\<forall>k v. (k, v) \<in> set (mc_direct c) \<longrightarrow> direct_entry k v)"

lemma direct_init_entry:
  assumes "direct_init env m (env ''ANTHROPIC_API_KEY'') = Inr v" shows "direct_entry (m, env ''ANTHROPIC_API_KEY'') v"
  using assms by (auto simp: direct_entry_def direct_init_def split: option.split_asm if_split_asm)

definition fresh_model :: "environ \<Rightarrow> roles \<Rightarrow> model_role \<Rightarrow> exn + direct + lite" where
  "fresh_model env ro r = fst (get_model env ro r no_models)"

lemma resolve_anthropic: "resolve_key env ''anthropic'' = env ''ANTHROPIC_API_KEY''"
  by (simp add: resolve_key_def PROVIDER_KEY_ENV_def)

lemma get_model_ok:
  assumes "get_model env ro r c = (x, c')" "caches_ok c"
  shows "x = fresh_model env ro r \<and> caches_ok c'"
proof (cases "role_spec ro r")
  case None
  then show ?thesis using assms by (simp add: get_model_def fresh_model_def)
next
  case (Some spec)
  let ?key = "resolve_key env (ms_provider spec)"
  consider (bad) "r \<in> DIRECT_ROLES" "ms_provider spec \<noteq> ''anthropic''" | (direct) "r \<in> DIRECT_ROLES" "ms_provider spec = ''anthropic''"
    | (lite) "r \<notin> DIRECT_ROLES" by blast
  then show ?thesis
  proof cases
    case bad
    then show ?thesis using assms Some by (simp add: get_model_def fresh_model_def)
  next
    case direct
    obtain y d where l: "lru_call 4 (\<lambda>(m, k). direct_init env m k) (ms_model spec, ?key) (mc_direct c) = (y, d)" by fastforce
    have "direct_init env (ms_model spec) ?key = Inr v \<Longrightarrow> direct_entry (ms_model spec, ?key) v" for v
      using direct_init_entry direct(2) resolve_anthropic by auto
    note new = this
    have ok: "length (mc_direct c) \<le> 4" "\<And>k v. (k, v) \<in> set (mc_direct c) \<Longrightarrow> direct_entry k v"
      using assms(2) unfolding caches_ok_def by blast+
    note n = lru_call_cases [where P = direct_entry, OF l ok(1) _ ok(2), simplified, OF new]
    have y: "y = direct_init env (ms_model spec) ?key" using n(3) by (auto simp: direct_entry_def)
    have "fresh_model env ro r = map_sum id Inl y"
      using direct Some y by (simp add: fresh_model_def get_model_def no_models_def lru_call_def Let_def split: sum.split)
    moreover have "length d \<le> 4 \<and> (\<forall>k v. (k, v) \<in> set d \<longrightarrow> direct_entry k v)"
      using n(1,2) by blast
    ultimately show ?thesis using assms direct Some l by (auto simp: get_model_def caches_ok_def)
  next
    case lite
    obtain y d where l: "lru_call 16 (\<lambda>(p, m, k). Inr (lite_init p m k)) (ms_provider spec, ms_model spec, ?key) (mc_lite c) = (y, d)" by fastforce
    have ok: "length (mc_lite c) \<le> 16" "\<And>k v. (k, v) \<in> set (mc_lite c) \<Longrightarrow> lite_entry k v"
      using assms(2) unfolding caches_ok_def by blast+
    have new: "(case (ms_provider spec, ms_model spec, ?key) of (p, m, k) \<Rightarrow> Inr (lite_init p m k)) = (Inr v :: exn + lite) \<Longrightarrow>
        lite_entry (ms_provider spec, ms_model spec, ?key) v" for v
      by (simp add: lite_entry_def)
    note n = lru_call_cases [where P = lite_entry, OF l ok(1) _ ok(2) new, simplified]
    have y: "y = Inr (lite_init (ms_provider spec) (ms_model spec) ?key)" using n(3) by (auto simp: lite_entry_def)
    have "fresh_model env ro r = map_sum id Inr y"
      using lite Some y by (simp add: fresh_model_def get_model_def no_models_def lru_call_def Let_def)
    moreover have "length d \<le> 16 \<and> (\<forall>k v. (k, v) \<in> set d \<longrightarrow> lite_entry k v)"
      using n(1,2) by blast
    ultimately show ?thesis using assms lite Some l by (auto simp: get_model_def caches_ok_def)
  qed
qed

lemma model_calls_ok: "model_call\<^sup>*\<^sup>* no_models c \<Longrightarrow> caches_ok c"
proof (induction rule: rtranclp_induct)
  case base
  show ?case by (simp add: caches_ok_def no_models_def)
next
  case (step c c')
  then show ?case using get_model_ok by (auto elim!: model_call.cases)
qed

subsection \<open>Answers\<close>

lemma assistant_wf: "(\<And>v. parsed = Some v \<Longrightarrow> wf_pyval v) \<Longrightarrow> (\<And>v. used = Some v \<Longrightarrow> wf_pyval v) \<Longrightarrow> wf_pyval (PDict (assistant content parsed used))"
  by (auto simp: assistant_def split: option.split)

lemma usage_wf: "wf_pyval a \<Longrightarrow> wf_pyval b \<Longrightarrow> wf_pyval c \<Longrightarrow> wf_pyval (usage_dict a b c)" "wf_pyval (opt_int x)" "wf_pyval (PInt n)"
  by (simp_all add: usage_dict_def opt_int_def split: option.split)

lemma assistant_get: "dget (assistant content parsed used) ''content'' = PStr content"
  "dget (assistant content parsed used) ''parsed'' = (case parsed of None \<Rightarrow> PNone | Some v \<Rightarrow> v)"
  by (simp_all add: assistant_def dget_def split: option.split)

definition tool_inputs :: "block list \<Rightarrow> pyval list" where
  "tool_inputs bs = List.map_filter (\<lambda>b. case b of Tool_use v \<Rightarrow> Some v | _ \<Rightarrow> None) bs"

definition texts :: "block list \<Rightarrow> string list" where
  "texts bs = List.map_filter (\<lambda>b. case b of Text_block t \<Rightarrow> Some t | _ \<Rightarrow> None) bs"

lemma read_blocks:
  "fold read_block bs (v, s) = (if tool_inputs bs = [] then v else last (tool_inputs bs), s @ concat (texts bs))"
  by (induction bs arbitrary: v s) (auto simp: read_block_def tool_inputs_def texts_def split: block.split)

lemma split_messages_plain:
  "split_messages (map (\<lambda>(r, t). chat_msg r (PStr t)) ms) =
     Inr (map (PStr \<circ> snd) (filter (\<lambda>x. fst x = ''system'') ms), map (\<lambda>(r, t). chat_msg r (PStr t)) (filter (\<lambda>x. fst x \<noteq> ''system'') ms))"
  by (induction ms) (auto simp: chat_msg_def attr_get_def dget_def system_texts_def)

lemma mapE_join: "mapE join_text (map PStr xs) = Inr xs"
  by (induction xs) (simp_all add: join_text_def)

lemma split_system_plain:
  "split_system (PList (map (\<lambda>(r, t). chat_msg r (PStr t)) ms)) =
     Inr (py_join [CHR 0x0A, CHR 0x0A] (filter (\<lambda>t. t \<noteq> []) (map snd (filter (\<lambda>x. fst x = ''system'') ms))),
       map (\<lambda>(r, t). chat_msg r (PStr t)) (filter (\<lambda>x. fst x \<noteq> ''system'') ms))"
proof -
  have "filter truthy (map (PStr \<circ> snd) xs) = map PStr (filter (\<lambda>t. t \<noteq> []) (map snd xs))" for xs :: "(string \<times> string) list"
    by (induction xs) auto
  then show ?thesis by (simp add: split_system_def py_iter_def split_messages_plain mapE_join)
qed

section \<open>Properties\<close>

text \<open>
  C34: the caches of the registry never show. After any history of calls, under other profiles and other keys, a role
  is answered with exactly the model that its profile and the present environment call for, or the same error; at
  most sixteen models of LiteLLM and four of Anthropic are kept.
\<close>

theorem model_cache_is_transparent:
  assumes "model_call\<^sup>*\<^sup>* no_models c"
  shows "fst (get_model env ro r c) = fresh_model env ro r \<and> length (mc_lite c) \<le> 16 \<and> length (mc_direct c) \<le> 4
    \<and> (case role_spec ro r of
        None \<Rightarrow> \<exists>e. fresh_model env ro r = Inl e
      | Some spec \<Rightarrow> if r \<notin> {PLANNER, VISION}
          then fresh_model env ro r = Inr (Inr (lite_init (ms_provider spec) (ms_model spec) (resolve_key env (ms_provider spec))))
          else (case fresh_model env ro r of
              Inr (Inl m) \<Rightarrow> ms_provider spec = ''anthropic'' \<and> env ''ANTHROPIC_API_KEY'' = Some (dm_key m) \<and> dm_key m \<noteq> []
            | Inr (Inr m) \<Rightarrow> False
            | Inl e \<Rightarrow> ms_provider spec \<noteq> ''anthropic'' \<or> env ''ANTHROPIC_API_KEY'' \<in> {None, Some []}))"
proof -
  have ok: "caches_ok c" using model_calls_ok [OF assms] .
  obtain x c' where g: "get_model env ro r c = (x, c')" by fastforce
  have "case role_spec ro r of
        None \<Rightarrow> \<exists>e. fresh_model env ro r = Inl e
      | Some spec \<Rightarrow> if r \<notin> {PLANNER, VISION}
          then fresh_model env ro r = Inr (Inr (lite_init (ms_provider spec) (ms_model spec) (resolve_key env (ms_provider spec))))
          else (case fresh_model env ro r of
              Inr (Inl m) \<Rightarrow> ms_provider spec = ''anthropic'' \<and> env ''ANTHROPIC_API_KEY'' = Some (dm_key m) \<and> dm_key m \<noteq> []
            | Inr (Inr m) \<Rightarrow> False
            | Inl e \<Rightarrow> ms_provider spec \<noteq> ''anthropic'' \<or> env ''ANTHROPIC_API_KEY'' \<in> {None, Some []})"
    by (cases "env ''ANTHROPIC_API_KEY''")
      (auto simp: fresh_model_def get_model_def no_models_def lru_call_def DIRECT_ROLES_def resolve_anthropic direct_init_def Let_def split: option.split)
  then show ?thesis using get_model_ok [OF g ok] ok g by (simp add: caches_ok_def)
qed

definition demo_roles :: roles where
  "demo_roles = (let m = \<lparr> ms_provider = ''anthropic'', ms_model = ''anthropic/claude'' \<rparr> in
     \<lparr> ro_planner = m, ro_navigator = m, ro_extractor = m, ro_judge = m, ro_vision = None \<rparr>)"

definition demo_keys :: "string \<Rightarrow> environ" where
  "demo_keys k = [''ANTHROPIC_API_KEY'' \<mapsto> k]"

theorem model_cache_is_transparent_witness:
  "fst (get_model (demo_keys ''new'') demo_roles PLANNER (snd (get_model (demo_keys ''old'') demo_roles PLANNER no_models)))
     = Inr (Inl \<lparr> dm_model = ''claude'', dm_key = ''new'', dm_max_tokens = 4096 \<rparr>)"
proof -
  have "model_call no_models (snd (get_model (demo_keys ''old'') demo_roles PLANNER no_models))"
    by (rule model_call.intros [of "demo_keys ''old''" demo_roles PLANNER _ "fst (get_model (demo_keys ''old'') demo_roles PLANNER no_models)"]) simp
  then have "model_call\<^sup>*\<^sup>* no_models (snd (get_model (demo_keys ''old'') demo_roles PLANNER no_models))" ..
  from model_cache_is_transparent [OF this, of "demo_keys ''new''" demo_roles PLANNER]
  have "fst (get_model (demo_keys ''new'') demo_roles PLANNER (snd (get_model (demo_keys ''old'') demo_roles PLANNER no_models)))
    = fresh_model (demo_keys ''new'') demo_roles PLANNER" by blast
  also have "\<dots> = Inr (Inl \<lparr> dm_model = ''claude'', dm_key = ''new'', dm_max_tokens = 4096 \<rparr>)" by code_simp
  finally show ?thesis .
qed


definition demo_anthropic :: "direct_request \<Rightarrow> (unit, direct_reply) act" where
  "demo_anthropic q w = (Inr \<lparr> dr_content = [Text_block ''so: '', Tool_use (PDict [(''n'', PInt 1)])], dr_usage = Some (Some 3, None) \<rparr>, w)"


text \<open>
  A structured call to Anthropic loses nothing. The texts of the system messages are joined by blank lines and sent
  apart, the other messages follow in their order, the schema is sent as the one tool the model must use, and if the
  library answers, the message read from it has all texts of the answer, in order, and the input of the last tool used.
\<close>

theorem forced_answer_is_read:
  assumes "messages = PList (map (\<lambda>(r, t). chat_msg r (PStr t)) ms)"
    and "system = py_join [CHR 0x0A, CHR 0x0A] (filter (\<lambda>t. t \<noteq> []) (map snd (filter (\<lambda>x. fst x = ''system'') ms)))"
    and "q = direct_params m system (map (\<lambda>(r, t). chat_msg r (PStr t)) (filter (\<lambda>x. fst x \<noteq> ''system'') ms)) (Some schema) temp"
    and "anthropic q w = (Inr resp, w')"
  shows "\<exists>out. direct_complete anthropic temp m messages (PDict schema) w = (Inr out, w')
    \<and> dget out ''content'' = PStr (concat (texts (dr_content resp)))
    \<and> dget out ''parsed'' = (if tool_inputs (dr_content resp) = [] then PNone else last (tool_inputs (dr_content resp)))
    \<and> map_option snd (dq_tool q) = Some schema \<and> dq_system q = (if system = [] then None else Some system)"
  using assms(4) unfolding assms(1-3)
  by (auto simp: direct_complete_def bindA_def returnA_def split_system_plain opt_schema_def read_blocks assistant_get
    direct_params_def forced_tool_def Let_def)

theorem forced_answer_is_read_witness:
  "\<exists>out. direct_complete demo_anthropic None \<lparr> dm_model = ''claude'', dm_key = ''k'', dm_max_tokens = 4096 \<rparr>
       (PList [chat_msg ''system'' (PStr ''plan''), chat_msg ''user'' (PStr ''go'')]) (PDict [(''type'', PStr ''object'')]) () = (Inr out, ())
     \<and> dget out ''content'' = PStr ''so: '' \<and> dget out ''parsed'' = PDict [(''n'', PInt 1)]"
proof -
  have m: "PList [chat_msg ''system'' (PStr ''plan''), chat_msg ''user'' (PStr ''go'')]
      = PList (map (\<lambda>(r, t). chat_msg r (PStr t)) [(''system'', ''plan''), (''user'', ''go'')])" by simp
  let ?d = "\<lparr> dm_model = ''claude'', dm_key = ''k'', dm_max_tokens = 4096 \<rparr>"
  from forced_answer_is_read [where anthropic = demo_anthropic and m = ?d and schema = "[(''type'', PStr ''object'')]" and temp = None and w = "()",
    OF m refl refl demo_anthropic_def]
  show ?thesis by (simp add: texts_def tool_inputs_def) blast
qed

end
