(* ===== verification/RedisKeys.thy ===== *)
theory RedisKeys
  imports RedisQueue
begin

text \<open>
  The Redis keys of a queue (\<open>queue/redis_queue.py\<close>). \<open>RedisQueue\<close> models the keys under one pre; all queues of
  an installation share one database, so it matters which prefixfixes keep their keys apart.
\<close>

definition pending_key :: "string \<Rightarrow> string" where "pending_key pre = pre @ '':pending''"

definition claimed_key :: "string \<Rightarrow> string" where "claimed_key pre = pre @ '':claimed''"

definition dead_key :: "string \<Rightarrow> string" where "dead_key pre = pre @ '':dead''"

definition item_key :: "string \<Rightarrow> string \<Rightarrow> string" where "item_key pre item_id = pre @ '':items:'' @ item_id"

lemmas key_defs = pending_key_def claimed_key_def dead_key_def item_key_def

definition queue_keys :: "string \<Rightarrow> string set" where
  "queue_keys pre = {pending_key pre, claimed_key pre, dead_key pre} \<union> range (item_key pre)"

definition run_prefix :: "string \<Rightarrow> string" where
  "run_prefix run_id = ''andera:queue:'' @ run_id"

lemma colon_split: "CHR '':'' \<notin> set a \<Longrightarrow> CHR '':'' \<notin> set b \<Longrightarrow> a @ CHR '':'' # s = b @ CHR '':'' # t \<longleftrightarrow> a = b \<and> s = t"
proof (induction a arbitrary: b)
  case Nil
  then show ?case by (cases b) auto
next
  case (Cons c a)
  then show ?case by (cases b) auto
qed

lemma queue_keys_form: "k \<in> queue_keys pre \<Longrightarrow> \<exists>s. k = pre @ CHR '':'' # s"
  by (auto simp: queue_keys_def key_defs)

text \<open>
  Queues do not meet. Within a prefix the three lists and the items have keys of their own, one per item; the
  default prefixes of two runs whose ids have no colon share no key, and neither do those of a run and of the agents,
  unless the run is called \<open>global\<close>.
\<close>

theorem redis_queues_are_apart:
  assumes "CHR '':'' \<notin> set r" "CHR '':'' \<notin> set q"
  shows "distinct [pending_key p, claimed_key p, dead_key p]
    \<and> {pending_key p, claimed_key p, dead_key p} \<inter> range (item_key p) = {} \<and> inj (item_key p)
    \<and> (queue_keys (run_prefix r) \<inter> queue_keys (run_prefix q) = {} \<longleftrightarrow> r \<noteq> q)
    \<and> (queue_keys (run_prefix r) \<inter> queue_keys GLOBAL_QUEUE_PREFIX = {} \<longleftrightarrow> r \<noteq> ''global'')"
proof -
  have apart: "queue_keys (run_prefix a) \<inter> queue_keys (run_prefix b) = {} \<longleftrightarrow> a \<noteq> b"
    if "CHR '':'' \<notin> set a" "CHR '':'' \<notin> set b" for a b
  proof -
    have "a = b" if "k \<in> queue_keys (run_prefix a)" "k \<in> queue_keys (run_prefix b)" for k
    proof -
      obtain s t where "k = run_prefix a @ CHR '':'' # s" "k = run_prefix b @ CHR '':'' # t"
        using queue_keys_form \<open>k \<in> queue_keys (run_prefix a)\<close> \<open>k \<in> queue_keys (run_prefix b)\<close> by metis
      then show ?thesis
        using colon_split [OF \<open>CHR '':'' \<notin> set a\<close> \<open>CHR '':'' \<notin> set b\<close>, of s t] by (simp add: run_prefix_def)
    qed
    moreover have "pending_key (run_prefix a) \<in> queue_keys (run_prefix a)" by (simp add: queue_keys_def)
    ultimately show ?thesis by blast
  qed
  have "GLOBAL_QUEUE_PREFIX = run_prefix ''global''" by (simp add: GLOBAL_QUEUE_PREFIX_def run_prefix_def)
  then have "queue_keys (run_prefix r) \<inter> queue_keys GLOBAL_QUEUE_PREFIX = {} \<longleftrightarrow> r \<noteq> ''global''"
    using apart [OF assms(1), of "''global''"] by simp
  moreover have "inj (item_key p)" by (simp add: inj_def item_key_def)
  ultimately show ?thesis using apart [OF assms] by (auto simp: key_defs)
qed

theorem redis_queues_are_apart_witness:
  "queue_keys (run_prefix ''run-1'') \<inter> queue_keys (run_prefix ''run-2'') = {}"
  using redis_queues_are_apart [of "''run-1''" "''run-2''"] by simp

text \<open>An id with a colon may collide: the list of one run is then an item of another.\<close>

lemma run_ids_with_colons_collide:
  "item_key (run_prefix ''r1'') ''x:pending'' = pending_key (run_prefix ''r1:items:x'')"
  by (simp add: key_defs run_prefix_def)

end
