(* ===== verification/Schema.thy ===== *)
theory Schema
  imports RedisQueue AuditLog PyText
begin

text \<open>
  The SQLite databases: \<open>storage/db.py\<close> with \<open>storage/schema.sql\<close>, the tables that \<open>queue/sqlite_queue.py\<close> and
  \<open>storage/audit_log.py\<close> make for themselves, and the choice of the audit log in \<open>storage/__init__.py\<close>. A database is
  its tables with their columns and its indexes; of the statements, those that the scripts consist of.
\<close>

record column =
  co_name :: string
  co_type :: string
  co_not_null :: bool
  co_key :: bool
  co_default :: "string option"
  co_references :: "(string \<times> string) option"

record database =
  db_tables :: "(string \<times> column list) list"
  db_indexes :: "(string \<times> string \<times> string list) list"
  db_journal :: string

record connection =
  cn_db :: database
  cn_foreign_keys :: bool

text \<open>The statements. A table and an index are made only \<open>IF NOT EXISTS\<close>; the references carry their \<open>ON DELETE\<close>.\<close>

datatype ddl =
    Journal_mode string
  | Foreign_keys bool
  | Create_table string "column list"
  | Create_index string string "string list"

definition operational_error :: "string \<Rightarrow> exn" where
  "operational_error m = Exn ''OperationalError'' m"

fun exec_ddl :: "ddl \<Rightarrow> (connection, unit) act" where
  "exec_ddl (Journal_mode m) c = (Inr (), c\<lparr>cn_db := (cn_db c)\<lparr>db_journal := m\<rparr>\<rparr>)"
| "exec_ddl (Foreign_keys b) c = (Inr (), c\<lparr>cn_foreign_keys := b\<rparr>)"
| "exec_ddl (Create_table t cols) c =
     (if t \<in> fst ` set (db_tables (cn_db c)) then (Inr (), c)
      else if t \<in> fst ` set (db_indexes (cn_db c)) then (Inl (operational_error (''there is already an index named '' @ t)), c)
      else (Inr (), c\<lparr>cn_db := (cn_db c)\<lparr>db_tables := db_tables (cn_db c) @ [(t, cols)]\<rparr>\<rparr>))"
| "exec_ddl (Create_index i t cs) c =
     (case map_of (db_tables (cn_db c)) t of
        None \<Rightarrow> (Inl (operational_error (''no such table: main.'' @ t)), c)
      | Some cols \<Rightarrow>
          if i \<in> fst ` set (db_tables (cn_db c)) then (Inl (operational_error (''there is already a table named '' @ i)), c)
          else if i \<in> fst ` set (db_indexes (cn_db c)) then (Inr (), c)
          else (case find (\<lambda>k. k \<notin> co_name ` set cols) cs of
              Some k \<Rightarrow> (Inl (operational_error (''no such column: '' @ k)), c)
            | None \<Rightarrow> (Inr (), c\<lparr>cn_db := (cn_db c)\<lparr>db_indexes := db_indexes (cn_db c) @ [(i, t, cs)]\<rparr>\<rparr>)))"

text \<open>Statements run one after the other, each in a transaction of its own; the first that fails ends the script.\<close>

fun run_ddl :: "ddl list \<Rightarrow> (connection, unit) act" where
  "run_ddl [] = returnA ()"
| "run_ddl (s # ss) = bindA (exec_ddl s) (\<lambda>_. run_ddl ss)"

subsection \<open>The scripts\<close>

definition plain :: "string \<Rightarrow> string \<Rightarrow> column" where
  "plain n t = \<lparr> co_name = n, co_type = t, co_not_null = False, co_key = False, co_default = None, co_references = None \<rparr>"

definition key_column :: "string \<Rightarrow> column" where
  "key_column n = (plain n ''TEXT'')\<lparr>co_key := True\<rparr>"

definition not_null :: "string \<Rightarrow> string \<Rightarrow> column" where
  "not_null n t = (plain n t)\<lparr>co_not_null := True\<rparr>"

definition defaulted :: "string \<Rightarrow> string \<Rightarrow> string \<Rightarrow> column" where
  "defaulted n t v = (not_null n t)\<lparr>co_default := Some v\<rparr>"

definition queue_columns :: "column list" where
  "queue_columns = [key_column ''item_id'', not_null ''payload_json'' ''TEXT'', defaulted ''status'' ''TEXT'' ''pending'', plain ''claimed_at'' ''TEXT'',
     plain ''claim_token'' ''TEXT'', defaulted ''attempts'' ''INTEGER'' ''0'', plain ''last_error'' ''TEXT'', not_null ''created_at'' ''TEXT'',
     not_null ''updated_at'' ''TEXT'']"

definition audit_columns :: "column list" where
  "audit_columns = [key_column ''event_id'', not_null ''kind'' ''TEXT'', plain ''run_id'' ''TEXT'', plain ''sample_id'' ''TEXT'',
     not_null ''timestamp'' ''TEXT'', not_null ''payload_json'' ''TEXT'', plain ''prev_hash'' ''TEXT'', not_null ''this_hash'' ''TEXT'']"

definition schema_sql :: "ddl list" where
  "schema_sql =
     [Journal_mode ''wal'', Foreign_keys True,
      Create_table ''runs'' [key_column ''run_id'', not_null ''task_id'' ''TEXT'', not_null ''task_name'' ''TEXT'', not_null ''task_prompt'' ''TEXT'',
        not_null ''input_path'' ''TEXT'', not_null ''output_dir'' ''TEXT'', defaulted ''mode'' ''TEXT'' ''auto'', defaulted ''concurrency'' ''INTEGER'' ''4'',
        defaulted ''status'' ''TEXT'' ''pending'', plain ''seed'' ''INTEGER'', not_null ''created_at'' ''TEXT'', not_null ''updated_at'' ''TEXT''],
      Create_table ''samples'' [key_column ''sample_id'', (not_null ''run_id'' ''TEXT'')\<lparr>co_references := Some (''runs'', ''CASCADE'')\<rparr>,
        not_null ''row_index'' ''INTEGER'', not_null ''input_json'' ''TEXT'', defaulted ''status'' ''TEXT'' ''pending'', defaulted ''attempts'' ''INTEGER'' ''0'',
        plain ''extracted_json'' ''TEXT'', plain ''evidence_dir'' ''TEXT'', plain ''error'' ''TEXT'', not_null ''created_at'' ''TEXT'', not_null ''updated_at'' ''TEXT''],
      Create_index ''idx_samples_run_status'' ''samples'' [''run_id'', ''status''],
      Create_table ''artifacts'' [key_column ''sha256'', not_null ''name'' ''TEXT'', not_null ''mime'' ''TEXT'', not_null ''size'' ''INTEGER'', not_null ''path'' ''TEXT'',
        (plain ''sample_id'' ''TEXT'')\<lparr>co_references := Some (''samples'', ''SET NULL'')\<rparr>,
        (plain ''run_id'' ''TEXT'')\<lparr>co_references := Some (''runs'', ''SET NULL'')\<rparr>, not_null ''created_at'' ''TEXT''],
      Create_index ''idx_artifacts_sample'' ''artifacts'' [''sample_id''],
      Create_index ''idx_artifacts_run'' ''artifacts'' [''run_id''],
      Create_table ''queue'' queue_columns,
      Create_index ''idx_queue_status'' ''queue'' [''status'', ''created_at''],
      Create_table ''audit_log'' audit_columns,
      Create_index ''idx_audit_run'' ''audit_log'' [''run_id''],
      Create_index ''idx_audit_sample'' ''audit_log'' [''sample_id''],
      Create_index ''idx_audit_time'' ''audit_log'' [''timestamp''],
      Create_table ''event_log'' [key_column ''event_id'', not_null ''kind'' ''TEXT'', plain ''run_id'' ''TEXT'', plain ''sample_id'' ''TEXT'',
        not_null ''timestamp'' ''TEXT'', not_null ''payload_json'' ''TEXT''],
      Create_index ''idx_event_run'' ''event_log'' [''run_id''],
      Create_index ''idx_event_time'' ''event_log'' [''timestamp'']]"

text \<open>What the queue and the log run on their own: a connection of the queue turns foreign keys on each time.\<close>

definition queue_ddl :: "ddl list" where
  "queue_ddl = [Journal_mode ''wal'', Foreign_keys True, Create_table ''queue'' queue_columns, Create_index ''idx_queue_status'' ''queue'' [''status'', ''created_at'']]"

definition audit_ddl :: "ddl list" where
  "audit_ddl = [Journal_mode ''wal'', Create_table ''audit_log'' (audit_columns @ [plain ''rowid_hint'' ''INTEGER'']),
     Create_index ''idx_audit_run'' ''audit_log'' [''run_id''], Create_index ''idx_audit_time'' ''audit_log'' [''timestamp'']]"

subsection \<open>Opening a database\<close>

text \<open>A connection of its own to a file, which is made where it is missing.\<close>

definition new_database :: database where
  "new_database = \<lparr> db_tables = [], db_indexes = [], db_journal = ''delete'' \<rparr>"

definition sqlite_connect :: "database option \<Rightarrow> connection" where
  "sqlite_connect f = \<lparr> cn_db = (case f of None \<Rightarrow> new_database | Some d \<Rightarrow> d), cn_foreign_keys = False \<rparr>"

definition on_connection :: "ddl list \<Rightarrow> database option \<Rightarrow> (exn + unit) \<times> database" where
  "on_connection ss f = (case run_ddl ss (sqlite_connect f) of (r, c) \<Rightarrow> (r, cn_db c))"

definition init_db :: "database option \<Rightarrow> (exn + unit) \<times> database" where
  "init_db f = on_connection schema_sql f"

definition open_queue :: "database option \<Rightarrow> (exn + unit) \<times> database" where
  "open_queue f = on_connection queue_ddl f"

definition open_audit :: "database option \<Rightarrow> (exn + unit) \<times> database" where
  "open_audit f = on_connection audit_ddl f"

text \<open>\<open>connect\<close>: what its body finds. The body runs between the statements and the close.\<close>

definition db_connect :: "database option \<Rightarrow> (exn + unit) \<times> connection" where
  "db_connect f = run_ddl [Foreign_keys True, Journal_mode ''wal''] (sqlite_connect f)"

text \<open>The columns that an \<open>INSERT\<close> names are columns of the table, and it names those that must not be null.\<close>

definition accepts_insert :: "string list \<Rightarrow> column list \<Rightarrow> bool" where
  "accepts_insert given cols \<longleftrightarrow> set given \<subseteq> co_name ` set cols
     \<and> (\<forall>c\<in>set cols. co_not_null c \<and> co_default c = None \<longrightarrow> co_name c \<in> set given)"

definition QUEUE_INSERT :: "string list" where
  "QUEUE_INSERT = [''item_id'', ''payload_json'', ''status'', ''attempts'', ''created_at'', ''updated_at'']"

definition AUDIT_INSERT :: "string list" where
  "AUDIT_INSERT = [''event_id'', ''kind'', ''run_id'', ''sample_id'', ''timestamp'', ''payload_json'', ''prev_hash'', ''this_hash'']"

text \<open>The other columns that the statements of the queue read or write.\<close>

definition QUEUE_COLUMNS :: "string list" where
  "QUEUE_COLUMNS = [''status'', ''claim_token'', ''claimed_at'', ''updated_at'', ''attempts'', ''last_error'', ''created_at'', ''item_id'', ''payload_json'']"

subsection \<open>The choice of the audit log\<close>

datatype audit_choice = SqliteLog string | PostgresLog string

definition make_audit_log :: "string option \<Rightarrow> string option \<Rightarrow> string option \<Rightarrow> exn + audit_choice" where
  "make_audit_log backend sqlite_path postgres_url =
     (let b = py_lower (str_or backend ''sqlite'') in
      if b = ''sqlite'' then
        (if str_or sqlite_path [] = [] then Inl (Exn ''ValueError'' ''sqlite audit log requires sqlite_path'')
         else Inr (SqliteLog (str_or sqlite_path [])))
      else if b = ''postgres'' then
        (if str_or postgres_url [] = [] then Inl (Exn ''ValueError'' ''postgres audit log requires postgres_url'')
         else Inr (PostgresLog (str_or postgres_url [])))
      else Inl (Exn ''ValueError'' (''unknown audit backend: '' @ repr_str b)))"

section \<open>Scripts that only add\<close>

text \<open>No statement removes or changes a table or an index, whether the script ends or fails.\<close>

lemma exec_ddl_keeps:
  "map_of (db_tables (cn_db c)) t = Some cols \<Longrightarrow> map_of (db_tables (cn_db (snd (exec_ddl s c)))) t = Some cols"
  "fst ` set (db_tables (cn_db c)) \<subseteq> fst ` set (db_tables (cn_db (snd (exec_ddl s c))))"
  "fst ` set (db_indexes (cn_db c)) \<subseteq> fst ` set (db_indexes (cn_db (snd (exec_ddl s c))))"
  by (cases s; auto simp: map_add_Some_iff map_of_eq_None_iff split: option.splits)+

lemma run_ddl_Cons: "snd (run_ddl (s # ss) c) = (case exec_ddl s c of (Inl e, c') \<Rightarrow> c' | (Inr _, c') \<Rightarrow> snd (run_ddl ss c'))"
  by (simp add: bindA_def split: prod.splits sum.splits)

lemma run_ddl_keeps:
  "map_of (db_tables (cn_db c)) t = Some cols \<Longrightarrow> map_of (db_tables (cn_db (snd (run_ddl ss c)))) t = Some cols"
proof (induction ss arbitrary: c)
  case (Cons s ss)
  then have "map_of (db_tables (cn_db (snd (exec_ddl s c)))) t = Some cols" by (intro exec_ddl_keeps)
  with Cons.IH show ?case unfolding run_ddl_Cons by (auto split: prod.splits sum.splits)
qed simp

text \<open>A statement that has been carried out does nothing the second time.\<close>

fun settled :: "database \<Rightarrow> ddl \<Rightarrow> bool" where
  "settled d (Journal_mode m) \<longleftrightarrow> db_journal d = m"
| "settled d (Foreign_keys b) \<longleftrightarrow> True"
| "settled d (Create_table t cols) \<longleftrightarrow> t \<in> fst ` set (db_tables d)"
| "settled d (Create_index i t cs) \<longleftrightarrow> t \<in> fst ` set (db_tables d) \<and> i \<in> fst ` set (db_indexes d) \<and> i \<notin> fst ` set (db_tables d)"

lemma map_of_key: "map_of xs k = Some v \<Longrightarrow> k \<in> fst ` set xs"
  by (metis domI dom_map_of_conv_image_fst)

lemma exec_settles: "exec_ddl s c = (Inr u, c') \<Longrightarrow> settled (cn_db c') s"
  by (cases s) (auto split: if_splits option.splits dest!: map_of_key)

lemma settled_stays:
  assumes "settled (cn_db c) s" "exec_ddl s' c = (Inr u, c')" "\<forall>m n. s = Journal_mode m \<and> s' = Journal_mode n \<longrightarrow> m = n"
  shows "settled (cn_db c') s"
  using assms by (cases s; cases s') (force split: if_splits option.splits)+

lemma settled_exec: "settled (cn_db c) s \<Longrightarrow> \<exists>c'. exec_ddl s c = (Inr (), c') \<and> cn_db c' = cn_db c"
  by (cases s) (auto simp: map_of_eq_None_iff split: option.splits)

lemma settled_run: "\<forall>s\<in>set ss. settled (cn_db c) s \<Longrightarrow> \<exists>c'. run_ddl ss c = (Inr (), c') \<and> cn_db c' = cn_db c"
proof (induction ss arbitrary: c)
  case (Cons s ss)
  then obtain c' where "exec_ddl s c = (Inr (), c')" "cn_db c' = cn_db c" using settled_exec [of c s] by auto
  with Cons.IH [of c'] Cons.prems show ?case by (simp add: bindA_def)
qed simp

definition one_journal :: "ddl list \<Rightarrow> bool" where
  "one_journal ss \<longleftrightarrow> (\<forall>m n. Journal_mode m \<in> set ss \<longrightarrow> Journal_mode n \<in> set ss \<longrightarrow> m = n)"

lemma run_settles:
  "run_ddl ss c = (Inr u, c') \<Longrightarrow> one_journal (past @ ss) \<Longrightarrow> \<forall>s\<in>set past. settled (cn_db c) s
     \<Longrightarrow> \<forall>s\<in>set (past @ ss). settled (cn_db c') s"
proof (induction ss arbitrary: c past)
  case (Cons s ss)
  then obtain c1 where e: "exec_ddl s c = (Inr (), c1)" "run_ddl ss c1 = (Inr u, c')" by (auto simp: bindA_eq_Inr)
  have "settled (cn_db c1) x" if "x \<in> set past" for x
  proof (rule settled_stays [OF _ e(1)])
    show "settled (cn_db c) x" using Cons.prems(3) that by blast
    show "\<forall>m n. x = Journal_mode m \<and> s = Journal_mode n \<longrightarrow> m = n"
    proof (intro allI impI)
      fix m n assume "x = Journal_mode m \<and> s = Journal_mode n"
      then have "Journal_mode m \<in> set (past @ s # ss)" "Journal_mode n \<in> set (past @ s # ss)" using that by auto
      with Cons.prems(2) show "m = n" unfolding one_journal_def by blast
    qed
  qed
  with exec_settles [OF e(1)] have "\<forall>x\<in>set (past @ [s]). settled (cn_db c1) x" by (simp add: ball_Un)
  moreover have "one_journal ((past @ [s]) @ ss)" using Cons.prems(2) by simp
  ultimately have "\<forall>x\<in>set ((past @ [s]) @ ss). settled (cn_db c') x" by (intro Cons.IH [OF e(2)])
  then show ?case by simp
qed simp

lemma run_twice:
  assumes "run_ddl ss c = (Inr u, c')" "one_journal ss" "cn_db c2 = cn_db c'"
  shows "\<exists>c3. run_ddl ss c2 = (Inr (), c3) \<and> cn_db c3 = cn_db c'"
  using run_settles [OF assms(1), of "[]"] assms(2,3) settled_run [of ss c2] by simp

text \<open>
  Scripts over a family of statements: names of tables and indexes differ, and every table of a name has the columns of
  the indexes on that name. As long as a script makes a table before the indexes on it, it cannot fail on a database that
  the family has made.
\<close>

fun prepared :: "string set \<Rightarrow> ddl list \<Rightarrow> bool" where
  "prepared T [] = True"
| "prepared T (Create_table t cols # ss) = prepared (insert t T) ss"
| "prepared T (Create_index i t cs # ss) = (t \<in> T \<and> prepared T ss)"
| "prepared T (_ # ss) = prepared T ss"

locale ddl_family =
  fixes family :: "ddl list"
  assumes names_differ: "Create_table n cols \<in> set family \<Longrightarrow> Create_index n t cs \<notin> set family"
    and columns_exist: "Create_index i t cs \<in> set family \<Longrightarrow> Create_table t cols \<in> set family \<Longrightarrow> set cs \<subseteq> co_name ` set cols"
begin

definition made :: "database \<Rightarrow> bool" where
  "made d \<longleftrightarrow> (\<forall>(t, cols)\<in>set (db_tables d). Create_table t cols \<in> set family)
     \<and> (\<forall>(i, t, cs)\<in>set (db_indexes d). Create_index i t cs \<in> set family)"

lemma exec_made:
  assumes "made (cn_db c)" "s \<in> set family" "prepared (fst ` set (db_tables (cn_db c))) [s]"
  shows "\<exists>c'. exec_ddl s c = (Inr (), c') \<and> made (cn_db c')"
proof (cases s)
  case (Create_table t cols)
  have "t \<notin> fst ` set (db_indexes (cn_db c))"
    using assms(1,2) names_differ Create_table by (auto simp: made_def)
  with assms(1,2) Create_table show ?thesis by (auto simp: made_def)
next
  case (Create_index i t cs)
  then obtain cols where cols: "map_of (db_tables (cn_db c)) t = Some cols"
    using assms(3) by (metis domD dom_map_of_conv_image_fst prepared.simps(3))
  then have "Create_table t cols \<in> set family" using assms(1) by (auto simp: made_def dest: map_of_SomeD)
  then have "set cs \<subseteq> co_name ` set cols" using columns_exist assms(2) Create_index by blast
  then have "find (\<lambda>k. k \<notin> co_name ` set cols) cs = None" by (auto simp: find_None_iff)
  moreover have "i \<notin> fst ` set (db_tables (cn_db c))"
    using assms(1,2) names_differ Create_index by (auto simp: made_def)
  ultimately show ?thesis using assms(1,2) cols Create_index by (auto simp: made_def)
qed (use assms in \<open>auto simp: made_def\<close>)

lemma exec_tables: "exec_ddl s c = (Inr u, c') \<Longrightarrow>
     fst ` set (db_tables (cn_db c')) = fst ` set (db_tables (cn_db c)) \<union> {t. \<exists>cols. s = Create_table t cols}"
  by (cases s) (auto split: if_splits option.splits)

lemma prepared_Cons: "prepared T (s # ss) \<longleftrightarrow> prepared T [s] \<and> prepared (T \<union> {t. \<exists>cols. s = Create_table t cols}) ss"
  by (cases s) auto

lemma run_made:
  "made (cn_db c) \<Longrightarrow> set ss \<subseteq> set family \<Longrightarrow> prepared (fst ` set (db_tables (cn_db c))) ss
     \<Longrightarrow> \<exists>c'. run_ddl ss c = (Inr (), c') \<and> made (cn_db c')"
proof (induction ss arbitrary: c)
  case (Cons s ss)
  have p: "prepared (fst ` set (db_tables (cn_db c))) [s]"
    "prepared (fst ` set (db_tables (cn_db c)) \<union> {t. \<exists>cols. s = Create_table t cols}) ss"
    using Cons.prems(3) prepared_Cons by blast+
  obtain c' where c': "exec_ddl s c = (Inr (), c')" "made (cn_db c')" using exec_made [OF Cons.prems(1) _ p(1)] Cons.prems(2) by auto
  with Cons.IH [OF c'(2)] Cons.prems(2) p(2) exec_tables [OF c'(1)] show ?case by (simp add: bindA_def)
qed simp

lemma run_made_tables:
  "run_ddl ss c = (Inr u, c') \<Longrightarrow> Create_table t cols \<in> set ss \<Longrightarrow> made (cn_db c')
     \<Longrightarrow> \<exists>cols. map_of (db_tables (cn_db c')) t = Some cols \<and> Create_table t cols \<in> set family"
proof -
  assume "run_ddl ss c = (Inr u, c')" "Create_table t cols \<in> set ss" "made (cn_db c')"
  moreover have "t \<in> fst ` set (db_tables (cn_db c'))"
    using calculation(1,2)
  proof (induction ss arbitrary: c)
    case (Cons s ss)
    then obtain c1 where e: "exec_ddl s c = (Inr (), c1)" "run_ddl ss c1 = (Inr u, c')" by (auto simp: bindA_eq_Inr)
    show ?case
    proof (cases "s = Create_table t cols")
      case True
      then have "t \<in> fst ` set (db_tables (cn_db c1))" using exec_tables [OF e(1)] by auto
      then obtain k where "map_of (db_tables (cn_db c1)) t = Some k" by (metis domD dom_map_of_conv_image_fst)
      from run_ddl_keeps [OF this, of ss] e(2) show ?thesis by (auto dest: map_of_key)
    qed (use Cons e in auto)
  qed simp
  ultimately show ?thesis by (auto simp: made_def dest: map_of_SomeD) (metis (mono_tags, lifting) case_prodD domD dom_map_of_conv_image_fst fst_conv imageI map_of_SomeD)
qed

end

lemma family_names: "set (schema_sql @ queue_ddl @ audit_ddl) = set (schema_sql @ [Create_table ''audit_log'' (audit_columns @ [plain ''rowid_hint'' ''INTEGER''])])"
  by (auto simp: schema_sql_def queue_ddl_def audit_ddl_def)

interpretation andera: ddl_family "schema_sql @ queue_ddl @ audit_ddl"
proof
  fix n cols t cs assume "Create_table n cols \<in> set (schema_sql @ queue_ddl @ audit_ddl)"
  then show "Create_index n t cs \<notin> set (schema_sql @ queue_ddl @ audit_ddl)"
    unfolding family_names by (auto simp: schema_sql_def)
next
  fix i t cs cols assume "Create_index i t cs \<in> set (schema_sql @ queue_ddl @ audit_ddl)" "Create_table t cols \<in> set (schema_sql @ queue_ddl @ audit_ddl)"
  then show "set cs \<subseteq> co_name ` set cols"
    unfolding family_names by (auto simp: schema_sql_def queue_columns_def audit_columns_def key_column_def not_null_def defaulted_def plain_def)
qed

subsection \<open>Who opens the database first\<close>

datatype opener = Opens_metadata | Opens_queue | Opens_log

fun opener_ddl :: "opener \<Rightarrow> ddl list" where
  "opener_ddl Opens_metadata = schema_sql"
| "opener_ddl Opens_queue = queue_ddl"
| "opener_ddl Opens_log = audit_ddl"

fun open_with :: "opener \<Rightarrow> database option \<Rightarrow> (exn + unit) \<times> database" where
  "open_with Opens_metadata = init_db"
| "open_with Opens_queue = open_queue"
| "open_with Opens_log = open_audit"

fun open_all :: "opener list \<Rightarrow> database option \<Rightarrow> (exn + unit) \<times> database option" where
  "open_all [] f = (Inr (), f)"
| "open_all (k # ks) f = (case open_with k f of (Inl e, d) \<Rightarrow> (Inl e, Some d) | (Inr _, d) \<Rightarrow> open_all ks (Some d))"

lemma open_with_ddl: "open_with k f = on_connection (opener_ddl k) f"
  by (cases k) (simp_all add: init_db_def open_queue_def open_audit_def)

lemma prepared_mono: "prepared T ss \<Longrightarrow> T \<subseteq> U \<Longrightarrow> prepared U ss"
  by (induction T ss arbitrary: U rule: prepared.induct) auto

lemma openers_prepared: "prepared {} (opener_ddl k)" "set (opener_ddl k) \<subseteq> set (schema_sql @ queue_ddl @ audit_ddl)" "one_journal (opener_ddl k)"
  by (cases k; simp add: schema_sql_def queue_ddl_def audit_ddl_def one_journal_def)+

definition keeps_tables :: "database \<Rightarrow> database \<Rightarrow> bool" where
  "keeps_tables d d' \<longleftrightarrow> (\<forall>t cols. map_of (db_tables d) t = Some cols \<longrightarrow> map_of (db_tables d') t = Some cols)"

definition has_tables :: "opener \<Rightarrow> database \<Rightarrow> bool" where
  "has_tables k d \<longleftrightarrow> (\<forall>t cols. Create_table t cols \<in> set (opener_ddl k) \<longrightarrow>
     (\<exists>cols. map_of (db_tables d) t = Some cols \<and> Create_table t cols \<in> set (schema_sql @ queue_ddl @ audit_ddl)))"

lemma keeps_tables_trans: "keeps_tables a b \<Longrightarrow> keeps_tables b c \<Longrightarrow> keeps_tables a c"
  by (simp add: keeps_tables_def)

lemma has_tables_kept: "keeps_tables d d' \<Longrightarrow> has_tables k d \<Longrightarrow> has_tables k d'"
  unfolding keeps_tables_def has_tables_def by meson

lemma on_connection_keeps: "on_connection ss (Some d0) = (r, d) \<Longrightarrow> keeps_tables d0 d"
  using run_ddl_keeps [of "sqlite_connect (Some d0)" _ _ ss]
  by (auto simp: on_connection_def sqlite_connect_def keeps_tables_def split: prod.splits)

lemma open_made:
  assumes "andera.made (cn_db (sqlite_connect f))"
  obtains d where "open_with k f = (Inr (), d)" "andera.made d" "has_tables k d"
proof -
  obtain c where c: "run_ddl (opener_ddl k) (sqlite_connect f) = (Inr (), c)" "andera.made (cn_db c)"
    using andera.run_made [OF assms openers_prepared(2) prepared_mono [OF openers_prepared(1)]] by auto
  show ?thesis
  proof (rule that [of "cn_db c"])
    show "open_with k f = (Inr (), cn_db c)" by (simp add: open_with_ddl on_connection_def c(1))
    show "has_tables k (cn_db c)" unfolding has_tables_def using andera.run_made_tables [OF c(1) _ c(2)] by blast
  qed (rule c(2))
qed

lemma open_all_made:
  "andera.made d0 \<Longrightarrow> \<exists>d. open_all ks (Some d0) = (Inr (), Some d) \<and> keeps_tables d0 d \<and> (\<forall>k\<in>set ks. has_tables k d)"
proof (induction ks arbitrary: d0)
  case Nil
  show ?case by (simp add: keeps_tables_def)
next
  case (Cons k ks)
  then have "andera.made (cn_db (sqlite_connect (Some d0)))" by (simp add: sqlite_connect_def)
  from open_made [OF this] obtain d1 where d1: "open_with k (Some d0) = (Inr (), d1)" "andera.made d1" "has_tables k d1" by metis
  from Cons.IH [OF d1(2)] obtain d where d: "open_all ks (Some d1) = (Inr (), Some d)" "keeps_tables d1 d" "\<forall>k\<in>set ks. has_tables k d"
    by blast
  have "keeps_tables d0 d" using on_connection_keeps [OF d1(1) [unfolded open_with_ddl]] d(2) by (rule keeps_tables_trans)
  moreover have "has_tables k d" using has_tables_kept [OF d(2) d1(3)] .
  ultimately show ?case using d1(1) d by simp
qed

section \<open>Properties\<close>

text \<open>
  The metadata script only adds. Whatever it finds and however it ends, a table that exists keeps its columns: there is no
  migration. If it succeeds, its six tables exist, the file is in WAL mode, and running it again succeeds and changes
  nothing.
\<close>

theorem init_db_adds_and_repeats:
  assumes "init_db f = (r, d)"
  shows "(\<forall>d0 t cols. f = Some d0 \<and> map_of (db_tables d0) t = Some cols \<longrightarrow> map_of (db_tables d) t = Some cols)
    \<and> (r = Inr () \<longrightarrow> init_db (Some d) = (Inr (), d) \<and> db_journal d = ''wal''
        \<and> {''runs'', ''samples'', ''artifacts'', ''queue'', ''audit_log'', ''event_log''} \<subseteq> fst ` set (db_tables d))"
proof -
  have kept: "\<forall>d0 t cols. f = Some d0 \<and> map_of (db_tables d0) t = Some cols \<longrightarrow> map_of (db_tables d) t = Some cols"
    using assms on_connection_keeps [of schema_sql _ r d] by (auto simp: init_db_def keeps_tables_def)
  have repeats: "init_db (Some d) = (Inr (), d) \<and> db_journal d = ''wal''
        \<and> {''runs'', ''samples'', ''artifacts'', ''queue'', ''audit_log'', ''event_log''} \<subseteq> fst ` set (db_tables d)" if ok: "r = Inr ()"
  proof -
    have once: "one_journal schema_sql" using openers_prepared(3) [of Opens_metadata] by simp
    obtain c where c: "run_ddl schema_sql (sqlite_connect f) = (Inr (), c)" "d = cn_db c"
      using assms ok by (cases "run_ddl schema_sql (sqlite_connect f)") (auto simp: init_db_def on_connection_def)
    obtain c3 where "run_ddl schema_sql (sqlite_connect (Some d)) = (Inr (), c3)" "cn_db c3 = d"
      using run_twice [OF c(1) once, of "sqlite_connect (Some d)"] c(2) by (auto simp: sqlite_connect_def)
    then have again: "init_db (Some d) = (Inr (), d)" by (simp add: init_db_def on_connection_def)
    have settled: "\<forall>s\<in>set schema_sql. settled d s"
      using run_settles [OF c(1), of "[]"] once by (simp add: c(2))
    have "Journal_mode ''wal'' \<in> set schema_sql" by (simp add: schema_sql_def)
    with settled have "settled d (Journal_mode ''wal'')" ..
    then have wal: "db_journal d = ''wal''" by simp
    have table: "t \<in> fst ` set (db_tables d)" if script: "\<exists>cols. Create_table t cols \<in> set schema_sql" for t
    proof -
      obtain cols where "Create_table t cols \<in> set schema_sql" using script ..
      with settled have "settled d (Create_table t cols)" ..
      then show ?thesis by simp
    qed
    have "\<exists>cols. Create_table ''runs'' cols \<in> set schema_sql" "\<exists>cols. Create_table ''samples'' cols \<in> set schema_sql"
      "\<exists>cols. Create_table ''artifacts'' cols \<in> set schema_sql" "\<exists>cols. Create_table ''queue'' cols \<in> set schema_sql"
      "\<exists>cols. Create_table ''audit_log'' cols \<in> set schema_sql" "\<exists>cols. Create_table ''event_log'' cols \<in> set schema_sql"
      by (simp_all add: schema_sql_def)
    from this [THEN table] again wal show ?thesis by simp
  qed
  show ?thesis by (rule conjI [OF kept impI]) (rule repeats)
qed

theorem init_db_adds_and_repeats_witness:
  "init_db (Some (snd (init_db None))) = (Inr (), snd (init_db None))"
proof -
  have "fst (init_db None) = Inr ()" by code_simp
  with init_db_adds_and_repeats [of None, OF prod.collapse [symmetric]] show ?thesis by simp
qed

text \<open>
  The schemas fit together. Whichever of the metadata script, the queue and the log open a file, in any order and any
  number of times, all succeed; and the queue and the log find the tables their statements need, although the log makes
  a column that the script does not have.
\<close>

theorem openers_agree:
  assumes "open_all ks None = (r, f)" "ks \<noteq> []"
  shows "r = Inr () \<and> (\<exists>d. f = Some d
    \<and> (Opens_metadata \<in> set ks \<or> Opens_queue \<in> set ks \<longrightarrow> (\<exists>cols. map_of (db_tables d) ''queue'' = Some cols
         \<and> accepts_insert QUEUE_INSERT cols \<and> set QUEUE_COLUMNS \<subseteq> co_name ` set cols))
    \<and> (Opens_metadata \<in> set ks \<or> Opens_log \<in> set ks \<longrightarrow> (\<exists>cols. map_of (db_tables d) ''audit_log'' = Some cols
         \<and> accepts_insert AUDIT_INSERT cols)))"
proof -
  obtain k js where ks: "ks = k # js" using assms(2) by (cases ks) auto
  have "andera.made (cn_db (sqlite_connect None))" by (simp add: sqlite_connect_def new_database_def andera.made_def)
  from open_made [OF this] obtain d1 where d1: "open_with k None = (Inr (), d1)" "andera.made d1" "has_tables k d1" by metis
  from open_all_made [OF d1(2), of js] obtain d where d: "open_all js (Some d1) = (Inr (), Some d)" "keeps_tables d1 d"
    "\<forall>j\<in>set js. has_tables j d" by blast
  have f: "r = Inr ()" "f = Some d" using assms(1) d1(1) d(1) by (simp_all add: ks)
  have has: "has_tables j d" if "j \<in> set ks" for j using that d(3) has_tables_kept [OF d(2) d1(3)] by (auto simp: ks)
  have queue: "\<exists>cols. map_of (db_tables d) ''queue'' = Some cols \<and> accepts_insert QUEUE_INSERT cols \<and> set QUEUE_COLUMNS \<subseteq> co_name ` set cols"
    if who: "Opens_metadata \<in> set ks \<or> Opens_queue \<in> set ks"
  proof -
    have "Create_table ''queue'' queue_columns \<in> set (opener_ddl Opens_metadata)" "Create_table ''queue'' queue_columns \<in> set (opener_ddl Opens_queue)"
      by (simp_all add: schema_sql_def queue_ddl_def)
    with who has obtain j where j: "has_tables j d" "Create_table ''queue'' queue_columns \<in> set (opener_ddl j)" by blast
    then obtain cols where cols: "map_of (db_tables d) ''queue'' = Some cols" "Create_table ''queue'' cols \<in> set (schema_sql @ queue_ddl @ audit_ddl)"
      unfolding has_tables_def by blast
    have "cols = queue_columns" using cols(2) unfolding family_names by (auto simp: schema_sql_def)
    moreover have "accepts_insert QUEUE_INSERT queue_columns" "set QUEUE_COLUMNS \<subseteq> co_name ` set queue_columns" by code_simp+
    ultimately show ?thesis using cols(1) by blast
  qed
  have audit: "\<exists>cols. map_of (db_tables d) ''audit_log'' = Some cols \<and> accepts_insert AUDIT_INSERT cols"
    if who: "Opens_metadata \<in> set ks \<or> Opens_log \<in> set ks"
  proof -
    have "Create_table ''audit_log'' audit_columns \<in> set (opener_ddl Opens_metadata)"
      "Create_table ''audit_log'' (audit_columns @ [plain ''rowid_hint'' ''INTEGER'']) \<in> set (opener_ddl Opens_log)"
      by (simp_all add: schema_sql_def audit_ddl_def)
    with who has obtain j c where j: "has_tables j d" "Create_table ''audit_log'' c \<in> set (opener_ddl j)" by blast
    then obtain cols where cols: "map_of (db_tables d) ''audit_log'' = Some cols" "Create_table ''audit_log'' cols \<in> set (schema_sql @ queue_ddl @ audit_ddl)"
      unfolding has_tables_def by blast
    have "cols = audit_columns \<or> cols = audit_columns @ [plain ''rowid_hint'' ''INTEGER'']"
      using cols(2) unfolding family_names by (auto simp: schema_sql_def)
    moreover have "accepts_insert AUDIT_INSERT audit_columns" "accepts_insert AUDIT_INSERT (audit_columns @ [plain ''rowid_hint'' ''INTEGER''])" by code_simp+
    ultimately show ?thesis using cols(1) by blast
  qed
  show ?thesis using f queue audit by blast
qed

theorem openers_agree_witness:
  "\<exists>d cols. open_all [Opens_log, Opens_metadata, Opens_queue] None = (Inr (), Some d) \<and> map_of (db_tables d) ''audit_log'' = Some cols
     \<and> accepts_insert AUDIT_INSERT cols"
proof -
  obtain r f where o: "open_all [Opens_log, Opens_metadata, Opens_queue] None = (r, f)" by fastforce
  from openers_agree [OF o] o show ?thesis by auto
qed

text \<open>Whether the log has the column \<open>rowid_hint\<close> depends on who was first.\<close>

lemma first_opener_decides:
  "map_of (db_tables (snd (open_with Opens_log (Some (snd (init_db None)))))) ''audit_log'' = Some audit_columns"
  "map_of (db_tables (snd (init_db (Some (snd (open_with Opens_log None)))))) ''audit_log'' = Some (audit_columns @ [plain ''rowid_hint'' ''INTEGER''])"
  by code_simp+

text \<open>A body of \<open>connect\<close> finds foreign keys on, and the tables as they were.\<close>

lemma connect_turns_keys_on:
  "\<exists>c. db_connect f = (Inr (), c) \<and> cn_foreign_keys c \<and> db_tables (cn_db c) = db_tables (cn_db (sqlite_connect f)) \<and> db_journal (cn_db c) = ''wal''"
  by (simp add: db_connect_def bindA_def)

text \<open>The choice of the log fails if the name is unknown, or if the place of the log that is named is missing.\<close>

lemma make_audit_log_Inr:
  "make_audit_log b p u = Inr x \<longleftrightarrow> (\<exists>s. s \<noteq> [] \<and> (py_lower (str_or b ''sqlite'') = ''sqlite'' \<and> p = Some s \<and> x = SqliteLog s
     \<or> py_lower (str_or b ''sqlite'') = ''postgres'' \<and> u = Some s \<and> x = PostgresLog s))"
  by (auto simp: make_audit_log_def str_or_def Let_def split: option.splits)

end
