(* ===== verification/WorkerPool.thy ===== *)
theory WorkerPool
  imports RunWorkflow
begin

text \<open>
  The standalone consumers of \<open>worker.py\<close>: \<open>WorkerNode.run\<close>, which serves one run and leaves after three
  polls of an empty queue, and \<open>run_agent_pool\<close>, which serves every run on the global Redis queue and polls on.
  Both execute a job with \<open>_execute_sample\<close> (\<open>execute_sample\<close>), which records the result itself.
\<close>

subsection \<open>A worker of one run\<close>

definition load_run_config :: "string \<Rightarrow> string option \<Rightarrow> exn + pyval" where
  "load_run_config run_id cfg =
     (case cfg of
        None \<Rightarrow> Inl (Exn ''FileNotFoundError'' (''runs/'' @ run_id @ ''/.run_config.json not found - coordinator must start the run first''))
      | Some tx \<Rightarrow> (case json_loads tx of None \<Rightarrow> Inl json_error | Some v \<Rightarrow> Inr v))"

text \<open>How a job that was executed is settled, as in the other loop.\<close>

definition settle :: "'q queue_ops \<Rightarrow> qenv \<Rightarrow> string \<Rightarrow> exn + pydict \<Rightarrow> 'q \<Rightarrow> 'q" where
  "settle ops e i r q = (case settle_outcome r of Ack \<Rightarrow> qo_ack ops e i q | Nack reason \<Rightarrow> qo_nack ops e i reason q)"

text \<open>
  \<open>WorkerNode.run\<close>: \<open>idle\<close> is what others do to the queue and the files while the worker sleeps, half a second and
  then a whole one. The fuel bounds the number of polls.
\<close>

definition MAX_EMPTY :: nat where "MAX_EMPTY = 3"

fun node_loop ::
  "'q queue_ops \<Rightarrow> ('w proc \<Rightarrow> bool) \<Rightarrow> ('w proc \<Rightarrow> qenv) \<Rightarrow> (nat \<Rightarrow> 'q \<times> 'w proc \<Rightarrow> 'q \<times> 'w proc) \<Rightarrow> 'w runtime \<Rightarrow> string
    \<Rightarrow> nat \<Rightarrow> nat \<Rightarrow> nat \<Rightarrow> 'q \<times> 'w proc \<Rightarrow> ((exn + nat) \<times> 'q \<times> 'w proc) option" where
  "node_loop ops stop env idle rt worker 0 empties processed s = None"
| "node_loop ops stop env idle rt worker (Suc fuel) empties processed (q, p) =
     (if stop p then Some (Inr processed, q, p)
      else (case qo_dequeue ops (env p) q of
          (Inl e, q') \<Rightarrow> Some (Inl e, q', p)
        | (Inr None, q') \<Rightarrow>
            if MAX_EMPTY \<le> Suc empties then Some (Inr processed, q', p)
            else node_loop ops stop env idle rt worker fuel (Suc empties) processed (idle (Suc empties) (q', p))
        | (Inr (Some job), q') \<Rightarrow>
            (case execute_sample rt worker job p of
               (r, p') \<Rightarrow> node_loop ops stop env idle rt worker fuel 0 (Suc processed) (settle ops (env p') (job_item_id job) r q', p'))))"

definition run_worker ::
  "'q queue_ops \<Rightarrow> ('w proc \<Rightarrow> bool) \<Rightarrow> ('w proc \<Rightarrow> qenv) \<Rightarrow> (nat \<Rightarrow> 'q \<times> 'w proc \<Rightarrow> 'q \<times> 'w proc) \<Rightarrow> 'w runtime \<Rightarrow> string
    \<Rightarrow> string option \<Rightarrow> nat \<Rightarrow> 'q \<times> 'w proc \<Rightarrow> ((exn + nat) \<times> 'q \<times> 'w proc) option" where
  "run_worker ops stop env idle rt worker cfg fuel s =
     (case bindE (load_run_config (rt_run_id rt) cfg) (\<lambda>v. case v of
          PDict d \<Rightarrow> bindE (getitem d ''task'') (\<lambda>t. case t of PDict task \<Rightarrow> Inr task | _ \<Rightarrow> Inl (Exn ''AttributeError'' ''get''))
        | _ \<Rightarrow> Inl (Exn ''TypeError'' (type_name v @ '' indices must be integers or slices, not str''))) of
        Inl e \<Rightarrow> Some (Inl e, s)
      | Inr task \<Rightarrow> node_loop ops stop env idle (rt\<lparr>rt_task := task\<rparr>) worker fuel 0 0 s)"

subsection \<open>An agent for every run\<close>

text \<open>What an agent keeps of a run: its audit log, its checkpoints and its \<open>samples.jsonl\<close>.\<close>

record run_files =
  rf_audit :: "audit_row list"
  rf_ckpt :: "string \<Rightarrow> agent_state option"
  rf_record :: "progress \<times> string option"

record 'w agent =
  ag_sys :: "'w sys"
  ag_creds :: sealed_dir
  ag_runs :: "string \<Rightarrow> run_files"

definition open_run :: "string \<Rightarrow> 'w agent \<Rightarrow> 'w proc" where
  "open_run r a = \<lparr> px_sys = ag_sys a, px_audit = rf_audit (ag_runs a r), px_ckpt = rf_ckpt (ag_runs a r), px_creds = ag_creds a,
     px_record = rf_record (ag_runs a r) \<rparr>"

definition save_run :: "string \<Rightarrow> 'w proc \<Rightarrow> 'w agent \<Rightarrow> 'w agent" where
  "save_run r p a = \<lparr> ag_sys = px_sys p, ag_creds = px_creds p,
     ag_runs = (ag_runs a)(r := \<lparr> rf_audit = px_audit p, rf_ckpt = px_ckpt p, rf_record = px_record p \<rparr>) \<rparr>"

text \<open>A job says which run it is of, in any value \<open>str\<close> can print, and carries its task.\<close>

definition job_run :: "pydict \<Rightarrow> string option" where
  "job_run job = (let v = dget job ''run_id'' in if truthy v then Some (py_str v) else None)"

definition job_runtime :: "'w runtime \<Rightarrow> string \<Rightarrow> pydict \<Rightarrow> exn + 'w runtime" where
  "job_runtime rt r job = (case py_or (dget job ''task'') (PDict []) of
     PDict task \<Rightarrow> Inr (rt\<lparr>rt_run_id := r, rt_task := task\<rparr>)
   | v \<Rightarrow> Inl (Exn ''AttributeError'' (CHR 0x27 # type_name v @ CHR 0x27 # '' object has no attribute '' @ repr_str ''get'')))"

text \<open>
  One round of \<open>run_agent_pool\<close>; \<open>None\<close> for a round that finds the queue empty. The run id becomes a key of
  \<open>audits\<close> outside the \<open>try\<close>, so one that cannot be hashed ends the agent.
\<close>

definition agent_job :: "'q queue_ops \<Rightarrow> ('w sys \<Rightarrow> qenv) \<Rightarrow> 'w runtime \<Rightarrow> string \<Rightarrow> pydict \<Rightarrow> 'q \<times> 'w agent \<Rightarrow> (exn + bool) \<times> 'q \<times> 'w agent" where
  "agent_job ops env rt agent_id job s =
     (let (q, a) = s; i = job_item_id job in
      case job_run job of
        None \<Rightarrow> (Inr False, qo_dead_letter ops (env (ag_sys a)) i q, a)
      | Some r \<Rightarrow> if unhashable (dget job ''run_id'') then (Inl (unhashable_error (dget job ''run_id'')), q, a) else
          (case job_runtime rt r job of
             Inl e \<Rightarrow> (Inr True, settle ops (env (ag_sys a)) i (Inl e) q, a)
           | Inr rt' \<Rightarrow>
               (case execute_sample rt' agent_id job (open_run r a) of
                  (res, p) \<Rightarrow> (Inr True, settle ops (env (px_sys p)) i res q, save_run r p a))))"

definition agent_turn :: "'q queue_ops \<Rightarrow> ('w sys \<Rightarrow> qenv) \<Rightarrow> 'w runtime \<Rightarrow> string \<Rightarrow> 'q \<times> 'w agent \<Rightarrow> (exn + bool option) \<times> 'q \<times> 'w agent" where
  "agent_turn ops env rt agent_id s =
     (case qo_dequeue ops (env (ag_sys (snd s))) (fst s) of
        (Inl e, q) \<Rightarrow> (Inl e, q, snd s)
      | (Inr None, q) \<Rightarrow> (Inr None, q, snd s)
      | (Inr (Some job), q) \<Rightarrow> (case agent_job ops env rt agent_id job (q, snd s) of
          (Inl e, s') \<Rightarrow> (Inl e, s') | (Inr done, s') \<Rightarrow> (Inr (Some done), s')))"

text \<open>The agent until the stop event, or until the fuel is used up; \<open>idle\<close> as above, up to five seconds long.\<close>

fun agent_loop ::
  "'q queue_ops \<Rightarrow> ('q \<times> 'w agent \<Rightarrow> bool) \<Rightarrow> ('w sys \<Rightarrow> qenv) \<Rightarrow> (nat \<Rightarrow> 'q \<times> 'w agent \<Rightarrow> 'q \<times> 'w agent) \<Rightarrow> 'w runtime \<Rightarrow> string
    \<Rightarrow> nat \<Rightarrow> nat \<Rightarrow> nat \<Rightarrow> 'q \<times> 'w agent \<Rightarrow> ((exn + nat) \<times> 'q \<times> 'w agent) option" where
  "agent_loop ops stop env idle rt agent_id 0 empties processed s = None"
| "agent_loop ops stop env idle rt agent_id (Suc fuel) empties processed s =
     (if stop s then Some (Inr processed, s)
      else (case agent_turn ops env rt agent_id s of
          (Inl e, s') \<Rightarrow> Some (Inl e, s')
        | (Inr None, s') \<Rightarrow> agent_loop ops stop env idle rt agent_id fuel (Suc empties) processed (idle (Suc empties) s')
        | (Inr (Some done), s') \<Rightarrow>
            agent_loop ops stop env idle rt agent_id fuel 0 (if done then Suc processed else processed) s'))"

subsection \<open>Dead letters\<close>

locale agent_queue = run_queue +
  assumes dead_law: "qinv q \<Longrightarrow> status_of q i = Some Claimed \<Longrightarrow> qinv (qo_dead_letter ops e i q)
      \<and> status_of (qo_dead_letter ops e i q) = (status_of q)(i \<mapsto> Dead) \<and> attempts_of (qo_dead_letter ops e i q) = attempts_of q
      \<and> payload_of (qo_dead_letter ops e i q) = payload_of q"

interpretation sql_agents: agent_queue sql_status sql_attempts "table_inv m" m "sql_ops m" sql_payload for m
proof (intro agent_queue.intro agent_queue_axioms.intro, goal_cases)
  case 1
  show ?case by (rule sql_run.run_queue_axioms)
next
  case (2 t i e)
  then obtain r where r: "find_item i t = Some r" by (auto simp: sql_status_def)
  have "table_inv m (sql_dead_letter e i t)"
    unfolding sql_dead_letter_def by (rule table_inv_update [OF 2(1)]) (auto simp: row_inv_def)
  then show ?case using r
    by (auto simp: sql_ops_def sql_dead_letter_def sql_status_def sql_attempts_def find_item_update fun_eq_iff sql_payload_update)
qed

lemma redis_dead_law:
  assumes inv: "redis_inv m s" and cl: "redis_status s i = Some Claimed"
  shows "redis_inv m (redis_dead_letter e i s) \<and> redis_status (redis_dead_letter e i s) = (redis_status s)(i \<mapsto> Dead)
     \<and> redis_attempts (redis_dead_letter e i s) = redis_attempts s \<and> redis_payload (redis_dead_letter e i s) = redis_payload s"
proof -
  obtain h p d n where h: "rd_items s i = Some h" "h_payload_json h = Some p"
    "json_loads p = Some (PDict d)" "h_attempts h = Some n" "redis_attempts s i = n" "item_fields s i = h"
    using redis_item_of [OF inv cl] by metis
  let ?t = "redis_dead_letter e i s" and ?h = "h\<lparr>h_status := Some Dead, h_updated_at := Some (e_now e)\<rparr>"
  have items: "rd_items ?t = (rd_items s)(i \<mapsto> ?h)" using h by (simp add: redis_dead_letter_def r_cmds)
  have idx: "rd_pending ?t = rd_pending s" "rd_claimed ?t = filter (\<lambda>x. snd x \<noteq> i) (rd_claimed s)"
    by (simp_all add: redis_dead_letter_def r_cmds)
  have ni: "i \<notin> set (rd_pending s)" using inv cl by (simp add: redis_inv_def)
  have "redis_inv m ?t"
    by (rule redis_inv_move [OF inv items])
      (use inv h ni in \<open>auto simp: idx redis_inv_def distinct_map_filter hash_inv_def\<close>)
  moreover have "redis_attempts ?t = (redis_attempts s)(i := n)"
    by (rule redis_attempts_upd [OF items]) (simp add: h)
  moreover have "redis_payload ?t = redis_payload s" using h by (simp add: redis_payload_def items fun_eq_iff)
  ultimately show ?thesis using redis_status_upd [OF items] h by auto
qed

interpretation redis_agents: agent_queue redis_status redis_attempts "redis_inv m" m "redis_ops m" redis_payload for m
proof (intro agent_queue.intro agent_queue_axioms.intro, goal_cases)
  case 1
  show ?case by (rule redis_run.run_queue_axioms)
next
  case (2 s i e)
  then show ?case by (simp add: redis_ops_def redis_dead_law)
qed

section \<open>Lemmas\<close>

lemma execute_sample_ok:
  assumes "execute_sample rt worker job p = (r, p')" "proc_ok rt p" "wf_runtime rt" "wf_pyval (PDict job)"
  shows "proc_ok rt p'"
proof (cases "job_sample job")
  case (Inl e)
  with assms(1,2) show ?thesis by (simp add: execute_sample_def)
next
  case (Inr sample)
  from execute_sample_shape [OF assms(1) Inr assms(2-4)] show ?thesis by blast
qed

text \<open>The runtime of a run differs from the agent's in what \<open>wf_runtime\<close> and \<open>proc_ok\<close> do not look at.\<close>

lemma wf_runtime_run [simp]: "wf_runtime (rt\<lparr>rt_run_id := r, rt_task := t\<rparr>) = wf_runtime rt"
  by (simp add: wf_runtime_def)

lemma proc_ok_run [simp]: "proc_ok (rt\<lparr>rt_run_id := r, rt_task := t\<rparr>) p = proc_ok rt p"
  by (simp add: proc_ok_def log_verifies_def)

lemma open_save [simp]: "open_run r (save_run r p a) = p" "r' \<noteq> r \<Longrightarrow> ag_runs (save_run r p a) r' = ag_runs a r'"
  by (simp_all add: open_run_def save_run_def)

definition runs_ok :: "'w runtime \<Rightarrow> 'w agent \<Rightarrow> bool" where
  "runs_ok rt a \<longleftrightarrow> (\<forall>r. proc_ok rt (open_run r a))"

lemma runs_ok_save:
  assumes "runs_ok rt a" "proc_ok rt p" shows "runs_ok rt (save_run r p a)"
  unfolding runs_ok_def
proof
  fix k
  show "proc_ok rt (open_run k (save_run r p a))"
  proof (cases "k = r")
    case False
    with assms(1) show ?thesis by (simp add: runs_ok_def proc_ok_def log_verifies_def open_run_def save_run_def)
  qed (use assms(2) in simp)
qed

context agent_queue
begin

lemma settle_law:
  assumes "qinv q" "qo_dequeue ops e q = (Inr (Some job), q')"
  shows "qinv (settle ops e' (job_item_id job) r q')"
    and "deliveries_left status_of attempts_of q_max (settle ops e' (job_item_id job) r q') < deliveries_left status_of attempts_of q_max q"
    and "status_of (settle ops e' (job_item_id job) r q') (job_item_id job) \<in> {Some Pending, Some Done, Some Dead}"
proof -
  have "settle ops e' (job_item_id job) r q' = qo_ack ops e' (job_item_id job) q'
      \<or> (\<exists>reason. settle ops e' (job_item_id job) r q' = qo_nack ops e' (job_item_id job) reason q')"
    by (auto simp: settle_def split: outcome.splits)
  then obtain reason where s: "settle ops e' (job_item_id job) r q' = qo_ack ops e' (job_item_id job) q'
      \<or> settle ops e' (job_item_id job) r q' = qo_nack ops e' (job_item_id job) reason q'" by blast
  show "qinv (settle ops e' (job_item_id job) r q')"
    "deliveries_left status_of attempts_of q_max (settle ops e' (job_item_id job) r q') < deliveries_left status_of attempts_of q_max q"
    "status_of (settle ops e' (job_item_id job) r q') (job_item_id job) \<in> {Some Pending, Some Done, Some Dead}"
    by (rule deliveries_after_settle [OF assms refl s])+
qed

lemma job_wf: "qinv q \<Longrightarrow> qo_dequeue ops e q = (Inr (Some job), q') \<Longrightarrow> wf_pyval (PDict job)"
  using deq_payload unfolding same_job_def by blast

lemma node_loop_returns:
  assumes idle: "\<And>n q p q' p'. idle n (q, p) = (q', p') \<Longrightarrow> qinv q \<Longrightarrow> proc_ok rt p \<Longrightarrow> qinv q' \<and> proc_ok rt p'
      \<and> deliveries_left status_of attempts_of q_max q' \<le> deliveries_left status_of attempts_of q_max q"
    and rt: "wf_runtime rt"
  shows "qinv q \<Longrightarrow> proc_ok rt p \<Longrightarrow> empties < MAX_EMPTY
    \<Longrightarrow> MAX_EMPTY * deliveries_left status_of attempts_of q_max q + (MAX_EMPTY - empties) < fuel
    \<Longrightarrow> \<exists>n q' p'. node_loop ops stop env idle rt worker fuel empties processed (q, p) = Some (Inr n, q', p') \<and> qinv q' \<and> proc_ok rt p'
      \<and> n \<le> processed + deliveries_left status_of attempts_of q_max q \<and> (stop p' \<or> (\<forall>i. status_of q' i \<noteq> Some Pending))"
proof (induction fuel arbitrary: empties processed q p)
  case (Suc fuel)
  obtain x q1 where d: "qo_dequeue ops (env p) q = (Inr x, q1)" using deq_returns [OF Suc.prems(1)] by blast
  show ?case
  proof (cases "stop p")
    case True
    with Suc.prems show ?thesis by simp
  next
    case run: False
    show ?thesis
    proof (cases x)
      case None
      then have q1: "q1 = q" "\<forall>i. status_of q i \<noteq> Some Pending" using deq_None [OF Suc.prems(1)] d by blast+
      show ?thesis
      proof (cases "MAX_EMPTY \<le> Suc empties")
        case True
        with run d None q1 Suc.prems show ?thesis by simp
      next
        case False
        obtain q2 p2 where i: "idle (Suc empties) (q, p) = (q2, p2)" by fastforce
        note id = idle [OF i Suc.prems(1,2)]
        have "MAX_EMPTY * deliveries_left status_of attempts_of q_max q2 \<le> MAX_EMPTY * deliveries_left status_of attempts_of q_max q"
          using id by simp
        then have fuel: "MAX_EMPTY * deliveries_left status_of attempts_of q_max q2 + (MAX_EMPTY - Suc empties) < fuel"
          using Suc.prems(3,4) by linarith
        from Suc.IH [of q2 p2 "Suc empties" processed, OF _ _ _ fuel] id False obtain n q' p' where
          "node_loop ops stop env idle rt worker fuel (Suc empties) processed (q2, p2) = Some (Inr n, q', p')" "qinv q'" "proc_ok rt p'"
          "n \<le> processed + deliveries_left status_of attempts_of q_max q2" "stop p' \<or> (\<forall>i. status_of q' i \<noteq> Some Pending)" by auto
        with run d None q1(1) False i id show ?thesis by auto
      qed
    next
      case (Some job)
      note dj = d [unfolded Some]
      obtain r p1 where e: "execute_sample rt worker job p = (r, p1)" by fastforce
      let ?q = "settle ops (env p1) (job_item_id job) r q1"
      have ok: "qinv ?q" "proc_ok rt p1"
        using settle_law(1) [OF Suc.prems(1) dj] execute_sample_ok [OF e Suc.prems(2) rt job_wf [OF Suc.prems(1) dj]] by blast+
      have less: "deliveries_left status_of attempts_of q_max ?q < deliveries_left status_of attempts_of q_max q"
        by (rule settle_law(2) [OF Suc.prems(1) dj])
      then have "MAX_EMPTY * Suc (deliveries_left status_of attempts_of q_max ?q) \<le> MAX_EMPTY * deliveries_left status_of attempts_of q_max q"
        by (intro mult_le_mono2) simp
      then have fuel: "MAX_EMPTY * deliveries_left status_of attempts_of q_max ?q + (MAX_EMPTY - 0) < fuel"
        using Suc.prems(3,4) by simp
      from Suc.IH [OF ok _ fuel, of "Suc processed"] obtain n q' p' where
        "node_loop ops stop env idle rt worker fuel 0 (Suc processed) (?q, p1) = Some (Inr n, q', p')" "qinv q'" "proc_ok rt p'"
        "n \<le> Suc processed + deliveries_left status_of attempts_of q_max ?q" "stop p' \<or> (\<forall>i. status_of q' i \<noteq> Some Pending)"
        by (auto simp: MAX_EMPTY_def)
      with run dj e less show ?thesis by auto
    qed
  qed
qed simp

lemma agent_turn_ok:
  assumes inv: "qinv q" and runs: "runs_ok rt a" and rt: "wf_runtime rt"
    and deq: "qo_dequeue ops (env (ag_sys a)) q = (Inr (Some job), q1)"
    and hash: "job_run job = None \<or> \<not> unhashable (dget job ''run_id'')"
  shows "\<exists>q' a'. agent_turn ops env rt agent_id (q, a) = (Inr (Some (job_run job \<noteq> None)), q', a') \<and> qinv q' \<and> runs_ok rt a'
    \<and> (\<forall>r. job_run job \<noteq> Some r \<longrightarrow> ag_runs a' r = ag_runs a r)
    \<and> (\<forall>i. i \<noteq> job_item_id job \<longrightarrow> status_of q' i = status_of q i)
    \<and> (if job_run job = None then a' = a \<and> status_of q' (job_item_id job) = Some Dead
       else status_of q' (job_item_id job) \<in> {Some Pending, Some Done, Some Dead})"
proof -
  let ?i = "job_item_id job"
  note d = deq_Some [OF inv deq]
  have cl: "status_of q1 ?i = Some Claimed" and inv1: "qinv q1" using d by simp_all
  have others: "status_of (settle ops e ?i r q1) k = status_of q k" if "k \<noteq> ?i" for e r k
    using that d ack_law [OF inv1 cl, of e] nack_law [OF inv1 cl, of e] by (auto simp: settle_def split: outcome.splits)
  show ?thesis
  proof (cases "job_run job")
    case None
    with deq d dead_law [OF inv1 cl, of "env (ag_sys a)"] runs show ?thesis by (simp add: agent_turn_def agent_job_def)
  next
    case (Some r)
    show ?thesis
    proof (cases "job_runtime rt r job")
      case (Inl e)
      with Some hash deq settle_law(1,3) [OF inv deq] others runs show ?thesis by (simp add: agent_turn_def agent_job_def)
    next
      case (Inr rt')
      then obtain task where rt': "rt' = rt\<lparr>rt_run_id := r, rt_task := task\<rparr>" by (auto simp: job_runtime_def split: pyval.splits)
      obtain res p where e: "execute_sample rt' agent_id job (open_run r a) = (res, p)" by fastforce
      have "proc_ok rt' (open_run r a)" "wf_runtime rt'" using runs rt by (simp_all add: rt' runs_ok_def)
      from execute_sample_ok [OF e this job_wf [OF inv deq]] have "proc_ok rt p" by (simp add: rt')
      with runs_ok_save [OF runs] have "runs_ok rt (save_run r p a)" by blast
      with Some Inr hash deq e settle_law(1,3) [OF inv deq] others show ?thesis by (simp add: agent_turn_def agent_job_def)
    qed
  qed
qed

end

definition demo_queue :: redis_state where
  "demo_queue = snd (redis_enqueue \<lparr>e_now = 1, e_uuid = ''i''\<rparr> [] redis_empty)"

lemma demo_queue_inv: "redis_inv 3 demo_queue" "rd_pending demo_queue \<noteq> []"
proof -
  obtain i t where e: "redis_enqueue \<lparr>e_now = 1, e_uuid = ''i''\<rparr> [] redis_empty = (i, t)" by fastforce
  have "redis_status redis_empty i = None" by (simp add: redis_status_def redis_empty_def)
  then show "redis_inv 3 demo_queue" using redis_enq_law [OF redis_empty_inv [of 3] e] e by (simp add: demo_queue_def)
  show "rd_pending demo_queue \<noteq> []" by (simp add: demo_queue_def redis_enqueue_def Let_def r_cmds)
qed

lemma demo_job_no_run:
  assumes "redis_dequeue e demo_queue = (Inr (Some job), t)" shows "job_run job = None"
proof -
  have p: "redis_payload demo_queue = [''i'' \<mapsto> []]"
    by (simp add: demo_queue_def redis_enqueue_def Let_def r_cmds redis_payload_def redis_empty_def fun_eq_iff item_fields_def
        no_fields_def item_id_or_def dict_text_dumps)
  have "qo_dequeue (redis_ops 3) e demo_queue = (Inr (Some job), t)" using assms by (simp add: redis_ops_def)
  from redis_run.deq_payload [OF demo_queue_inv(1) this] obtain d where
    d: "redis_payload demo_queue (job_item_id job) = Some d" "same_job d job" by blast
  have "d = []" using d(1) unfolding p fun_upd_apply by (simp split: if_split_asm)
  with d(2) have "map_of job ''run_id'' = None" by (simp add: same_job_def delivery_keys_def)
  then show ?thesis by (simp add: job_run_def dget_def)
qed

definition demo_agent :: "unit agent" where
  "demo_agent = \<lparr> ag_sys = demo_sys, ag_creds = [], ag_runs = (\<lambda>_. \<lparr> rf_audit = [], rf_ckpt = Map.empty, rf_record = (progress_empty, None) \<rparr>) \<rparr>"

lemma demo_agent_ok: "runs_ok demo_rt demo_agent"
  by (simp add: runs_ok_def proc_ok_def log_verifies_def open_run_def demo_agent_def)

section \<open>Properties\<close>

text \<open>
  A worker process comes to an end and leaves nothing behind. On a Redis queue, if what happens while it sleeps
  brings no new deliveries, \<open>WorkerNode.run\<close> returns within three polls for each delivery the queue can still make
  and three more, has processed no more jobs than that, leaves nothing pending unless it was told to stop, and its
  audit log still verifies.
\<close>

theorem worker_process_drains:
  assumes "redis_inv m q" "proc_ok rt p" "wf_runtime rt"
    and "\<And>n q p q' p'. idle n (q, p) = (q', p') \<Longrightarrow> redis_inv m q \<Longrightarrow> proc_ok rt p \<Longrightarrow> redis_inv m q' \<and> proc_ok rt p'
      \<and> deliveries_left redis_status redis_attempts m q' \<le> deliveries_left redis_status redis_attempts m q"
    and "3 * deliveries_left redis_status redis_attempts m q + 3 < fuel"
  shows "\<exists>n q' p'. node_loop (redis_ops m) stop env idle rt worker fuel 0 0 (q, p) = Some (Inr n, q', p')
    \<and> n \<le> deliveries_left redis_status redis_attempts m q \<and> verify_chain (rt_sha rt) (px_audit p') = Inr True
    \<and> (stop p' \<or> (\<forall>i. redis_status q' i \<noteq> Some Pending))"
proof -
  have "MAX_EMPTY * deliveries_left redis_status redis_attempts m q + (MAX_EMPTY - 0) < fuel" "0 < MAX_EMPTY"
    using assms(5) by (simp_all add: MAX_EMPTY_def)
  then have "\<exists>n q' p'. node_loop (redis_ops m) stop env idle rt worker fuel 0 0 (q, p) = Some (Inr n, q', p') \<and> redis_inv m q' \<and> proc_ok rt p'
      \<and> n \<le> 0 + deliveries_left redis_status redis_attempts m q \<and> (stop p' \<or> (\<forall>i. redis_status q' i \<noteq> Some Pending))"
    using assms(1-3) by (intro redis_agents.node_loop_returns) (rule assms(4), assumption+)
  then show ?thesis unfolding proc_ok_def log_verifies_def by (metis add_0)
qed

theorem worker_process_drains_witness:
  "\<exists>n q' p'. node_loop (redis_ops 3) (\<lambda>_. False) (\<lambda>_. \<lparr>e_now = 2, e_uuid = ''t''\<rparr>) (\<lambda>_ s. s) demo_rt ''w''
       (3 * deliveries_left redis_status redis_attempts 3 demo_queue + 4) 0 0 (demo_queue, demo_proc) = Some (Inr n, q', p')
     \<and> (\<forall>i. redis_status q' i \<noteq> Some Pending)"
  using worker_process_drains [OF demo_queue_inv(1) demo_proc_ok demo_rt_wf, where idle = "\<lambda>_ s. s" and stop = "\<lambda>_. False"
      and fuel = "3 * deliveries_left redis_status redis_attempts 3 demo_queue + 4"]
  by fastforce



end
