(* ===== verification/Cli.thy ===== *)
theory Cli
  imports RunsApi WorkerPool ProfileConfig
begin

text \<open>
  The command line (\<open>cli.py\<close>) with what it starts that is not modelled elsewhere: a run from its input file to its
  result (\<open>run\<close> in \<open>orchestrator/runner.py\<close>), the login helper (\<open>credentials/login_flow.py\<close>) and the migration
  (\<open>storage/pg_migrate.py\<close>). A command writes lines to two streams and ends with an exit code or an exception. The
  smoke check is in \<open>Scripts\<close>; the arguments are parsed by a library.
\<close>

subsection \<open>Output\<close>

text \<open>What was written to standard output and to standard error, one entry for each \<open>typer.echo\<close>.\<close>

type_synonym console = "string list \<times> string list"

definition echo :: "string \<Rightarrow> (console, unit) act" where
  "echo s c = (Inr (), (fst c @ [s], snd c))"

definition echo_err :: "string \<Rightarrow> (console, unit) act" where
  "echo_err s c = (Inr (), (fst c, snd c @ [s]))"

definition ok_or_fail :: "bool \<Rightarrow> string" where
  "ok_or_fail b = (if b then ''OK'' else ''FAIL'')"

definition dumps_report :: "pydict \<Rightarrow> string" where
  "dumps_report d = ascii_only (dumps_indent (PDict d))"

subsection \<open>A run from its input\<close>

text \<open>
  What a command finds: the files that exist, the profile, the YAML of the task, the rows of the input file, a fresh
  identifier, how a profile sets up a run, and the queue and files a workflow opens for a run id.
\<close>

record ('w, 'q) cli_env =
  ce_exists :: "string \<Rightarrow> bool"
  ce_profile :: "exn + profile"
  ce_task :: "exn + pyval"
  ce_rows :: "exn + pyval list"
  ce_uuid :: string
  ce_dump :: "profile \<Rightarrow> pydict"
  ce_coercions :: coercions
  ce_settings :: "profile \<Rightarrow> 'w run_env"
  ce_open :: "string \<Rightarrow> 'w runtime \<times> ('w, 'q) pool"

text \<open>\<open>run\<close>: the input is read first, then the overrides of the task are validated. No pool is touched by a failure there.\<close>

definition orchestrator_run ::
  "'q queue_ops \<Rightarrow> (nat \<Rightarrow> qenv) \<Rightarrow> ('w, 'q) cli_env \<Rightarrow> profile \<Rightarrow> pydict \<Rightarrow> string option \<Rightarrow> int option \<Rightarrow> nat list list
    \<Rightarrow> ((exn + string \<times> run_result) \<times> ('w, 'q) pool option) option" where
  "orchestrator_run ops env ce profile task run_id max_samples schedules =
     (case bindE (ce_rows ce) (\<lambda>rows. bindE (apply_task_overrides (ce_dump ce) (ce_coercions ce) profile task) (\<lambda>p. Inr (rows, p))) of
        Inl e \<Rightarrow> Some (Inl e, None)
      | Inr (rows, p) \<Rightarrow>
          (let run_id = (case given run_id of Some r \<Rightarrow> r | None \<Rightarrow> ''run-'' @ take 8 (ce_uuid ce));
               (rt, pool) = ce_open ce run_id
           in map_option (\<lambda>(r, s). (map_sum id (Pair run_id) r, Some s))
                (execute ops env (ce_settings ce p) (rt\<lparr> rt_run_id := run_id, rt_task := task \<rparr>) False (run_rows max_samples rows) schedules pool)))"

definition fpath_str :: "string \<Rightarrow> fpath \<Rightarrow> string" where
  "fpath_str base p = py_join ''/'' (base # p)"

definition run_report :: "bool \<Rightarrow> string \<Rightarrow> run_result \<Rightarrow> pydict" where
  "run_report files run_id r =
     [(''run_id'', PStr run_id), (''total'', PInt (int (rr_total r))), (''passed'', PInt (int (rr_passed r))),
      (''failed'', PInt (int (rr_failed r))), (''evidence_root'', PStr (path_str (''runs/'' @ run_id)))]
     @ (if files then [(''aggregate_csv'', opt_text (map_option (\<lambda>_. fpath_str (path_str (''runs/'' @ run_id)) [''output.csv'']) (rr_csv r))),
                       (''manifest'', opt_text (map_option (fpath_str (path_str (''runs/'' @ run_id))) (rr_manifest r)))] else [])"

text \<open>The last lines of \<open>run\<close> and \<open>resume\<close>: the report, and the exit code.\<close>

definition finish_run :: "bool \<Rightarrow> exn + string \<times> run_result \<Rightarrow> (console, int) act" where
  "finish_run files r = (case r of
     Inl e \<Rightarrow> raiseA e
   | Inr (run_id, res) \<Rightarrow> bindA (echo (dumps_report (run_report files run_id res))) (\<lambda>_. returnA (exit_code res)))"

definition missing_input :: "('w, 'q) cli_env \<Rightarrow> string \<Rightarrow> string \<Rightarrow> string option" where
  "missing_input ce task input =
     (if \<not> ce_exists ce task then Some (''task file not found: '' @ task)
      else if \<not> ce_exists ce input then Some (''input file not found: '' @ input) else None)"

text \<open>A task that is no mapping raises at \<open>task_spec.get\<close>.\<close>

definition announce_run :: "('w, 'q) cli_env \<Rightarrow> (console, profile \<times> pydict) act" where
  "announce_run ce = bindA (liftE (ce_profile ce)) (\<lambda>p. bindA (liftE (ce_task ce)) (\<lambda>v.
     bindA (liftE (attr_get v ''task_id'')) (\<lambda>i.
     bindA (echo (''run: task='' @ py_str i @ '' profile='' @ ms_model (ro_planner (pf_models p)))) (\<lambda>_.
       returnA (p, case v of PDict d \<Rightarrow> d | _ \<Rightarrow> [])))))"

definition cli_run ::
  "'q queue_ops \<Rightarrow> (nat \<Rightarrow> qenv) \<Rightarrow> ('w, 'q) cli_env \<Rightarrow> string \<Rightarrow> string \<Rightarrow> string option \<Rightarrow> int option \<Rightarrow> nat list list
    \<Rightarrow> ((exn + int) \<times> console \<times> ('w, 'q) pool option) option" where
  "cli_run ops env ce task input run_id max_samples schedules = (case missing_input ce task input of
     Some msg \<Rightarrow> Some (Inr 2, ([], [msg]), None)
   | None \<Rightarrow> (case announce_run ce ([], []) of
       (Inl e, c) \<Rightarrow> Some (Inl e, c, None)
     | (Inr (p, spec), c) \<Rightarrow> map_option (\<lambda>(r, pool). case finish_run True r c of (code, c) \<Rightarrow> (code, c, pool))
         (orchestrator_run ops env ce p spec run_id max_samples schedules)))"

text \<open>\<open>resume\<close> sets the run up from the profile alone.\<close>

definition cli_resume ::
  "'q queue_ops \<Rightarrow> (nat \<Rightarrow> qenv) \<Rightarrow> ('w, 'q) cli_env \<Rightarrow> string \<Rightarrow> nat list list
    \<Rightarrow> ((exn + int) \<times> console \<times> ('w, 'q) pool option) option" where
  "cli_resume ops env ce run_id schedules = (case ce_profile ce of
     Inl e \<Rightarrow> Some (Inl e, ([], []), None)
   | Inr p \<Rightarrow> (case ce_open ce run_id of (rt, pool) \<Rightarrow>
       map_option (\<lambda>(r, s). case finish_run False (map_sum id (Pair run_id) r) ([], []) of (code, c) \<Rightarrow> (code, c, Some s))
         (resume_run ops env (ce_settings ce p) (rt\<lparr> rt_run_id := run_id \<rparr>) schedules pool)))"

subsection \<open>Workers and agents\<close>

text \<open>What is printed when a worker or an agent returns; \<open>id\<close> is the name given, or one made of a fresh identifier.\<close>

definition process_id :: "string \<Rightarrow> string option \<Rightarrow> string \<Rightarrow> string" where
  "process_id pre name uuid = (case given name of Some i \<Rightarrow> i | None \<Rightarrow> pre @ take 6 uuid)"

definition print_processed :: "string \<Rightarrow> string \<Rightarrow> exn + nat \<Rightarrow> (console, int) act" where
  "print_processed key i r = (case r of
     Inl e \<Rightarrow> raiseA e
   | Inr n \<Rightarrow> bindA (echo (dumps_ascii (PDict [(key, PStr i), (''processed'', PInt (int n))]))) (\<lambda>_. returnA 0))"

definition cli_worker ::
  "'q queue_ops \<Rightarrow> ('w proc \<Rightarrow> bool) \<Rightarrow> ('w proc \<Rightarrow> qenv) \<Rightarrow> (nat \<Rightarrow> 'q \<times> 'w proc \<Rightarrow> 'q \<times> 'w proc) \<Rightarrow> 'w runtime \<Rightarrow> exn + profile \<Rightarrow> string option \<Rightarrow> string
    \<Rightarrow> string option \<Rightarrow> nat \<Rightarrow> 'q \<times> 'w proc \<Rightarrow> ((exn + int) \<times> console \<times> 'q \<times> 'w proc) option" where
  "cli_worker ops stop env idle rt profile worker_id uuid cfg fuel s = (case profile of
     Inl e \<Rightarrow> Some (Inl e, ([], []), s)
   | Inr _ \<Rightarrow> map_option (\<lambda>(r, s). case print_processed ''run_id'' (rt_run_id rt) r ([], []) of (code, c) \<Rightarrow> (code, c, s))
       (run_worker ops stop env idle rt (process_id ''w-'' worker_id uuid) cfg fuel s))"

text \<open>\<open>run_agent_pool\<close> refuses every backend but Redis.\<close>

definition run_agent_pool ::
  "'q queue_ops \<Rightarrow> ('q \<times> 'w agent \<Rightarrow> bool) \<Rightarrow> ('w sys \<Rightarrow> qenv) \<Rightarrow> (nat \<Rightarrow> 'q \<times> 'w agent \<Rightarrow> 'q \<times> 'w agent) \<Rightarrow> 'w runtime \<Rightarrow> profile \<Rightarrow> string
    \<Rightarrow> nat \<Rightarrow> 'q \<times> 'w agent \<Rightarrow> ((exn + nat) \<times> 'q \<times> 'w agent) option" where
  "run_agent_pool ops stop env idle rt p agent_id fuel s =
     (if qc_backend (pf_queue p) \<noteq> ''redis''
      then Some (Inl (Exn ''RuntimeError'' (''run_agent_pool requires profile.queue.backend=redis; got '' @ repr_str (qc_backend (pf_queue p)))), s)
      else agent_loop ops stop env idle rt agent_id fuel 0 0 s)"

definition cli_agent ::
  "'q queue_ops \<Rightarrow> ('q \<times> 'w agent \<Rightarrow> bool) \<Rightarrow> ('w sys \<Rightarrow> qenv) \<Rightarrow> (nat \<Rightarrow> 'q \<times> 'w agent \<Rightarrow> 'q \<times> 'w agent) \<Rightarrow> 'w runtime \<Rightarrow> exn + profile
    \<Rightarrow> string option \<Rightarrow> string \<Rightarrow> nat \<Rightarrow> 'q \<times> 'w agent \<Rightarrow> ((exn + int) \<times> console \<times> 'q \<times> 'w agent) option" where
  "cli_agent ops stop env idle rt profile agent_id uuid fuel s = (case profile of
     Inl e \<Rightarrow> Some (Inl e, ([], []), s)
   | Inr p \<Rightarrow>
       (let aid = process_id ''a-'' agent_id uuid;
            c = snd (echo_err (''[agent '' @ aid @ ''] starting; queue='' @ qc_backend (pf_queue p) @ '' redis='' @ qc_redis_url (pf_queue p)) ([], []))
        in map_option (\<lambda>(r, s). case print_processed ''agent_id'' aid r c of (code, c) \<Rightarrow> (code, c, s))
             (run_agent_pool ops stop env idle rt p aid fuel s)))"

subsection \<open>Migration and login\<close>

text \<open>\<open>migrate\<close>, on what each of its two halves raised.\<close>

definition table_status :: "exn option \<Rightarrow> string" where
  "table_status r = (case r of None \<Rightarrow> ''ok'' | Some e \<Rightarrow> ''error: '' @ exn_text e)"

definition migrate_tables :: "exn option \<Rightarrow> exn option \<Rightarrow> pydict" where
  "migrate_tables audit checkpoints = [(''audit_log'', PStr (table_status audit)), (''langgraph_checkpoints'', PStr (table_status checkpoints))]"

definition cli_migrate :: "exn + profile \<Rightarrow> string option \<Rightarrow> exn option \<Rightarrow> exn option \<Rightarrow> (console, int) act" where
  "cli_migrate profile url audit checkpoints = bindA (liftE profile) (\<lambda>p.
     let dsn = (case given url of Some u \<Rightarrow> u | None \<Rightarrow> sc_postgres_url (pf_storage p)); r = migrate_tables audit checkpoints in
     bindA (echo (dumps_report [(''postgres_url'', PStr dsn), (''tables'', PDict r)])) (\<lambda>_.
       returnA (if list_all (\<lambda>x. snd x = PStr ''ok'') r then 0 else 1)))"

text \<open>\<open>interactive_login\<close>: what the window gave when the user was done, sealed under the name of the host.\<close>

definition interactive_login :: "crypto \<Rightarrow> string option \<Rightarrow> string \<Rightarrow> string \<Rightarrow> exn + pydict \<Rightarrow> sealed_dir \<Rightarrow> exn + string \<times> sealed_dir" where
  "interactive_login cr env nonce host state dir =
     bindE state (\<lambda>st. bindE (sealed_save cr env nonce host st dir) (\<lambda>dir. Inr (''data/credentials/'' @ sealed_name host, dir)))"

definition cli_login :: "crypto \<Rightarrow> string option \<Rightarrow> string \<Rightarrow> string \<Rightarrow> exn + pydict \<Rightarrow> sealed_dir \<Rightarrow> (exn + int) \<times> console \<times> sealed_dir" where
  "cli_login cr env nonce host state dir = (case interactive_login cr env nonce host state dir of
     Inl e \<Rightarrow> (Inl e, ([], []), dir)
   | Inr (path, dir) \<Rightarrow> (Inr 0, ([''sealed state saved: '' @ path], []), dir))"

subsection \<open>Verification\<close>

text \<open>The manifest part of \<open>verify\<close>; \<open>report["manifest_hash_ok"]\<close> raises when the key is not there.\<close>

definition print_report :: "pydict \<Rightarrow> (console, bool) act" where
  "print_report report =
     bindA (liftE (getitem report ''ok'')) (\<lambda>ok. bindA (echo (''manifest: '' @ ok_or_fail (truthy ok))) (\<lambda>_.
     bindA (liftE (getitem report ''manifest_hash_ok'')) (\<lambda>h. bindA (echo (''  manifest_hash_ok: '' @ py_str h)) (\<lambda>_.
     bindA (liftE (getitem report ''artifacts_checked'')) (\<lambda>n. bindA (echo (''  artifacts_checked: '' @ py_str n)) (\<lambda>_.
     bindA (liftE (getitem report ''bad_artifacts'')) (\<lambda>bad.
     bindA (case bad of PList (x # xs) \<Rightarrow> echo (''  bad_artifacts: '' @ show_nat (length (x # xs))) | _ \<Rightarrow> returnA ()) (\<lambda>_.
       returnA (truthy ok)))))))))"

definition print_chain :: "hash_fn \<Rightarrow> string \<Rightarrow> audit_row list option \<Rightarrow> (console, unit) act" where
  "print_chain sha run_id audit = (case audit of
     None \<Rightarrow> echo (''audit_chain: SKIPPED (no audit db at '' @ path_str (''data/'' @ run_id @ ''.audit.db'') @ '')'')
   | Some rows \<Rightarrow> bindA (liftE (verify_chain sha rows)) (\<lambda>ok. bindA (echo (''audit_chain: '' @ ok_or_fail ok)) (\<lambda>_.
       echo (''  root_hash: '' @ root_hash (Some run_id) rows))))"

definition cli_verify :: "(string \<Rightarrow> string) \<Rightarrow> string \<Rightarrow> fs option \<Rightarrow> audit_row list option \<Rightarrow> (console, int) act" where
  "cli_verify sha dir files audit = (case files of
     None \<Rightarrow> bindA (echo_err (''run not found: '' @ path_str dir)) (\<lambda>_. returnA 2)
   | Some f \<Rightarrow> bindA (liftE (verify_manifest sha f)) (\<lambda>report. bindA (print_report report) (\<lambda>ok.
       bindA (print_chain sha (py_path_name (path_str dir)) audit) (\<lambda>_. returnA (if ok then 0 else 1)))))"

section \<open>Lemmas\<close>

lemma echo_simps [simp]: "echo s c = (Inr (), (fst c @ [s], snd c))" "echo_err s c = (Inr (), (fst c, snd c @ [s]))"
  by (simp_all add: echo_def echo_err_def)

lemma print_chain_runs:
  assumes "case audit of None \<Rightarrow> True | Some rows \<Rightarrow> verify_chain sha rows = Inr chain"
  shows "\<exists>lines. print_chain sha r audit c = (Inr (), (fst c @ lines, snd c))
    \<and> (audit \<noteq> None \<longrightarrow> (''audit_chain: '' @ ok_or_fail chain) \<in> set lines)"
  using assms by (cases audit) (auto simp: print_chain_def bindA_def liftE_def)

text \<open>What is printed of a report that has all its keys.\<close>

lemma print_report_runs:
  assumes "getitem report ''ok'' = Inr (PBool ok)" "getitem report ''manifest_hash_ok'' = Inr h" "getitem report ''artifacts_checked'' = Inr n"
    "getitem report ''bad_artifacts'' = Inr bad"
  shows "\<exists>lines. print_report report c = (Inr ok, (fst c @ lines, snd c)) \<and> (''manifest: '' @ ok_or_fail ok) \<in> set lines"
  using assms by (cases bad) (auto simp: print_report_def bindA_def liftE_def returnA_def split: list.split)

lemma verify_manifest_keys:
  assumes "verify_manifest sha f = Inr report" "fs_read f manifest_path \<noteq> None"
  obtains ok h n bad where "getitem report ''ok'' = Inr (PBool ok)" "getitem report ''manifest_hash_ok'' = Inr h"
    "getitem report ''artifacts_checked'' = Inr n" "getitem report ''bad_artifacts'' = Inr bad" "dget report ''ok'' = PBool ok"
proof -
  have "\<exists>ok h n bad root. report = [(''ok'', PBool ok), (''manifest_hash_ok'', h), (''artifacts_checked'', n), (''bad_artifacts'', bad), (''audit_root_hash'', root)]"
    using assms by (auto simp: verify_manifest_def Let_def split: option.split_asm pyval.split_asm sum.split_asm prod.split_asm)
  then show ?thesis using that by (auto simp: getitem_def)
qed

lemma cli_verify_code:
  assumes "verify_manifest sha f = Inr report" "fs_read f manifest_path \<noteq> None"
    "case audit of None \<Rightarrow> True | Some rows \<Rightarrow> verify_chain sha rows = Inr chain"
  shows "\<exists>out. cli_verify sha dir (Some f) audit ([], []) = (Inr (if dget report ''ok'' = PBool True then 0 else 1), (out, []))
    \<and> (''manifest: '' @ ok_or_fail (dget report ''ok'' = PBool True)) \<in> set out \<and> (audit \<noteq> None \<longrightarrow> (''audit_chain: '' @ ok_or_fail chain) \<in> set out)"
proof -
  obtain ok h n bad where r: "getitem report ''ok'' = Inr (PBool ok)" "getitem report ''manifest_hash_ok'' = Inr h"
    "getitem report ''artifacts_checked'' = Inr n" "getitem report ''bad_artifacts'' = Inr bad" "dget report ''ok'' = PBool ok"
    using verify_manifest_keys [OF assms(1,2)] by blast
  obtain l1 where l1: "print_report report ([], []) = (Inr ok, (l1, []))" "(''manifest: '' @ ok_or_fail ok) \<in> set l1"
    using print_report_runs [OF r(1-4), of "([], [])"] by auto
  obtain l2 where l2: "print_chain sha (py_path_name (path_str dir)) audit (l1, []) = (Inr (), (l1 @ l2, []))"
    "audit \<noteq> None \<longrightarrow> (''audit_chain: '' @ ok_or_fail chain) \<in> set l2"
    using print_chain_runs [OF assms(3), of "py_path_name (path_str dir)" "(l1, [])"] by auto
  have "cli_verify sha dir (Some f) audit ([], []) = (Inr (if ok then 0 else 1), (l1 @ l2, []))"
    using l1(1) l2(1) by (simp add: cli_verify_def bindA_def liftE_def assms(1) returnA_def)
  with l1(2) l2(2) r(5) show ?thesis by (intro exI [of _ "l1 @ l2"]) auto
qed

section \<open>Properties\<close>

text \<open>
  C32: the verify command decides the artifacts exactly, and only them. Once a manifest is written, and as long as its own
  text is unchanged, the command ends with 0 if every artifact is as it was and with 1 otherwise. The audit chain is
  printed, but a broken one does not change the exit code.
\<close>

theorem verify_command_exit_code:
  assumes "wf_manifest_args task samples pe" "\<forall>p\<in>set (blob_paths f). good_path p"
    and "fs_read k manifest_path = fs_read (write_manifest sha now run task samples h pe f) manifest_path"
    and "verify_chain sha rows = Inr chain"
  shows "\<exists>out. cli_verify sha dir (Some k) (Some rows) ([], []) =
      (Inr (if \<forall>p\<in>set (blob_paths f). fs_exists k p \<and> sha_file sha k p = sha_file sha f p then 0 else 1), (out, []))
    \<and> (''audit_chain: '' @ (if chain then ''OK'' else ''FAIL'')) \<in> set out"
proof -
  obtain r where r: "verify_manifest sha k = Inr r" "dget r ''ok'' = PBool True \<longleftrightarrow>
      (\<forall>p\<in>set (blob_paths f). fs_exists k p \<and> sha_file sha k p = sha_file sha f p)"
    using verify_written [OF assms(1-3)] by blast
  have "fs_read (write_manifest sha now run task samples h pe f) manifest_path \<noteq> None"
    by (simp add: write_manifest_def Let_def fs_read_def fs_inode_write)
  then have "fs_read k manifest_path \<noteq> None" using assms(3) by simp
  from cli_verify_code [OF r(1) this, where audit = "Some rows" and chain = chain and dir = dir] assms(4) show ?thesis
    unfolding r(2) by (auto simp: ok_or_fail_def)
qed

theorem verify_command_exit_code_witness:
  "\<exists>out. cli_verify demo_digest ''runs/r'' (Some (write_manifest demo_digest ''t'' ''r'' [] [[(''verdict'', PStr ''pass'')]] None None fs_empty))
      (Some [demo_row ''r'' ''e1'' ''forged'']) ([], []) = (Inr 0, (out, [])) \<and> ''audit_chain: FAIL'' \<in> set out"
proof -
  have b: "blob_paths fs_empty = []" by code_simp
  have a: "wf_manifest_args [] [[(''verdict'', PStr ''pass'')]] None" by code_simp
  have "verify_chain demo_digest [demo_row ''r'' ''e1'' ''forged''] = Inr False"
    by (simp add: verify_chain_def demo_row_def make_row_def GENESIS_HASH_def eval_nat_numeral)
  from verify_command_exit_code [OF a _ refl this, of fs_empty "''runs/r''" "''t''" "''r''" None] show ?thesis by (simp add: b)
qed

text \<open>
  The verify command cannot report a missing manifest. For a run that was interrupted before its manifest was written
  the verification reports not ok, but the command prints that and then raises instead of ending with 1, and the audit
  chain is never looked at.
\<close>

theorem verify_command_needs_manifest:
  assumes "fs_read f manifest_path = None"
  shows "cli_verify sha dir (Some f) audit ([], []) = (Inl (Exn ''KeyError'' (repr_str ''manifest_hash_ok'')), ([''manifest: FAIL''], []))"
  using assms by (simp add: cli_verify_def verify_manifest_def print_report_def getitem_def bindA_def liftE_def ok_or_fail_def)

theorem verify_command_needs_manifest_witness:
  "fst (cli_verify demo_digest ''runs/r'' (Some fs_empty) None ([], [])) = Inl (Exn ''KeyError'' (repr_str ''manifest_hash_ok''))"
  using verify_command_needs_manifest [of fs_empty demo_digest "''runs/r''" None] by (simp add: fs_read_def fs_inode_def fs_empty_def)

text \<open>
  C37: the exit code of the run command. It is 2, with a message and before anything is done, if the task or the
  input is missing. With both files, a command that ends with a code (and not with an exception) has run to its
  result: the last line printed is the report of that result, and the code is 0 exactly if no recorded sample failed.
\<close>

theorem run_command_exit_code:
  assumes "cli_run ops env ce task input run_id max_samples schedules = Some (Inr code, (out, err), pool)"
  shows "if ce_exists ce task \<and> ce_exists ce input
    then \<exists>p spec i res s. ce_profile ce = Inr p \<and> ce_task ce = Inr (PDict spec)
      \<and> orchestrator_run ops env ce p spec run_id max_samples schedules = Some (Inr (i, res), Some s) \<and> pool = Some s \<and> err = []
      \<and> out \<noteq> [] \<and> last out = dumps_report (run_report True i res) \<and> (code = 0 \<longleftrightarrow> rr_failed res = 0) \<and> code \<in> {0, 1}
    else code = 2 \<and> out = [] \<and> length err = 1 \<and> pool = None"
proof (cases "missing_input ce task input")
  case (Some msg)
  then have "\<not> (ce_exists ce task \<and> ce_exists ce input)" by (auto simp: missing_input_def split: if_split_asm)
  then show ?thesis using assms Some by (auto simp: cli_run_def)
next
  case None
  then have ex: "ce_exists ce task \<and> ce_exists ce input" by (auto simp: missing_input_def split: if_split_asm)
  obtain x c where a: "announce_run ce ([], []) = (x, c)" by (cases "announce_run ce ([], [])") blast
  then obtain p spec where x: "x = Inr (p, spec)" using assms None by (cases x) (auto simp: cli_run_def)
  with a have p: "ce_profile ce = Inr p" "ce_task ce = Inr (PDict spec)" "snd c = []"
    by (auto simp: announce_run_def bindA_def liftE_def attr_get_def returnA_def split: sum.split_asm pyval.split_asm)
  obtain r s where o: "orchestrator_run ops env ce p spec run_id max_samples schedules = Some (r, s)"
    using assms None a x by (auto simp: cli_run_def)
  have fin: "finish_run True r c = (Inr code, (out, err))" "pool = s"
    using assms None a x o by (cases "finish_run True r c"; auto simp: cli_run_def)+
  obtain i res where r: "r = Inr (i, res)" using fin(1) by (cases r) (auto simp: finish_run_def raiseA_def)
  have f: "out = fst c @ [dumps_report (run_report True i res)]" "err = snd c" "code = exit_code res"
    using fin(1) by (simp_all add: finish_run_def r bindA_def returnA_def)
  have "\<exists>t. s = Some t"
    using o r by (auto simp: orchestrator_run_def Let_def split: sum.split_asm prod.split_asm)
  then obtain t where "s = Some t" ..
  with ex p o r f fin(2) show ?thesis by (auto simp: exit_code_def)
qed

definition demo_cli :: "profile \<Rightarrow> (unit, queue_table) cli_env" where
  "demo_cli p = \<lparr> ce_exists = (\<lambda>_. True), ce_profile = Inr p, ce_task = Inr (PDict [(''task_id'', PStr ''t1'')]), ce_rows = Inr demo_rows,
     ce_uuid = ''0123456789'', ce_dump = (\<lambda>_. []), ce_coercions = undefined, ce_settings = (\<lambda>_. demo_re\<lparr> re_distributed := True \<rparr>),
     ce_open = (\<lambda>_. (demo_rt, new_pool demo_proc [])) \<rparr>"

text \<open>A distributed run has only been enqueued when the command ends.\<close>

theorem run_command_exit_code_witness:
  "\<forall>p. \<exists>out pool. cli_run (sql_ops 2) demo_qenv (demo_cli p) ''task.yaml'' ''rows.csv'' None None [] = Some (Inr 0, (out, []), Some pool)
     \<and> last out = dumps_report (run_report True ''run-01234567'' \<lparr> rr_total = 2, rr_passed = 0, rr_failed = 0, rr_extracted = [], rr_csv = None, rr_manifest = None \<rparr>)"
proof
  fix p :: profile
  let ?rt = "demo_rt\<lparr> rt_run_id := ''run-01234567'', rt_task := [(''task_id'', PStr ''t1'')] \<rparr>"
  obtain s where s: "begin_run (sql_ops 2) demo_qenv (demo_re\<lparr> re_distributed := True \<rparr>) ?rt False demo_rows (new_pool demo_proc []) = (Inr (), s)"
    by (simp add: begin_run_def Let_def log_run_event_def on_world_def new_pool_def demo_proc_def demo_rows_def audit_append_def
      sample_job_def attr_get_def progress_empty_def)
  obtain code out err pool where r: "cli_run (sql_ops 2) demo_qenv (demo_cli p) ''task.yaml'' ''rows.csv'' None None [] = Some (Inr code, (out, err), pool)"
    using s by (simp add: cli_run_def missing_input_def demo_cli_def announce_run_def orchestrator_run_def apply_task_overrides_def execute_def
      finish_run_def run_rows_def given_def attr_get_def returnA_def Let_def)
  have o: "orchestrator_run (sql_ops 2) demo_qenv (demo_cli p) p [(''task_id'', PStr ''t1'')] None None []
      = Some (Inr (''run-01234567'', \<lparr> rr_total = 2, rr_passed = 0, rr_failed = 0, rr_extracted = [], rr_csv = None, rr_manifest = None \<rparr>), Some s)"
    using s by (simp add: orchestrator_run_def demo_cli_def apply_task_overrides_def execute_def run_rows_def given_def demo_rows_def)
  from run_command_exit_code [OF r] r o show "\<exists>out pool. cli_run (sql_ops 2) demo_qenv (demo_cli p) ''task.yaml'' ''rows.csv'' None None [] = Some (Inr 0, (out, []), Some pool)
     \<and> last out = dumps_report (run_report True ''run-01234567'' \<lparr> rr_total = 2, rr_passed = 0, rr_failed = 0, rr_extracted = [], rr_csv = None, rr_manifest = None \<rparr>)"
    by (auto simp: demo_cli_def)
qed

end
