(* ===== verification/Processes.thy ===== *)
theory Processes
  imports RunsApi ProfileConfig RedisQueue
begin

text \<open>
  What the processes of a run are built from a profile: the workflow of a coordinator (\<open>RunWorkflow.__init__\<close>), a
  worker of one run (\<open>WorkerNode.__init__\<close>), an agent for every run (\<open>run_agent_pool\<close>), and the server with its
  health check (\<open>api/app.py\<close>). Building one makes directories and opens files; here it is the values they are
  built from, or the exception.
\<close>

subsection \<open>The files of a run\<close>

record layout =
  ly_root :: string
  ly_samples :: string
  ly_config :: string
  ly_audit :: string
  ly_checkpoints :: string

definition run_layout :: "string \<Rightarrow> layout" where
  "run_layout run_id = (let base = path_join ''runs'' run_id in
     \<lparr> ly_root = base, ly_samples = path_join base ''samples.jsonl'', ly_config = path_join base ''.run_config.json'',
       ly_audit = path_join ''data'' (run_id @ ''.audit.db''), ly_checkpoints = path_join ''data'' (run_id @ ''.ckpt.db'') \<rparr>)"

subsection \<open>Queues\<close>

text \<open>The queue of one run, which the coordinator and its workers ask for, and the one agents ask for.\<close>

definition queue_of_run :: "profile \<Rightarrow> string \<Rightarrow> exn + backend_choice" where
  "queue_of_run p run_id = make_queue (Some (qc_backend (pf_queue p))) (Some run_id) (Some (path_join ''data'' (run_id @ ''.queue.db'')))
     (Some (qc_redis_url (pf_queue p))) (qc_redis_prefix (pf_queue p)) (nat (qc_max_attempts (pf_queue p))) False"

definition queue_of_agents :: "profile \<Rightarrow> string option \<Rightarrow> exn + backend_choice" where
  "queue_of_agents p url = make_queue (Some ''redis'') None None (Some (str_or url (qc_redis_url (pf_queue p)))) None
     (nat (qc_max_attempts (pf_queue p))) True"

subsection \<open>Processes\<close>

text \<open>\<open>_pool_for\<close>: the limiter is built before the pool.\<close>

definition pool_for :: "profile \<Rightarrow> exn + limiter \<times> bpool" where
  "pool_for p = bindE (limiter_of p) (\<lambda>l. bindE (pool_of p) (\<lambda>b. Inr (l, b)))"

record process =
  pc_store :: string
  pc_limiter :: limiter
  pc_pool :: bpool
  pc_queue :: backend_choice

record run_process = process +
  rp_run_id :: string
  rp_layout :: layout
  rp_rows :: "pyval list"

definition run_process_of :: "profile \<Rightarrow> string \<Rightarrow> pyval list \<Rightarrow> exn + run_process" where
  "run_process_of p run_id rows = bindE (pool_for p) (\<lambda>(l, b). bindE (queue_of_run p run_id) (\<lambda>q.
     Inr \<lparr> pc_store = ly_root (run_layout run_id), pc_limiter = l, pc_pool = b, pc_queue = q, rp_run_id = run_id,
       rp_layout = run_layout run_id, rp_rows = rows \<rparr>))"

definition workflow_init :: "profile \<Rightarrow> string option \<Rightarrow> string \<Rightarrow> pyval list \<Rightarrow> int option \<Rightarrow> exn + run_process" where
  "workflow_init p run_id uuid rows max_samples =
     run_process_of p (case given run_id of Some r \<Rightarrow> r | None \<Rightarrow> ''run-'' @ take 8 uuid) (run_rows max_samples rows)"

definition node_init :: "profile \<Rightarrow> string \<Rightarrow> exn + run_process" where
  "node_init p run_id = run_process_of p run_id []"

definition agent_init :: "profile \<Rightarrow> string option \<Rightarrow> exn + process" where
  "agent_init p url =
     (if qc_backend (pf_queue p) \<noteq> ''redis''
      then Inl (Exn ''RuntimeError'' (''run_agent_pool requires profile.queue.backend=redis; got '' @ repr_str (qc_backend (pf_queue p))))
      else bindE (queue_of_agents p url) (\<lambda>q. bindE (pool_for p) (\<lambda>(l, b).
        Inr \<lparr> pc_store = ''runs'', pc_limiter = l, pc_pool = b, pc_queue = q \<rparr>)))"

subsection \<open>The server\<close>

text \<open>
  \<open>lifespan\<close> up to the point where requests are served: whether the tables of Postgres were asked for. Whatever the
  migration raises is only logged.
\<close>

definition server_start :: "exn option \<Rightarrow> exn + profile \<Rightarrow> exn + bool" where
  "server_start init_db profile = (case init_db of
     Some e \<Rightarrow> Inl e
   | None \<Rightarrow> bindE profile (\<lambda>p. Inr (sc_backend (pf_storage p) = ''postgres'')))"

text \<open>\<open>health\<close>: \<open>pg\<close> is what connecting to Postgres raised, its time limit included.\<close>

definition health :: "environ \<Rightarrow> exn + profile \<Rightarrow> exn option \<Rightarrow> pydict" where
  "health env profile pg =
     [(''ok'', PBool True), (''anthropic_configured'', PBool (given (env ''ANTHROPIC_API_KEY'') \<noteq> None))]
     @ (case profile of
          Inl e \<Rightarrow> [(''profile_error'', PStr (exn_text e))]
        | Inr p \<Rightarrow> [(''queue_backend'', PStr (qc_backend (pf_queue p))), (''queue_distributed'', PBool (qc_distributed (pf_queue p))),
              (''metadata_backend'', PStr (sc_backend (pf_storage p)))]
            @ (if sc_backend (pf_storage p) \<noteq> ''postgres'' then []
               else (case pg of
                   None \<Rightarrow> [(''postgres_ok'', PBool True)]
                 | Some e \<Rightarrow> [(''postgres_ok'', PBool False), (''postgres_error'', PStr (exn_text e))])))"

section \<open>Lemmas\<close>

lemma lower_backends: "b \<in> {''sqlite'', ''redis'', ''nats''} \<Longrightarrow> py_lower (str_or (Some b) ''sqlite'') = b"
  by (auto simp: str_or_def py_lower_def lower_char_def)

lemma queue_of_run_validated:
  assumes "qc_backend (pf_queue p) \<in> {''sqlite'', ''redis'', ''nats''}"
  shows "(\<exists>q. queue_of_run p run_id = Inr q) \<longleftrightarrow> qc_backend (pf_queue p) \<noteq> ''nats''"
    "qc_backend (pf_queue p) = ''redis'' \<Longrightarrow> queue_of_run p run_id = Inr (UseRedis (str_or (Some (qc_redis_url (pf_queue p))) ''redis://localhost:6379/0'')
       (str_or (qc_redis_prefix (pf_queue p)) (''andera:queue:'' @ run_id)) (nat (qc_max_attempts (pf_queue p))))"
  using assms lower_backends [OF assms] by (auto simp: queue_of_run_def make_queue_def Let_def)

lemma pool_for_validated:
  assumes "load_profile c yaml env path file = Inr p0" "apply_task_overrides dump c p0 task = Inr p"
  shows "\<exists>l b. pool_for p = Inr (l, b)" "qc_backend (pf_queue p) \<in> {''sqlite'', ''redis'', ''nats''}"
proof -
  obtain d where "profile_validate c d = Inr p"
    using load_profile_validated [OF assms(1)] apply_task_overrides_cases [OF assms(2)] by blast
  note v = profile_validate_sections [OF this]
  then show "qc_backend (pf_queue p) \<in> {''sqlite'', ''redis'', ''nats''}" by blast
  obtain l where "limiter_of p = Inr l" using v limiter_of_valid by (auto simp: limiter_of_def browser_in_bounds_def)
  moreover obtain b where "pool_of p = Inr b" using v pool_of_valid by (auto simp: pool_of_def browser_in_bounds_def)
  ultimately show "\<exists>l b. pool_for p = Inr (l, b)" by (simp add: pool_for_def)
qed

lemma workflow_init_given: "run_id \<noteq> [] \<Longrightarrow> workflow_init p (Some run_id) uuid rows m = run_process_of p run_id (run_rows m rows)"
  by (simp add: workflow_init_def given_def)

lemma str_or_Some: "s \<noteq> [] \<Longrightarrow> str_or (Some s) d = s"
  by (simp add: str_or_def)

section \<open>Properties\<close>

text \<open>
  A validated profile sets a run up, and a worker of the run joins it. With any loaded profile and task overrides
  the workflow is built unless the queue backend is \<open>nats\<close>, which then raises; and a worker started for the same run
  has the same files, the same queue and as many browsers.
\<close>

theorem workers_join_their_run:
  assumes "load_profile c yaml env path file = Inr p0" "apply_task_overrides dump c p0 task = Inr p" "run_id \<noteq> []"
  shows "if qc_backend (pf_queue p) = ''nats'' then \<exists>e. workflow_init p (Some run_id) uuid rows m = Inl e
    else \<exists>w n. workflow_init p (Some run_id) uuid rows m = Inr w \<and> node_init p run_id = Inr n
      \<and> rp_run_id w = run_id \<and> rp_rows w = run_rows m rows \<and> pc_queue n = pc_queue w \<and> rp_layout n = rp_layout w \<and> pc_store n = pc_store w
      \<and> pc_pool n = pc_pool w"
proof -
  obtain l b where pool: "pool_for p = Inr (l, b)" using pool_for_validated(1) [OF assms(1,2)] by blast
  show ?thesis
  proof (cases "queue_of_run p run_id")
    case (Inl e)
    then have "qc_backend (pf_queue p) = ''nats''" using queue_of_run_validated(1) [OF pool_for_validated(2) [OF assms(1,2)], of run_id] by auto
    then show ?thesis using Inl pool assms(3) by (simp add: workflow_init_given run_process_of_def bindE_def)
  next
    case (Inr q)
    then have "qc_backend (pf_queue p) \<noteq> ''nats''" using queue_of_run_validated(1) [OF pool_for_validated(2) [OF assms(1,2)], of run_id] by blast
    then show ?thesis using Inr pool assms(3) by (simp add: workflow_init_given run_process_of_def node_init_def bindE_def)
  qed
qed

definition demo_profile :: profile where
  "demo_profile = projr (load_profile plain_coercions (\<lambda>_. Inr (PDict sample_raw)) sample_env ''p.yaml'' (Some ''''))"

lemma demo_profile_loads:
  "load_profile plain_coercions (\<lambda>_. Inr (PDict sample_raw)) sample_env ''p.yaml'' (Some '''') = Inr demo_profile"
  "apply_task_overrides (\<lambda>_. []) plain_coercions demo_profile [] = Inr demo_profile"
  "qc_backend (pf_queue demo_profile) = ''redis''" "qc_redis_prefix (pf_queue demo_profile) = None"
  by (code_simp, simp add: apply_task_overrides_def, code_simp, code_simp)

theorem workers_join_their_run_witness:
  "\<exists>w n. workflow_init demo_profile (Some ''r1'') ''u'' [] None = Inr w \<and> node_init demo_profile ''r1'' = Inr n \<and> pc_queue n = pc_queue w"
  using workers_join_their_run [OF demo_profile_loads(1,2), of "''r1''" "''u''" "[]" None] demo_profile_loads(3) by auto

text \<open>
  Agents serve a run only by accident. With the Redis backend the coordinator puts the jobs of a run under a
  prefix of that run; agents poll the global prefix. They are the same queue exactly if the profile sets its prefix to
  the global one, or sets none and the run is called \<open>global\<close>.
\<close>

theorem agents_poll_the_global_queue:
  assumes "load_profile c yaml env path file = Inr p0" "apply_task_overrides dump c p0 task = Inr p" "run_id \<noteq> []"
    and "qc_backend (pf_queue p) = ''redis''"
  shows "\<exists>w a. workflow_init p (Some run_id) uuid rows m = Inr w \<and> agent_init p None = Inr a
    \<and> (pc_queue a = pc_queue w \<longleftrightarrow>
        (case given (qc_redis_prefix (pf_queue p)) of Some k \<Rightarrow> k = GLOBAL_QUEUE_PREFIX | None \<Rightarrow> run_id = ''global''))"
proof -
  obtain l b where pool: "pool_for p = Inr (l, b)" using pool_for_validated(1) [OF assms(1,2)] by blast
  let ?u = "str_or (Some (qc_redis_url (pf_queue p))) ''redis://localhost:6379/0''" and ?n = "nat (qc_max_attempts (pf_queue p))"
  have run: "queue_of_run p run_id = Inr (UseRedis ?u (str_or (qc_redis_prefix (pf_queue p)) (''andera:queue:'' @ run_id)) ?n)"
    using queue_of_run_validated(2) [OF pool_for_validated(2) [OF assms(1,2)] assms(4)] .
  have "py_lower ''redis'' = ''redis''" by code_simp
  then have agents: "queue_of_agents p None = Inr (UseRedis ?u GLOBAL_QUEUE_PREFIX ?n)"
    by (simp add: queue_of_agents_def make_queue_def str_or_def)
  have "GLOBAL_QUEUE_PREFIX = str_or (qc_redis_prefix (pf_queue p)) (''andera:queue:'' @ run_id) \<longleftrightarrow>
      (case given (qc_redis_prefix (pf_queue p)) of Some k \<Rightarrow> k = GLOBAL_QUEUE_PREFIX | None \<Rightarrow> run_id = ''global'')"
    by (auto simp: str_or_def given_def GLOBAL_QUEUE_PREFIX_def split: option.split)
  then show ?thesis
    using pool run agents assms(3,4) by (simp add: workflow_init_given run_process_of_def agent_init_def bindE_def)
qed

theorem agents_poll_the_global_queue_witness:
  "\<exists>w a. workflow_init demo_profile (Some ''r1'') ''u'' [] None = Inr w \<and> agent_init demo_profile None = Inr a \<and> pc_queue a \<noteq> pc_queue w"
  using agents_poll_the_global_queue [OF demo_profile_loads(1,2) _ demo_profile_loads(3), of "''r1''" "''u''" "[]" None] demo_profile_loads(4)
  by (auto simp: given_def)

text \<open>
  The server starts exactly if its database and its profile do, whatever Postgres answers, and the health check always
  answers ok, with the reason when the profile does not load or Postgres does not answer.
\<close>

lemma server_health:
  "(\<exists>b. server_start d profile = Inr b) \<longleftrightarrow> d = None \<and> (\<exists>p. profile = Inr p)"
  "dget (health env profile pg) ''ok'' = PBool True"
  "profile = Inr p \<Longrightarrow> dget (health env profile pg) ''postgres_ok'' =
      (if sc_backend (pf_storage p) = ''postgres'' then PBool (pg = None) else PNone)"
  by (auto simp: server_start_def health_def bindE_def split: option.split sum.split)

end
