(* ===== verification/Scripts.thy ===== *)
theory Scripts
  imports Cli SampleRun Processes
begin

text \<open>
  The scripts that try the program out: one sample from the command line (\<open>scripts/run_one_sample.py\<close>), the smoke test
  of the browser (\<open>scripts/smoke_browser.py\<close>) and the smoke check of the command line (\<open>check\<close> in \<open>cli.py\<close>). The pool
  hands out a session or raises, and takes it back whatever happens in between. The file with the final state that
  the first one writes is left out.
\<close>

subsection \<open>Sessions and output\<close>

type_synonym 'w screen = "console \<times> 'w"

definition say :: "string \<Rightarrow> ('w screen, unit) act" where
  "say s x = (case x of (c, w) \<Rightarrow> case echo s c of (r, c') \<Rightarrow> (r, (c', w)))"

definition say_err :: "string \<Rightarrow> ('w screen, unit) act" where
  "say_err s x = (case x of (c, w) \<Rightarrow> case echo_err s c of (r, c') \<Rightarrow> (r, (c', w)))"

definition on_screen :: "('w, 'a) act \<Rightarrow> ('w screen, 'a) act" where
  "on_screen m x = (case x of (c, w) \<Rightarrow> case m w of (r, w') \<Rightarrow> (r, (c, w')))"

record 'w script_pool =
  sp_enter :: "('w, 'w session) act"
  sp_leave :: "'w session \<Rightarrow> 'w \<Rightarrow> 'w"

definition using_session :: "'w script_pool \<Rightarrow> ('w session \<Rightarrow> ('w screen, 'a) act) \<Rightarrow> ('w screen, 'a) act" where
  "using_session sp body = bindA (on_screen (sp_enter sp)) (\<lambda>s x. case body s x of (r, (c, w)) \<Rightarrow> (r, (c, sp_leave sp s w)))"

subsection \<open>Smoke tests\<close>

definition EXAMPLE_URL :: string where
  "EXAMPLE_URL = ''https://example.com''"

definition cli_check :: "exn + profile \<Rightarrow> exn + unit \<Rightarrow> 'w script_pool \<Rightarrow> ('w screen, unit) act" where
  "cli_check profile init sp =
     bindA (liftE profile) (\<lambda>p. bindA (liftE init) (\<lambda>_.
     bindA (say (''profile ok: planner='' @ ms_model (ro_planner (pf_models p)))) (\<lambda>_.
     bindA (using_session sp (\<lambda>s. bindA (on_screen (s_goto s EXAMPLE_URL)) (\<lambda>_. on_screen (s_snapshot s)))) (\<lambda>snap.
       say (''browser ok: '' @ py_repr (dget snap ''title'') @ '' @ '' @ py_str (dget snap ''url''))))))"

definition smoke_session :: "'w session \<Rightarrow> ('w screen, pydict) act" where
  "smoke_session s =
     bindA (on_screen (s_goto s EXAMPLE_URL)) (\<lambda>_. bindA (on_screen (s_snapshot s)) (\<lambda>snap.
     bindA (liftE (getitem snap ''title'')) (\<lambda>title. bindA (say (''title: '' @ py_repr title)) (\<lambda>_.
     bindA (liftE (getitem snap ''url'')) (\<lambda>url. bindA (say (''url:   '' @ py_str url)) (\<lambda>_.
       on_screen (s_screenshot s ''step_00_home.png'' True None)))))))"

definition smoke_main :: "('w \<Rightarrow> string \<Rightarrow> bool) \<Rightarrow> 'w script_pool \<Rightarrow> ('w screen, int) act" where
  "smoke_main exists_file sp =
     bindA (using_session sp smoke_session) (\<lambda>a x.
       let p = path_str (py_str (dget a ''path'')) in
       (if \<not> exists_file (snd x) p then raiseA (Exn ''AssertionError'' (''artifact file missing: '' @ p))
        else bindA (say (''sha256: '' @ py_str (dget a ''sha256''))) (\<lambda>_.
             bindA (say (''size:   '' @ py_str (dget a ''size'') @ '' bytes'')) (\<lambda>_.
             bindA (say (''path:   '' @ p)) (\<lambda>_. bindA (say ''OK'') (\<lambda>_. returnA 0))))) x)"

subsection \<open>One sample\<close>

text \<open>What the script finds: the key, the profile, the task, the models for a session, two fresh identifiers.\<close>

record 'w one_env =
  oe_key :: "string option"
  oe_profile :: "exn + profile"
  oe_task :: "exn + pyval"
  oe_deps :: "profile \<Rightarrow> 'w session \<Rightarrow> exn + 'w deps"
  oe_run_uuid :: string
  oe_sample_uuid :: string

definition NO_KEY :: string where
  "NO_KEY = ''ANTHROPIC_API_KEY is not set.'' @ [CHR 0x0A] @ ''Copy env.example to .env and fill ANTHROPIC_API_KEY to run end-to-end.''"

text \<open>\<open>task[k]\<close>; a YAML file that is no mapping raises \<open>TypeError\<close>.\<close>

definition task_item :: "pyval \<Rightarrow> string \<Rightarrow> exn + pyval" where
  "task_item v k = (case v of PDict d \<Rightarrow> getitem d k
     | _ \<Rightarrow> Inl (Exn ''TypeError'' (CHR 0x27 # type_name v @ CHR 0x27 # '' object is not subscriptable'')))"

definition one_input :: "string \<Rightarrow> string \<Rightarrow> string \<Rightarrow> pyval \<Rightarrow> exn + agent_state" where
  "one_input run_id sample_id url task =
     bindE (task_item task ''prompt'') (\<lambda>prompt. bindE (task_item task ''extract_schema'') (\<lambda>schema.
       Inr (blank_state\<lparr>st_run_id := run_id, st_sample_id := sample_id,
         st_task_prompt := (case prompt of PStr s \<Rightarrow> s | _ \<Rightarrow> []), st_input_data := PDict [(''url'', PStr url)], st_start_url := Some url,
         st_schema := (case schema of PDict d \<Rightarrow> d | _ \<Rightarrow> []), st_status := Pending_status\<rparr>)))"

definition one_report :: "string \<Rightarrow> string \<Rightarrow> agent_state \<Rightarrow> pydict" where
  "one_report run_id sample_id st =
     [(''run_id'', PStr run_id), (''sample_id'', PStr sample_id), (''status'', PStr (status_text (st_status st))), (''verdict'', st_verdict st),
      (''verdict_reason'', st_verdict_reason st), (''extracted'', st_extracted st),
      (''evidence_count'', PInt (int (length (st_evidence st)))), (''steps_executed'', PInt (int (st_step st)))]"

definition one_run_id :: "'w one_env \<Rightarrow> string" where
  "one_run_id oe = ''run-'' @ take 8 (oe_run_uuid oe)"

definition one_sample_id :: "'w one_env \<Rightarrow> string" where
  "one_sample_id oe = ''sample-'' @ take 8 (oe_sample_uuid oe)"

text \<open>The graph is compiled without a plan cache.\<close>

definition one_graph :: "'w deps \<Rightarrow> agent_state \<Rightarrow> ('w, agent_state) act" where
  "one_graph d st w = (case run_sample d st \<lparr> sy_world = w, sy_cache = None, sy_memo = Map.empty \<rparr> of (r, sy) \<Rightarrow> (r, sy_world sy))"

definition one_session :: "'w one_env \<Rightarrow> profile \<Rightarrow> pyval \<Rightarrow> string \<Rightarrow> string \<Rightarrow> string \<Rightarrow> 'w session \<Rightarrow> ('w screen, agent_state) act" where
  "one_session oe p task url run_id sample_id s =
     bindA (liftE (oe_deps oe p s)) (\<lambda>d. bindA (liftE (one_input run_id sample_id url task)) (\<lambda>st. on_screen (one_graph d st)))"

definition one_main :: "'w one_env \<Rightarrow> 'w script_pool \<Rightarrow> string \<Rightarrow> ('w screen, int) act" where
  "one_main oe sp url = (case given (oe_key oe) of
     None \<Rightarrow> bindA (say_err NO_KEY) (\<lambda>_. returnA 2)
   | Some key \<Rightarrow>
       bindA (liftE (oe_profile oe)) (\<lambda>p. bindA (liftE (oe_task oe)) (\<lambda>task.
         let run_id = one_run_id oe; sample_id = one_sample_id oe in
         bindA (using_session sp (one_session oe p task url run_id sample_id)) (\<lambda>st.
         bindA (say (dumps_report (one_report run_id sample_id st))) (\<lambda>_.
           returnA (if st_verdict st = PStr ''pass'' then 0 else 1))))))"

section \<open>Properties\<close>

lemmas screen_defs = bindA_def liftE_def returnA_def raiseA_def using_session_def on_screen_def say_def say_err_def

text \<open>
  The exit code of a single sample. Without a key the script ends with 2 and touches nothing. With one, if the graph
  finishes, it takes its session back, prints one report and ends with 0 exactly if the verdict is a pass; if the
  graph raises, so does the script, and the session is taken back all the same.
\<close>

theorem one_sample_exit_code:
  assumes "oe_profile oe = Inr p" "oe_task oe = Inr task" "sp_enter sp w = (Inr s, w1)" "oe_deps oe p s = Inr d"
    and "one_input (one_run_id oe) (one_sample_id oe) url task = Inr st"
    and "one_graph d st w1 = (r, w2)"
  shows "(if given (oe_key oe) = None then one_main oe sp url (([], []), w) = (Inr 2, ([], [NO_KEY]), w)
    else (case r of
        Inr final \<Rightarrow> (\<exists>out. one_main oe sp url (([], []), w) = (Inr (if st_verdict final = PStr ''pass'' then 0 else 1), ([out], []), sp_leave sp s w2))
      | Inl e \<Rightarrow> one_main oe sp url (([], []), w) = (Inl e, ([], []), sp_leave sp s w2)))"
proof -
  let ?run = "one_run_id oe" and ?sample = "one_sample_id oe"
  have body: "one_session oe p task url ?run ?sample s (c, w1) = (r, (c, w2))" for c
    by (simp add: one_session_def bindA_def liftE_def on_screen_def assms(4-6))
  have session: "using_session sp (one_session oe p task url ?run ?sample) (c, w) = (r, (c, sp_leave sp s w2))" for c
    using body by (simp add: using_session_def bindA_def on_screen_def assms(3))
  show ?thesis
  proof (cases "given (oe_key oe)")
    case None
    then show ?thesis by (simp add: one_main_def bindA_def say_err_def echo_err_def returnA_def)
  next
    case (Some key)
    then show ?thesis
      by (cases r) (simp_all add: one_main_def bindA_def liftE_def assms(1,2) Let_def session say_def echo_def returnA_def)
  qed
qed

definition demo_one :: "unit one_env" where
  "demo_one = \<lparr> oe_key = Some ''k'', oe_profile = Inr demo_profile,
     oe_task = Inr (PDict [(''prompt'', PStr ''p''), (''extract_schema'', PDict [])]),
     oe_deps = (\<lambda>_ _. Inr (demo_deps demo_plan)), oe_run_uuid = ''u'', oe_sample_uuid = ''v'' \<rparr>"

definition demo_script_pool :: "unit script_pool" where
  "demo_script_pool = \<lparr> sp_enter = (\<lambda>w. (Inr (d_session (demo_deps demo_plan)), w)), sp_leave = (\<lambda>_ w. w) \<rparr>"

theorem one_sample_exit_code_witness:
  "\<exists>r out. one_main demo_one demo_script_pool ''http://a'' (([], []), ()) = (r, (out, []), ())"
proof -
  obtain st where st: "one_input (one_run_id demo_one) (one_sample_id demo_one) ''http://a'' (PDict [(''prompt'', PStr ''p''), (''extract_schema'', PDict [])]) = Inr st"
    by (simp add: one_input_def task_item_def getitem_def)
  obtain r where r: "one_graph (demo_deps demo_plan) st () = (r, ())"
    by (cases "one_graph (demo_deps demo_plan) st ()") auto
  have "given (oe_key demo_one) \<noteq> None" by (simp add: demo_one_def given_def)
  with one_sample_exit_code [of demo_one demo_profile _ demo_script_pool "()" "d_session (demo_deps demo_plan)" "()" "demo_deps demo_plan" "''http://a''" st r "()"]
    st r show ?thesis by (cases r) (auto simp: demo_one_def demo_script_pool_def)
qed

end
