(* ===== verification/EventBus.thy ===== *)
theory EventBus
  imports RunRecords
begin

text \<open>
  The in-process event bus (\<open>api/ws.py\<close>). A subscriber's \<open>asyncio.Queue\<close> is an object of its own, so the
  bus holds the queues by identity (a number) and, per run id, the set of queues subscribed to it; the key
  \<open>None\<close> stands for all events. Waking a waiting reader is left to the event loop.
\<close>

record equeue =
  eq_maxsize :: int
  eq_items :: "pydict list"

record bus =
  eb_subs :: "pyval \<Rightarrow> nat list"
  eb_queue :: "nat \<Rightarrow> equeue"
  eb_next :: nat

definition bus_empty :: bus where
  "bus_empty = \<lparr> eb_subs = (\<lambda>_. []), eb_queue = (\<lambda>_. \<lparr> eq_maxsize = 0, eq_items = [] \<rparr>), eb_next = 0 \<rparr>"

text \<open>\<open>subscribe\<close> answers the new queue; \<open>maxsize\<close> 0 or less is an unbounded queue.\<close>

definition subscribe :: "pyval \<Rightarrow> int \<Rightarrow> bus \<Rightarrow> nat \<times> bus" where
  "subscribe run maxsize b = (let q = eb_next b in
     (q, b\<lparr> eb_subs := (eb_subs b)(run := q # eb_subs b run),
            eb_queue := (eb_queue b)(q := \<lparr> eq_maxsize = maxsize, eq_items = [] \<rparr>), eb_next := Suc q \<rparr>))"

definition unsubscribe :: "nat \<Rightarrow> pyval \<Rightarrow> bus \<Rightarrow> bus" where
  "unsubscribe q run b = b\<lparr> eb_subs := (eb_subs b)(run := filter (\<lambda>x. x \<noteq> q) (eb_subs b run)) \<rparr>"

definition queue_full :: "equeue \<Rightarrow> bool" where
  "queue_full q \<longleftrightarrow> 0 < eq_maxsize q \<and> eq_maxsize q \<le> int (length (eq_items q))"

text \<open>\<open>put_nowait\<close>; when the queue is full its oldest event is taken out first.\<close>

definition put_event :: "pydict \<Rightarrow> equeue \<Rightarrow> equeue" where
  "put_event ev q = (if queue_full q then q\<lparr> eq_items := tl (eq_items q) @ [ev] \<rparr> else q\<lparr> eq_items := eq_items q @ [ev] \<rparr>)"

definition targets :: "pyval \<Rightarrow> bus \<Rightarrow> nat set" where
  "targets run b = (if run = PNone then {} else set (eb_subs b run)) \<union> set (eb_subs b PNone)"

definition publish :: "pydict \<Rightarrow> bus \<Rightarrow> exn + bus" where
  "publish ev b = (let run = dget ev ''run_id'' in
     if unhashable run then Inl (unhashable_error run)
     else Inr (b\<lparr> eb_queue := (\<lambda>q. if q \<in> targets run b then put_event ev (eb_queue b q) else eb_queue b q) \<rparr>))"

text \<open>A reader takes the oldest event, or waits.\<close>

definition next_event :: "nat \<Rightarrow> bus \<Rightarrow> pydict option \<times> bus" where
  "next_event q b = (case eq_items (eb_queue b q) of
     [] \<Rightarrow> (None, b)
   | ev # evs \<Rightarrow> (Some ev, b\<lparr> eb_queue := (eb_queue b)(q := (eb_queue b q)\<lparr> eq_items := evs \<rparr>) \<rparr>))"

text \<open>A history of the bus; the result is what each reader got, in order.\<close>

datatype bus_op = Subscribe pyval int | Unsubscribe nat pyval | Publish pydict | Read nat

fun bus_step :: "bus_op \<Rightarrow> bus \<Rightarrow> (nat \<times> pydict) list \<times> bus" where
  "bus_step (Subscribe run m) b = ([], snd (subscribe run m b))"
| "bus_step (Unsubscribe q run) b = ([], unsubscribe q run b)"
| "bus_step (Publish ev) b = (case publish ev b of Inl e \<Rightarrow> ([], b) | Inr b' \<Rightarrow> ([], b'))"
| "bus_step (Read q) b = (case next_event q b of (None, b') \<Rightarrow> ([], b') | (Some ev, b') \<Rightarrow> ([(q, ev)], b'))"

fun bus_run :: "bus_op list \<Rightarrow> bus \<Rightarrow> (nat \<times> pydict) list \<times> bus" where
  "bus_run [] b = ([], b)"
| "bus_run (op # ops) b = (case bus_step op b of (r, b1) \<Rightarrow> (case bus_run ops b1 of (rs, b2) \<Rightarrow> (r @ rs, b2)))"

section \<open>Lemmas\<close>

text \<open>The events a subscriber of \<open>key\<close> is meant to see, and what a reader has read.\<close>

definition wanted :: "pyval \<Rightarrow> pydict \<Rightarrow> bool" where
  "wanted key ev \<longleftrightarrow> (key = PNone \<and> \<not> unhashable (dget ev ''run_id'')) \<or> (dget ev ''run_id'' = key \<and> \<not> unhashable key)"

fun published :: "pyval \<Rightarrow> bus_op list \<Rightarrow> pydict list" where
  "published key [] = []"
| "published key (Publish ev # ops) = (if wanted key ev then ev # published key ops else published key ops)"
| "published key (op # ops) = published key ops"

definition read_by :: "nat \<Rightarrow> (nat \<times> pydict) list \<Rightarrow> pydict list" where
  "read_by q rs = map snd (filter (\<lambda>r. fst r = q) rs)"

text \<open>The queue \<open>q\<close> is subscribed to \<open>key\<close> and to nothing else.\<close>

definition listens :: "nat \<Rightarrow> pyval \<Rightarrow> bus \<Rightarrow> bool" where
  "listens q key b \<longleftrightarrow> q < eb_next b \<and> (\<forall>k. q \<in> set (eb_subs b k) \<longleftrightarrow> k = key)"

definition queue_ok :: "equeue \<Rightarrow> bool" where
  "queue_ok q \<longleftrightarrow> 0 < eq_maxsize q \<longrightarrow> int (length (eq_items q)) \<le> eq_maxsize q"

lemma read_by_simps [simp]: "read_by q [] = []" "read_by q (rs @ rs') = read_by q rs @ read_by q rs'"
  "read_by q [(k, ev)] = (if k = q then [ev] else [])"
  by (simp_all add: read_by_def)

lemma listens_subscribe:
  assumes "subscribe key m b = (q, b')" and "\<forall>k. \<forall>x\<in>set (eb_subs b k). x < eb_next b"
  shows "listens q key b' \<and> eb_queue b' q = \<lparr> eq_maxsize = m, eq_items = [] \<rparr>"
proof -
  have "eb_next b \<notin> set (eb_subs b k)" for k using assms(2) by blast
  with assms(1) show ?thesis by (auto simp: subscribe_def Let_def listens_def split: if_split_asm)
qed

lemma queue_ok_put: "queue_ok q \<Longrightarrow> queue_ok (put_event ev q)"
  by (auto simp: queue_ok_def put_event_def queue_full_def)

lemma put_event_suffix:
  assumes "suffix (eq_items q) xs" shows "suffix (eq_items (put_event ev q)) (xs @ [ev])"
proof -
  have "suffix (tl (eq_items q)) xs" using suffix_tl assms by (rule suffix_order.trans)
  with assms show ?thesis by (auto simp: put_event_def suffix_def)
qed

lemma put_event_subseq:
  assumes "subseq (rs @ eq_items q) xs" shows "subseq (rs @ eq_items (put_event ev q)) (xs @ [ev])"
proof -
  have "subseq (tl (eq_items q)) (eq_items q)" by (cases "eq_items q") auto
  then have "subseq (rs @ tl (eq_items q)) xs"
    using assms by (meson list_emb_append_mono subseq_order.order_refl subseq_order.trans)
  then have "subseq ((rs @ tl (eq_items q)) @ [ev]) (xs @ [ev])" "subseq ((rs @ eq_items q) @ [ev]) (xs @ [ev])"
    using assms by (simp_all only: subseq_append)
  then show ?thesis by (simp add: put_event_def)
qed

text \<open>What a reader got and what waits in its queue, against everything it was meant to see.\<close>

definition heard :: "nat \<Rightarrow> pydict list \<Rightarrow> pydict list \<Rightarrow> bus \<Rightarrow> bool" where
  "heard q got xs b \<longleftrightarrow> queue_ok (eb_queue b q) \<and> suffix (eq_items (eb_queue b q)) xs
     \<and> subseq (got @ eq_items (eb_queue b q)) xs
     \<and> (eq_maxsize (eb_queue b q) \<le> 0 \<or> int (length xs) \<le> eq_maxsize (eb_queue b q) \<longrightarrow> got @ eq_items (eb_queue b q) = xs)"

lemma wanted_target: "listens q key b \<Longrightarrow> \<not> unhashable (dget ev ''run_id'')
    \<Longrightarrow> q \<in> targets (dget ev ''run_id'') b \<longleftrightarrow> wanted key ev"
  by (auto simp: targets_def listens_def wanted_def)

lemma heard_put:
  assumes "heard q got xs b" "eb_queue b' q = put_event ev (eb_queue b q)"
  shows "heard q got (xs @ [ev]) b'"
proof -
  let ?e = "eb_queue b q"
  have "\<not> queue_full ?e" if "eq_maxsize ?e \<le> 0 \<or> int (length (xs @ [ev])) \<le> eq_maxsize ?e"
  proof -
    have "length (eq_items ?e) \<le> length xs" using assms(1) by (simp add: heard_def suffix_length_le)
    with that show ?thesis by (auto simp: queue_full_def)
  qed
  then have "got @ eq_items (put_event ev ?e) = xs @ [ev]" if "eq_maxsize ?e \<le> 0 \<or> int (length (xs @ [ev])) \<le> eq_maxsize ?e"
    using that assms(1) by (auto simp: heard_def put_event_def simp flip: append_assoc)
  moreover have "eq_maxsize (put_event ev ?e) = eq_maxsize ?e" by (simp add: put_event_def)
  moreover have "queue_ok ?e" "suffix (eq_items ?e) xs" "subseq (got @ eq_items ?e) xs" using assms(1) by (simp_all add: heard_def)
  ultimately show ?thesis
    unfolding heard_def assms(2) using queue_ok_put put_event_suffix put_event_subseq by (simp only:) blast
qed

lemma heard_cong: "eb_queue b' q = eb_queue b q \<Longrightarrow> heard q got xs b' = heard q got xs b"
  by (simp add: heard_def)

lemma listens_cong: "eb_subs b' = eb_subs b \<Longrightarrow> eb_next b' = eb_next b \<Longrightarrow> listens q key b' = listens q key b"
  by (simp add: listens_def)

lemma bus_step_heard:
  assumes "heard q got xs b" "listens q key b" "\<And>k. op \<noteq> Unsubscribe q k" "bus_step op b = (r, b')"
  shows "heard q (got @ read_by q r) (xs @ published key [op]) b' \<and> listens q key b' \<and> eq_maxsize (eb_queue b' q) = eq_maxsize (eb_queue b q)"
proof (cases op)
  case (Subscribe run m)
  with assms(4) have b': "b' = snd (subscribe run m b)" "r = []" by simp_all
  have q: "q < eb_next b" using assms(2) by (simp add: listens_def)
  then have e: "eb_queue b' q = eb_queue b q" by (simp add: b' subscribe_def Let_def)
  have "listens q key b'" using assms(2) q by (simp add: b' subscribe_def Let_def listens_def)
  with heard_cong [OF e] e assms(1) Subscribe b'(2) show ?thesis by simp
next
  case (Unsubscribe k run)
  with assms(3) have "k \<noteq> q" by blast
  have b': "b' = unsubscribe k run b" "r = []" using assms(4) Unsubscribe by simp_all
  then have e: "eb_queue b' q = eb_queue b q" by (simp add: unsubscribe_def)
  have "listens q key b'" using assms(2) \<open>k \<noteq> q\<close> by (simp add: b' unsubscribe_def listens_def)
  with heard_cong [OF e] e assms(1) Unsubscribe b'(2) show ?thesis by simp
next
  case (Publish ev)
  show ?thesis
  proof (cases "unhashable (dget ev ''run_id'')")
    case True
    then have "\<not> wanted key ev" by (auto simp: wanted_def)
    moreover have "b' = b" "r = []" using True Publish assms(4) by (simp_all add: publish_def)
    ultimately show ?thesis using Publish assms(1,2) by simp
  next
    case False
    let ?t = "targets (dget ev ''run_id'') b"
    have b': "b' = b\<lparr>eb_queue := \<lambda>k. if k \<in> ?t then put_event ev (eb_queue b k) else eb_queue b k\<rparr>" "r = []"
      using False Publish assms(4) by (simp_all add: publish_def Let_def)
    have l: "listens q key b'" using assms(2) listens_cong [of b' b q key] by (simp add: b')
    show ?thesis
    proof (cases "q \<in> ?t")
      case True
      then have e: "eb_queue b' q = put_event ev (eb_queue b q)" by (simp add: b')
      then have "eq_maxsize (eb_queue b' q) = eq_maxsize (eb_queue b q)" by (simp add: put_event_def)
      with heard_put [OF assms(1) e] l True wanted_target [OF assms(2) False] Publish b'(2) show ?thesis by simp
    next
      case no: False
      then have e: "eb_queue b' q = eb_queue b q" by (simp add: b')
      with heard_cong [OF e] l no wanted_target [OF assms(2) False] Publish assms(1) b'(2) show ?thesis by simp
    qed
  qed
next
  case (Read k)
  show ?thesis
  proof (cases "eq_items (eb_queue b k)")
    case Nil
    then have "b' = b" "r = []" using Read assms(4) by (simp_all add: next_event_def)
    with Read assms(1,2) show ?thesis by simp
  next
    case (Cons ev evs)
    then have b': "b' = b\<lparr> eb_queue := (eb_queue b)(k := (eb_queue b k)\<lparr> eq_items := evs \<rparr>) \<rparr>" "r = [(k, ev)]"
      using Read assms(4) by (simp_all add: next_event_def)
    have l: "listens q key b'" using assms(2) listens_cong [of b' b q key] by (simp add: b')
    show ?thesis
    proof (cases "k = q")
      case True
      have "suffix evs (ev # evs)" by (simp add: suffix_Cons)
      moreover have "suffix (ev # evs) xs" using assms(1) Cons True by (simp add: heard_def)
      ultimately have "suffix evs xs" by (rule suffix_order.trans)
      with True Cons Read assms(1) l b' show ?thesis by (auto simp: heard_def queue_ok_def)
    next
      case False
      then have e: "eb_queue b' q = eb_queue b q" by (simp add: b')
      with heard_cong [OF e] False Read assms(1) l b'(2) show ?thesis by simp
    qed
  qed
qed

lemma bus_run_heard:
  "heard q got xs b \<Longrightarrow> listens q key b \<Longrightarrow> \<forall>k. Unsubscribe q k \<notin> set ops \<Longrightarrow> bus_run ops b = (rs, b')
    \<Longrightarrow> heard q (got @ read_by q rs) (xs @ published key ops) b' \<and> eq_maxsize (eb_queue b' q) = eq_maxsize (eb_queue b q)"
proof (induction ops arbitrary: got xs b rs)
  case (Cons op ops)
  obtain r b1 where s: "bus_step op b = (r, b1)" by fastforce
  obtain rs1 where rs: "bus_run ops b1 = (rs1, b')" "rs = r @ rs1" using Cons.prems(4) s by (auto split: prod.splits)
  have "op \<noteq> Unsubscribe q k" for k using Cons.prems(3) by auto
  from bus_step_heard [OF Cons.prems(1,2) this s]
  have h: "heard q (got @ read_by q r) (xs @ published key [op]) b1" "listens q key b1"
    "eq_maxsize (eb_queue b1 q) = eq_maxsize (eb_queue b q)" by blast+
  have "published key (op # ops) = published key [op] @ published key ops" by (cases op) auto
  with Cons.IH [OF h(1,2) _ rs(1)] Cons.prems(3) h(3) rs(2) show ?case by simp
qed simp

section \<open>Properties\<close>

text \<open>
  C30: a slow subscriber misses the oldest events and never holds up the run. A new subscriber of a run (or of all
  runs) that stays subscribed reads events it asked for, in the order they were published, none of them twice; what
  waits in its queue is the newest stretch of them and fits its size; and it misses nothing if no more are
  published than its queue holds.
\<close>

theorem slow_subscriber_keeps_newest:
  assumes "\<forall>k. \<forall>x\<in>set (eb_subs b k). x < eb_next b" "subscribe key m b = (q, b1)" "bus_run ops b1 = (rs, b2)"
    and "\<forall>k. Unsubscribe q k \<notin> set ops"
  shows "suffix (eq_items (eb_queue b2 q)) (published key ops)
    \<and> subseq (read_by q rs @ eq_items (eb_queue b2 q)) (published key ops)
    \<and> (0 < m \<longrightarrow> int (length (eq_items (eb_queue b2 q))) \<le> m)
    \<and> (m \<le> 0 \<or> int (length (published key ops)) \<le> m \<longrightarrow> read_by q rs @ eq_items (eb_queue b2 q) = published key ops)"
proof -
  have l: "listens q key b1" "eb_queue b1 q = \<lparr> eq_maxsize = m, eq_items = [] \<rparr>"
    using listens_subscribe [OF assms(2,1)] by blast+
  then have "heard q [] [] b1" by (simp add: heard_def queue_ok_def)
  from bus_run_heard [OF this l(1) assms(4,3)] have h: "heard q (read_by q rs) (published key ops) b2"
    and m: "m = eq_maxsize (eb_queue b2 q)" by (simp_all add: l(2))
  from h show ?thesis unfolding m by (auto simp: heard_def queue_ok_def)
qed

theorem slow_subscriber_keeps_newest_witness:
  "\<exists>q b1 rs b2. subscribe (PStr ''r'') 2 bus_empty = (q, b1)
     \<and> bus_run [Publish [(''run_id'', PStr ''r''), (''n'', PInt 1)], Publish [(''run_id'', PStr ''x'')],
          Publish [(''run_id'', PStr ''r''), (''n'', PInt 2)], Publish [(''run_id'', PStr ''r''), (''n'', PInt 3)], Read q] b1 = (rs, b2)
     \<and> subseq (read_by q rs @ eq_items (eb_queue b2 q)) [[(''run_id'', PStr ''r''), (''n'', PInt 1)],
          [(''run_id'', PStr ''r''), (''n'', PInt 2)], [(''run_id'', PStr ''r''), (''n'', PInt 3)]]"
proof -
  let ?ops = "\<lambda>q. [Publish [(''run_id'', PStr ''r''), (''n'', PInt 1)], Publish [(''run_id'', PStr ''x'')],
     Publish [(''run_id'', PStr ''r''), (''n'', PInt 2)], Publish [(''run_id'', PStr ''r''), (''n'', PInt 3)], Read q]"
  obtain q b1 where s: "subscribe (PStr ''r'') 2 bus_empty = (q, b1)" by fastforce
  obtain rs b2 where r: "bus_run (?ops q) b1 = (rs, b2)" by fastforce
  have "\<forall>k. \<forall>x\<in>set (eb_subs bus_empty k). x < eb_next bus_empty" by (simp add: bus_empty_def)
  moreover have "\<forall>k. Unsubscribe q k \<notin> set (?ops q)" by simp
  moreover have "published (PStr ''r'') (?ops q) = [[(''run_id'', PStr ''r''), (''n'', PInt 1)],
      [(''run_id'', PStr ''r''), (''n'', PInt 2)], [(''run_id'', PStr ''r''), (''n'', PInt 3)]]"
    by (simp add: wanted_def dget_def unhashable_def)
  ultimately show ?thesis using slow_subscriber_keeps_newest [OF _ s r] s r by auto
qed

end
