(* ===== verification/Telemetry.thy ===== *)
theory Telemetry
  imports RunsApi EventBus ProfileConfig
begin

text \<open>
  What only observes a run: the trace files (\<open>observability/trace.py\<close>), the callback of Langfuse
  (\<open>observability/langfuse_adapter.py\<close>), the screencast of a page (\<open>browser/screencast.py\<close>) and the websocket routes
  that stream events and frames to a browser (\<open>api/routes/events.py\<close>, \<open>api/routes/screencast.py\<close>).
\<close>

subsection \<open>Trace files\<close>

text \<open>One file per day, named by its date; \<open>ok\<close> is false when the file cannot be written.\<close>

definition stamped :: "string \<Rightarrow> pydict \<Rightarrow> pydict" where
  "stamped ts event = dmerge [(''ts'', PStr ts)] event"

definition trace_write :: "string \<Rightarrow> string \<Rightarrow> bool \<Rightarrow> pydict \<Rightarrow> (string \<Rightarrow> string option) \<Rightarrow> string \<Rightarrow> string option" where
  "trace_write date ts ok event files = (if ok then files(date := jsonl_append (stamped ts event) (files date)) else files)"

record trace_call =
  tc_date :: string
  tc_ts :: string
  tc_ok :: bool
  tc_event :: pydict

definition trace_all :: "trace_call list \<Rightarrow> (string \<Rightarrow> string option) \<Rightarrow> string \<Rightarrow> string option" where
  "trace_all cs files = fold (\<lambda>c. trace_write (tc_date c) (tc_ts c) (tc_ok c) (tc_event c)) cs files"

subsection \<open>Langfuse\<close>

text \<open>The callback lists of the \<open>litellm\<close> module (\<open>None\<close> when the attribute is missing) and the environment.\<close>

record callbacks =
  lb_success :: "string list option"
  lb_failure :: "string list option"
  lb_env :: environ

definition append_callback :: "string list option \<Rightarrow> string list option" where
  "append_callback current = (let xs = (case current of None \<Rightarrow> [] | Some xs \<Rightarrow> xs) in
     Some (if ''langfuse'' \<in> set xs then xs else xs @ [''langfuse'']))"

definition set_default :: "string \<Rightarrow> string \<Rightarrow> environ \<Rightarrow> environ" where
  "set_default k v env = (case env k of None \<Rightarrow> env(k \<mapsto> v) | Some _ \<Rightarrow> env)"

definition install_langfuse :: "bool \<Rightarrow> bool \<Rightarrow> langfuse \<Rightarrow> callbacks \<Rightarrow> bool \<times> callbacks" where
  "install_langfuse has_litellm has_sdk lf s =
     (if \<not> lf_enabled lf then (False, s)
      else (case (given (lb_env s (lf_public lf)), given (lb_env s (lf_secret lf))) of
          (Some public_key, Some secret_key) \<Rightarrow>
            if has_litellm \<and> has_sdk
            then (True, \<lparr> lb_success = append_callback (lb_success s), lb_failure = append_callback (lb_failure s),
                lb_env = set_default ''LANGFUSE_SECRET_KEY'' secret_key (set_default ''LANGFUSE_PUBLIC_KEY'' public_key
                  (set_default ''LANGFUSE_HOST'' (lf_host lf) (lb_env s))) \<rparr>)
            else (False, s)
        | _ \<Rightarrow> (False, s)))"

subsection \<open>The screencast\<close>

text \<open>
  A caster with its settings, whether it has a session with the page, whether it counts as running, and whether the
  browser sends frames.
\<close>

record caster =
  ca_sample :: string
  ca_fps :: int
  ca_quality :: int
  ca_max_width :: int
  ca_attached :: bool
  ca_running :: bool
  ca_casting :: bool

definition new_caster :: "string \<Rightarrow> int \<Rightarrow> int \<Rightarrow> int \<Rightarrow> caster" where
  "new_caster sample fps quality max_width = \<lparr> ca_sample = sample, ca_fps = max 1 (min fps 30), ca_quality = max 10 (min quality 100),
     ca_max_width = max_width, ca_attached = False, ca_running = False, ca_casting = False \<rparr>"

definition every_nth_frame :: "caster \<Rightarrow> int" where
  "every_nth_frame c = max 1 (30 div ca_fps c)"

text \<open>\<open>start\<close> and \<open>stop\<close>, on what the browser answers to each of their two calls.\<close>

definition cast_start :: "exn option \<Rightarrow> exn option \<Rightarrow> caster \<Rightarrow> (exn + unit) \<times> caster" where
  "cast_start attach start c =
     (if ca_running c then (Inr (), c)
      else (case attach of
          Some e \<Rightarrow> (Inl e, c)
        | None \<Rightarrow> (case start of
            Some e \<Rightarrow> (Inl e, c\<lparr> ca_attached := True \<rparr>)
          | None \<Rightarrow> (Inr (), c\<lparr> ca_attached := True, ca_running := True, ca_casting := True \<rparr>))))"

definition cast_stop :: "exn option \<Rightarrow> exn option \<Rightarrow> caster \<Rightarrow> caster" where
  "cast_stop stop detach c =
     (if \<not> ca_running c \<or> \<not> ca_attached c then c
      else (let c = (if stop = None then c\<lparr> ca_casting := False \<rparr> else c);
                c = (if detach = None then c\<lparr> ca_attached := False, ca_casting := False \<rparr> else c)
            in c\<lparr> ca_running := False \<rparr>))"

text \<open>\<open>_on_frame\<close>: the event that is published, and whether the frame is acknowledged.\<close>

definition on_frame :: "caster \<Rightarrow> pydict \<Rightarrow> pydict option \<times> bool" where
  "on_frame c params =
     (if truthy (dget params ''data'')
      then Some [(''kind'', PStr ''screencast.frame''), (''sample_id'', PStr (ca_sample c)), (''data'', dget params ''data'')] else None,
      dget params ''sessionId'' \<noteq> PNone)"

text \<open>\<open>run_with_screencast\<close>; a session without a page runs bare. The answers are those of start and stop.\<close>

definition run_with_screencast :: "caster option \<Rightarrow> exn option \<times> exn option \<Rightarrow> exn option \<times> exn option \<Rightarrow> ('w, 'a) act \<Rightarrow> 'w \<Rightarrow> (exn + 'a) \<times> caster option \<times> 'w" where
  "run_with_screencast cast starts stops job w = (case cast of
     None \<Rightarrow> (case job w of (r, w') \<Rightarrow> (r, None, w'))
   | Some c \<Rightarrow> (case cast_start (fst starts) (snd starts) c of
       (Inl e, c') \<Rightarrow> (Inl e, Some c', w)
     | (Inr _, c') \<Rightarrow> (case job w of (r, w') \<Rightarrow> (r, Some (cast_stop (fst stops) (snd stops) c'), w'))))"

subsection \<open>Streams\<close>

text \<open>What a websocket route wakes up with: an event of its queue, or the end of the thirty seconds it waits.\<close>

datatype wake = Got pydict | Timed_out

definition events_ws :: "string option \<Rightarrow> wake list \<Rightarrow> string list" where
  "events_ws run_id wakes = dumps_ascii (PDict [(''kind'', PStr ''ws.ready''), (''run_id'', opt_text (given run_id))])
     # map (\<lambda>x. case x of Got ev \<Rightarrow> dumps_ascii (PDict ev) | Timed_out \<Rightarrow> dumps_ascii (PDict [(''kind'', PStr ''ws.ping'')])) wakes"

definition frame_of :: "string \<Rightarrow> pydict \<Rightarrow> pyval option" where
  "frame_of sid ev = (if dget ev ''kind'' = PStr ''screencast.frame'' \<and> dget ev ''sample_id'' = PStr sid \<and> truthy (dget ev ''data'')
     then Some (dget ev ''data'') else None)"

definition screencast_ws :: "string \<Rightarrow> wake list \<Rightarrow> pyval list" where
  "screencast_ws sid wakes = List.map_filter (\<lambda>x. case x of Got ev \<Rightarrow> frame_of sid ev | Timed_out \<Rightarrow> None) wakes"

text \<open>The events a stream was woken with.\<close>

definition events_got :: "wake list \<Rightarrow> pydict list" where
  "events_got wakes = List.map_filter (\<lambda>x. case x of Got ev \<Rightarrow> Some ev | Timed_out \<Rightarrow> None) wakes"

section \<open>Lemmas\<close>

lemma dset_wf_dict: "wf_pyval (PDict d) \<Longrightarrow> wf_pyval v \<Longrightarrow> wf_pyval (PDict (dset d k v))"
  by (rule dset_wf)

lemma dmerge_wf: "wf_pyval (PDict d) \<Longrightarrow> wf_items e \<Longrightarrow> wf_pyval (PDict (dmerge d e))"
proof (induction e arbitrary: d)
  case (Cons kv e)
  obtain k v where [simp]: "kv = (k, v)" by (cases kv)
  have "wf_pyval (PDict (dset d k v))" using Cons.prems by (intro dset_wf_dict) simp_all
  then have "wf_pyval (PDict (dmerge (dset d k v) e))" using Cons.prems(2) by (intro Cons.IH) simp_all
  then show ?case by (simp add: dmerge_def)
qed (simp add: dmerge_def)

lemma stamped_wf: "wf_pyval (PDict event) \<Longrightarrow> wf_pyval (PDict (stamped ts event))"
  unfolding stamped_def by (rule dmerge_wf) simp_all

lemma dget_dmerge:
  "distinct (map fst e) \<Longrightarrow> map_of (dmerge d e) k = (case map_of e k of None \<Rightarrow> map_of d k | Some v \<Rightarrow> Some v)"
proof (induction e arbitrary: d)
  case (Cons kv e)
  obtain a v where [simp]: "kv = (a, v)" by (cases kv)
  have "map_of (dmerge (dset d a v) e) k = (case map_of e k of None \<Rightarrow> map_of (dset d a v) k | Some v \<Rightarrow> Some v)"
    using Cons.prems by (intro Cons.IH) simp
  moreover have "map_of e a = None" using Cons.prems by (simp add: map_of_eq_None_iff)
  ultimately show ?case by (auto simp: dmerge_def map_of_dset split: option.split)
qed (simp add: dmerge_def)

lemma trace_rows:
  assumes "\<forall>c\<in>set cs. wf_pyval (PDict (tc_event c))" "complete_lines (files date)"
  shows "jsonl_rows (trace_all cs files date) = jsonl_rows (files date)
      @ map (\<lambda>c. PDict (stamped (tc_ts c) (tc_event c))) (filter (\<lambda>c. tc_ok c \<and> tc_date c = date) cs)"
  using assms
proof (induction cs arbitrary: files)
  case (Cons c cs)
  let ?f = "trace_write (tc_date c) (tc_ts c) (tc_ok c) (tc_event c) files"
  have w: "wf_pyval (PDict (stamped (tc_ts c) (tc_event c)))" using Cons.prems(1) by (intro stamped_wf) simp
  have f: "jsonl_rows (?f date) = jsonl_rows (files date)
      @ (if tc_ok c \<and> tc_date c = date then [PDict (stamped (tc_ts c) (tc_event c))] else []) \<and> complete_lines (?f date)"
    using jsonl_rows_append [OF Cons.prems(2) w] Cons.prems(2)
    by (cases "tc_ok c \<and> tc_date c = date") (auto simp: trace_write_def)
  have "jsonl_rows (trace_all cs ?f date) = jsonl_rows (?f date)
      @ map (\<lambda>c. PDict (stamped (tc_ts c) (tc_event c))) (filter (\<lambda>c. tc_ok c \<and> tc_date c = date) cs)"
    using Cons.prems(1) f by (intro Cons.IH) simp_all
  then show ?case using f by (simp add: trace_all_def)
qed (simp add: trace_all_def)

lemma map_filter_wakes: "screencast_ws sid wakes = List.map_filter (frame_of sid) (events_got wakes)"
  by (induction wakes) (auto simp: screencast_ws_def events_got_def split: wake.split option.split)

lemma frame_ofD:
  "frame_of sid ev = Some d \<Longrightarrow> truthy d \<and> dget ev ''kind'' = PStr ''screencast.frame'' \<and> dget ev ''sample_id'' = PStr sid \<and> dget ev ''data'' = d"
  by (auto simp: frame_of_def split: if_split_asm)

lemma subseq_map_filter: "subseq xs ys \<Longrightarrow> subseq (List.map_filter f xs) (List.map_filter f ys)"
  unfolding List.map_filter_def by (intro subseq_map subseq_filter)

section \<open>Properties\<close>

text \<open>
  The traces of a day can be replayed. Whatever events are traced, each line of the file of a day that was complete
  before is one event of that day, stamped with its time and otherwise as it was given, in the order of the calls; a
  write that fails loses its own event only and never raises.
\<close>

theorem trace_lines_read_back:
  assumes "\<forall>c\<in>set cs. wf_pyval (PDict (tc_event c))" "complete_lines (files date)"
  shows "jsonl_rows (trace_all cs files date) = jsonl_rows (files date)
      @ map (\<lambda>c. PDict (stamped (tc_ts c) (tc_event c))) (filter (\<lambda>c. tc_ok c \<and> tc_date c = date) cs)
    \<and> (\<forall>c\<in>set cs. \<forall>k. dget (stamped (tc_ts c) (tc_event c)) k =
        (if k = ''ts'' \<and> map_of (tc_event c) k = None then PStr (tc_ts c) else dget (tc_event c) k))"
proof -
  have "dget (stamped (tc_ts c) (tc_event c)) k =
      (if k = ''ts'' \<and> map_of (tc_event c) k = None then PStr (tc_ts c) else dget (tc_event c) k)" if "c \<in> set cs" for c k
  proof -
    have "distinct (map fst (tc_event c))" using assms(1) that by simp
    from dget_dmerge [OF this, of "[(''ts'', PStr (tc_ts c))]" k] show ?thesis
      by (cases "map_of (tc_event c) k") (simp_all add: stamped_def dget_def)
  qed
  with trace_rows [where files = files, OF assms] show ?thesis by blast
qed

theorem trace_lines_read_back_witness:
  "jsonl_rows (trace_all [\<lparr> tc_date = ''d1'', tc_ts = ''t1'', tc_ok = True, tc_event = [(''kind'', PStr ''run.init'')] \<rparr>,
       \<lparr> tc_date = ''d2'', tc_ts = ''t2'', tc_ok = True, tc_event = [] \<rparr>] (\<lambda>_. None) ''d1'')
     = [PDict [(''ts'', PStr ''t1''), (''kind'', PStr ''run.init'')]]"
proof -
  let ?cs = "[\<lparr> tc_date = ''d1'', tc_ts = ''t1'', tc_ok = True, tc_event = [(''kind'', PStr ''run.init'')] \<rparr>,
       \<lparr> tc_date = ''d2'', tc_ts = ''t2'', tc_ok = True, tc_event = [] \<rparr>]"
  have w: "\<forall>c\<in>set ?cs. wf_pyval (PDict (tc_event c))" by simp
  have f: "complete_lines ((\<lambda>_. None) ''d1'')" by (simp add: complete_lines_def)
  from trace_lines_read_back [where files = "\<lambda>_. None", OF w f] show ?thesis by (simp add: stamped_def dmerge_def dset_def jsonl_rows_def)
qed

text \<open>
  A viewer sees the frames of its sample. Whatever else runs on the bus, what the screencast route sends to a viewer
  of a sample are frames of that sample, each at most once and in the order they were published; it sends all of
  them if no more events than the 64 its queue holds were published in all.
\<close>

theorem viewer_sees_only_its_sample:
  assumes "\<forall>k. \<forall>x\<in>set (eb_subs b k). x < eb_next b" "subscribe PNone 64 b = (q, b1)" "bus_run ops b1 = (rs, b2)"
    and "\<forall>k. Unsubscribe q k \<notin> set ops" "events_got wakes = read_by q rs"
  shows "subseq (screencast_ws sid wakes) (List.map_filter (frame_of sid) (published PNone ops))
    \<and> (eq_items (eb_queue b2 q) = [] \<and> length (published PNone ops) \<le> 64 \<longrightarrow>
        screencast_ws sid wakes = List.map_filter (frame_of sid) (published PNone ops))
    \<and> (\<forall>d\<in>set (screencast_ws sid wakes). truthy d \<and> (\<exists>ev\<in>set (published PNone ops).
        dget ev ''kind'' = PStr ''screencast.frame'' \<and> dget ev ''sample_id'' = PStr sid \<and> dget ev ''data'' = d))"
proof -
  have l: "listens q PNone b1" "eb_queue b1 q = \<lparr> eq_maxsize = 64, eq_items = [] \<rparr>"
    using listens_subscribe [OF assms(2,1)] by blast+
  then have "heard q [] [] b1" by (simp add: heard_def queue_ok_def)
  from bus_run_heard [OF this l(1) assms(4,3)] have h: "heard q (read_by q rs) (published PNone ops) b2"
    and m: "eq_maxsize (eb_queue b2 q) = 64" by (simp_all add: l(2))
  have "subseq (read_by q rs) (read_by q rs @ eq_items (eb_queue b2 q))"
    by (rule prefix_imp_subseq) simp
  then have "subseq (read_by q rs) (published PNone ops)" using h by (auto simp: heard_def intro: subseq_order.trans)
  then have sub: "subseq (screencast_ws sid wakes) (List.map_filter (frame_of sid) (published PNone ops))"
    unfolding map_filter_wakes assms(5) by (rule subseq_map_filter)
  have "truthy d \<and> (\<exists>ev\<in>set (published PNone ops).
      dget ev ''kind'' = PStr ''screencast.frame'' \<and> dget ev ''sample_id'' = PStr sid \<and> dget ev ''data'' = d)"
    if d: "d \<in> set (screencast_ws sid wakes)" for d
  proof -
    have "d \<in> set (List.map_filter (frame_of sid) (published PNone ops))" by (rule list_emb_set [OF sub d]) simp
    then obtain ev where "ev \<in> set (published PNone ops)" "frame_of sid ev = Some d" by (auto simp: List.map_filter_def)
    then show ?thesis using frame_ofD by blast
  qed
  then show ?thesis
    using h m sub unfolding map_filter_wakes assms(5) by (auto simp: heard_def)
qed

definition demo_frame :: "string \<Rightarrow> string \<Rightarrow> pydict" where
  "demo_frame sid data = [(''kind'', PStr ''screencast.frame''), (''sample_id'', PStr sid), (''data'', PStr data)]"

theorem viewer_sees_only_its_sample_witness:
  "\<exists>q b1 rs b2. subscribe PNone 64 bus_empty = (q, b1)
     \<and> bus_run [Publish (demo_frame ''s1'' ''a''), Publish (demo_frame ''s2'' ''b''), Read q, Read q] b1 = (rs, b2)
     \<and> screencast_ws ''s1'' (map Got (read_by q rs)) = [PStr ''a'']"
proof -
  let ?ops = "\<lambda>q. [Publish (demo_frame ''s1'' ''a''), Publish (demo_frame ''s2'' ''b''), Read q, Read q]"
  obtain q b1 where s: "subscribe PNone 64 bus_empty = (q, b1)" by fastforce
  obtain rs b2 where r: "bus_run (?ops q) b1 = (rs, b2)" by fastforce
  have e: "\<forall>k. \<forall>x\<in>set (eb_subs bus_empty k). x < eb_next bus_empty" by (simp add: bus_empty_def)
  have u: "\<forall>k. Unsubscribe q k \<notin> set (?ops q)" by simp
  have g: "events_got (map Got evs) = evs" for evs by (induction evs) (simp_all add: events_got_def)
  have p: "published PNone (?ops q) = [demo_frame ''s1'' ''a'', demo_frame ''s2'' ''b'']"
    by (simp add: wanted_def dget_def demo_frame_def unhashable_def)
  have q: "q = 0" "b1 = snd (subscribe PNone 64 bus_empty)" using s by (simp_all add: subscribe_def bus_empty_def Let_def)
  have "eq_items (eb_queue (snd (bus_run (?ops 0) (snd (subscribe PNone 64 bus_empty)))) 0) = []"
    by (simp add: subscribe_def bus_empty_def publish_def demo_frame_def dget_def unhashable_def targets_def put_event_def queue_full_def next_event_def Let_def)
  then have i: "eq_items (eb_queue b2 q) = []" using r unfolding q by simp
  have "screencast_ws ''s1'' (map Got (read_by q rs)) = [PStr ''a'']"
    using conjunct1 [OF conjunct2 [OF viewer_sees_only_its_sample [OF e s r u g, of "''s1''"]]] i unfolding p by (simp add: frame_of_def demo_frame_def dget_def)
  with s r show ?thesis by blast
qed

text \<open>
  Watching never changes a run. The rate of frames is within what the browser can give; a screencast that starts
  leaves the result of what it wraps and its effects alone, whatever the browser answers when it is stopped, and is
  not running afterwards; only one that does not start keeps the work from being done.
\<close>

theorem screencast_is_transparent:
  assumes "job w = (r, w')"
  shows "run_with_screencast None starts stops job w = (r, None, w')
    \<and> (let c = new_caster sid fps quality max_width in
        1 \<le> ca_fps c \<and> ca_fps c \<le> 30 \<and> 1 \<le> every_nth_frame c \<and> every_nth_frame c * ca_fps c \<le> 30
      \<and> (case run_with_screencast (Some c) starts stops job w of (r', Some c', w'') \<Rightarrow> \<not> ca_running c'
          \<and> (if starts = (None, None) then r' = r \<and> w'' = w' \<and> (snd stops = None \<longrightarrow> \<not> ca_attached c' \<and> \<not> ca_casting c')
             else w'' = w \<and> (\<exists>e. r' = Inl e))
        | (_, None, _) \<Rightarrow> False))"
proof -
  let ?c = "new_caster sid fps quality max_width"
  have f: "1 \<le> ca_fps ?c" "ca_fps ?c \<le> 30" by (simp_all add: new_caster_def)
  have "30 div ca_fps ?c * ca_fps ?c \<le> 30" using f(1) minus_mod_eq_div_mult [of 30 "ca_fps ?c"] pos_mod_sign [of "ca_fps ?c" 30] by linarith
  moreover have "1 \<le> 30 div ca_fps ?c" using f by (simp add: pos_imp_zdiv_pos_iff int_one_le_iff_zero_less)
  ultimately have "1 \<le> every_nth_frame ?c \<and> every_nth_frame ?c * ca_fps ?c \<le> 30" by (simp add: every_nth_frame_def)
  moreover have "\<not> ca_running ?c" "\<not> ca_attached ?c" by (simp_all add: new_caster_def)
  ultimately show ?thesis
    using f assms by (cases starts) (auto simp: run_with_screencast_def cast_start_def cast_stop_def Let_def split: option.split)
qed

theorem screencast_is_transparent_witness:
  "\<exists>c. run_with_screencast (Some (new_caster ''s1'' 99 60 1024)) (None, None) (Some (Exn ''Error'' ''closed''), None) (returnA (7 :: nat)) () = (Inr 7, Some c, ())
     \<and> \<not> ca_running c \<and> \<not> ca_attached c"
proof -
  have j: "returnA (7 :: nat) () = (Inr 7, ())" by simp
  obtain r c w where x: "run_with_screencast (Some (new_caster ''s1'' 99 60 1024)) (None, None) (Some (Exn ''Error'' ''closed''), None) (returnA (7 :: nat)) () = (r, c, w)"
    by (metis prod_cases3)
  from screencast_is_transparent [of "returnA (7 :: nat)" "()" "Inr 7" "()" "(None, None)" "(Some (Exn ''Error'' ''closed''), None)" "''s1''" 99 60 1024, OF j] x
  show ?thesis by (cases c) (auto simp: Let_def)
qed

text \<open>
  Installing the callback again changes nothing: it is in both lists, once if it was not there before, and the keys of
  the environment win over the ones of the profile.
\<close>

theorem langfuse_registered_once:
  assumes "install_langfuse a b lf s = (True, s')"
  shows "install_langfuse a b lf s' = (True, s')
    \<and> (\<exists>xs ys. lb_success s' = Some xs \<and> lb_failure s' = Some ys \<and> ''langfuse'' \<in> set xs \<and> ''langfuse'' \<in> set ys
        \<and> (lb_success s = None \<longrightarrow> xs = [''langfuse'']) \<and> (lb_failure s = None \<longrightarrow> ys = [''langfuse'']))
    \<and> (\<forall>k v. lb_env s k = Some v \<longrightarrow> lb_env s' k = Some v)"
proof -
  obtain p q where k: "given (lb_env s (lf_public lf)) = Some p" "given (lb_env s (lf_secret lf)) = Some q" "lf_enabled lf" "a" "b"
    and s': "s' = \<lparr> lb_success = append_callback (lb_success s), lb_failure = append_callback (lb_failure s),
      lb_env = set_default ''LANGFUSE_SECRET_KEY'' q (set_default ''LANGFUSE_PUBLIC_KEY'' p (set_default ''LANGFUSE_HOST'' (lf_host lf) (lb_env s))) \<rparr>"
    using assms by (auto simp: install_langfuse_def split: if_split_asm option.split_asm)
  have keep: "env x = Some v \<Longrightarrow> set_default n u env x = Some v" for env x v n u by (auto simp: set_default_def split: option.split)
  have again: "set_default n u env = env" if "env n = Some v" for env n u v using that by (simp add: set_default_def)
  have g: "given x = Some y \<Longrightarrow> x = Some y" for x y by (auto simp: given_def split: option.split_asm if_split_asm)
  have env: "lb_env s x = Some v \<Longrightarrow> lb_env s' x = Some v" for x v by (simp add: s' keep)
  have has: "\<exists>v. lb_env s' ''LANGFUSE_HOST'' = Some v" "\<exists>v. lb_env s' ''LANGFUSE_PUBLIC_KEY'' = Some v" "\<exists>v. lb_env s' ''LANGFUSE_SECRET_KEY'' = Some v"
    by (auto simp: s' set_default_def split: option.split)
  have twice: "append_callback (append_callback x) = append_callback x" for x by (auto simp: append_callback_def Let_def)
  have keys: "given (lb_env s' (lf_public lf)) = Some p" "given (lb_env s' (lf_secret lf)) = Some q"
    using k(1,2) env [OF g [OF k(1)]] env [OF g [OF k(2)]] g [OF k(1)] g [OF k(2)] by simp_all
  have "set_default ''LANGFUSE_SECRET_KEY'' q (set_default ''LANGFUSE_PUBLIC_KEY'' p (set_default ''LANGFUSE_HOST'' (lf_host lf) (lb_env s'))) = lb_env s'"
    using has again by metis
  then have "install_langfuse a b lf s' = (True, s')"
    using k(3-5) keys by (simp add: install_langfuse_def) (simp add: s' twice)
  moreover have "\<exists>xs ys. lb_success s' = Some xs \<and> lb_failure s' = Some ys \<and> ''langfuse'' \<in> set xs \<and> ''langfuse'' \<in> set ys
        \<and> (lb_success s = None \<longrightarrow> xs = [''langfuse'']) \<and> (lb_failure s = None \<longrightarrow> ys = [''langfuse''])"
    by (auto simp: s' append_callback_def Let_def)
  ultimately show ?thesis using env by blast
qed

end
