(* ===== verification/PageScripts.thy ===== *)
theory PageScripts
  imports Complex_Main LocalSession
begin

text \<open>
  The scripts that \<open>browser/grounding.py\<close>, \<open>browser/set_of_mark.py\<close> and \<open>browser/local.py\<close> run inside a page. An
  element carries what the scripts read of it: tag, attributes, box, computed style and texts, which the browser
  provides; layout itself is not modelled. Numbers of a page are rationals, texts have no surrogate pairs. The overlay
  is kept beside the document: it holds no element that a selector of the scripts matches.
\<close>

subsection \<open>The document\<close>

text \<open>\<open>uid\<close> is the identity of the element; \<open>text\<close> and \<open>content\<close> are \<open>innerText\<close> and \<open>textContent\<close>, empty if missing.\<close>

record look =
  lk_uid :: nat
  lk_tag :: string
  lk_attrs :: "(string \<times> string) list"
  lk_x :: rat
  lk_y :: rat
  lk_w :: rat
  lk_h :: rat
  lk_visibility :: string
  lk_display :: string
  lk_opacity :: string
  lk_text :: string
  lk_content :: string
  lk_value :: pyval
  lk_href :: string

text \<open>An element, its children, its open shadow root, and the document of a frame if it may be read.\<close>

datatype dom = Node (node_look: look) (node_children: "dom list") (node_shadow: "dom list option") (node_frame: "dom list option")

text \<open>An element with what is above it, nearest first: its ancestors and, from a shadow root, the host.\<close>

type_synonym located = "look list \<times> dom"

text \<open>\<open>root.querySelectorAll('*')\<close> in document order; it does not enter shadow roots or frames.\<close>

fun elements :: "look list \<Rightarrow> dom list \<Rightarrow> located list" where
  "elements up [] = []"
| "elements up (Node l cs sh fr # ns) = (up, Node l cs sh fr) # elements (l # up) cs @ elements up ns"

text \<open>A root to search: whether it is a shadow root, what is above it, and its top elements.\<close>

type_synonym tree_root = "bool \<times> look list \<times> dom list"

definition document_root :: "dom list \<Rightarrow> tree_root" where
  "document_root ns = (False, [], ns)"

definition root_elements :: "tree_root \<Rightarrow> located list" where
  "root_elements r = elements (fst (snd r)) (snd (snd r))"

definition shadow_roots :: "tree_root \<Rightarrow> tree_root list" where
  "shadow_roots r = List.map_filter (\<lambda>(up, n). map_option (\<lambda>ns. (True, node_look n # up, ns)) (node_shadow n)) (root_elements r)"

definition frames_of :: "dom list \<Rightarrow> (look \<times> dom list) list" where
  "frames_of ns = List.map_filter (\<lambda>(up, n). if lk_tag (node_look n) = ''iframe''
     then map_option (\<lambda>d. (node_look n, d)) (node_frame n) else None) (elements [] ns)"

subsection \<open>Walking\<close>

text \<open>Number of elements, those of shadow roots included: the walk ends because a shadow root is smaller than its tree.\<close>

fun tree_weight :: "dom list \<Rightarrow> nat" where
  "tree_weight [] = 0"
| "tree_weight (Node l cs sh fr # ns) =
     1 + tree_weight cs + (case sh of None \<Rightarrow> 0 | Some r \<Rightarrow> 1 + tree_weight r) + tree_weight ns"

definition root_weight :: "tree_root \<Rightarrow> nat" where
  "root_weight r = tree_weight (snd (snd r))"

lemma map_filter_append: "List.map_filter f (xs @ ys) = List.map_filter f xs @ List.map_filter f ys"
  by (induction xs) (auto simp: map_filter_simps split: option.split)

lemma shadow_weight_below:
  "sum_list (map (\<lambda>x. Suc (tree_weight (snd (snd x))))
     (List.map_filter (\<lambda>(up, n). map_option (\<lambda>ns. (True, node_look n # up, ns)) (node_shadow n)) (elements up ns)))
   \<le> tree_weight ns"
  by (induction up ns rule: elements.induct) (auto simp: map_filter_simps map_filter_append split: option.split)

lemma shadow_weight: "sum_list (map (\<lambda>r. Suc (root_weight r)) (shadow_roots r)) \<le> root_weight r"
  using shadow_weight_below [of "fst (snd r)" "snd (snd r)"] by (simp add: shadow_roots_def root_elements_def root_weight_def)

definition walk_measure :: "tree_root + tree_root list \<Rightarrow> nat" where
  "walk_measure x = (case x of Inl r \<Rightarrow> 2 * root_weight r + 1 | Inr rs \<Rightarrow> sum_list (map (\<lambda>r. 2 * root_weight r + 2) rs))"

lemma walk_measure_down: "walk_measure (Inr (shadow_roots r)) < walk_measure (Inl r)"
proof -
  have "sum_list (map (\<lambda>r. 2 * root_weight r + 2) rs) = 2 * sum_list (map (\<lambda>r. Suc (root_weight r)) rs)" for rs
    by (induction rs) auto
  with shadow_weight [of r] show ?thesis by (simp add: walk_measure_def)
qed

lemma walk_measure_list: "walk_measure (Inl r) < walk_measure (Inr (r # rs))" "walk_measure (Inr rs) < walk_measure (Inr (r # rs))"
  by (simp_all add: walk_measure_def)

text \<open>
  \<open>walk\<close> of the scripts: the elements of a root are visited; a visit that returns leaves this root, shadow roots below
  it included, but not the walk of the roots beside it.
\<close>

function walk :: "(tree_root \<Rightarrow> 's \<Rightarrow> bool \<times> 's) \<Rightarrow> tree_root \<Rightarrow> 's \<Rightarrow> 's"
  and walk_all :: "(tree_root \<Rightarrow> 's \<Rightarrow> bool \<times> 's) \<Rightarrow> tree_root list \<Rightarrow> 's \<Rightarrow> 's" where
  "walk visit r s = (case visit r s of (returned, t) \<Rightarrow> if returned then t else walk_all visit (shadow_roots r) t)"
| "walk_all visit [] s = s"
| "walk_all visit (r # rs) s = walk_all visit rs (walk visit r s)"
  by pat_completeness auto
termination
  by (relation "measure (\<lambda>x. case x of Inl (visit, r, s) \<Rightarrow> walk_measure (Inl r) | Inr (visit, rs, s) \<Rightarrow> walk_measure (Inr rs))")
    (simp_all add: walk_measure_down walk_measure_list)

declare walk.simps [simp del]

text \<open>The roots in the order of a walk that never returns early.\<close>

function roots_in :: "tree_root \<Rightarrow> tree_root list" and roots_of :: "tree_root list \<Rightarrow> tree_root list" where
  "roots_in r = r # roots_of (shadow_roots r)"
| "roots_of [] = []"
| "roots_of (r # rs) = roots_in r @ roots_of rs"
  by pat_completeness auto
termination
  by (relation "measure walk_measure") (simp_all add: walk_measure_down walk_measure_list)

declare roots_in.simps [simp del]

lemma walk_invariant:
  "(\<And>q s. q \<in> set (roots_in r) \<Longrightarrow> P s \<Longrightarrow> P (snd (visit q s))) \<Longrightarrow> P s \<Longrightarrow> P (walk visit r s)"
  "(\<And>q s. q \<in> set (roots_of rs) \<Longrightarrow> P s \<Longrightarrow> P (snd (visit q s))) \<Longrightarrow> P s \<Longrightarrow> P (walk_all visit rs s)"
proof (induction r and rs arbitrary: s and s rule: roots_in_roots_of.induct)
  case (1 r)
  obtain b t where v: "visit r s = (b, t)" by fastforce
  with 1(2) [of r s] 1(3) have "P t" by (simp add: roots_in.simps)
  with 1(1) [of t] 1(2) show ?case by (simp add: walk.simps v roots_in.simps)
next
  case (3 r rs)
  have "P (walk visit r s)" by (rule 3(1)) (use 3(3,4) in auto)
  with 3(2,3) show ?case by simp
qed simp

text \<open>
  A collector with a cap: a visit adds to what is collected, returns only when the cap is reached, and adds at most one
  entry once it is.
\<close>

locale capped_walk =
  fixes visit :: "tree_root \<Rightarrow> 's \<Rightarrow> bool \<times> 's"
    and collected :: "'s \<Rightarrow> nat"
    and cap :: nat
  assumes grows: "visit r s = (b, t) \<Longrightarrow> collected s \<le> collected t"
    and returns: "visit r s = (b, t) \<Longrightarrow> b \<Longrightarrow> cap \<le> collected t"
    and overrun: "visit r s = (b, t) \<Longrightarrow> collected t \<le> max cap (collected s + 1)"
begin

lemma walk_grows: "collected s \<le> collected (walk visit r s)" "collected s \<le> collected (walk_all visit rs s)"
proof (induction r and rs arbitrary: s and s rule: roots_in_roots_of.induct)
  case (1 r)
  obtain b t where v: "visit r s = (b, t)" by fastforce
  from 1 [of t] grows [OF v] show ?case by (simp add: walk.simps v)
next
  case (3 r rs)
  from 3(1) [of s] 3(2) [of "walk visit r s"] show ?case by simp
qed simp

lemma walk_bound:
  "collected (walk visit r s) + 1 \<le> max cap (collected s + 1) + length (roots_in r)"
  "collected (walk_all visit rs s) + 1 \<le> max cap (collected s + 1) + length (roots_of rs)"
proof (induction r and rs arbitrary: s and s rule: roots_in_roots_of.induct)
  case (1 r)
  obtain b t where v: "visit r s = (b, t)" by fastforce
  from 1 [of t] overrun [OF v] show ?case by (auto simp: walk.simps v roots_in.simps max_def split: if_splits)
next
  case (3 r rs)
  from 3(1) [of s] 3(2) [of "walk visit r s"] show ?case by (auto simp: max_def split: if_splits)
qed simp

lemma fold_grows: "collected s \<le> collected (foldl (\<lambda>s r. snd (visit r s)) s rs)"
proof (induction rs arbitrary: s)
  case (Cons r rs)
  from Cons [of "snd (visit r s)"] grows [of r s "fst (visit r s)" "snd (visit r s)"] show ?case by simp
qed simp

text \<open>A walk that stays below the cap visits every root, in order.\<close>

lemma walk_complete:
  "collected (foldl (\<lambda>s r. snd (visit r s)) s (roots_in r)) < cap \<Longrightarrow> walk visit r s = foldl (\<lambda>s r. snd (visit r s)) s (roots_in r)"
  "collected (foldl (\<lambda>s r. snd (visit r s)) s (roots_of rs)) < cap \<Longrightarrow> walk_all visit rs s = foldl (\<lambda>s r. snd (visit r s)) s (roots_of rs)"
proof (induction r and rs arbitrary: s and s rule: roots_in_roots_of.induct)
  case (1 r)
  obtain b t where v: "visit r s = (b, t)" by fastforce
  from 1(2) have c: "collected (foldl (\<lambda>s r. snd (visit r s)) t (roots_of (shadow_roots r))) < cap"
    by (simp add: roots_in.simps v)
  then have "collected t < cap" using fold_grows [of t] le_less_trans by blast
  then have "\<not> b" using returns [OF v] by auto
  with 1(1) [OF c] show ?case by (simp add: walk.simps v roots_in.simps)
next
  case (3 r rs)
  let ?f = "foldl (\<lambda>s r. snd (visit r s))"
  from 3(3) have c: "collected (?f (?f s (roots_in r)) (roots_of rs)) < cap" by simp
  then have "collected (?f s (roots_in r)) < cap" using fold_grows le_less_trans by blast
  with 3(1) have w: "walk visit r s = ?f s (roots_in r)" by blast
  from 3(2) [OF c] show ?case by (simp add: w)
qed simp

end

subsection \<open>Reading an element\<close>

definition attr :: "look \<Rightarrow> string \<Rightarrow> string option" where
  "attr l k = map_of (lk_attrs l) k"

definition attr_or_empty :: "look \<Rightarrow> string \<Rightarrow> string" where
  "attr_or_empty l k = (case attr l k of None \<Rightarrow> [] | Some t \<Rightarrow> t)"

definition js_space :: "char \<Rightarrow> bool" where
  "js_space c \<longleftrightarrow> c \<in> {CHR 0x09, CHR 0x0A, CHR 0x0B, CHR 0x0C, CHR 0x0D, CHR '' '', CHR 0xA0}"

text \<open>\<open>t.trim().slice(0, n)\<close> and \<open>Math.round\<close>.\<close>

definition trimmed :: "nat \<Rightarrow> string \<Rightarrow> string" where
  "trimmed n t = take n (rstrip_by js_space (lstrip_by js_space t))"

definition js_round :: "rat \<Rightarrow> int" where
  "js_round x = \<lfloor>x + 1 / 2\<rfloor>"

text \<open>JavaScript's \<open>||\<close> on texts and numbers takes its right side where Python's \<open>or\<close> does.\<close>

definition acc_name :: "nat \<Rightarrow> look \<Rightarrow> pyval" where
  "acc_name n l = py_or (opt_pv (attr l ''aria-label'')) (py_or (opt_pv (attr l ''alt'')) (py_or (opt_pv (attr l ''title''))
     (py_or (PStr (trimmed n (lk_text l))) (py_or (opt_pv (attr l ''placeholder'')) (py_or (lk_value l) (PStr []))))))"

definition role_of :: "look \<Rightarrow> string" where
  "role_of l = (if attr_or_empty l ''role'' \<noteq> [] then attr_or_empty l ''role'' else lk_tag l)"

definition styled_away :: "look \<Rightarrow> bool" where
  "styled_away l \<longleftrightarrow> lk_visibility l = ''hidden'' \<or> lk_display l = ''none'' \<or> lk_opacity l = ''0''"

text \<open>The selector of clickable elements, the same in both scripts.\<close>

definition clickable :: "look \<Rightarrow> bool" where
  "clickable l \<longleftrightarrow> lk_tag l \<in> set [''a'', ''button'', ''input'', ''select'', ''textarea'']
     \<or> attr l ''role'' \<in> set [Some ''button'', Some ''link'', Some ''menuitem'', Some ''tab''] \<or> attr l ''onclick'' \<noteq> None"

subsection \<open>The overlay\<close>

record window =
  wn_document :: "dom list"
  wn_inner_width :: int
  wn_inner_height :: int
  wn_scroll_y :: rat
  wn_scroll_height :: int
  wn_ready_state :: string
  wn_active :: "look option"
  wn_body :: "nat option"

text \<open>A numbered box: its label, colour and place.\<close>

record box =
  bx_label :: nat
  bx_colour :: string
  bx_place :: "int \<times> int \<times> int \<times> int"

record overlay =
  ov_marks :: "pydict list"
  ov_boxes :: "box list"
  ov_seen :: "nat list"
  ov_counter :: nat

definition PALETTE :: "string list" where
  "PALETTE = [''#e11d48'', ''#2563eb'', ''#059669'', ''#d97706'', ''#7c3aed'', ''#0891b2'', ''#be123c'', ''#15803d'']"

definition big_enough :: "look \<Rightarrow> bool" where
  "big_enough l \<longleftrightarrow> \<not> (lk_w l < 6 \<or> lk_h l < 6) \<and> \<not> styled_away l"

text \<open>\<open>landmarkOf\<close>, on an element and what is above it.\<close>

definition LANDMARK_ROLES :: "(string \<times> string) list" where
  "LANDMARK_ROLES = [(''banner'', ''header''), (''contentinfo'', ''footer''), (''navigation'', ''nav''), (''main'', ''main'')]"

fun landmark_of :: "look list \<Rightarrow> string" where
  "landmark_of [] = []"
| "landmark_of (l # up) =
     (if lk_tag l \<in> set [''header'', ''footer'', ''nav'', ''main'', ''aside''] then lk_tag l
      else (case map_of LANDMARK_ROLES (attr_or_empty l ''role'') of Some t \<Rightarrow> t | None \<Rightarrow> landmark_of up))"

definition region_of :: "window \<Rightarrow> look \<Rightarrow> string" where
  "region_of w l =
     (let vw = rat_of_int (if wn_inner_width w \<noteq> 0 then wn_inner_width w else 1280);
          vh = rat_of_int (if wn_inner_height w \<noteq> 0 then wn_inner_height w else 720);
          mx = lk_x l + lk_w l / 2; my = lk_y l + lk_h l / 2;
          col = (if mx < vw / 3 then ''left'' else if mx < 2 * vw / 3 then ''center'' else ''right'');
          row = (if my < vh / 3 then ''top'' else if my < 2 * vh / 3 then ''middle'' else ''bottom'')
      in row @ ''-'' @ col)"

definition mark_record :: "window \<Rightarrow> rat \<Rightarrow> rat \<Rightarrow> bool \<Rightarrow> bool \<Rightarrow> nat \<Rightarrow> look list \<Rightarrow> look \<Rightarrow> pydict" where
  "mark_record w dx dy in_shadow in_iframe i up l =
     (let landmark = landmark_of (l # up) in
      [(''mark_id'', PInt (int i)), (''role'', PStr (role_of l)), (''name'', acc_name 60 l),
       (''x'', PInt (js_round (lk_x l + dx))), (''y'', PInt (js_round (lk_y l + dy))),
       (''w'', PInt (js_round (lk_w l))), (''h'', PInt (js_round (lk_h l))),
       (''href'', PStr (attr_or_empty l ''href'')), (''placeholder'', PStr (attr_or_empty l ''placeholder'')),
       (''tag'', PStr (lk_tag l)), (''viewport_region'', PStr (if landmark \<noteq> [] then landmark else region_of w l)),
       (''in_shadow'', PBool in_shadow), (''in_iframe'', PBool in_iframe)])"

definition mark_box :: "rat \<Rightarrow> rat \<Rightarrow> nat \<Rightarrow> look \<Rightarrow> box" where
  "mark_box dx dy i l = \<lparr> bx_label = i, bx_colour = PALETTE ! (i mod length PALETTE),
     bx_place = (js_round (lk_x l + dx), js_round (lk_y l + dy), js_round (lk_w l), js_round (lk_h l)) \<rparr>"

definition MARK_CAP :: nat where "MARK_CAP = 80"

text \<open>The loop over the clickable elements of one root; \<open>True\<close> is the \<open>return\<close> at the cap.\<close>

fun mark_elements :: "window \<Rightarrow> rat \<Rightarrow> rat \<Rightarrow> bool \<Rightarrow> bool \<Rightarrow> located list \<Rightarrow> overlay \<Rightarrow> bool \<times> overlay" where
  "mark_elements w dx dy in_shadow in_iframe [] s = (False, s)"
| "mark_elements w dx dy in_shadow in_iframe ((up, n) # es) s =
     (let l = node_look n; s1 = s\<lparr>ov_seen := lk_uid l # ov_seen s\<rparr>; i = ov_counter s;
          s2 = s1\<lparr>ov_marks := ov_marks s @ [mark_record w dx dy in_shadow in_iframe i up l],
                  ov_boxes := ov_boxes s @ [mark_box dx dy i l], ov_counter := i + 1\<rparr>
      in if lk_uid l \<in> set (ov_seen s) then mark_elements w dx dy in_shadow in_iframe es s
         else if \<not> big_enough l then mark_elements w dx dy in_shadow in_iframe es s1
         else if MARK_CAP \<le> i + 1 then (True, s2)
         else mark_elements w dx dy in_shadow in_iframe es s2)"

definition mark_root :: "window \<Rightarrow> rat \<Rightarrow> rat \<Rightarrow> bool \<Rightarrow> tree_root \<Rightarrow> overlay \<Rightarrow> bool \<times> overlay" where
  "mark_root w dx dy in_iframe r s =
     mark_elements w dx dy (fst r) in_iframe (filter (\<lambda>x. clickable (node_look (snd x))) (root_elements r)) s"

definition overlay_document :: "window \<Rightarrow> overlay" where
  "overlay_document w = walk (mark_root w 0 0 False) (document_root (wn_document w)) \<lparr> ov_marks = [], ov_boxes = [], ov_seen = [], ov_counter = 0 \<rparr>"

definition overlay_frame :: "window \<Rightarrow> overlay \<Rightarrow> look \<times> dom list \<Rightarrow> overlay" where
  "overlay_frame w s f = walk (mark_root w (lk_x (fst f)) (lk_y (fst f)) True) (document_root (snd f)) s"

text \<open>\<open>_OVERLAY_JS\<close>: the marks, and the boxes of the new layer.\<close>

definition overlay_script :: "window \<Rightarrow> pydict list \<times> box list" where
  "overlay_script w = (let s = foldl (overlay_frame w) (overlay_document w) (frames_of (wn_document w)) in (ov_marks s, ov_boxes s))"

subsection \<open>The lists of a snapshot\<close>

definition has_size :: "look \<Rightarrow> bool" where
  "has_size l \<longleftrightarrow> \<not> (lk_w l = 0 \<or> lk_h l = 0) \<and> \<not> styled_away l"

definition in_viewport :: "window \<Rightarrow> look \<Rightarrow> bool" where
  "in_viewport w l \<longleftrightarrow> lk_y l + lk_h l \<ge> 0 \<and> lk_y l \<le> rat_of_int (wn_inner_height w)
     \<and> lk_x l + lk_w l \<ge> 0 \<and> lk_x l \<le> rat_of_int (wn_inner_width w)"

definition interactive_record :: "window \<Rightarrow> look \<Rightarrow> pydict" where
  "interactive_record w l =
     [(''role'', PStr (role_of l)), (''name'', acc_name 80 l),
      (''bbox'', PDict [(''x'', PInt (js_round (lk_x l))), (''y'', PInt (js_round (lk_y l))),
         (''w'', PInt (js_round (lk_w l))), (''h'', PInt (js_round (lk_h l)))]),
      (''in_viewport'', PBool (in_viewport w l))]"

text \<open>What is collected and what has been seen.\<close>

type_synonym listing = "pydict list \<times> nat list"

fun list_elements :: "window \<Rightarrow> located list \<Rightarrow> listing \<Rightarrow> listing" where
  "list_elements w [] s = s"
| "list_elements w ((up, n) # es) (results, seen) =
     (let l = node_look n in
      if lk_uid l \<in> set seen then list_elements w es (results, seen)
      else if \<not> has_size l then list_elements w es (results, lk_uid l # seen)
      else list_elements w es (results @ [interactive_record w l], lk_uid l # seen))"

definition list_root :: "window \<Rightarrow> tree_root \<Rightarrow> listing \<Rightarrow> bool \<times> listing" where
  "list_root w r s = (False, list_elements w (filter (\<lambda>x. clickable (node_look (snd x))) (root_elements r)) s)"

definition INTERACTIVE_CAP :: nat where "INTERACTIVE_CAP = 120"

definition interactive_script :: "window \<Rightarrow> pydict list" where
  "interactive_script w = take INTERACTIVE_CAP (fst (foldl (\<lambda>s f. walk (list_root w) (document_root (snd f)) s)
     (walk (list_root w) (document_root (wn_document w)) ([], [])) (frames_of (wn_document w))))"

text \<open>\<open>_collect_outline\<close>\<close>

definition structural :: "look \<Rightarrow> bool" where
  "structural l \<longleftrightarrow> lk_tag l \<in> set [''h1'', ''h2'', ''h3'', ''h4'', ''h5'', ''h6'', ''nav'', ''main'', ''header'', ''footer'', ''form'', ''article'', ''section'']
     \<or> attr l ''role'' \<in> set [Some ''heading'', Some ''main'', Some ''navigation'']"

definition heading_level :: "string \<Rightarrow> int" where
  "heading_level tag = (case tag of [c, d] \<Rightarrow> if c = CHR ''h'' \<and> is_digit d then int (of_char d) - 48 else 0 | _ \<Rightarrow> 0)"

definition label_or :: "nat \<Rightarrow> look \<Rightarrow> string" where
  "label_or n l = (if attr_or_empty l ''aria-label'' \<noteq> [] then attr_or_empty l ''aria-label'' else trimmed n (lk_text l))"

definition outline_record :: "look \<Rightarrow> pydict" where
  "outline_record l = [(''tag'', PStr (lk_tag l)), (''level'', PInt (heading_level (lk_tag l))), (''role'', PStr (role_of l)), (''label'', PStr (label_or 80 l))]"

definition OUTLINE_CAP :: nat where "OUTLINE_CAP = 60"

fun outline_elements :: "located list \<Rightarrow> pydict list \<Rightarrow> bool \<times> pydict list" where
  "outline_elements [] out = (False, out)"
| "outline_elements ((up, n) # es) out =
     (let out1 = out @ [outline_record (node_look n)] in
      if OUTLINE_CAP \<le> length out1 then (True, out1) else outline_elements es out1)"

definition outline_root :: "tree_root \<Rightarrow> pydict list \<Rightarrow> bool \<times> pydict list" where
  "outline_root r out = outline_elements (filter (\<lambda>x. structural (node_look (snd x))) (root_elements r)) out"

definition outline_script :: "window \<Rightarrow> pydict list" where
  "outline_script w = walk outline_root (document_root (wn_document w)) []"

text \<open>\<open>_collect_times\<close>\<close>

definition TIMES_CAP :: nat where "TIMES_CAP = 30"

definition timed :: "look \<Rightarrow> bool" where
  "timed l \<longleftrightarrow> lk_tag l \<in> set [''time'', ''relative-time''] \<or> attr l ''datetime'' \<noteq> None"

definition text_of :: "look \<Rightarrow> string" where
  "text_of l = (if lk_text l \<noteq> [] then lk_text l else lk_content l)"

definition time_value :: "look \<Rightarrow> string" where
  "time_value l = (if attr_or_empty l ''datetime'' \<noteq> [] then attr_or_empty l ''datetime'' else attr_or_empty l ''title'')"

fun time_elements :: "look list \<Rightarrow> string list \<Rightarrow> pydict list \<Rightarrow> pydict list" where
  "time_elements [] seen out = out"
| "time_elements (l # ls) seen out =
     (let dt = time_value l; key = dt @ ''|'' @ lk_content l;
          out1 = out @ [[(''datetime'', PStr dt), (''label'', PStr (trimmed 80 (text_of l)))]]
      in if dt = [] \<or> key \<in> set seen then time_elements ls seen out
         else if TIMES_CAP \<le> length out1 then out1
         else time_elements ls (key # seen) out1)"

definition all_looks :: "dom list \<Rightarrow> look list" where
  "all_looks ns = map (\<lambda>x. node_look (snd x)) (elements [] ns)"

definition times_script :: "window \<Rightarrow> pydict list" where
  "times_script w = time_elements (filter timed (all_looks (wn_document w))) [] []"

text \<open>\<open>_collect_page_state\<close>\<close>

definition active_info :: "look \<Rightarrow> pydict" where
  "active_info l = [(''tag'', PStr (lk_tag l)), (''role'', PStr (attr_or_empty l ''role'')),
     (''name'', py_or (opt_pv (attr l ''aria-label'')) (py_or (opt_pv (attr l ''placeholder'')) (PStr (trimmed 60 (lk_text l)))))]"

definition is_dialog :: "look \<Rightarrow> bool" where
  "is_dialog l \<longleftrightarrow> attr l ''role'' \<in> set [Some ''dialog'', Some ''alertdialog''] \<or> lk_tag l = ''dialog'' \<and> attr l ''open'' \<noteq> None
     \<or> attr l ''aria-modal'' = Some ''true''"

definition first_heading :: "dom \<Rightarrow> string" where
  "first_heading n = (case find (\<lambda>l. lk_tag l \<in> set [''h1'', ''h2'', ''h3'']) (all_looks (node_children n)) of
     None \<Rightarrow> [] | Some l \<Rightarrow> lk_text l)"

definition modal_label :: "dom \<Rightarrow> string" where
  "modal_label n = (if attr_or_empty (node_look n) ''aria-label'' \<noteq> [] then attr_or_empty (node_look n) ''aria-label''
     else take 60 (first_heading n))"

definition state_script :: "window \<Rightarrow> pydict" where
  "state_script w =
     (let active = (case wn_active w of None \<Rightarrow> PNone | Some l \<Rightarrow> if Some (lk_uid l) \<noteq> wn_body w then PDict (active_info l) else PNone);
          dialogs = filter (\<lambda>n. is_dialog (node_look n) \<and> lk_w (node_look n) > 0 \<and> lk_h (node_look n) > 0) (map snd (elements [] (wn_document w)))
      in [(''scroll_y'', PInt (js_round (wn_scroll_y w))), (''scroll_max_y'', PInt (wn_scroll_height w - wn_inner_height w)),
          (''viewport'', PDict [(''w'', PInt (wn_inner_width w)), (''h'', PInt (wn_inner_height w))]),
          (''ready_state'', PStr (wn_ready_state w)), (''active'', active), (''modal_open'', PBool (dialogs \<noteq> [])),
          (''modal_labels'', PList (map (PStr \<circ> modal_label) (take 3 dialogs)))])"

text \<open>The script of \<open>visit_each_link\<close>: the limit is looked at after a link was taken.\<close>

fun link_elements :: "string \<Rightarrow> int \<Rightarrow> look list \<Rightarrow> (string \<times> string) list \<Rightarrow> (string \<times> string) list" where
  "link_elements pattern limit [] out = out"
| "link_elements pattern limit (l # ls) out =
     (let out1 = out @ [(lk_href l, trimmed 160 (text_of l))] in
      if \<not> py_contains (lk_href l) pattern \<or> lk_href l \<in> fst ` set out then link_elements pattern limit ls out
      else if limit \<le> int (length out1) then out1
      else link_elements pattern limit ls out1)"

definition links_script :: "string \<Rightarrow> int \<Rightarrow> window \<Rightarrow> (string \<times> string) list" where
  "links_script pattern limit w =
     link_elements pattern limit (filter (\<lambda>l. lk_tag l = ''a'' \<and> attr l ''href'' \<noteq> None) (all_looks (wn_document w))) []"

end
