(* ===== verification/PageMarks.thy ===== *)
theory PageMarks
  imports PageScripts
begin

text \<open>
  What the scripts of \<open>PageScripts\<close> collect: the overlay numbers visible clickable elements of the page, all of them
  below its cap; and a session over a page that runs the scripts lists the marks as they are and clicks their boxes.
\<close>

subsection \<open>What the overlay marks\<close>

text \<open>An element to mark: the offset of its frame, whether it is in a shadow root or a frame, what is above it.\<close>

type_synonym target = "rat \<times> rat \<times> bool \<times> bool \<times> look list \<times> look"

definition target_mark :: "window \<Rightarrow> target \<Rightarrow> nat \<Rightarrow> pydict" where
  "target_mark w t i = (case t of (dx, dy, sh, fr, up, l) \<Rightarrow> mark_record w dx dy sh fr i up l)"

definition target_box :: "target \<Rightarrow> nat \<Rightarrow> box" where
  "target_box t i = (case t of (dx, dy, sh, fr, up, l) \<Rightarrow> mark_box dx dy i l)"

text \<open>The roots of a page in the order of the script, with their offsets.\<close>

definition page_roots :: "window \<Rightarrow> (rat \<times> rat \<times> bool \<times> tree_root) list" where
  "page_roots w = map (\<lambda>r. (0, 0, False, r)) (roots_in (document_root (wn_document w)))
     @ concat (map (\<lambda>f. map (\<lambda>r. (lk_x (fst f), lk_y (fst f), True, r)) (roots_in (document_root (snd f)))) (frames_of (wn_document w)))"

definition clickables :: "tree_root \<Rightarrow> located list" where
  "clickables r = filter (\<lambda>x. clickable (node_look (snd x))) (root_elements r)"

definition root_targets :: "rat \<times> rat \<times> bool \<times> tree_root \<Rightarrow> target list" where
  "root_targets v = (case v of (dx, dy, fr, r) \<Rightarrow> map (\<lambda>(up, n). (dx, dy, fst r, fr, up, node_look n))
     (filter (\<lambda>x. big_enough (node_look (snd x))) (clickables r)))"

definition page_targets :: "window \<Rightarrow> target list" where
  "page_targets w = concat (map root_targets (page_roots w))"

definition page_uids :: "window \<Rightarrow> nat list" where
  "page_uids w = concat (map (\<lambda>(dx, dy, fr, r). map (\<lambda>x. lk_uid (node_look (snd x))) (clickables r)) (page_roots w))"

text \<open>Every visit, whether it returns or not, marks targets only, and numbers them.\<close>

definition overlay_ok :: "window \<Rightarrow> target set \<Rightarrow> overlay \<Rightarrow> bool" where
  "overlay_ok w T s \<longleftrightarrow> length (ov_marks s) = ov_counter s \<and> length (ov_boxes s) = ov_counter s
     \<and> (\<forall>i<ov_counter s. \<exists>t\<in>T. ov_marks s ! i = target_mark w t i \<and> ov_boxes s ! i = target_box t i)"

lemma mark_elements_ok:
  "(\<And>up n. (up, n) \<in> set es \<Longrightarrow> big_enough (node_look n) \<Longrightarrow> (dx, dy, sh, fr, up, node_look n) \<in> T)
     \<Longrightarrow> overlay_ok w T s \<Longrightarrow> overlay_ok w T (snd (mark_elements w dx dy sh fr es s))"
proof (induction es arbitrary: s)
  case (Cons x es)
  obtain up n where x: "x = (up, n)" by (cases x)
  let ?l = "node_look n" and ?i = "ov_counter s"
  let ?s1 = "s\<lparr>ov_seen := lk_uid ?l # ov_seen s\<rparr>"
  let ?s2 = "?s1\<lparr>ov_marks := ov_marks s @ [mark_record w dx dy sh fr ?i up ?l],
                  ov_boxes := ov_boxes s @ [mark_box dx dy ?i ?l], ov_counter := ?i + 1\<rparr>"
  have s1: "overlay_ok w T ?s1" using Cons(3) by (simp add: overlay_ok_def)
  have s2: "overlay_ok w T ?s2" if "big_enough ?l"
  proof -
    have "(dx, dy, sh, fr, up, ?l) \<in> T" using Cons(2) that x by simp
    then have "\<exists>t\<in>T. mark_record w dx dy sh fr ?i up ?l = target_mark w t ?i \<and> mark_box dx dy ?i ?l = target_box t ?i"
      by (rule rev_bexI) (simp add: target_mark_def target_box_def)
    with Cons(3) show ?thesis by (auto simp: overlay_ok_def nth_append less_Suc_eq)
  qed
  have "overlay_ok w T u \<Longrightarrow> overlay_ok w T (snd (mark_elements w dx dy sh fr es u))" for u
    by (rule Cons(1)) (use Cons(2) in auto)
  with Cons(3) s1 s2 show ?case by (auto simp: Let_def x)
qed simp

lemma mark_elements_count:
  "mark_elements w dx dy sh fr es s = (b, t) \<Longrightarrow>
     ov_counter s \<le> ov_counter t \<and> (b \<longrightarrow> MARK_CAP \<le> ov_counter t) \<and> ov_counter t \<le> max MARK_CAP (ov_counter s + 1)"
  by (induction w dx dy sh fr es s rule: mark_elements.induct) (fastforce simp: Let_def split: if_splits)+

interpretation marking: capped_walk "mark_root w dx dy fr" ov_counter MARK_CAP for w dx dy fr
  using mark_elements_count by unfold_locales (fastforce simp: mark_root_def)+

lemma outline_elements_count:
  "outline_elements es out = (b, t) \<Longrightarrow> length out \<le> length t \<and> (b \<longrightarrow> OUTLINE_CAP \<le> length t) \<and> length t \<le> max OUTLINE_CAP (length out + 1)"
  by (induction es out rule: outline_elements.induct) (fastforce simp: Let_def split: if_splits)+

interpretation outlining: capped_walk outline_root length OUTLINE_CAP
  using outline_elements_count by unfold_locales (fastforce simp: outline_root_def)+

definition overlay_empty :: overlay where
  "overlay_empty = \<lparr> ov_marks = [], ov_boxes = [], ov_seen = [], ov_counter = 0 \<rparr>"

lemma overlay_document_walk: "overlay_document w = walk (mark_root w 0 0 False) (document_root (wn_document w)) overlay_empty"
  by (simp add: overlay_document_def overlay_empty_def)

lemma mark_root_ok:
  "set (root_targets (dx, dy, fr, q)) \<subseteq> T \<Longrightarrow> overlay_ok w T s \<Longrightarrow> overlay_ok w T (snd (mark_root w dx dy fr q s))"
  unfolding mark_root_def by (rule mark_elements_ok) (force simp: root_targets_def clickables_def)+

lemma overlay_script_ok:
  "overlay_ok w (set (page_targets w)) (foldl (overlay_frame w) (overlay_document w) (frames_of (wn_document w)))"
proof -
  let ?T = "set (page_targets w)"
  have doc: "overlay_ok w ?T (overlay_document w)"
    unfolding overlay_document_walk
    by (rule walk_invariant, rule mark_root_ok) (force simp: page_targets_def page_roots_def overlay_empty_def overlay_ok_def)+
  have frame: "overlay_ok w ?T (overlay_frame w s f)" if "f \<in> set (frames_of (wn_document w))" "overlay_ok w ?T s" for f s
    unfolding overlay_frame_def
    by (rule walk_invariant, rule mark_root_ok) (use that in \<open>auto simp: page_targets_def page_roots_def\<close>)
  have "overlay_ok w ?T (foldl (overlay_frame w) s fs)" if "set fs \<subseteq> set (frames_of (wn_document w))" "overlay_ok w ?T s" for fs s
    using that by (induction fs arbitrary: s) (auto intro: frame)
  with doc show ?thesis by blast
qed

lemma overlay_count:
  "ov_counter (foldl (overlay_frame w) (overlay_document w) (frames_of (wn_document w))) + 1 \<le> MARK_CAP + length (page_roots w)"
proof -
  have "ov_counter (foldl (overlay_frame w) s fs) + 1 \<le> max MARK_CAP (ov_counter s + 1)
      + sum_list (map (\<lambda>f. length (roots_in (document_root (snd f)))) fs)" for fs s
  proof (induction fs arbitrary: s)
    case (Cons f fs)
    from Cons [of "overlay_frame w s f"] marking.walk_bound(1) [where s = s and r = "document_root (snd f)" and w = w and dx = "lk_x (fst f)" and dy = "lk_y (fst f)" and fr = True]
    show ?case by (auto simp: overlay_frame_def max_def split: if_splits)
  qed simp
  from this [of "overlay_document w" "frames_of (wn_document w)"]
    marking.walk_bound(1) [where s = overlay_empty and r = "document_root (wn_document w)" and w = w and dx = 0 and dy = 0 and fr = False]
  show ?thesis
    by (auto simp: overlay_document_walk overlay_empty_def page_roots_def length_concat comp_def MARK_CAP_def max_def split: if_splits)
qed

text \<open>Below the cap, and with identities that differ, the script adds every target, in order.\<close>

definition overlay_add :: "window \<Rightarrow> target list \<Rightarrow> nat list \<Rightarrow> overlay \<Rightarrow> overlay" where
  "overlay_add w ts us s = s\<lparr>ov_marks := ov_marks s @ map (\<lambda>(i, t). target_mark w t i) (enumerate (ov_counter s) ts),
     ov_boxes := ov_boxes s @ map (\<lambda>(i, t). target_box t i) (enumerate (ov_counter s) ts),
     ov_seen := rev us @ ov_seen s, ov_counter := ov_counter s + length ts\<rparr>"

lemma overlay_add_add [simp]: "overlay_add w ts2 us2 (overlay_add w ts1 us1 s) = overlay_add w (ts1 @ ts2) (us1 @ us2) s"
  by (simp add: overlay_add_def enumerate_append_eq)

lemma overlay_add_nil [simp]: "overlay_add w [] [] s = s"
  by (simp add: overlay_add_def)

lemma mark_elements_all:
  "distinct (map (\<lambda>x. lk_uid (node_look (snd x))) es) \<Longrightarrow> set (map (\<lambda>x. lk_uid (node_look (snd x))) es) \<inter> set (ov_seen s) = {}
     \<Longrightarrow> ov_counter s + length (filter (\<lambda>x. big_enough (node_look (snd x))) es) < MARK_CAP
     \<Longrightarrow> mark_elements w dx dy sh fr es s = (False, overlay_add w
          (map (\<lambda>(up, n). (dx, dy, sh, fr, up, node_look n)) (filter (\<lambda>x. big_enough (node_look (snd x))) es))
          (map (\<lambda>x. lk_uid (node_look (snd x))) es) s)"
proof (induction es arbitrary: s)
  case (Cons x es)
  obtain up n where x: "x = (up, n)" by (cases x)
  let ?l = "node_look n"
  have new: "lk_uid ?l \<notin> set (ov_seen s)" using Cons.prems(2) x by auto
  show ?case
  proof (cases "big_enough ?l")
    case True
    let ?s = "overlay_add w [(dx, dy, sh, fr, up, ?l)] [lk_uid ?l] s"
    have "mark_elements w dx dy sh fr es ?s = (False, overlay_add w
          (map (\<lambda>(up, n). (dx, dy, sh, fr, up, node_look n)) (filter (\<lambda>x. big_enough (node_look (snd x))) es))
          (map (\<lambda>x. lk_uid (node_look (snd x))) es) ?s)"
      using Cons.prems True x by (intro Cons.IH) (auto simp: overlay_add_def)
    moreover have "mark_elements w dx dy sh fr (x # es) s = mark_elements w dx dy sh fr es ?s"
      using Cons.prems(3) True new by (cases s) (simp add: x Let_def overlay_add_def target_mark_def target_box_def)
    ultimately show ?thesis by (simp add: x True)
  next
    case False
    let ?s = "overlay_add w [] [lk_uid ?l] s"
    have "mark_elements w dx dy sh fr es ?s = (False, overlay_add w
          (map (\<lambda>(up, n). (dx, dy, sh, fr, up, node_look n)) (filter (\<lambda>x. big_enough (node_look (snd x))) es))
          (map (\<lambda>x. lk_uid (node_look (snd x))) es) ?s)"
      using Cons.prems False x by (intro Cons.IH) (auto simp: overlay_add_def)
    moreover have "mark_elements w dx dy sh fr (x # es) s = mark_elements w dx dy sh fr es ?s"
      using False new by (simp add: x Let_def overlay_add_def)
    ultimately show ?thesis by (simp add: x False)
  qed
qed simp

definition root_uids :: "rat \<times> rat \<times> bool \<times> tree_root \<Rightarrow> nat list" where
  "root_uids v = (case v of (dx, dy, fr, r) \<Rightarrow> map (\<lambda>x. lk_uid (node_look (snd x))) (clickables r))"

definition mark_visit :: "window \<Rightarrow> overlay \<Rightarrow> rat \<times> rat \<times> bool \<times> tree_root \<Rightarrow> overlay" where
  "mark_visit w s v = (case v of (dx, dy, fr, r) \<Rightarrow> snd (mark_root w dx dy fr r s))"

lemma mark_visits_all:
  "distinct (concat (map root_uids vs)) \<Longrightarrow> set (concat (map root_uids vs)) \<inter> set (ov_seen s) = {}
     \<Longrightarrow> ov_counter s + length (concat (map root_targets vs)) < MARK_CAP
     \<Longrightarrow> foldl (mark_visit w) s vs = overlay_add w (concat (map root_targets vs)) (concat (map root_uids vs)) s"
proof (induction vs arbitrary: s)
  case (Cons v vs)
  obtain dx dy fr r where v: "v = (dx, dy, fr, r)" by (cases v)
  have "mark_visit w s v = overlay_add w (root_targets v) (root_uids v) s"
    using Cons.prems mark_elements_all [of "clickables r" s w dx dy "fst r" fr]
    by (simp add: mark_visit_def v mark_root_def root_targets_def root_uids_def clickables_def Int_Un_distrib2)
  moreover have "foldl (mark_visit w) (overlay_add w (root_targets v) (root_uids v) s) vs
      = overlay_add w (concat (map root_targets vs)) (concat (map root_uids vs)) (overlay_add w (root_targets v) (root_uids v) s)"
    using Cons.prems by (intro Cons.IH) (auto simp: overlay_add_def)
  ultimately show ?case by simp
qed simp

lemma mark_visits_grow: "ov_counter s \<le> ov_counter (foldl (mark_visit w) s vs)"
proof (induction vs arbitrary: s)
  case (Cons v vs)
  obtain dx dy fr r where v: "v = (dx, dy, fr, r)" by (cases v)
  have "ov_counter s \<le> ov_counter (mark_visit w s v)"
    using marking.grows [where r = r and s = s and w = w and dx = dx and dy = dy and fr = fr, OF prod.collapse [symmetric]]
    by (simp add: mark_visit_def v)
  with Cons [of "mark_visit w s v"] show ?case by simp
qed simp

lemma walk_as_visits:
  assumes "ov_counter (foldl (mark_visit w) s (map (\<lambda>r. (dx, dy, fr, r)) (roots_in r))) < MARK_CAP"
  shows "walk (mark_root w dx dy fr) r s = foldl (mark_visit w) s (map (\<lambda>r. (dx, dy, fr, r)) (roots_in r))"
  using assms marking.walk_complete(1) [where w = w and dx = dx and dy = dy and fr = fr and s = s and r = r]
  by (simp add: mark_visit_def foldl_map)

lemma frames_as_visits:
  "ov_counter (foldl (mark_visit w) s (concat (map (\<lambda>f. map (\<lambda>r. (lk_x (fst f), lk_y (fst f), True, r)) (roots_in (document_root (snd f)))) fs))) < MARK_CAP
     \<Longrightarrow> foldl (overlay_frame w) s fs
       = foldl (mark_visit w) s (concat (map (\<lambda>f. map (\<lambda>r. (lk_x (fst f), lk_y (fst f), True, r)) (roots_in (document_root (snd f)))) fs))"
proof (induction fs arbitrary: s)
  case (Cons f fs)
  let ?vs = "\<lambda>f. map (\<lambda>r. (lk_x (fst f), lk_y (fst f), True, r)) (roots_in (document_root (snd f)))"
  have c: "ov_counter (foldl (mark_visit w) (foldl (mark_visit w) s (?vs f)) (concat (map ?vs fs))) < MARK_CAP"
    using Cons.prems by simp
  then have "ov_counter (foldl (mark_visit w) s (?vs f)) < MARK_CAP"
    using mark_visits_grow le_less_trans by blast
  then have "overlay_frame w s f = foldl (mark_visit w) s (?vs f)" by (simp add: overlay_frame_def walk_as_visits)
  with Cons.IH [OF c] show ?case by simp
qed simp

lemma overlay_script_all:
  assumes "distinct (page_uids w)" "length (page_targets w) < MARK_CAP"
  shows "foldl (overlay_frame w) (overlay_document w) (frames_of (wn_document w)) = overlay_add w (page_targets w) (page_uids w) overlay_empty"
proof -
  have uids: "page_uids w = concat (map root_uids (page_roots w))" by (simp add: page_uids_def root_uids_def [abs_def])
  let ?doc = "map (\<lambda>r. (0, 0, False, r)) (roots_in (document_root (wn_document w)))"
  let ?fs = "concat (map (\<lambda>f. map (\<lambda>r. (lk_x (fst f), lk_y (fst f), True, r)) (roots_in (document_root (snd f)))) (frames_of (wn_document w)))"
  have all: "foldl (mark_visit w) overlay_empty (?doc @ ?fs) = overlay_add w (page_targets w) (page_uids w) overlay_empty"
    using mark_visits_all [of "page_roots w" overlay_empty w] assms
    by (simp add: uids page_targets_def page_roots_def overlay_empty_def)
  have c: "ov_counter (foldl (mark_visit w) (foldl (mark_visit w) overlay_empty ?doc) ?fs) < MARK_CAP"
    using all assms(2) by (simp add: overlay_add_def overlay_empty_def)
  then have "ov_counter (foldl (mark_visit w) overlay_empty ?doc) < MARK_CAP" using mark_visits_grow le_less_trans by blast
  then have "overlay_document w = foldl (mark_visit w) overlay_empty ?doc" by (simp add: overlay_document_walk walk_as_visits)
  with frames_as_visits [OF c] all show ?thesis by simp
qed

subsection \<open>A session over a page that runs the scripts\<close>

text \<open>\<open>win\<close> is the window of the page in a world, \<open>draw\<close> the effect of a new layer on it.\<close>

definition on_window :: "('w \<Rightarrow> window) \<Rightarrow> (box list \<Rightarrow> 'w \<Rightarrow> 'w) \<Rightarrow> 'w page \<Rightarrow> 'w page" where
  "on_window win draw pg = pg\<lparr>
     pg_links := (\<lambda>pattern limit w. (Inr (map (\<lambda>(u, t). (PStr u, PStr t)) (links_script pattern limit (win w))), w)),
     pg_outline := (\<lambda>w. (Inr (PList (map PDict (outline_script (win w)))), w)),
     pg_interactive := (\<lambda>w. (Inr (PList (map PDict (interactive_script (win w)))), w)),
     pg_times := (\<lambda>w. (Inr (PList (map PDict (times_script (win w)))), w)),
     pg_state := (\<lambda>w. (Inr (PDict (state_script (win w))), w)),
     pg_overlay := (\<lambda>w. case overlay_script (win w) of (ms, bs) \<Rightarrow> (Inr ms, draw bs w))\<rparr>"

definition read_mark :: "target \<Rightarrow> window \<Rightarrow> nat \<Rightarrow> mark" where
  "read_mark t w i = (case mark_of (target_mark w t i) of Inr m \<Rightarrow> m)"

lemma role_nonempty: "py_or (PStr s) (PStr []) = PStr s"
  by (simp add: py_or_def)

lemma mark_of_target:
  "mark_of (target_mark w t i) = Inr (read_mark t w i)" "mark_dict (read_mark t w i) = target_mark w t i"
  "mk_id (read_mark t w i) = PInt (int i)"
  "(mk_x (read_mark t w i), mk_y (read_mark t w i), mk_w (read_mark t w i), mk_h (read_mark t w i)) = bx_place (target_box t i)"
  by (cases t; simp add: read_mark_def target_mark_def target_box_def mark_record_def Let_def mark_of_def int_field_def
      getitem_def dget_def dget_or_def py_int_def role_nonempty mark_dict_def mark_box_def)+

lemma map_of_new: "k \<notin> set (map fst xs) \<Longrightarrow> map_of xs k = None"
  by (simp add: map_of_eq_None_iff)

lemma foldl_update_new:
  "distinct (map mk_id ms) \<Longrightarrow> set (map mk_id ms) \<inter> set (map fst acc) = {} \<Longrightarrow>
     foldl (\<lambda>marks m. AList.update (mk_id m) m marks) acc ms = acc @ map (\<lambda>m. (mk_id m, m)) ms"
proof (induction ms arbitrary: acc)
  case (Cons m ms)
  then have "AList.update (mk_id m) m acc = acc @ [(mk_id m, m)]" by (induction acc) auto
  with Cons show ?case by auto
qed simp

lemma overlay_script_marks:
  obtains ts where "fst (overlay_script w) = map (\<lambda>(i, t). target_mark w t i) (enumerate 0 ts)"
    "snd (overlay_script w) = map (\<lambda>(i, t). target_box t i) (enumerate 0 ts)"
    "set ts \<subseteq> set (page_targets w)" "length ts < MARK_CAP + length (page_roots w)"
proof -
  let ?s = "foldl (overlay_frame w) (overlay_document w) (frames_of (wn_document w))"
  note ok = overlay_script_ok [of w, unfolded overlay_ok_def]
  then have "\<forall>i<ov_counter ?s. \<exists>t. t \<in> set (page_targets w) \<and> ov_marks ?s ! i = target_mark w t i \<and> ov_boxes ?s ! i = target_box t i"
    by blast
  then obtain f where f: "\<And>i. i < ov_counter ?s \<Longrightarrow> f i \<in> set (page_targets w)
      \<and> ov_marks ?s ! i = target_mark w (f i) i \<and> ov_boxes ?s ! i = target_box (f i) i" by metis
  let ?ts = "map f [0..<ov_counter ?s]"
  have "fst (overlay_script w) = map (\<lambda>(i, t). target_mark w t i) (enumerate 0 ?ts)"
    "snd (overlay_script w) = map (\<lambda>(i, t). target_box t i) (enumerate 0 ?ts)"
    using ok f by (auto simp: overlay_script_def Let_def nth_enumerate_eq intro!: nth_equalityI)
  moreover have "set ?ts \<subseteq> set (page_targets w)" using f by auto
  ultimately show ?thesis using overlay_count [of w] by (intro that) auto
qed

lemma mark_page_on_window:
  assumes "fst (overlay_script (win w)) = map (\<lambda>(i, t). target_mark (win w) t i) (enumerate 0 ts)"
  shows "mark_page (on_window win draw pg) w = (Inr (map (\<lambda>(i, t). (PInt (int i), read_mark t (win w) i)) (enumerate 0 ts)),
      draw (snd (overlay_script (win w))) w)"
    and "marks_to_list (map (\<lambda>(i, t). (PInt (int i), read_mark t (win w) i)) (enumerate 0 ts)) = Inr (fst (overlay_script (win w)))"
proof -
  let ?ms = "map (\<lambda>(i, t). read_mark t (win w) i) (enumerate 0 ts)"
  have "mapE mark_of (map (\<lambda>(i, t). target_mark (win w) t i) xs) = Inr (map (\<lambda>(i, t). read_mark t (win w) i) xs)" for xs
    by (induction xs) (auto simp: mark_of_target)
  moreover have ids: "map mk_id ?ms = map (\<lambda>i. PInt (int i)) [0..<length ts]"
    by (auto simp: mark_of_target nth_enumerate_eq intro!: nth_equalityI)
  have "distinct (map mk_id ?ms)" unfolding ids by (simp add: distinct_map inj_on_def)
  then have "foldl (\<lambda>marks m. AList.update (mk_id m) m marks) [] ?ms = map (\<lambda>m. (mk_id m, m)) ?ms"
    using foldl_update_new [of ?ms "[]"] by simp
  moreover have "map (\<lambda>m. (mk_id m, m)) ?ms = map (\<lambda>(i, t). (PInt (int i), read_mark t (win w) i)) (enumerate 0 ts)"
    by (auto simp: mark_of_target)
  ultimately show "mark_page (on_window win draw pg) w = (Inr (map (\<lambda>(i, t). (PInt (int i), read_mark t (win w) i)) (enumerate 0 ts)),
      draw (snd (overlay_script (win w))) w)"
    by (simp add: mark_page_def on_window_def bindA_def liftE_def returnA_def assms split_beta)
  let ?marks = "map (\<lambda>(i, t). (PInt (int i), read_mark t (win w) i)) (enumerate 0 ts)"
  have ms: "map snd ?marks = ?ms" by auto
  have "map mark_number ?ms = map int [0..<length ts]"
    by (auto simp: mark_number_def mark_of_target nth_enumerate_eq intro!: nth_equalityI)
  then have "sort_key mark_number ?ms = ?ms" by (intro sort_key_id_if_sorted) (simp add: sorted_map sorted_wrt_upt)
  moreover have "map mark_dict ?ms = fst (overlay_script (win w))" unfolding assms by (auto simp: mark_of_target)
  moreover have "list_all (\<lambda>m. case mk_id m of PInt i \<Rightarrow> True | _ \<Rightarrow> False) ?ms" by (auto simp: list_all_iff mark_of_target)
  ultimately show "marks_to_list ?marks = Inr (fst (overlay_script (win w)))"
    by (simp only: marks_to_list_def ms if_True simp_thms)
qed

text \<open>After annotating the page the session knows the marks of the overlay by their numbers.\<close>

lemma annotated_marks:
  assumes "ls_page s = on_window win draw pg" "\<And>marks w. ls_marks s (ls_set_marks s marks w) = Some marks"
    and "local_mark_and_screenshot s name w = (Inr (art, ms), w1)"
  obtains ts where "ms = fst (overlay_script (win w))" "ms = map (\<lambda>(i, t). target_mark (win w) t i) (enumerate 0 ts)"
    "set ts \<subseteq> set (page_targets (win w))"
    "\<And>i. last_mark s i w1 = (if 0 \<le> i \<and> i < int (length ts) then Some (read_mark (ts ! nat i) (win w) (nat i)) else None)"
proof -
  obtain ts where ts: "fst (overlay_script (win w)) = map (\<lambda>(i, t). target_mark (win w) t i) (enumerate 0 ts)"
    "set ts \<subseteq> set (page_targets (win w))"
    using overlay_script_marks [of "win w"] by metis
  note page = mark_page_on_window(1) [where win = win and w = w and draw = draw and pg = pg, OF ts(1)]
    mark_page_on_window(2) [where win = win and w = w, OF ts(1)]
  let ?marks = "map (\<lambda>(i, t). (PInt (int i), read_mark t (win w) i)) (enumerate 0 ts)"
  from assms(3) page obtain w2 where w1: "w1 = ls_set_marks s ?marks w2" and ms: "ms = fst (overlay_script (win w))"
    by (auto simp: local_mark_and_screenshot_def assms(1) bindA_eq_Inr)
  have last: "last_mark s i w1 = map_of ?marks (PInt i)" for i by (simp add: last_mark_def w1 assms(2))
  have keys: "map fst ?marks = map (\<lambda>i. PInt (int i)) [0..<length ts]" by (auto simp: nth_enumerate_eq intro!: nth_equalityI)
  have "distinct (map fst ?marks)" unfolding keys by (simp add: distinct_map inj_on_def)
  then have found: "map_of ?marks (PInt (int i)) = Some (read_mark (ts ! i) (win w) i)" if "i < length ts" for i
  proof (rule map_of_is_SomeI)
    show "(PInt (int i), read_mark (ts ! i) (win w) i) \<in> set ?marks"
      using that by (auto simp: in_set_enumerate_eq intro!: image_eqI [of _ _ "(i, ts ! i)"])
  qed
  have "last_mark s i w1 = (if 0 \<le> i \<and> i < int (length ts) then Some (read_mark (ts ! nat i) (win w) (nat i)) else None)" for i
  proof (cases "0 \<le> i \<and> i < int (length ts)")
    case True
    then have "nat i < length ts" by (simp add: nat_less_iff)
    with found [of "nat i"] True show ?thesis by (simp add: last)
  next
    case False
    then have "PInt i \<notin> set (map fst ?marks)" unfolding keys by auto
    with False show ?thesis using map_of_new [of "PInt i" ?marks] by (auto simp: last)
  qed
  with that ts ms show ?thesis by metis
qed

text \<open>Clicking a mark presses the mouse in the middle of its box, which lies inside.\<close>

lemma click_read_mark:
  assumes "ls_page s = on_window win draw pg" "t \<in> set (page_targets v)" "last_mark s k w = Some (read_mark t v i)"
  shows "case bx_place (target_box t i) of (x, y, wd, ht) \<Rightarrow>
      x + wd div 2 \<in> {x<..<x + wd} \<and> y + ht div 2 \<in> {y<..<y + ht}
      \<and> local_click_mark s k w = bindA (pg_mouse_click pg (x + wd div 2) (y + ht div 2))
           (\<lambda>_. tryA (pg_clear_overlay pg) (\<lambda>_. returnA ())) w"
proof -
  obtain dx dy sh fr up l where t: "t = (dx, dy, sh, fr, up, l)" by (cases t)
  have "big_enough l" using assms(2) by (auto simp: t page_targets_def root_targets_def)
  then have "6 \<le> js_round (lk_w l)" "6 \<le> js_round (lk_h l)" by (auto simp: big_enough_def js_round_def le_floor_iff)
  moreover have "pg_mouse_click (ls_page s) = pg_mouse_click pg" "pg_clear_overlay (ls_page s) = pg_clear_overlay pg"
    by (simp_all add: assms(1) on_window_def)
  ultimately show ?thesis
    using assms(3) mark_of_target(4) [of t v i] by (auto simp: t target_box_def mark_box_def local_click_mark_def)
qed

subsection \<open>Lists\<close>

interpretation listing: capped_walk "list_root w" "\<lambda>_. 0" 1 for w
  by unfold_locales (auto simp: list_root_def)

definition sized_looks :: "window \<Rightarrow> look list" where
  "sized_looks w = concat (map (\<lambda>(dx, dy, fr, r). filter has_size (map (\<lambda>x. node_look (snd x)) (clickables r))) (page_roots w))"

lemma list_elements_all:
  "distinct (map (\<lambda>x. lk_uid (node_look (snd x))) es) \<Longrightarrow> set (map (\<lambda>x. lk_uid (node_look (snd x))) es) \<inter> set seen = {}
     \<Longrightarrow> list_elements w es (rs, seen) = (rs @ map (interactive_record w) (filter has_size (map (\<lambda>x. node_look (snd x)) es)),
           rev (map (\<lambda>x. lk_uid (node_look (snd x))) es) @ seen)"
  by (induction es arbitrary: rs seen) (auto simp: Let_def)

definition list_visit :: "window \<Rightarrow> listing \<Rightarrow> rat \<times> rat \<times> bool \<times> tree_root \<Rightarrow> listing" where
  "list_visit w s v = (case v of (dx, dy, fr, r) \<Rightarrow> snd (list_root w r s))"

lemma list_visits_all:
  "distinct (concat (map root_uids vs)) \<Longrightarrow> set (concat (map root_uids vs)) \<inter> set seen = {}
     \<Longrightarrow> fst (foldl (list_visit w) (rs, seen) vs)
       = rs @ map (interactive_record w) (concat (map (\<lambda>(dx, dy, fr, r). filter has_size (map (\<lambda>x. node_look (snd x)) (clickables r))) vs))"
proof (induction vs arbitrary: rs seen)
  case (Cons v vs)
  obtain dx dy fr r where v: "v = (dx, dy, fr, r)" by (cases v)
  have "list_visit w (rs, seen) v = (rs @ map (interactive_record w) (filter has_size (map (\<lambda>x. node_look (snd x)) (clickables r))),
      rev (root_uids v) @ seen)"
    using Cons.prems list_elements_all [of "clickables r" seen w rs]
    by (simp add: list_visit_def v list_root_def root_uids_def clickables_def Int_Un_distrib2)
  moreover have "set (concat (map root_uids vs)) \<inter> set (rev (root_uids v) @ seen) = {}" using Cons.prems by auto
  ultimately show ?case using Cons.IH [of "rev (root_uids v) @ seen"] Cons.prems(1) by (simp add: v)
qed simp

lemma list_walk: "walk (list_root w) r s = foldl (list_visit w) s (map (\<lambda>q. (dx, dy, fr, q)) (roots_in r))"
  using listing.walk_complete(1) [where w = w and s = s and r = r] by (simp add: list_visit_def foldl_map)

lemma interactive_script_all:
  assumes "distinct (page_uids w)"
  shows "interactive_script w = take INTERACTIVE_CAP (map (interactive_record w) (sized_looks w))"
proof -
  have uids: "page_uids w = concat (map root_uids (page_roots w))" by (simp add: page_uids_def root_uids_def [abs_def])
  have frames: "foldl (\<lambda>s f. walk (list_root w) (document_root (snd f)) s) s fs = foldl (list_visit w) s
      (concat (map (\<lambda>f. map (\<lambda>r. (lk_x (fst f), lk_y (fst f), True, r)) (roots_in (document_root (snd f)))) fs))" for s fs
  proof (induction fs arbitrary: s)
    case (Cons f fs)
    then show ?case by (simp add: list_walk [where dx = "lk_x (fst f)" and dy = "lk_y (fst f)" and fr = True] del: foldl_map)
  qed simp
  have doc: "walk (list_root w) (document_root (wn_document w)) ([], [])
      = foldl (list_visit w) ([], []) (map (\<lambda>r. (0, 0, False, r)) (roots_in (document_root (wn_document w))))" by (rule list_walk)
  have "foldl (\<lambda>s f. walk (list_root w) (document_root (snd f)) s) (walk (list_root w) (document_root (wn_document w)) ([], []))
      (frames_of (wn_document w)) = foldl (list_visit w) ([], []) (page_roots w)"
    unfolding frames doc by (simp add: page_roots_def)
  then show ?thesis
    using list_visits_all [of "page_roots w" "[]" w "[]"] assms by (simp add: interactive_script_def sized_looks_def uids)
qed

lemma time_elements_bound: "length out < TIMES_CAP \<Longrightarrow> length (time_elements ls seen out) \<le> TIMES_CAP"
  by (induction ls seen out rule: time_elements.induct) (auto simp: Let_def)

lemma outline_bound: "length (outline_script w) < OUTLINE_CAP + length (roots_in (document_root (wn_document w)))"
  using outlining.walk_bound(1) [of "document_root (wn_document w)" "[]"] by (simp add: outline_script_def OUTLINE_CAP_def)

lemma link_elements_ok:
  "distinct (map fst out) \<Longrightarrow> \<forall>(u, t)\<in>set out. py_contains u pattern \<and> length t \<le> 160 \<Longrightarrow> out = [] \<or> int (length out) < limit
     \<Longrightarrow> distinct (map fst (link_elements pattern limit ls out))
       \<and> (\<forall>(u, t)\<in>set (link_elements pattern limit ls out). py_contains u pattern \<and> length t \<le> 160)
       \<and> int (length (link_elements pattern limit ls out)) \<le> max 1 limit"
proof (induction pattern limit ls out rule: link_elements.induct)
  case (2 pattern limit l ls out)
  let ?out = "out @ [(lk_href l, trimmed 160 (text_of l))]"
  show ?case
  proof (cases "\<not> py_contains (lk_href l) pattern \<or> lk_href l \<in> fst ` set out")
    case True
    with 2(1) [OF refl True 2(3-5)] show ?thesis by (simp add: Let_def)
  next
    case False
    have d: "distinct (map fst ?out)" "\<forall>(u, t)\<in>set ?out. py_contains u pattern \<and> length t \<le> 160"
      using 2(3,4) False by (auto simp: trimmed_def)
    show ?thesis
    proof (cases "limit \<le> int (length ?out)")
      case True
      have e: "link_elements pattern limit (l # ls) out = ?out" using True False by (simp add: Let_def)
      have "int (length ?out) \<le> max 1 limit" using 2(5) by auto
      with d show ?thesis unfolding e by blast
    next
      case n: False
      have "link_elements pattern limit (l # ls) out = link_elements pattern limit ls ?out" using n False by (simp add: Let_def)
      with 2(2) [OF refl False n d] n show ?thesis by simp
    qed
  qed
qed auto

section \<open>Properties\<close>

text \<open>
  C23: the overlay numbers what can be clicked. The marks are numbered from 0 in the order they were found, each with
  its box; every one is a visible clickable element of the document, its shadow roots or its frames; if fewer than 80
  exist, each of them is marked exactly once; and the cap is exceeded by less than the number of trees searched.
\<close>

theorem overlay_marks_visible_elements:
  assumes "overlay_script w = (ms, bs)"
  shows "\<exists>ts. ms = map (\<lambda>(i, t). target_mark w t i) (enumerate 0 ts) \<and> bs = map (\<lambda>(i, t). target_box t i) (enumerate 0 ts)
    \<and> (\<forall>(dx, dy, sh, fr, up, l)\<in>set ts. (dx, dy, sh, fr, up, l) \<in> set (page_targets w) \<and> clickable l \<and> big_enough l)
    \<and> length ts < MARK_CAP + length (page_roots w)
    \<and> (distinct (page_uids w) \<and> length (page_targets w) < MARK_CAP \<longrightarrow> ts = page_targets w)"
proof -
  have target: "clickable l \<and> big_enough l" if "(dx, dy, sh, fr, up, l) \<in> set (page_targets w)" for dx dy sh fr up l
    using that by (auto simp: page_targets_def root_targets_def clickables_def)
  show ?thesis
  proof (cases "distinct (page_uids w) \<and> length (page_targets w) < MARK_CAP")
    case True
    then have "ms = map (\<lambda>(i, t). target_mark w t i) (enumerate 0 (page_targets w))"
      "bs = map (\<lambda>(i, t). target_box t i) (enumerate 0 (page_targets w))"
      using assms overlay_script_all [of w] by (auto simp: overlay_script_def overlay_add_def overlay_empty_def)
    with True target show ?thesis by (intro exI [of _ "page_targets w"]) auto
  next
    case False
    obtain ts where "ms = map (\<lambda>(i, t). target_mark w t i) (enumerate 0 ts)" "bs = map (\<lambda>(i, t). target_box t i) (enumerate 0 ts)"
      "set ts \<subseteq> set (page_targets w)" "length ts < MARK_CAP + length (page_roots w)"
      using overlay_script_marks [of w] assms by (metis fst_conv snd_conv)
    with False target show ?thesis by (intro exI [of _ ts]) auto
  qed
qed

definition demo_look :: "nat \<Rightarrow> string \<Rightarrow> (string \<times> string) list \<Rightarrow> rat \<Rightarrow> rat \<Rightarrow> look" where
  "demo_look i tag attrs x y = \<lparr> lk_uid = i, lk_tag = tag, lk_attrs = attrs, lk_x = x, lk_y = y, lk_w = 40, lk_h = 20,
     lk_visibility = ''visible'', lk_display = ''block'', lk_opacity = ''1'', lk_text = [], lk_content = [], lk_value = PNone, lk_href = [] \<rparr>"

definition demo_window :: "dom list \<Rightarrow> window" where
  "demo_window ns = \<lparr> wn_document = ns, wn_inner_width = 1280, wn_inner_height = 720, wn_scroll_y = 0, wn_scroll_height = 2000,
     wn_ready_state = ''complete'', wn_active = None, wn_body = None \<rparr>"

text \<open>A button, a host whose shadow root holds a link, and a frame at (100, 200) with a button at (10, 10).\<close>

definition demo_document :: "dom list" where
  "demo_document = [Node (demo_look 0 ''html'' [] 0 0)
     [Node (demo_look 1 ''button'' [] 5 5) [] None None,
      Node (demo_look 2 ''div'' [] 0 0) [] (Some [Node (demo_look 3 ''a'' [(''href'', ''/x'')] 7 7) [] None None]) None,
      Node (demo_look 4 ''iframe'' [] 100 200) [] None (Some [Node (demo_look 5 ''button'' [] 10 10) [] None None])] None None]"

theorem overlay_marks_visible_elements_witness:
  "length (fst (overlay_script (demo_window demo_document))) < MARK_CAP + length (page_roots (demo_window demo_document))"
  using overlay_marks_visible_elements [of "demo_window demo_document", OF prod.collapse [symmetric]] by auto

text \<open>
  A click on a mark reaches an element. Over a page that runs the scripts, annotating the page lists exactly the
  marks of the overlay; clicking mark \<open>i\<close> presses the mouse inside the box of a visible clickable element, the one
  numbered \<open>i\<close>; a number that was not given raises and leaves the page alone.
\<close>

theorem marked_elements_are_clicked:
  assumes "ls_page s = on_window win draw pg" "\<And>marks w. ls_marks s (ls_set_marks s marks w) = Some marks"
    and "local_mark_and_screenshot s name w = (Inr (art, ms), w1)"
  shows "ms = fst (overlay_script (win w))
    \<and> (\<forall>i<length ms. \<exists>t\<in>set (page_targets (win w)). ms ! i = target_mark (win w) t i
        \<and> (case bx_place (target_box t i) of (x, y, wd, ht) \<Rightarrow>
            x + wd div 2 \<in> {x<..<x + wd} \<and> y + ht div 2 \<in> {y<..<y + ht}
            \<and> local_click_mark s (int i) w1 = bindA (pg_mouse_click pg (x + wd div 2) (y + ht div 2))
                 (\<lambda>_. tryA (pg_clear_overlay pg) (\<lambda>_. returnA ())) w1))
    \<and> (\<forall>i. i < 0 \<or> int (length ms) \<le> i \<longrightarrow> local_click_mark s i w1 = (Inl (no_such_mark i), w1))"
proof -
  obtain ts where ts: "ms = fst (overlay_script (win w))" "ms = map (\<lambda>(i, t). target_mark (win w) t i) (enumerate 0 ts)"
    "set ts \<subseteq> set (page_targets (win w))"
    "\<And>i. last_mark s i w1 = (if 0 \<le> i \<and> i < int (length ts) then Some (read_mark (ts ! nat i) (win w) (nat i)) else None)"
    using annotated_marks [OF assms] by metis
  have len: "length ms = length ts" by (simp add: ts(2))
  have "\<exists>t\<in>set (page_targets (win w)). ms ! i = target_mark (win w) t i
        \<and> (case bx_place (target_box t i) of (x, y, wd, ht) \<Rightarrow>
            x + wd div 2 \<in> {x<..<x + wd} \<and> y + ht div 2 \<in> {y<..<y + ht}
            \<and> local_click_mark s (int i) w1 = bindA (pg_mouse_click pg (x + wd div 2) (y + ht div 2))
                 (\<lambda>_. tryA (pg_clear_overlay pg) (\<lambda>_. returnA ())) w1)" if "i < length ms" for i
  proof -
    have t: "ts ! i \<in> set (page_targets (win w))" "last_mark s (int i) w1 = Some (read_mark (ts ! i) (win w) i)"
      using that len ts(3) by (auto simp: ts(4))
    have "ms ! i = target_mark (win w) (ts ! i) i" using that len by (simp add: ts(2) nth_enumerate_eq)
    then show ?thesis using click_read_mark [OF assms(1) t] by (intro bexI [OF _ t(1)] conjI)
  qed
  moreover have "local_click_mark s i w1 = (Inl (no_such_mark i), w1)" if "i < 0 \<or> int (length ms) \<le> i" for i
    using that len by (auto simp: local_click_mark_def ts(4))
  ultimately show ?thesis using ts(1) by blast
qed

definition demo_session :: "demo_world local" where
  "demo_session = demo_local\<lparr>ls_page := on_window (\<lambda>_. demo_window demo_document) (\<lambda>_ w. w) demo_page\<rparr>"

theorem marked_elements_are_clicked_witness:
  "\<exists>art w1. local_mark_and_screenshot demo_session ''m'' (fs_empty, None) = (Inr (art, fst (overlay_script (demo_window demo_document))), w1)
     \<and> local_click_mark demo_session (-1) w1 = (Inl (no_such_mark (-1)), w1)"
proof -
  let ?win = "\<lambda>_ :: demo_world. demo_window demo_document"
  have p: "ls_page demo_session = on_window ?win (\<lambda>_ w. w) demo_page" by (simp add: demo_session_def)
  have l: "ls_marks demo_session (ls_set_marks demo_session marks w) = Some marks" for marks w
    by (simp add: demo_session_def demo_local_def)
  obtain ts where ts: "fst (overlay_script (demo_window demo_document)) = map (\<lambda>(i, t). target_mark (demo_window demo_document) t i) (enumerate 0 ts)"
    using overlay_script_marks [of "demo_window demo_document"] by metis
  obtain art w1 where "put_png demo_session ''png'' (png_name ''m'') None (fs_empty, None) = (Inr art, w1)"
    using put_png_returns [of demo_session] by blast
  moreover have "pg_screenshot (ls_page demo_session) False w = (Inr ''png'', w)" for w
    by (simp add: p on_window_def demo_page_def returnA_def)
  ultimately obtain w2 where a: "local_mark_and_screenshot demo_session ''m'' (fs_empty, None)
      = (Inr (art, fst (overlay_script (demo_window demo_document))), w2)"
    using mark_page_on_window(1) [where win = ?win and w = "(fs_empty, None)" and draw = "\<lambda>_ w. w" and pg = demo_page, OF ts]
      mark_page_on_window(2) [where win = ?win and w = "(fs_empty, None)", OF ts]
    by (simp add: local_mark_and_screenshot_def bindA_def p liftE_def returnA_def)
  from marked_elements_are_clicked [OF p l a] a show ?thesis by auto
qed

text \<open>
  C38: a snapshot is bounded. Over a page that runs the scripts it shows at most 120 clickable elements and 30 times,
  fewer than 60 headings and landmarks more than there are trees, and three labels of dialogs; and the clickable elements
  are the first ones of the page, frames and shadow roots included, that have a size and are not styled away.
\<close>

theorem snapshot_is_bounded:
  assumes "build_snapshot (on_window win draw pg) w = (Inr snap, w')"
  shows "\<exists>v outline interactive times labels. dget snap ''outline'' = PList (map PDict outline) \<and> dget snap ''interactive'' = PList (map PDict interactive)
    \<and> dget snap ''times'' = PList (map PDict times) \<and> (\<exists>st. dget snap ''page_state'' = PDict st \<and> dget st ''modal_labels'' = PList labels)
    \<and> length outline < OUTLINE_CAP + length (roots_in (document_root (wn_document (win v))))
    \<and> length interactive \<le> INTERACTIVE_CAP \<and> length times \<le> TIMES_CAP \<and> length labels \<le> 3
    \<and> (\<exists>text. dget snap ''inner_text'' = PStr text \<and> length text \<le> INNER_TEXT_LIMIT)
    \<and> (distinct (page_uids (win v)) \<longrightarrow> interactive = take INTERACTIVE_CAP (map (interactive_record (win v)) (sized_looks (win v))))"
proof -
  let ?pg = "on_window win draw pg"
  have scripts: "pg_outline ?pg = (\<lambda>w. (Inr (PList (map PDict (outline_script (win w)))), w))"
    "pg_interactive ?pg = (\<lambda>w. (Inr (PList (map PDict (interactive_script (win w)))), w))"
    "pg_times ?pg = (\<lambda>w. (Inr (PList (map PDict (times_script (win w)))), w))"
    "pg_state ?pg = (\<lambda>w. (Inr (PDict (state_script (win w))), w))" by (simp_all add: on_window_def)
  obtain title w1 where t: "pg_title ?pg w = (Inr title, w1)" using assms by (auto simp: build_snapshot_def bindA_eq_Inr)
  obtain r v where b: "pg_body_text ?pg w1 = (r, v)" by fastforce
  define body where "body = (case r of Inl e \<Rightarrow> [] | Inr x \<Rightarrow> x)"
  have snap: "snap = [(''url'', PStr (pg_url ?pg w1)), (''title'', PStr title), (''inner_text'', PStr (take INNER_TEXT_LIMIT body)),
         (''inner_text_truncated'', PBool (INNER_TEXT_LIMIT \<le> length (take INNER_TEXT_LIMIT body))), (''outline'', PList (map PDict (outline_script (win v)))),
         (''interactive'', PList (map PDict (interactive_script (win v)))), (''times'', PList (map PDict (times_script (win v)))),
         (''page_state'', PDict (state_script (win v)))]"
    using assms by (cases r) (auto simp: body_def build_snapshot_def bindA_def scripts tryA_def returnA_def Let_def t b)
  have labels: "\<exists>ls. dget (state_script (win v)) ''modal_labels'' = PList ls \<and> length ls \<le> 3"
    by (simp add: state_script_def Let_def dget_def)
  then obtain ls where ls: "dget (state_script (win v)) ''modal_labels'' = PList ls" "length ls \<le> 3" by blast
  have "length (times_script (win v)) \<le> TIMES_CAP"
    unfolding times_script_def by (rule time_elements_bound) (simp add: TIMES_CAP_def)
  moreover have "length (interactive_script (win v)) \<le> INTERACTIVE_CAP" by (simp add: interactive_script_def)
  ultimately show ?thesis
    using ls outline_bound [of "win v"] interactive_script_all [of "win v"]
    by (intro exI [of _ v] exI [of _ "outline_script (win v)"] exI [of _ "interactive_script (win v)"] exI [of _ "times_script (win v)"] exI [of _ ls])
      (simp add: snap dget_def)
qed

theorem snapshot_is_bounded_witness:
  "\<exists>snap interactive. build_snapshot (ls_page demo_session) (fs_empty, None) = (Inr snap, (fs_empty, None))
     \<and> dget snap ''interactive'' = PList (map PDict interactive) \<and> length interactive \<le> INTERACTIVE_CAP"
proof -
  have "\<exists>snap. build_snapshot (on_window (\<lambda>_. demo_window demo_document) (\<lambda>_ w. w) demo_page) (fs_empty, None) = (Inr snap, (fs_empty, None))"
    by (simp add: build_snapshot_def on_window_def demo_page_def bindA_def tryA_def returnA_def Let_def)
  then obtain snap where s: "build_snapshot (on_window (\<lambda>_. demo_window demo_document) (\<lambda>_ w. w) demo_page) (fs_empty, None) = (Inr snap, (fs_empty, None))"
    by blast
  from snapshot_is_bounded [OF s] s show ?thesis by (auto simp: demo_session_def)
qed

text \<open>
  The links of a listing. The urls \<open>visit_each_link\<close> is given contain the pattern and differ, and there are at most
  as many as its limit, but one if the limit is not positive.
\<close>

theorem links_differ_and_are_limited:
  "distinct (map fst (links_script pattern limit w)) \<and> list_all (\<lambda>(u, t). py_contains u pattern \<and> length t \<le> 160) (links_script pattern limit w)
     \<and> int (length (links_script pattern limit w)) \<le> max 1 limit"
  using link_elements_ok [of "[]" pattern limit] by (auto simp: links_script_def list_all_iff)

text \<open>A limit of 0 visits one link.\<close>

lemma limit_zero_visits_one:
  "length (links_script [] 0 (demo_window [Node (demo_look 0 ''a'' [(''href'', ''/x'')] 0 0) [] None None])) = 1"
  by (simp add: links_script_def all_looks_def demo_window_def demo_look_def attr_def Let_def)

text \<open>A page of 80 buttons and \<open>k\<close> frames that hold one button each.\<close>

definition plain_button :: "nat \<Rightarrow> dom" where
  "plain_button i = Node (demo_look i ''button'' [] 10 10) [] None None"

definition button_frame :: "nat \<Rightarrow> dom" where
  "button_frame j = Node (demo_look (80 + 2 * j) ''iframe'' [] 100 200) [] None (Some [plain_button (81 + 2 * j)])"

definition crowded_document :: "nat \<Rightarrow> dom list" where
  "crowded_document k = map plain_button [0..<80] @ map button_frame [0..<k]"

lemma elements_flat: "\<forall>n\<in>set ns. node_children n = [] \<Longrightarrow> elements up ns = map (Pair up) ns"
proof (induction ns)
  case (Cons n ns)
  then show ?case by (cases n) simp
qed simp

lemma demo_looks:
  "clickable (demo_look i ''button'' [] x y)" "\<not> clickable (demo_look i ''iframe'' [] x y)" "big_enough (demo_look i tag attrs x y)"
  "lk_uid (demo_look i tag attrs x y) = i" "lk_tag (demo_look i tag attrs x y) = tag"
  by (simp_all add: clickable_def demo_look_def attr_def big_enough_def styled_away_def)

lemma mark_elements_append:
  "mark_elements w dx dy sh fr es s = (False, t) \<Longrightarrow> mark_elements w dx dy sh fr (es @ fs) s = mark_elements w dx dy sh fr fs t"
  by (induction w dx dy sh fr es s rule: mark_elements.induct) (auto simp: Let_def split: if_splits)

lemma crowded_elements: "elements up (crowded_document k) = map (\<lambda>i. (up, plain_button i)) [0..<80] @ map (\<lambda>j. (up, button_frame j)) [0..<k]"
proof -
  have "elements up (crowded_document k) = map (Pair up) (crowded_document k)"
    by (rule elements_flat) (auto simp: crowded_document_def plain_button_def button_frame_def)
  then show ?thesis by (simp add: crowded_document_def comp_def)
qed

lemma crowded_top:
  assumes "overlay_document w = t" "wn_document w = crowded_document k"
  shows "ov_counter t = 80" "set (ov_seen t) = {0..<80}"
proof -
  have looks: "clickable (node_look (plain_button i))" "\<not> clickable (node_look (button_frame i))" for i
    by (simp_all add: plain_button_def button_frame_def demo_looks)
  have c: "clickables (document_root (crowded_document k)) = map (\<lambda>i. ([], plain_button i)) [0..<79] @ [([], plain_button 79)]"
  proof -
    have "[0..<80::nat] = [0..<79] @ [79]" by (simp add: upt_rec)
    then show ?thesis
      by (simp add: clickables_def root_elements_def document_root_def crowded_elements looks comp_def)
  qed
  let ?es = "map (\<lambda>i. ([], plain_button i)) [0..<79]" and ?ts = "map (\<lambda>i. (0, 0, False, False, [], demo_look i ''button'' [] 10 10)) [0..<79]"
  have "mark_elements w 0 0 False False ?es overlay_empty = (False, overlay_add w ?ts [0..<79] overlay_empty)"
    using mark_elements_all [of ?es overlay_empty w 0 0 False False]
    by (simp add: comp_def plain_button_def demo_looks overlay_empty_def MARK_CAP_def)
  then have r: "mark_root w 0 0 False (document_root (crowded_document k)) overlay_empty
      = mark_elements w 0 0 False False [([], plain_button 79)] (overlay_add w ?ts [0..<79] overlay_empty)"
    using c by (simp add: mark_root_def clickables_def mark_elements_append document_root_def)
  define u where "u = overlay_add w ?ts [0..<79] overlay_empty"
  have u: "ov_counter u = 79" "set (ov_seen u) = {0..<79}" by (simp_all add: u_def overlay_add_def overlay_empty_def)
  moreover have "insert 79 {0..<79::nat} = {0..<80}" by auto
  ultimately obtain v where v: "mark_elements w 0 0 False False [([], plain_button 79)] u = (True, v)" "ov_counter v = 80" "set (ov_seen v) = {0..<80}"
    by (auto simp: Let_def plain_button_def demo_looks MARK_CAP_def)
  then have "overlay_document w = v" by (simp add: overlay_document_walk assms(2) walk.simps r u_def)
  with v assms(1) show "ov_counter t = 80" "set (ov_seen t) = {0..<80}" by simp_all
qed

lemma crowded_frame:
  assumes "80 \<le> ov_counter s" "81 + 2 * j \<notin> set (ov_seen s)"
  shows "ov_counter (overlay_frame w s (l, [plain_button (81 + 2 * j)])) = ov_counter s + 1"
    "set (ov_seen (overlay_frame w s (l, [plain_button (81 + 2 * j)]))) = insert (81 + 2 * j) (set (ov_seen s))"
  using assms by (simp_all add: overlay_frame_def walk.simps mark_root_def root_elements_def document_root_def plain_button_def demo_looks Let_def MARK_CAP_def)

text \<open>
  The cap of the overlay is no bound. For every \<open>k\<close> there is a page of which the script numbers \<open>80 + k\<close> elements: the
  \<open>return\<close> at the cap leaves the walk of one tree, and each further frame adds a mark.
\<close>

theorem overlay_cap_is_per_tree:
  "length (fst (overlay_script (demo_window (crowded_document k)))) = 80 + k"
proof -
  let ?w = "demo_window (crowded_document k)"
  let ?f = "\<lambda>j. (demo_look (80 + 2 * j) ''iframe'' [] 100 200, [plain_button (81 + 2 * j)])"
  have doc: "wn_document ?w = crowded_document k" by (simp add: demo_window_def)
  have "List.map_filter (\<lambda>(up, n). if lk_tag (node_look n) = ''iframe'' then map_option (\<lambda>d. (node_look n, d)) (node_frame n) else None)
      (map (\<lambda>i. (up, plain_button i)) is) = []" for up :: "look list" and "is"
    by (induction "is") (auto simp: map_filter_simps plain_button_def demo_looks)
  moreover have "List.map_filter (\<lambda>(up, n). if lk_tag (node_look n) = ''iframe'' then map_option (\<lambda>d. (node_look n, d)) (node_frame n) else None)
      (map (\<lambda>j. (up, button_frame j)) js) = map ?f js" for up :: "look list" and js
    by (induction js) (auto simp: map_filter_simps button_frame_def demo_looks)
  ultimately have frames: "frames_of (wn_document ?w) = map ?f [0..<k]"
    unfolding doc frames_of_def crowded_elements map_filter_append by simp
  have "ov_counter (foldl (overlay_frame ?w) (overlay_document ?w) (map ?f [0..<n])) = 80 + n
      \<and> set (ov_seen (foldl (overlay_frame ?w) (overlay_document ?w) (map ?f [0..<n]))) = {0..<80} \<union> (\<lambda>j. 81 + 2 * j) ` {0..<n}" for n
  proof (induction n)
    case 0
    with crowded_top [OF refl doc] show ?case by simp
  next
    case (Suc n)
    let ?s = "foldl (overlay_frame ?w) (overlay_document ?w) (map ?f [0..<n])"
    have "81 + 2 * n \<notin> set (ov_seen ?s)" using Suc by auto
    moreover have "80 \<le> ov_counter ?s" using Suc by simp
    ultimately show ?case using Suc crowded_frame [of ?s n] by (auto simp: less_Suc_eq)
  qed
  then have "ov_counter (foldl (overlay_frame ?w) (overlay_document ?w) (frames_of (wn_document ?w))) = 80 + k"
    unfolding frames by blast
  with overlay_script_ok [of ?w] show ?thesis by (simp add: overlay_ok_def overlay_script_def Let_def)
qed

text \<open>The list of a snapshot gives the place of a button in its frame, the overlay its place in the window.\<close>

lemma snapshot_ignores_frame_offset:
  "map (\<lambda>m. (dget m ''x'', dget m ''y'')) (fst (overlay_script (demo_window demo_document))) = [(PInt 5, PInt 5), (PInt 7, PInt 7), (PInt 110, PInt 210)]"
  "map (\<lambda>m. attr_get (dget m ''bbox'') ''x'') (interactive_script (demo_window demo_document)) = [Inr (PInt 5), Inr (PInt 7), Inr (PInt 10)]"
  by code_simp+

end
