(* ===== verification/VisualDo.thy ===== *)
theory VisualDo
  imports AgentGraph PageMarks
begin

text \<open>
  The step \<open>visual_do\<close> of \<open>agent/nodes.py\<close> over a session of \<open>browser/local.py\<close> whose page runs the scripts of
  \<open>PageScripts\<close>: what the resolver chooses is a mark of the page, so the mouse is pressed inside an element that was
  visible and clickable when the page was annotated; and a step that the vision model resolved replays without it.
\<close>

subsection \<open>The resolver chooses among the marks\<close>

lemma match_descriptor_Some:
  assumes "match_descriptor re v marks = Inr (Some m)"
  obtains desc where "v = PDict desc" "m \<in> set marks" "mark_matches re desc m = Inr True"
proof (cases v)
  case (PDict desc)
  then obtain cs where f: "filter_by_descriptor re marks desc = Inr cs" and "m \<in> set cs"
    using assms by (auto simp: match_descriptor_def bindE_Inr split: if_splits)
  then show ?thesis using that [OF PDict] filter_by_descriptor_Inr [OF f] by auto
qed (use assms in \<open>auto simp: match_descriptor_def bindE_Inr split: if_splits\<close>)

lemma mapE_member: "mapE f xs = Inr ys \<Longrightarrow> y \<in> set ys \<Longrightarrow> \<exists>x\<in>set xs. f x = Inr y"
  by (induction xs arbitrary: ys) (auto simp: bindE_Inr)

lemma mark_ids_member: "mark_ids marks = Inr ims \<Longrightarrow> (i, m) \<in> set ims \<Longrightarrow> m \<in> set marks"
  by (auto simp: mark_ids_def bindE_Inr dest!: mapE_member)

lemma find_last_member: "find_last p xs = Some x \<Longrightarrow> x \<in> set xs"
  by (metis find_Some_iff find_last_def nth_mem set_rev)

lemma vision_choice_member:
  assumes "vision_choice re marks parsed = Inr (m, hint)"
  shows "m \<in> set marks"
proof -
  obtain i ims desc where ids: "mark_ids marks = Inr ims"
    and c: "(case find_last (\<lambda>(j, m). j = i) ims of Some (j, m) \<Rightarrow> Inr m
            | None \<Rightarrow> bindE (if truthy desc then (case desc of PDict d \<Rightarrow> filter_by_descriptor re marks d
                          | v \<Rightarrow> bindE (attr_get v ''role'') (\<lambda>_. Inr [])) else Inr marks) (\<lambda>candidates.
                if candidates \<noteq> [] then Inr (hd candidates) else if marks \<noteq> [] then Inr (hd marks)
                else Inl (Exn ''IndexError'' ''list index out of range''))) = (Inr m :: exn + pydict)"
    using assms by (auto simp: vision_choice_def bindE_Inr)
  show ?thesis
  proof (cases "find_last (\<lambda>(j, m). j = i) ims")
    case (Some x)
    with c find_last_member [OF Some] mark_ids_member [OF ids] show ?thesis by (cases x) auto
  next
    case None
    then obtain cs where cs: "(if truthy desc then (case desc of PDict d \<Rightarrow> filter_by_descriptor re marks d
        | v \<Rightarrow> bindE (attr_get v ''role'') (\<lambda>_. Inr [])) else Inr marks) = (Inr cs :: exn + pydict list)"
      and m: "m = (if cs \<noteq> [] then hd cs else hd marks)" "cs \<noteq> [] \<or> marks \<noteq> []"
      using c by (auto simp: bindE_Inr split: if_splits)
    have "set cs \<subseteq> set marks"
      using cs by (auto simp: bindE_Inr split: if_splits pyval.splits dest: filter_by_descriptor_Inr)
    with m show ?thesis by (auto simp: subset_iff)
  qed
qed

lemma vision_step_member:
  assumes "vision_step d vision intent art marks w = (Inr (m, desc), w')"
  shows "m \<in> set marks" "\<exists>hint. descriptor_for (d_re d) m marks hint = Inr desc"
  using assms by (auto simp: vision_step_def vision_resolve_def bindA_eq_Inr bindE_Inr dest: vision_choice_member)

subsection \<open>What the step does\<close>

definition typed_text :: "pydict \<Rightarrow> pyval" where
  "typed_text step = py_or (dget step ''value'') (PStr [])"

lemma act_visual_do_cases:
  assumes "act_visual_do d idx step w = (Inr (r, step'), w')" "tr_ok r"
  obtains ann w1 chosen w2 where "tool_annotate (d_session d) (step_name idx @ ''_annotated'') w = (ann, w1)" "tr_ok ann"
      "chosen \<in> set (marks_of (tr_data ann))" "act_on_mark d (typed_text step) chosen w2 = (Inr r, w')"
      "(step' = step \<and> w2 = w1 \<and> match_descriptor (d_re d) (dget step ''resolved'') (marks_of (tr_data ann)) = Inr (Some chosen))
       \<or> (\<exists>v intent art desc. d_vision d = Some v \<and> vision_step d v intent art (marks_of (tr_data ann)) w1 = (Inr (chosen, desc), w2)
            \<and> step' = dset step ''resolved'' (PDict desc))"
proof -
  obtain ann w1 where a: "tool_annotate (d_session d) (step_name idx @ ''_annotated'') w = (ann, w1)" by fastforce
  have ok: "tr_ok ann" using assms a by (auto simp: act_visual_do_def Let_def split: if_splits)
  let ?marks = "marks_of (tr_data ann)"
  show ?thesis
  proof (cases "match_descriptor (d_re d) (dget step ''resolved'') ?marks")
    case (Inl e)
    with assms a ok show ?thesis by (simp add: act_visual_do_def Let_def)
  next
    case (Inr m)
    show ?thesis
    proof (cases m)
      case (Some chosen)
      with Inr have m: "match_descriptor (d_re d) (dget step ''resolved'') ?marks = Inr (Some chosen)" by simp
      then have "chosen \<in> set ?marks" by (rule match_descriptor_Some)
      moreover have "act_on_mark d (typed_text step) chosen w1 = (Inr r, w')" "step' = step"
        using assms a ok m by (simp_all add: act_visual_do_def Let_def with_step_Inr typed_text_def)
      ultimately show ?thesis using that [OF a ok] m by blast
    next
      case None
      then obtain v where v: "d_vision d = Some v"
        using assms a ok Inr by (auto simp: act_visual_do_def Let_def synthetic_error_def split: option.splits)
      define intent where "intent = first_truthy step [''intent'', ''target''] (PStr [])"
      define art where "art = (case dget (tr_data ann) ''artifact'' of PDict a \<Rightarrow> a | _ \<Rightarrow> [])"
      have run: "(case vision_step d v intent art ?marks w1 of
            (Inl e, w2) \<Rightarrow> (Inr ((synthetic_error d ''agent.visual_do'' [(''intent'', intent), (''marks_count'', PInt (int (length ?marks)))]
               (''vision_resolve failed: '' @ exn_msg e) w2)\<lparr>tr_call_id := tr_call_id ann\<rparr>, step), w2)
          | (Inr (chosen, desc), w2) \<Rightarrow>
              with_step (dset step ''resolved'' (PDict desc)) (act_on_mark d (typed_text step) chosen) w2) = (Inr (r, step'), w')"
        unfolding intent_def art_def typed_text_def using assms(1) a ok Inr None v by (simp add: act_visual_do_def Let_def)
      then obtain chosen desc w2 where vs: "vision_step d v intent art ?marks w1 = (Inr (chosen, desc), w2)"
        using assms(2) by (auto simp: synthetic_error_def split: prod.splits sum.splits)
      with run have "act_on_mark d (typed_text step) chosen w2 = (Inr r, w')" "step' = dset step ''resolved'' (PDict desc)"
        by (simp_all add: with_step_Inr)
      then show ?thesis using that [OF a ok vision_step_member(1) [OF vs]] v vs by blast
    qed
  qed
qed

text \<open>A cached descriptor that matches a mark is replayed: the mark is acted on, no model is asked.\<close>

lemma replayed_step:
  assumes "tool_annotate (d_session d) (step_name idx @ ''_annotated'') w = (ann, w1)" "tr_ok ann"
    and "match_descriptor (d_re d) (dget step ''resolved'') (marks_of (tr_data ann)) = Inr (Some m)"
  shows "act_visual_do d idx step w = with_step step (act_on_mark d (typed_text step) m) w1"
  using assms by (simp add: act_visual_do_def Let_def typed_text_def)

lemma act_on_mark_clicks:
  assumes "\<not> truthy v" "dget_or m ''mark_id'' (PInt (- 1)) = PInt i" "tool_click_mark (d_session d) i w = (r, w')"
  shows "act_on_mark d v m w = (Inr r, w')"
  using assms by (simp add: act_on_mark_def py_int_def bindA_def)

text \<open>Annotating a page that runs the scripts reports the marks of the overlay.\<close>

lemma annotate_on_window:
  assumes "s_mark_and_screenshot (d_session d) = local_mark_and_screenshot s" "ls_page s = on_window win draw pg"
    and "tool_annotate (d_session d) name w = (ann, w1)" "tr_ok ann"
  obtains art where "local_mark_and_screenshot s name w = (Inr (art, fst (overlay_script (win w))), w1)"
    "marks_of (tr_data ann) = fst (overlay_script (win w))"
proof -
  obtain art ms where m: "local_mark_and_screenshot s name w = (Inr (art, ms), w1)"
    and data: "tr_data ann = [(''artifact'', PDict art), (''marks'', PList (map PDict ms)), (''count'', PInt (int (length ms)))]"
    using assms(3,4) by (auto simp: tool_annotate_def invoke_def map_act_def bindA_def assms(1) split: sum.splits prod.splits)
  obtain ts where "fst (overlay_script (win w)) = map (\<lambda>(i, t). target_mark (win w) t i) (enumerate 0 ts)"
    using overlay_script_marks [of "win w"] by metis
  then have "ms = fst (overlay_script (win w))"
    using m mark_page_on_window(1) [where win = win and w = w and draw = draw and pg = pg]
      mark_page_on_window(2) [where win = win and w = w]
    by (auto simp: local_mark_and_screenshot_def assms(2) bindA_eq_Inr)
  moreover have "marks_of (tr_data ann) = ms"
    by (simp add: marks_of_def data dget_def py_or_def comp_def)
  ultimately show ?thesis using m that by blast
qed

text \<open>Acting on a mark is a call of the session with the number of the mark.\<close>

lemma invoke_done: "invoke s name (map_act f m) w = (r, w') \<Longrightarrow> tr_ok r \<Longrightarrow> \<exists>x. m w = (Inr x, w')"
  by (cases "m w") (auto simp: invoke_def map_act_def bindA_def split: sum.splits)

lemma act_on_mark_call:
  assumes "act_on_mark d v chosen w = (Inr r, w')" "tr_ok r" "dget_or chosen ''mark_id'' (PInt (- 1)) = PInt i"
  shows "if truthy v then \<exists>t. field_str v = Inr t \<and> s_type_mark (d_session d) i t w = (Inr (), w')
    else s_click_mark (d_session d) i w = (Inr (), w')"
proof (cases "truthy v")
  case True
  then obtain t where "field_str v = Inr t" "tool_type_mark (d_session d) i t w = (r, w')"
    using assms(1,3) by (auto simp: act_on_mark_def py_int_def bindA_eq_Inr)
  with True invoke_done assms(2) show ?thesis by (fastforce simp: tool_type_mark_def)
next
  case False
  then have "tool_click_mark (d_session d) i w = (r, w')"
    using assms(1,3) by (auto simp: act_on_mark_def py_int_def bindA_eq_Inr)
  with False invoke_done assms(2) show ?thesis by (fastforce simp: tool_click_mark_def)
qed

text \<open>What the model is asked leaves the marks of the session alone.\<close>

lemma vision_step_marks:
  assumes "\<And>p w. ls_marks s (snd (d_read_image d p w)) = ls_marks s w" "\<And>msgs schema w. ls_marks s (snd (v msgs schema w)) = ls_marks s w"
    and "vision_step d v intent art marks w = (Inr x, w')"
  shows "ls_marks s w' = ls_marks s w"
proof -
  obtain p img out u u' where "d_read_image d p w = (Inr img, u)"
    "v (vision_messages (nt_vision (d_texts d)) (py_str intent) marks img) vision_schema u = (Inr out, u')" "w' = u'"
    using assms(3) by (auto simp: vision_step_def vision_resolve_def bindA_eq_Inr)
  with assms(1) [of p w] assms(2) [of "vision_messages (nt_vision (d_texts d)) (py_str intent) marks img" vision_schema u] show ?thesis
    by simp
qed

text \<open>A click or typing on a mark that returned has pressed the mouse in the box and taken the overlay down.\<close>

lemma mark_call_presses:
  assumes "ls_page s = on_window win draw pg" "t \<in> set (page_targets v)" "last_mark s k w = Some (read_mark t v i)"
    and "local_click_mark s k w = (Inr (), w')"
  shows "case bx_place (target_box t i) of (x, y, wd, ht) \<Rightarrow>
      x + wd div 2 \<in> {x<..<x + wd} \<and> y + ht div 2 \<in> {y<..<y + ht}
      \<and> (\<exists>w3. pg_mouse_click pg (x + wd div 2) (y + ht div 2) w = (Inr (), w3) \<and> w' = snd (pg_clear_overlay pg w3))"
proof -
  have "tryA (pg_clear_overlay pg) (\<lambda>_. returnA ()) u = (Inr (), snd (pg_clear_overlay pg u))" for u
    by (auto simp: tryA_def split: prod.splits sum.splits)
  moreover obtain x y wd ht where b: "bx_place (target_box t i) = (x, y, wd, ht)" by (cases "bx_place (target_box t i)")
  moreover have "bindA (pg_mouse_click pg (x + wd div 2) (y + ht div 2)) (\<lambda>_. tryA (pg_clear_overlay pg) (\<lambda>_. returnA ())) w = (Inr (), w')"
    using click_read_mark [OF assms(1-3)] assms(4) by (simp add: b)
  ultimately show ?thesis using click_read_mark [OF assms(1-3)] by (auto simp: bindA_eq_Inr)
qed

section \<open>Properties\<close>

text \<open>
  C22: a visual step acts on what can be seen. If \<open>visual_do\<close> succeeds over a page that runs the scripts, and neither
  reading the screenshot nor the model touches the session, then the mouse was pressed inside the box that a visible
  clickable element of the page had when it was annotated, and text was typed exactly if the step has a value. Either
  the step is left as it was and the element matches its cached descriptor, or the descriptor made for the element
  replaces the cached one.
\<close>

theorem visual_do_presses_visible_element:
  assumes "d_session d = local_session meta key serper s" "ls_page s = on_window win draw pg"
    and "\<And>marks w. ls_marks s (ls_set_marks s marks w) = Some marks"
    and "\<And>p w. ls_marks s (snd (d_read_image d p w)) = ls_marks s w"
    and "\<And>v msgs schema w. d_vision d = Some v \<Longrightarrow> ls_marks s (snd (v msgs schema w)) = ls_marks s w"
    and "act_visual_do d idx step w = (Inr (r, step'), w')" "tr_ok r"
  shows "\<exists>t\<in>set (page_targets (win w)). \<exists>i w2 w3 w4.
      (case bx_place (target_box t i) of (x, y, wd, ht) \<Rightarrow> x + wd div 2 \<in> {x<..<x + wd} \<and> y + ht div 2 \<in> {y<..<y + ht}
         \<and> pg_mouse_click pg (x + wd div 2) (y + ht div 2) w2 = (Inr (), w3))
      \<and> (if truthy (typed_text step) then \<exists>text. field_str (typed_text step) = Inr text \<and> pg_keys pg text w4 = (Inr (), w')
         else w' = snd (pg_clear_overlay pg w3))
      \<and> (step' = step \<and> (\<exists>desc. dget step ''resolved'' = PDict desc \<and> mark_matches (d_re d) desc (target_mark (win w) t i) = Inr True)
         \<or> (\<exists>hint desc. descriptor_for (d_re d) (target_mark (win w) t i) (fst (overlay_script (win w))) hint = Inr desc
              \<and> step' = dset step ''resolved'' (PDict desc)))"
proof -
  have calls: "s_mark_and_screenshot (d_session d) = local_mark_and_screenshot s" "s_click_mark (d_session d) = local_click_mark s"
    "s_type_mark (d_session d) = local_type_mark s" by (simp_all add: assms(1) local_session_def)
  from act_visual_do_cases [OF assms(6,7)] obtain ann w1 chosen w2 where
    a: "tool_annotate (d_session d) (step_name idx @ ''_annotated'') w = (ann, w1)" "tr_ok ann"
    and c: "chosen \<in> set (marks_of (tr_data ann))" "act_on_mark d (typed_text step) chosen w2 = (Inr r, w')"
    and how: "(step' = step \<and> w2 = w1 \<and> match_descriptor (d_re d) (dget step ''resolved'') (marks_of (tr_data ann)) = Inr (Some chosen))
       \<or> (\<exists>v intent art desc. d_vision d = Some v \<and> vision_step d v intent art (marks_of (tr_data ann)) w1 = (Inr (chosen, desc), w2)
            \<and> step' = dset step ''resolved'' (PDict desc))" .
  obtain art where m: "local_mark_and_screenshot s (step_name idx @ ''_annotated'') w = (Inr (art, fst (overlay_script (win w))), w1)"
    and marks: "marks_of (tr_data ann) = fst (overlay_script (win w))"
    by (rule annotate_on_window [OF calls(1) assms(2) a])
  obtain ts where ts: "fst (overlay_script (win w)) = map (\<lambda>(i, t). target_mark (win w) t i) (enumerate 0 ts)"
    "set ts \<subseteq> set (page_targets (win w))"
    "\<And>i. last_mark s i w1 = (if 0 \<le> i \<and> i < int (length ts) then Some (read_mark (ts ! nat i) (win w) (nat i)) else None)"
    using annotated_marks [OF assms(2,3) m] by metis
  from c(1) obtain i where i: "i < length ts" "chosen = target_mark (win w) (ts ! i) i"
    by (auto simp: marks ts(1) in_set_enumerate_eq)
  have t: "ts ! i \<in> set (page_targets (win w))" using i(1) ts(2) by auto
  have "ls_marks s w2 = ls_marks s w1" using how vision_step_marks [OF assms(4)] assms(5) by metis
  then have last: "last_mark s (int i) w2 = Some (read_mark (ts ! i) (win w) i)"
    using ts(3) [of "int i"] i(1) by (simp add: last_mark_def)
  have id: "dget_or chosen ''mark_id'' (PInt (- 1)) = PInt (int i)"
    by (cases "ts ! i") (simp add: i(2) target_mark_def mark_record_def Let_def dget_or_def)
  note call = act_on_mark_call [OF c(2) assms(7) id, unfolded calls]
  obtain u where clicked: "local_click_mark s (int i) w2 = (Inr (), u)"
    and rest: "if truthy (typed_text step) then \<exists>text w4. field_str (typed_text step) = Inr text \<and> pg_keys pg text w4 = (Inr (), w') else u = w'"
  proof (cases "truthy (typed_text step)")
    case True
    with call obtain x where "field_str (typed_text step) = Inr x" "local_type_mark s (int i) x w2 = (Inr (), w')" by auto
    moreover have "pg_keys (ls_page s) = pg_keys pg" by (simp add: assms(2) on_window_def)
    ultimately show ?thesis using that True by (auto simp: local_type_mark_def bindA_eq_Inr)
  next
    case False
    with call that show ?thesis by simp
  qed
  from mark_call_presses [OF assms(2) t last clicked] obtain w3 where
    press: "case bx_place (target_box (ts ! i) i) of (x, y, wd, ht) \<Rightarrow> x + wd div 2 \<in> {x<..<x + wd} \<and> y + ht div 2 \<in> {y<..<y + ht}
         \<and> pg_mouse_click pg (x + wd div 2) (y + ht div 2) w2 = (Inr (), w3)" "u = snd (pg_clear_overlay pg w3)"
    by (auto split: prod.splits)
  obtain w4 where typed: "if truthy (typed_text step) then \<exists>text. field_str (typed_text step) = Inr text \<and> pg_keys pg text w4 = (Inr (), w')
      else w' = snd (pg_clear_overlay pg w3)"
    using rest press(2) by (cases "truthy (typed_text step)") auto
  have left: "step' = step \<and> (\<exists>desc. dget step ''resolved'' = PDict desc \<and> mark_matches (d_re d) desc chosen = Inr True)
         \<or> (\<exists>hint desc. descriptor_for (d_re d) chosen (fst (overlay_script (win w))) hint = Inr desc
              \<and> step' = dset step ''resolved'' (PDict desc))"
    using how vision_step_member(2) unfolding marks by (metis match_descriptor_Some)
  show ?thesis
    by (intro bexI [OF _ t] exI [of _ i] exI [of _ w2] exI [of _ w3] exI [of _ w4] conjI press(1) typed left [unfolded i(2)])
qed

subsection \<open>A demonstration session\<close>

text \<open>The page of \<open>demo_document\<close> with a mouse, and a vision model that picks mark 1.\<close>

definition visual_session :: "demo_world local" where
  "visual_session = demo_session\<lparr>ls_page := on_window (\<lambda>_. demo_window demo_document) (\<lambda>_ w. w)
     (demo_page\<lparr>pg_mouse_click := (\<lambda>_ _. returnA ())\<rparr>)\<rparr>"

definition demo_meta :: "demo_world \<Rightarrow> call_meta" where
  "demo_meta w = \<lparr>cm_call_id = ''c'', cm_elapsed_ms = 0, cm_timestamp = ''t''\<rparr>"

definition demo_vision :: "demo_world chat" where
  "demo_vision msgs schema = returnA [(''parsed'', PDict [(''mark_id'', PInt 1), (''descriptor'', PDict [(''role'', PStr ''a'')])])]"

definition visual_deps :: "demo_world chat option \<Rightarrow> demo_world deps" where
  "visual_deps vision = \<lparr> d_sha = demo_digest, d_re = plain_search, d_texts = undefined, d_planner = (\<lambda>_ _. returnA []),
     d_navigator = (\<lambda>_ _. returnA []), d_extractor = (\<lambda>_ _. returnA []), d_judge = (\<lambda>_ _. returnA []), d_classifier = None,
     d_vision = vision, d_session = local_session demo_meta (\<lambda>_. None) (\<lambda>_ _. returnA []) visual_session,
     d_read_image = (\<lambda>_. returnA ''aW1n''), d_validate = (\<lambda>_ _. Inr []) \<rparr>"

definition visual_marks :: "pydict list" where
  "visual_marks = fst (overlay_script (demo_window demo_document))"

lemma visual_fields: "d_re (visual_deps v) = plain_search" "d_vision (visual_deps v) = v"
    "d_session (visual_deps v) = local_session demo_meta (\<lambda>_. None) (\<lambda>_ _. returnA []) visual_session"
    "d_read_image (visual_deps v) = (\<lambda>_. returnA ''aW1n'')"
  by (simp_all add: visual_deps_def)

lemma visual_page: "ls_page visual_session = on_window (\<lambda>_. demo_window demo_document) (\<lambda>_ w. w) (demo_page\<lparr>pg_mouse_click := (\<lambda>_ _. returnA ())\<rparr>)"
  "ls_marks visual_session (ls_set_marks visual_session marks w) = Some marks"
  by (simp_all add: visual_session_def demo_session_def demo_local_def)

lemma visual_annotate:
  obtains art w1 where "local_mark_and_screenshot visual_session name w = (Inr (art, visual_marks), w1)" "\<exists>p. dget art ''path'' = PStr p"
proof -
  let ?win = "\<lambda>_ :: demo_world. demo_window demo_document"
  obtain ts where ts: "fst (overlay_script (demo_window demo_document)) = map (\<lambda>(i, t). target_mark (demo_window demo_document) t i) (enumerate 0 ts)"
    using overlay_script_marks [of "demo_window demo_document"] by metis
  obtain art w2 where put: "put_png visual_session ''png'' (png_name name) None w = (Inr art, w2)" using put_png_returns [of visual_session] by blast
  have "pg_screenshot (ls_page visual_session) False v = (Inr ''png'', v)" for v by (simp add: visual_page on_window_def demo_page_def)
  then have "\<exists>w1. local_mark_and_screenshot visual_session name w = (Inr (art, visual_marks), w1)"
    using put mark_page_on_window(1) [where win = ?win and w = w and draw = "\<lambda>_ w. w" and pg = "demo_page\<lparr>pg_mouse_click := (\<lambda>_ _. returnA ())\<rparr>", OF ts]
      mark_page_on_window(2) [where win = ?win and w = w, OF ts]
    by (simp add: local_mark_and_screenshot_def bindA_def visual_page(1) liftE_def returnA_def visual_marks_def)
  moreover have "\<exists>p. dget art ''path'' = PStr p" using put by (auto simp: put_png_def artifact_dict_def dget_def split: prod.splits)
  ultimately show ?thesis using that by blast
qed

lemma visual_tool_annotate:
  obtains ann art w1 p where "tool_annotate (d_session (visual_deps v)) name w = (ann, w1)" "tr_ok ann" "marks_of (tr_data ann) = visual_marks"
    "dget (tr_data ann) ''artifact'' = PDict art" "dget art ''path'' = PStr p"
    "\<And>i. 0 \<le> i \<Longrightarrow> i < 3 \<Longrightarrow> last_mark visual_session i w1 \<noteq> None"
proof -
  obtain art w1 where m: "local_mark_and_screenshot visual_session name w = (Inr (art, visual_marks), w1)" "\<exists>p. dget art ''path'' = PStr p"
    by (rule visual_annotate)
  have "length visual_marks = 3" by code_simp
  moreover obtain ts where vm: "visual_marks = map (\<lambda>(i, t). target_mark (demo_window demo_document) t i) (enumerate 0 ts)"
    and last: "\<And>i. last_mark visual_session i w1 = (if 0 \<le> i \<and> i < int (length ts) then Some (read_mark (ts ! nat i) (demo_window demo_document) (nat i)) else None)"
    using annotated_marks [OF visual_page m(1)] by metis
  moreover have "length visual_marks = length ts" by (subst vm) simp
  ultimately have "length ts = 3" by simp
  with last have "last_mark visual_session i w1 \<noteq> None" if "0 \<le> i" "i < 3" for i
    using that by simp
  then show ?thesis using that m
    by (auto simp: tool_annotate_def invoke_def map_act_def bindA_def visual_deps_def local_session_def marks_of_def dget_def py_or_def comp_def)
qed

lemma visual_click:
  assumes "last_mark visual_session i w \<noteq> None"
  shows "\<exists>r w'. tool_click_mark (d_session (visual_deps v)) i w = (r, w') \<and> tr_ok r"
  using assms by (auto simp: tool_click_mark_def invoke_def map_act_def visual_deps_def local_session_def local_click_mark_def
      visual_page on_window_def demo_page_def bindA_def tryA_def)

theorem visual_do_presses_visible_element_witness:
  "\<exists>r w'. act_visual_do (visual_deps None) 0 [(''resolved'', PDict [(''role'', PStr ''a'')])] (fs_empty, None)
        = (Inr (r, [(''resolved'', PDict [(''role'', PStr ''a'')])]), w') \<and> tr_ok r
     \<and> (\<exists>t\<in>set (page_targets (demo_window demo_document)). \<exists>i. case bx_place (target_box t i) of (x, y, wd, ht) \<Rightarrow>
          x + wd div 2 \<in> {x<..<x + wd} \<and> y + ht div 2 \<in> {y<..<y + ht})"
proof -
  let ?step = "[(''resolved'', PDict [(''role'', PStr ''a'')])]"
  obtain ann art w1 p where a: "tool_annotate (d_session (visual_deps None)) (step_name 0 @ ''_annotated'') (fs_empty, None) = (ann, w1)" "tr_ok ann"
    "marks_of (tr_data ann) = visual_marks" "\<And>i. 0 \<le> i \<Longrightarrow> i < 3 \<Longrightarrow> last_mark visual_session i w1 \<noteq> None"
    using visual_tool_annotate [of None "step_name 0 @ ''_annotated''" "(fs_empty, None)"] by metis
  have m: "match_descriptor (d_re (visual_deps None)) (dget ?step ''resolved'') (marks_of (tr_data ann)) = Inr (Some (visual_marks ! 1))"
    unfolding a(3) visual_fields by code_simp
  have i: "\<not> truthy (typed_text ?step)" "dget_or (visual_marks ! 1) ''mark_id'' (PInt (- 1)) = PInt 1" by code_simp+
  obtain r w' where c: "tool_click_mark (d_session (visual_deps None)) 1 w1 = (r, w')" "tr_ok r"
    using visual_click [OF a(4) [of 1], of None] by auto
  have run: "act_visual_do (visual_deps None) 0 ?step (fs_empty, None) = (Inr (r, ?step), w')"
    using act_on_mark_clicks [OF i c(1)] by (simp add: replayed_step [OF a(1,2) m] with_step_Inr)
  have read: "ls_marks visual_session (snd (d_read_image (visual_deps None) q w)) = ls_marks visual_session w" for q w
    by (simp add: visual_fields)
  have ask: "ls_marks visual_session (snd (v msgs schema w)) = ls_marks visual_session w" if "d_vision (visual_deps None) = Some v" for v msgs schema w
    using that by (simp add: visual_fields)
  obtain t i w2 w3 where "t \<in> set (page_targets (demo_window demo_document))"
    and "case bx_place (target_box t i) of (x, y, wd, ht) \<Rightarrow> x + wd div 2 \<in> {x<..<x + wd} \<and> y + ht div 2 \<in> {y<..<y + ht}
       \<and> pg_mouse_click (demo_page\<lparr>pg_mouse_click := (\<lambda>_ _. returnA ())\<rparr>) (x + wd div 2) (y + ht div 2) w2 = (Inr (), w3)"
    by (rule bexE [OF visual_do_presses_visible_element [OF visual_fields(3) visual_page _ _ run c(2)]], rule read, erule ask, elim exE conjE, rule that)
  with run c(2) show ?thesis by (intro exI [of _ r] exI [of _ w'] conjI bexI [of _ t] exI [of _ i]) (auto split: prod.splits)
qed

text \<open>
  C39: a resolved step replays without the model. A \<open>visual_do\<close> that succeeded acted on a mark of the page; the step it
  leaves behind acts on the same mark wherever annotating the page reports the same marks, with a vision model or
  without, provided that the mark matches the descriptor in the step; and the step is left as it is.
\<close>

theorem resolved_step_replays:
  assumes "act_visual_do d idx step w = (Inr (r, step'), w')" "tr_ok r" "dget step' ''resolved'' = PDict desc"
    and "tool_annotate (d_session d) (step_name idx @ ''_annotated'') w = (ann, w1)"
    and "tool_annotate (d_session e) (step_name n @ ''_annotated'') v = (again, v1)" "tr_ok again"
    and "marks_of (tr_data again) = marks_of (tr_data ann)" "d_re e = d_re d"
  shows "\<exists>m\<in>set (marks_of (tr_data ann)). (\<exists>w2. act_on_mark d (typed_text step) m w2 = (Inr r, w'))
    \<and> (step' = step \<or> (\<exists>hint. descriptor_for (d_re d) m (marks_of (tr_data ann)) hint = Inr desc))
    \<and> (mark_matches (d_re d) desc m = Inr True
       \<longrightarrow> act_visual_do e n step' v = with_step step' (act_on_mark e (typed_text step) m) v1)"
proof -
  let ?marks = "marks_of (tr_data ann)"
  from act_visual_do_cases [OF assms(1,2)] obtain ann' w1' m w2 where
    a: "tool_annotate (d_session d) (step_name idx @ ''_annotated'') w = (ann', w1')"
    and m: "m \<in> set (marks_of (tr_data ann'))" "act_on_mark d (typed_text step) m w2 = (Inr r, w')"
    and how: "(step' = step \<and> w2 = w1' \<and> match_descriptor (d_re d) (dget step ''resolved'') (marks_of (tr_data ann')) = Inr (Some m))
       \<or> (\<exists>vision intent art desc. d_vision d = Some vision \<and> vision_step d vision intent art (marks_of (tr_data ann')) w1' = (Inr (m, desc), w2)
            \<and> step' = dset step ''resolved'' (PDict desc))" .
  from a assms(4) have "ann' = ann" "w1' = w1" by simp_all
  note m = m [unfolded this] and how = how [unfolded this]
  have "match_descriptor (d_re d) (PDict desc) ?marks = Inr (Some m) \<and> typed_text step' = typed_text step"
    if match: "mark_matches (d_re d) desc m = Inr True"
    using how
  proof (elim disjE exE conjE)
    fix vision intent art found assume f: "vision_step d vision intent art ?marks w1 = (Inr (m, found), w2)" "step' = dset step ''resolved'' (PDict found)"
    then have "found = desc" using assms(3) by simp
    with vision_step_member(2) [OF f(1)] obtain hint where fr: "descriptor_for (d_re d) m ?marks hint = Inr desc" by auto
    then obtain h k where h: "hint_dict hint = Inr h" "desc = dset (base_descriptor m h) ''ordinal'' (PInt k)"
      by (auto simp: descriptor_for_def bindE_Inr Let_def)
    have "mark_matches (d_re d) (base_descriptor m h) m = mark_matches (d_re d) desc m"
      by (rule mark_matches_cong) (simp add: h(2))
    with match descriptor_replays_exactly [OF fr h(1) m(1)] f(2) show ?thesis by (simp add: typed_text_def)
  qed (use assms(3) in simp)
  moreover have "step' = step \<or> (\<exists>hint. descriptor_for (d_re d) m ?marks hint = Inr desc)"
    using how assms(3) by (auto dest: vision_step_member(2))
  ultimately show ?thesis using m assms(5-8) by (intro bexI [OF _ m(1)]) (auto simp: replayed_step assms(3))
qed

theorem resolved_step_replays_witness:
  "\<exists>r w' v1. act_visual_do (visual_deps (Some demo_vision)) 0 [] (fs_empty, None)
        = (Inr (r, [(''resolved'', PDict [(''role'', PStr ''a''), (''ordinal'', PInt 0)])]), w')
     \<and> act_visual_do (visual_deps None) 1 [(''resolved'', PDict [(''role'', PStr ''a''), (''ordinal'', PInt 0)])] (fs_empty, None)
        = with_step [(''resolved'', PDict [(''role'', PStr ''a''), (''ordinal'', PInt 0)])] (act_on_mark (visual_deps None) (typed_text []) (visual_marks ! 1)) v1"
proof -
  let ?d = "visual_deps (Some demo_vision)" and ?desc = "[(''role'', PStr ''a''), (''ordinal'', PInt 0)]"
  obtain ann art w1 p where a: "tool_annotate (d_session ?d) (step_name 0 @ ''_annotated'') (fs_empty, None) = (ann, w1)" "tr_ok ann"
    "marks_of (tr_data ann) = visual_marks" "dget (tr_data ann) ''artifact'' = PDict art" "dget art ''path'' = PStr p"
    "\<And>i. 0 \<le> i \<Longrightarrow> i < 3 \<Longrightarrow> last_mark visual_session i w1 \<noteq> None"
    using visual_tool_annotate [of "Some demo_vision" "step_name 0 @ ''_annotated''" "(fs_empty, None)"] by metis
  obtain ann2 v1 where b: "tool_annotate (d_session (visual_deps None)) (step_name 1 @ ''_annotated'') (fs_empty, None) = (ann2, v1)" "tr_ok ann2"
    "marks_of (tr_data ann2) = visual_marks"
    using visual_tool_annotate [of None "step_name 1 @ ''_annotated''" "(fs_empty, None)"] by metis
  have id: "dget_or (visual_marks ! 1) ''mark_id'' (PInt (- 1)) = PInt 1" "\<not> truthy (typed_text [])" by code_simp+
  have "vision_choice plain_search visual_marks (PDict [(''mark_id'', PInt 1), (''descriptor'', PDict [(''role'', PStr ''a'')])])
      = Inr (visual_marks ! 1, PDict [(''role'', PStr ''a'')])"
    "descriptor_for plain_search (visual_marks ! 1) visual_marks (PDict [(''role'', PStr ''a'')]) = Inr ?desc" by code_simp+
  then have vs: "vision_step ?d demo_vision (first_truthy [] [''intent'', ''target''] (PStr [])) art visual_marks w1 = (Inr (visual_marks ! 1, ?desc), w1)"
    by (simp add: vision_step_def vision_resolve_def bindA_def visual_fields demo_vision_def a(5) role_nonempty dget_def [of "[(''parsed'', _)]"])
  obtain r w' where c: "tool_click_mark (d_session ?d) 1 w1 = (r, w')" "tr_ok r" using visual_click [OF a(6) [of 1], of "Some demo_vision"] by auto
  have first: "act_visual_do ?d 0 [] (fs_empty, None) = (Inr (r, [(''resolved'', PDict ?desc)]), w')"
    using a vs act_on_mark_clicks [OF id(2,1) c(1)]
    by (simp add: act_visual_do_def Let_def visual_fields match_descriptor_def with_step_Inr typed_text_def dset_def dget_def [of "[]"])
  have "dget [(''resolved'', PDict ?desc)] ''resolved'' = PDict ?desc" by (simp add: dget_def)
  from resolved_step_replays [OF first c(2) this a(1) b(1,2)] obtain m hint where m: "m \<in> set visual_marks"
    "descriptor_for plain_search m visual_marks hint = Inr ?desc" and replay: "mark_matches plain_search ?desc m = Inr True \<longrightarrow> act_visual_do (visual_deps None) 1 [(''resolved'', PDict ?desc)] (fs_empty, None)
       = with_step [(''resolved'', PDict ?desc)] (act_on_mark (visual_deps None) (typed_text []) m) v1"
    by (auto simp: a(3) b(3) visual_fields)
  from m(2) obtain h k where d: "dset (base_descriptor m h) ''ordinal'' (PInt k) = ?desc" by (auto simp: descriptor_for_def bindE_Inr Let_def)
  have "dget ?desc ''role'' = py_or (dget m ''role'') (py_or (dget h ''role'') (PStr []))"
    unfolding d [symmetric] by (simp add: base_descriptor_role)
  moreover have "\<forall>x\<in>set visual_marks. x = visual_marks ! 1 \<or> dget x ''role'' = PStr ''button''" by code_simp
  ultimately have "m = visual_marks ! 1" using m(1) by (auto simp: dget_def py_or_def)
  moreover have "mark_matches plain_search ?desc (visual_marks ! 1) = Inr True" by code_simp
  ultimately show ?thesis using first replay by blast
qed

end
